(* ===== verification/Prelude.thy ===== *)
theory Prelude
  imports "HOL-Library.Word"
begin

section \<open>Prelude: machine types, bytes, and shared lemmas\<close>

text \<open>
  Names for the C integer types, the little-endian byte image of an integer (the packed structs of
  bridge/common are moved by \<open>memcpy\<close>, \<open>send\<close> and \<open>recv\<close>, so a struct is its bytes), and the
  list and word facts that several components use.  Out-of-range memory accesses of the C code are
  the value \<^theory_text>\<open>None\<close> of an option wherever a size is not fixed by construction.
\<close>

unbundle bit_operations_syntax

named_theorems codec_simps "definitions of the struct encoders and decoders"
named_theorems code_consts "numeric values of the C enumerators"

type_synonym u8 = "8 word"
type_synonym u16 = "16 word"
type_synonym u32 = "32 word"
type_synonym u64 = "64 word"
type_synonym bytes = "u8 list"

text \<open>Return codes of the C functions are \<^theory_text>\<open>int\<close>: 0 success, -1 error, and 1 where the
  code uses it for ``no data''.\<close>

type_synonym rc = int

text \<open>What a receive function hands back: the value (C returns 0 and fills the out parameter), no
  data yet (C returns 1), or an error (C returns a negative value).\<close>

datatype 'a recvd = Got 'a | Nothing | Failed

primrec recvd_rc :: "'a recvd \<Rightarrow> rc" where
  "recvd_rc (Got _) = 0"
| "recvd_rc Nothing = 1"
| "recvd_rc Failed = -1"

lemma recvd_rc_0 [simp]: "recvd_rc r = 0 \<longleftrightarrow> (\<exists>x. r = Got x)"
  by (cases r) auto

subsection \<open>Ranges\<close>

lemma unat_bound: "unat w < 2 ^ LENGTH('a)" for w :: "'a::len word"
  by (rule unsigned_less)

lemma unat_bounds:
  "unat (a :: u8) < 256" "unat (b :: u16) < 65536" "unat (c :: u32) < 4294967296"
  "unat (d :: u64) < 18446744073709551616"
  using unat_bound [of a] unat_bound [of b] unat_bound [of c] unat_bound [of d] by simp_all

subsection \<open>Little-endian bytes\<close>

fun le_bytes :: "nat \<Rightarrow> 'a::len word \<Rightarrow> bytes" where
  "le_bytes 0 w = []"
| "le_bytes (Suc n) w = ucast w # le_bytes n (drop_bit 8 w)"

fun le_nat :: "bytes \<Rightarrow> nat" where
  "le_nat [] = 0"
| "le_nat (b # bs) = unat b + 256 * le_nat bs"

definition le_word :: "bytes \<Rightarrow> 'a::len word" where
  "le_word bs = of_nat (le_nat bs)"

lemma length_le_bytes [simp]: "length (le_bytes n w) = n"
  by (induction n arbitrary: w) auto

lemma le_nat_bound: "le_nat bs < 256 ^ length bs"
proof (induction bs)
  case Nil
  then show ?case by simp
next
  case (Cons b bs)
  have "unat b < 256" using unat_bound [of b] by simp
  moreover have "le_nat bs + 1 \<le> 256 ^ length bs" using Cons.IH by simp
  then have "256 * (le_nat bs + 1) \<le> 256 * 256 ^ length bs" by (rule mult_le_mono2)
  ultimately show ?case by simp
qed

lemma unat_drop_bit_8: "unat (drop_bit 8 w) = unat w div 256"
  by (simp only: unat_drop_bit_eq) (simp add: drop_bit_eq_div)

lemma unat_low_byte: "unat (ucast w :: u8) = unat w mod 256"
  by (simp add: unsigned_ucast_eq take_bit_eq_mod)

lemma le_nat_le_bytes: "le_nat (le_bytes n w) = unat w mod 256 ^ n"
proof (induction n arbitrary: w)
  case 0
  then show ?case by simp
next
  case (Suc n)
  have "le_nat (le_bytes (Suc n) w) = unat w mod 256 + 256 * (unat w div 256 mod 256 ^ n)"
    by (simp add: Suc.IH unat_drop_bit_8 unat_low_byte)
  also have "\<dots> = unat w mod (256 * 256 ^ n)"
    by (simp add: mod_mult2_eq)
  finally show ?case by simp
qed

lemma le_word_le_bytes:
  fixes w :: "'a::len word"
  assumes "LENGTH('a) \<le> 8 * n"
  shows "le_word (le_bytes n w) = w"
proof -
  have "(2::nat) ^ LENGTH('a) \<le> 2 ^ (8 * n)" using assms by simp
  also have "\<dots> = 256 ^ n" by (simp add: power_mult)
  finally have "unat w < 256 ^ n" using unat_bound [of w] by (meson order_less_le_trans)
  then show ?thesis by (simp add: le_word_def le_nat_le_bytes)
qed

declare le_bytes.simps [simp del]

lemma le_word_bytes_16 [simp]: "le_word (le_bytes 2 (w :: u16)) = w"
  by (rule le_word_le_bytes) simp

lemma le_word_bytes_32 [simp]: "le_word (le_bytes 4 (w :: u32)) = w"
  by (rule le_word_le_bytes) simp

lemma le_word_bytes_64 [simp]: "le_word (le_bytes 8 (w :: u64)) = w"
  by (rule le_word_le_bytes) simp

text \<open>Converse: the bytes of a decoded integer are the bytes it was decoded from.\<close>

lemma digit_inject:
  fixes a b x y :: nat
  assumes "a + 256 * x = b + 256 * y" and "a < 256" and "b < 256"
  shows "a = b \<and> x = y"
proof -
  have "(a + 256 * x) mod 256 = (b + 256 * y) mod 256" using assms(1) by simp
  then have "a = b" using assms(2,3) by simp
  then show ?thesis using assms(1) by simp
qed

lemma le_bytes_inject:
  "length bs = length cs \<Longrightarrow> le_nat bs = le_nat cs \<Longrightarrow> bs = cs"
proof (induction bs cs rule: list_induct2)
  case Nil
  then show ?case by simp
next
  case (Cons b bs c cs)
  have bound: "unat b < 256" "unat c < 256"
    using unat_bound [of b] unat_bound [of c] by simp_all
  have "unat b + 256 * le_nat bs = unat c + 256 * le_nat cs" using Cons.prems by simp
  with digit_inject bound have "unat b = unat c \<and> le_nat bs = le_nat cs" by blast
  with Cons.IH show ?case by (simp add: word_unat_eq_iff)
qed

lemma le_bytes_le_word:
  assumes "length bs = n" and "8 * n \<le> LENGTH('a::len)"
  shows "le_bytes n (le_word bs :: 'a word) = bs"
proof (rule le_bytes_inject)
  show "length (le_bytes n (le_word bs :: 'a word)) = length bs" using assms by simp
  have b: "le_nat bs < 256 ^ n" using le_nat_bound [of bs] assms by simp
  have "(256::nat) ^ n = 2 ^ (8 * n)" by (simp add: power_mult)
  also have "\<dots> \<le> 2 ^ LENGTH('a)" using assms by simp
  finally have "le_nat bs < 2 ^ LENGTH('a)" using b by simp
  then show "le_nat (le_bytes n (le_word bs :: 'a word)) = le_nat bs"
    using b by (simp add: le_nat_le_bytes le_word_def unat_of_nat)
qed

subsection \<open>Fields of a packed struct\<close>

text \<open>\<open>field off n bs\<close> are the \<open>n\<close> bytes of \<open>bs\<close> at offset \<open>off\<close>.\<close>

definition field :: "nat \<Rightarrow> nat \<Rightarrow> bytes \<Rightarrow> bytes" where
  "field off n bs = take n (drop off bs)"

lemma field_append_right [simp]:
  "length xs \<le> off \<Longrightarrow> field off n (xs @ ys) = field (off - length xs) n ys"
  by (simp add: field_def)

lemma field_Cons [simp]: "0 < off \<Longrightarrow> field off n (x # xs) = field (off - 1) n xs"
  by (simp add: field_def drop_Cons')

lemma field_append_here [simp]: "length xs = n \<Longrightarrow> field 0 n (xs @ ys) = xs"
  by (simp add: field_def)

lemma field_all [simp]: "length xs = n \<Longrightarrow> field 0 n xs = xs"
  by (simp add: field_def)

lemma length_concat_map_const:
  "(\<And>x. x \<in> set xs \<Longrightarrow> length (f x) = k) \<Longrightarrow> length (concat (map f xs)) = k * length xs"
  by (induction xs) auto

lemma field_concat_map:
  assumes "\<And>x. x \<in> set xs \<Longrightarrow> length (f x) = k" and "i < length xs"
  shows "field (k * i) k (concat (map f xs)) = f (xs ! i)"
  using assms
proof (induction xs arbitrary: i)
  case Nil
  then show ?case by simp
next
  case (Cons x xs)
  show ?case
  proof (cases i)
    case 0
    then show ?thesis using Cons.prems by simp
  next
    case (Suc j)
    then have "field (k * j) k (concat (map f xs)) = f (xs ! j)"
      using Cons.prems by (intro Cons.IH) auto
    then show ?thesis using Suc Cons.prems by simp
  qed
qed

lemma map_nth_field:
  assumes "\<And>x. x \<in> set xs \<Longrightarrow> length (f x) = k" and "\<And>x. x \<in> set xs \<Longrightarrow> g (f x) = x" and "length xs = n"
  shows "map (\<lambda>i. g (field (k * i) k (concat (map f xs)))) [0..<n] = xs"
  using assms by (intro nth_equalityI) (auto simp: field_concat_map)

subsection \<open>Byte arrays\<close>

text \<open>\<open>blit off xs mem\<close>: \<open>memcpy(mem + off, xs, length xs)\<close>, for a destination that fits.\<close>

definition blit :: "nat \<Rightarrow> 'a list \<Rightarrow> 'a list \<Rightarrow> 'a list" where
  "blit off xs mem = take off mem @ xs @ drop (off + length xs) mem"

lemma length_blit [simp]:
  "off + length xs \<le> length mem \<Longrightarrow> length (blit off xs mem) = length mem"
  by (simp add: blit_def)

lemma take_drop_blit_same:
  "off + length xs \<le> length mem \<Longrightarrow> length xs = n \<Longrightarrow> take n (drop off (blit off xs mem)) = xs"
  by (simp add: blit_def)

lemma take_drop_blit_other:
  assumes "off + length xs \<le> length mem" and "o' + n \<le> off \<or> off + length xs \<le> o'"
  shows "take n (drop o' (blit off xs mem)) = take n (drop o' mem)"
  using assms(2)
proof
  assume "o' + n \<le> off"
  then have "n \<le> off - o'" "n \<le> length mem - o'" using assms(1) by simp_all
  then show ?thesis by (simp add: blit_def drop_take min_def)
next
  assume "off + length xs \<le> o'"
  then show ?thesis using assms(1) by (simp add: blit_def min_def)
qed

lemma blit_0_all [simp]: "length xs = length mem \<Longrightarrow> blit 0 xs mem = xs"
  by (simp add: blit_def)

lemma blit_0_drop [simp]: "length xs \<le> length mem \<Longrightarrow> blit 0 xs mem = xs @ drop (length xs) mem"
  by (simp add: blit_def)

subsection \<open>Option and list\<close>

lemma option_bind_SomeD: "Option.bind m f = Some y \<Longrightarrow> \<exists>x. m = Some x \<and> f x = Some y"
  by (cases m) auto

lemma upt_append_Suc: "a \<le> b \<Longrightarrow> [a..<Suc b] = [a..<b] @ [b]"
  by simp

subsection \<open>Words\<close>

lemma and_mask_literals:
  fixes w :: "'a::len word"
  shows "w AND 0x1F = take_bit 5 w" "w AND 0xFF = take_bit 8 w" "w AND 0x3FF = take_bit 10 w"
    "w AND 0xFFFF = take_bit 16 w" "w AND 3 = take_bit 2 w"
  by (simp_all add: take_bit_eq_mask mask_eq_exp_minus_1)

lemma unat_plus_1_if:
  fixes w :: "'a::len word"
  assumes "unat w + 1 < 2 ^ LENGTH('a)"
  shows "unat (w + 1) = unat w + 1"
  using assms by (simp add: unat_word_ariths)

lemma unat_add_no_wrap:
  fixes a b :: "'a::len word"
  assumes "unat a + unat b < 2 ^ LENGTH('a)"
  shows "unat (a + b) = unat a + unat b"
  using assms by (simp add: unat_word_ariths)

lemma unat_mult_no_wrap:
  fixes a b :: "'a::len word"
  assumes "unat a * unat b < 2 ^ LENGTH('a)"
  shows "unat (a * b) = unat a * unat b"
  using assms by (simp add: unat_word_ariths)

text \<open>A list of operations that may fail, run in order until one does.\<close>

fun fold_opt :: "('a \<Rightarrow> 's \<Rightarrow> 's option) \<Rightarrow> 'a list \<Rightarrow> 's \<Rightarrow> 's option" where
  "fold_opt f [] s = Some s"
| "fold_opt f (x # xs) s = (case f x s of None \<Rightarrow> None | Some s1 \<Rightarrow> fold_opt f xs s1)"

lemma fold_opt_total: "(\<And>x s. x \<in> set xs \<Longrightarrow> f x s = Some (g x s)) \<Longrightarrow> fold_opt f xs s = Some (fold g xs s)"
  by (induction xs arbitrary: s) auto

end
