(* ===== verification/Cosim_Types.thy ===== *)
theory Cosim_Types
  imports Prelude
begin

section \<open>Wire types: cosim\_types.h, cosim\_topology.h, eth\_types.h\<close>

text \<open>
  The messages the two simulators exchange.  Every struct is a record with the fields of the C
  struct, padding included; \<open>enc_x\<close> is its byte image (packed, little endian), \<open>dec_x\<close> reads one
  back, and \<open>wf_x\<close> says that its array fields have the declared length.
\<close>

subsection \<open>Enumerations\<close>

datatype tlp_type =
    TLP_MWR | TLP_MRD | TLP_CFGWR0 | TLP_CFGRD0 | TLP_CPL | TLP_CFGWR1 | TLP_CFGRD1
  | TLP_IORD | TLP_IOWR | TLP_CPLD | TLP_MSG | TLP_ATOMIC_FETCHADD | TLP_ATOMIC_SWAP
  | TLP_ATOMIC_CAS | TLP_VENDOR_MSG | TLP_LTR | TLP_MRD_LK

primrec tlp_code :: "tlp_type \<Rightarrow> u8" where
  "tlp_code TLP_MWR = 0"
| "tlp_code TLP_MRD = 1"
| "tlp_code TLP_CFGWR0 = 2"
| "tlp_code TLP_CFGRD0 = 3"
| "tlp_code TLP_CPL = 4"
| "tlp_code TLP_CFGWR1 = 5"
| "tlp_code TLP_CFGRD1 = 6"
| "tlp_code TLP_IORD = 7"
| "tlp_code TLP_IOWR = 8"
| "tlp_code TLP_CPLD = 9"
| "tlp_code TLP_MSG = 10"
| "tlp_code TLP_ATOMIC_FETCHADD = 11"
| "tlp_code TLP_ATOMIC_SWAP = 12"
| "tlp_code TLP_ATOMIC_CAS = 13"
| "tlp_code TLP_VENDOR_MSG = 14"
| "tlp_code TLP_LTR = 15"
| "tlp_code TLP_MRD_LK = 16"

datatype cosim_mode = COSIM_MODE_FAST | COSIM_MODE_PRECISE

primrec mode_code :: "cosim_mode \<Rightarrow> u32" where
  "mode_code COSIM_MODE_FAST = 0"
| "mode_code COSIM_MODE_PRECISE = 1"

datatype sync_msg_type =
    SYNC_MSG_TLP_READY | SYNC_MSG_CPL_READY | SYNC_MSG_MODE_SWITCH | SYNC_MSG_SHUTDOWN
  | SYNC_MSG_DMA_REQ | SYNC_MSG_DMA_CPL | SYNC_MSG_MSI | SYNC_MSG_CLOCK_STEP
  | SYNC_MSG_CLOCK_ACK | SYNC_MSG_QUERY_TOPOLOGY | SYNC_MSG_TOPOLOGY_RESP | SYNC_MSG_VF_EVENT

primrec sync_code :: "sync_msg_type \<Rightarrow> u32" where
  "sync_code SYNC_MSG_TLP_READY = 0"
| "sync_code SYNC_MSG_CPL_READY = 1"
| "sync_code SYNC_MSG_MODE_SWITCH = 2"
| "sync_code SYNC_MSG_SHUTDOWN = 3"
| "sync_code SYNC_MSG_DMA_REQ = 4"
| "sync_code SYNC_MSG_DMA_CPL = 5"
| "sync_code SYNC_MSG_MSI = 6"
| "sync_code SYNC_MSG_CLOCK_STEP = 7"
| "sync_code SYNC_MSG_CLOCK_ACK = 8"
| "sync_code SYNC_MSG_QUERY_TOPOLOGY = 0x10"
| "sync_code SYNC_MSG_TOPOLOGY_RESP = 0x11"
| "sync_code SYNC_MSG_VF_EVENT = 0x12"

lemma sync_code_inject [simp]: "sync_code a = sync_code b \<longleftrightarrow> a = b"
  by (cases a; cases b) simp_all

lemma tlp_code_inject [simp]: "tlp_code a = tlp_code b \<longleftrightarrow> a = b"
  by (cases a; cases b) simp_all

text \<open>The known message types, ordered by their wire code.\<close>

instantiation sync_msg_type :: linorder
begin

definition less_eq_sync_msg_type :: "sync_msg_type \<Rightarrow> sync_msg_type \<Rightarrow> bool" where
  "less_eq_sync_msg_type a b \<longleftrightarrow> sync_code a \<le> sync_code b"

definition less_sync_msg_type :: "sync_msg_type \<Rightarrow> sync_msg_type \<Rightarrow> bool" where
  "less_sync_msg_type a b \<longleftrightarrow> sync_code a < sync_code b"

instance
  by standard (auto simp: less_eq_sync_msg_type_def less_sync_msg_type_def order.strict_iff_order)

end

subsection \<open>Sync messages\<close>

record sync_msg =
  sm_type :: u32
  sm_payload :: u32

definition sync_of :: "sync_msg_type \<Rightarrow> u32 \<Rightarrow> sync_msg" where
  "sync_of ty p = \<lparr>sm_type = sync_code ty, sm_payload = p\<rparr>"

lemma sm_sync_of [simp]:
  "sm_type (sync_of ty p) = sync_code ty" "sm_payload (sync_of ty p) = p"
  by (simp_all add: sync_of_def)

definition enc_sync :: "sync_msg \<Rightarrow> bytes" where
  [codec_simps]: "enc_sync m = le_bytes 4 (sm_type m) @ le_bytes 4 (sm_payload m)"

definition dec_sync :: "bytes \<Rightarrow> sync_msg" where
  [codec_simps]: "dec_sync bs = \<lparr>sm_type = le_word (field 0 4 bs), sm_payload = le_word (field 4 4 bs)\<rparr>"

lemma length_enc_sync [simp]: "length (enc_sync m) = 8"
  by (simp add: codec_simps)

lemma dec_enc_sync [simp]: "dec_sync (enc_sync m) = m"
  by (simp add: codec_simps)

subsection \<open>Transaction layer packets\<close>

definition COSIM_TLP_DATA_SIZE :: nat where
  [code_consts]: "COSIM_TLP_DATA_SIZE = 64"

record tlp_entry =
  t_type :: u8
  t_pad_type :: u8
  t_tag :: u16
  t_len :: u16
  t_msg_code :: u8
  t_atomic_op_size :: u8
  t_vendor_id :: u16
  t_requester_id :: u16
  t_target_bdf :: u16
  t_pad_bdf :: u16
  t_addr :: u64
  t_data :: bytes
  t_dma_offset :: u64
  t_timestamp :: u64
  t_first_be :: u8
  t_last_be :: u8
  t_reserved :: bytes

definition wf_tlp :: "tlp_entry \<Rightarrow> bool" where
  "wf_tlp t \<longleftrightarrow> length (t_data t) = 64 \<and> length (t_reserved t) = 6"

text \<open>\<open>tlp_entry_t req = {0}\<close>\<close>

definition tlp_zero :: tlp_entry where
  "tlp_zero = \<lparr>t_type = 0, t_pad_type = 0, t_tag = 0, t_len = 0, t_msg_code = 0,
     t_atomic_op_size = 0, t_vendor_id = 0, t_requester_id = 0, t_target_bdf = 0, t_pad_bdf = 0,
     t_addr = 0, t_data = replicate 64 0, t_dma_offset = 0, t_timestamp = 0, t_first_be = 0,
     t_last_be = 0, t_reserved = replicate 6 0\<rparr>"

definition enc_tlp :: "tlp_entry \<Rightarrow> bytes" where
  [codec_simps]: "enc_tlp t = [t_type t] @ [t_pad_type t] @ le_bytes 2 (t_tag t) @ le_bytes 2 (t_len t)
     @ [t_msg_code t] @ [t_atomic_op_size t] @ le_bytes 2 (t_vendor_id t)
     @ le_bytes 2 (t_requester_id t) @ le_bytes 2 (t_target_bdf t) @ le_bytes 2 (t_pad_bdf t)
     @ le_bytes 8 (t_addr t) @ t_data t @ le_bytes 8 (t_dma_offset t) @ le_bytes 8 (t_timestamp t)
     @ [t_first_be t] @ [t_last_be t] @ t_reserved t"

definition dec_tlp :: "bytes \<Rightarrow> tlp_entry" where
  [codec_simps]: "dec_tlp bs = \<lparr>t_type = bs ! 0, t_pad_type = bs ! 1, t_tag = le_word (field 2 2 bs),
     t_len = le_word (field 4 2 bs), t_msg_code = bs ! 6, t_atomic_op_size = bs ! 7,
     t_vendor_id = le_word (field 8 2 bs), t_requester_id = le_word (field 10 2 bs),
     t_target_bdf = le_word (field 12 2 bs), t_pad_bdf = le_word (field 14 2 bs),
     t_addr = le_word (field 16 8 bs), t_data = field 24 64 bs,
     t_dma_offset = le_word (field 88 8 bs), t_timestamp = le_word (field 96 8 bs),
     t_first_be = bs ! 104, t_last_be = bs ! 105, t_reserved = field 106 6 bs\<rparr>"

text \<open>The static assertion \<open>sizeof(tlp_entry_t) == 112\<close>, and the round trip.\<close>

lemma length_enc_tlp [simp]: "wf_tlp t \<Longrightarrow> length (enc_tlp t) = 112"
  by (simp add: codec_simps wf_tlp_def)

lemma dec_enc_tlp [simp]: "wf_tlp t \<Longrightarrow> dec_tlp (enc_tlp t) = t"
  by (simp add: codec_simps wf_tlp_def nth_append)

lemma wf_dec_tlp [simp]: "length bs = 112 \<Longrightarrow> wf_tlp (dec_tlp bs)"
  by (simp add: wf_tlp_def dec_tlp_def field_def)

lemma wf_tlp_zero [simp]: "wf_tlp tlp_zero"
  by (simp add: wf_tlp_def tlp_zero_def)

record cpl_entry =
  c_type :: u8
  c_status :: u8
  c_tag :: u16
  c_requester_id :: u16
  c_completer_id :: u16
  c_len :: u32
  c_data :: bytes
  c_timestamp :: u64

definition wf_cpl :: "cpl_entry \<Rightarrow> bool" where
  "wf_cpl c \<longleftrightarrow> length (c_data c) = 64"

definition cpl_zero :: cpl_entry where
  "cpl_zero = \<lparr>c_type = 0, c_status = 0, c_tag = 0, c_requester_id = 0, c_completer_id = 0,
     c_len = 0, c_data = replicate 64 0, c_timestamp = 0\<rparr>"

definition enc_cpl :: "cpl_entry \<Rightarrow> bytes" where
  [codec_simps]: "enc_cpl c = [c_type c] @ [c_status c] @ le_bytes 2 (c_tag c)
     @ le_bytes 2 (c_requester_id c) @ le_bytes 2 (c_completer_id c) @ le_bytes 4 (c_len c)
     @ c_data c @ le_bytes 8 (c_timestamp c)"

definition dec_cpl :: "bytes \<Rightarrow> cpl_entry" where
  [codec_simps]: "dec_cpl bs = \<lparr>c_type = bs ! 0, c_status = bs ! 1, c_tag = le_word (field 2 2 bs),
     c_requester_id = le_word (field 4 2 bs), c_completer_id = le_word (field 6 2 bs),
     c_len = le_word (field 8 4 bs), c_data = field 12 64 bs, c_timestamp = le_word (field 76 8 bs)\<rparr>"

lemma length_enc_cpl [simp]: "wf_cpl c \<Longrightarrow> length (enc_cpl c) = 84"
  by (simp add: codec_simps wf_cpl_def)

lemma dec_enc_cpl [simp]: "wf_cpl c \<Longrightarrow> dec_cpl (enc_cpl c) = c"
  by (simp add: codec_simps wf_cpl_def nth_append)

lemma wf_dec_cpl [simp]: "length bs = 84 \<Longrightarrow> wf_cpl (dec_cpl bs)"
  by (simp add: wf_cpl_def dec_cpl_def field_def)

subsection \<open>DMA requests and completions, MSI events\<close>

definition DMA_DIR_READ :: u32 where
  [code_consts]: "DMA_DIR_READ = 0"

definition DMA_DIR_WRITE :: u32 where
  [code_consts]: "DMA_DIR_WRITE = 1"

record dma_req =
  r_requester_id :: u16
  r_pad_rid :: u16
  r_tag :: u32
  r_direction :: u32
  r_host_addr :: u64
  r_len :: u32
  r_dma_offset :: u32
  r_timestamp :: u32

definition enc_dma_req :: "dma_req \<Rightarrow> bytes" where
  [codec_simps]: "enc_dma_req r = le_bytes 2 (r_requester_id r) @ le_bytes 2 (r_pad_rid r)
     @ le_bytes 4 (r_tag r) @ le_bytes 4 (r_direction r) @ le_bytes 8 (r_host_addr r)
     @ le_bytes 4 (r_len r) @ le_bytes 4 (r_dma_offset r) @ le_bytes 4 (r_timestamp r)"

definition dec_dma_req :: "bytes \<Rightarrow> dma_req" where
  [codec_simps]: "dec_dma_req bs = \<lparr>r_requester_id = le_word (field 0 2 bs), r_pad_rid = le_word (field 2 2 bs),
     r_tag = le_word (field 4 4 bs), r_direction = le_word (field 8 4 bs),
     r_host_addr = le_word (field 12 8 bs), r_len = le_word (field 20 4 bs),
     r_dma_offset = le_word (field 24 4 bs), r_timestamp = le_word (field 28 4 bs)\<rparr>"

lemma length_enc_dma_req [simp]: "length (enc_dma_req r) = 32"
  by (simp add: codec_simps)

lemma dec_enc_dma_req [simp]: "dec_dma_req (enc_dma_req r) = r"
  by (simp add: codec_simps)

record dma_cpl =
  d_tag :: u32
  d_status :: u32
  d_timestamp :: u64

definition enc_dma_cpl :: "dma_cpl \<Rightarrow> bytes" where
  [codec_simps]: "enc_dma_cpl d = le_bytes 4 (d_tag d) @ le_bytes 4 (d_status d) @ le_bytes 8 (d_timestamp d)"

definition dec_dma_cpl :: "bytes \<Rightarrow> dma_cpl" where
  [codec_simps]: "dec_dma_cpl bs = \<lparr>d_tag = le_word (field 0 4 bs), d_status = le_word (field 4 4 bs),
     d_timestamp = le_word (field 8 8 bs)\<rparr>"

lemma length_enc_dma_cpl [simp]: "length (enc_dma_cpl d) = 16"
  by (simp add: codec_simps)

lemma dec_enc_dma_cpl [simp]: "dec_dma_cpl (enc_dma_cpl d) = d"
  by (simp add: codec_simps)

record msi_event =
  m_requester_id :: u16
  m_vector :: u16
  m_pad0 :: u32
  m_timestamp :: u64

definition enc_msi :: "msi_event \<Rightarrow> bytes" where
  [codec_simps]: "enc_msi m = le_bytes 2 (m_requester_id m) @ le_bytes 2 (m_vector m)
     @ le_bytes 4 (m_pad0 m) @ le_bytes 8 (m_timestamp m)"

definition dec_msi :: "bytes \<Rightarrow> msi_event" where
  [codec_simps]: "dec_msi bs = \<lparr>m_requester_id = le_word (field 0 2 bs), m_vector = le_word (field 2 2 bs),
     m_pad0 = le_word (field 4 4 bs), m_timestamp = le_word (field 8 8 bs)\<rparr>"

lemma length_enc_msi [simp]: "length (enc_msi m) = 16"
  by (simp add: codec_simps)

lemma dec_enc_msi [simp]: "dec_msi (enc_msi m) = m"
  by (simp add: codec_simps)

end
