(* ===== verification/Cosim_Topology.thy ===== *)
theory Cosim_Topology
  imports Cosim_Types
begin

section \<open>Topology: cosim\_topology.h\<close>

text \<open>The PF/VF topology the VCS side publishes and the SR-IOV enable and disable events, with their
  byte images (4, 112 and 900 bytes) and the packing of a VF event into a 32-bit sync payload.\<close>

definition COSIM_MAX_PFS :: nat where
  [code_consts]: "COSIM_MAX_PFS = 8"

definition COSIM_MAX_BARS :: nat where
  [code_consts]: "COSIM_MAX_BARS = 6"

record topology_header =
  th_num_pfs :: u8
  th_tag_width :: u8
  th_pad :: bytes

record pf_topology =
  pf_bdf :: u16
  pf_num_vfs :: u16
  pf_vf_device_id :: u16
  pf_vendor_id :: u16
  pf_device_id :: u16
  pf_msix_vectors :: u16
  pf_vf_msix_vectors :: u16
  pf_pad :: u16
  pf_bar_size :: "u64 list"
  pf_vf_bar_size :: "u64 list"

record topology_resp =
  tp_header :: topology_header
  tp_pfs :: "pf_topology list"

definition wf_pf :: "pf_topology \<Rightarrow> bool" where
  "wf_pf p \<longleftrightarrow> length (pf_bar_size p) = 6 \<and> length (pf_vf_bar_size p) = 6"

definition wf_topology :: "topology_resp \<Rightarrow> bool" where
  "wf_topology t \<longleftrightarrow> length (th_pad (tp_header t)) = 2 \<and> length (tp_pfs t) = 8 \<and> (\<forall>p\<in>set (tp_pfs t). wf_pf p)"

definition pf_zero :: pf_topology where
  "pf_zero = \<lparr>pf_bdf = 0, pf_num_vfs = 0, pf_vf_device_id = 0, pf_vendor_id = 0, pf_device_id = 0,
     pf_msix_vectors = 0, pf_vf_msix_vectors = 0, pf_pad = 0, pf_bar_size = replicate 6 0,
     pf_vf_bar_size = replicate 6 0\<rparr>"

definition topology_zero :: topology_resp where
  "topology_zero = \<lparr>tp_header = \<lparr>th_num_pfs = 0, th_tag_width = 0, th_pad = [0, 0]\<rparr>,
     tp_pfs = replicate 8 pf_zero\<rparr>"

lemma wf_pf_zero [simp]: "wf_pf pf_zero"
  by (simp add: wf_pf_def pf_zero_def)

lemma wf_topology_zero [simp]: "wf_topology topology_zero"
  by (simp add: wf_topology_def topology_zero_def)

definition enc_pf :: "pf_topology \<Rightarrow> bytes" where
  "enc_pf p = le_bytes 2 (pf_bdf p) @ le_bytes 2 (pf_num_vfs p) @ le_bytes 2 (pf_vf_device_id p)
     @ le_bytes 2 (pf_vendor_id p) @ le_bytes 2 (pf_device_id p) @ le_bytes 2 (pf_msix_vectors p)
     @ le_bytes 2 (pf_vf_msix_vectors p) @ le_bytes 2 (pf_pad p)
     @ concat (map (le_bytes 8) (pf_bar_size p)) @ concat (map (le_bytes 8) (pf_vf_bar_size p))"

definition dec_bars :: "bytes \<Rightarrow> u64 list" where
  "dec_bars bs = map (\<lambda>i. le_word (field (8 * i) 8 bs)) [0..<6]"

definition dec_pf :: "bytes \<Rightarrow> pf_topology" where
  "dec_pf bs = \<lparr>pf_bdf = le_word (field 0 2 bs), pf_num_vfs = le_word (field 2 2 bs),
     pf_vf_device_id = le_word (field 4 2 bs), pf_vendor_id = le_word (field 6 2 bs),
     pf_device_id = le_word (field 8 2 bs), pf_msix_vectors = le_word (field 10 2 bs),
     pf_vf_msix_vectors = le_word (field 12 2 bs), pf_pad = le_word (field 14 2 bs),
     pf_bar_size = dec_bars (field 16 48 bs), pf_vf_bar_size = dec_bars (field 64 48 bs)\<rparr>"

definition enc_topology :: "topology_resp \<Rightarrow> bytes" where
  "enc_topology t = [th_num_pfs (tp_header t)] @ [th_tag_width (tp_header t)] @ th_pad (tp_header t)
     @ concat (map enc_pf (tp_pfs t))"

definition dec_topology :: "bytes \<Rightarrow> topology_resp" where
  "dec_topology bs = \<lparr>tp_header = \<lparr>th_num_pfs = bs ! 0, th_tag_width = bs ! 1, th_pad = field 2 2 bs\<rparr>,
     tp_pfs = map (\<lambda>i. dec_pf (field (112 * i) 112 (field 4 896 bs))) [0..<8]\<rparr>"

lemma length_enc_bars [simp]: "length (concat (map (le_bytes 8) (ws :: u64 list))) = 8 * length ws"
  by (simp add: length_concat_map_const)

lemma dec_enc_bars [simp]: "length ws = 6 \<Longrightarrow> dec_bars (concat (map (le_bytes 8) ws)) = ws"
  unfolding dec_bars_def by (rule map_nth_field) simp_all

lemma length_enc_pf [simp]: "wf_pf p \<Longrightarrow> length (enc_pf p) = 112"
  by (simp add: enc_pf_def wf_pf_def del: length_concat)

lemma dec_enc_pf [simp]: "wf_pf p \<Longrightarrow> dec_pf (enc_pf p) = p"
  by (simp add: enc_pf_def dec_pf_def wf_pf_def del: length_concat)

lemma length_enc_pfs: "\<forall>p\<in>set ps. wf_pf p \<Longrightarrow> length (concat (map enc_pf ps)) = 112 * length ps"
  by (rule length_concat_map_const) simp

lemma length_enc_topology [simp]: "wf_topology t \<Longrightarrow> length (enc_topology t) = 900"
  by (simp add: enc_topology_def wf_topology_def length_enc_pfs del: length_concat)

lemma dec_enc_topology [simp]:
  assumes "wf_topology t"
  shows "dec_topology (enc_topology t) = t"
proof -
  from assms have pad: "length (th_pad (tp_header t)) = 2"
    and len: "length (tp_pfs t) = 8" and wf: "\<forall>p\<in>set (tp_pfs t). wf_pf p"
    by (simp_all add: wf_topology_def)
  have total: "length (concat (map enc_pf (tp_pfs t))) = 896"
    using len wf by (simp add: length_enc_pfs del: length_concat)
  have "map (\<lambda>i. dec_pf (field (112 * i) 112 (concat (map enc_pf (tp_pfs t))))) [0..<8] = tp_pfs t"
    by (rule map_nth_field) (use wf len in simp_all)
  moreover have "field 4 896 (enc_topology t) = concat (map enc_pf (tp_pfs t))"
    using pad total by (simp add: enc_topology_def del: length_concat)
  moreover have "field 2 2 (enc_topology t) = th_pad (tp_header t)"
    using pad by (simp add: enc_topology_def)
  ultimately show ?thesis
    by (simp add: dec_topology_def) (simp add: enc_topology_def)
qed

subsection \<open>VF events\<close>

definition VF_EVENT_ENABLE :: u8 where
  [code_consts]: "VF_EVENT_ENABLE = 0"

definition VF_EVENT_DISABLE :: u8 where
  [code_consts]: "VF_EVENT_DISABLE = 1"

record vf_event =
  v_event_type :: u8
  v_pf_index :: u8
  v_num_vfs :: u16

definition vf_event_zero :: vf_event where
  "vf_event_zero = \<lparr>v_event_type = 0, v_pf_index = 0, v_num_vfs = 0\<rparr>"

definition enc_vf_event :: "vf_event \<Rightarrow> bytes" where
  "enc_vf_event e = [v_event_type e] @ [v_pf_index e] @ le_bytes 2 (v_num_vfs e)"

definition dec_vf_event :: "bytes \<Rightarrow> vf_event" where
  "dec_vf_event bs = \<lparr>v_event_type = bs ! 0, v_pf_index = bs ! 1, v_num_vfs = le_word (field 2 2 bs)\<rparr>"

lemma length_enc_vf_event [simp]: "length (enc_vf_event e) = 4"
  by (simp add: enc_vf_event_def)

lemma dec_enc_vf_event [simp]: "dec_vf_event (enc_vf_event e) = e"
  by (simp add: enc_vf_event_def dec_vf_event_def)

text \<open>\<open>bridge_send_vf_event\<close> packs an event into the sync payload; the poll loop of bridge\_vcs.c
  unpacks it.\<close>

definition vf_event_payload :: "vf_event \<Rightarrow> u32" where
  "vf_event_payload e = ucast (v_event_type e) OR push_bit 8 (ucast (v_pf_index e))
     OR push_bit 16 (ucast (v_num_vfs e))"

definition vf_event_of_payload :: "u32 \<Rightarrow> vf_event" where
  "vf_event_of_payload p = \<lparr>v_event_type = ucast (p AND 0xFF), v_pf_index = ucast (drop_bit 8 p AND 0xFF),
     v_num_vfs = ucast (drop_bit 16 p AND 0xFFFF)\<rparr>"

lemma vf_event_of_payload_payload [simp]: "vf_event_of_payload (vf_event_payload e) = e"
proof -
  have "ucast ((ucast a OR push_bit 8 (ucast b) OR push_bit 16 (ucast c) :: u32) AND 0xFF) = a"
    for a b :: u8 and c :: u16
    by (rule bit_word_eqI) (auto simp: bit_simps and_mask_literals dest: bit_imp_le_length)
  moreover have "ucast (drop_bit 8 (ucast a OR push_bit 8 (ucast b) OR push_bit 16 (ucast c) :: u32) AND 0xFF) = b"
    for a b :: u8 and c :: u16
    by (rule bit_word_eqI) (auto simp: bit_simps and_mask_literals dest: bit_imp_le_length)
  moreover have "ucast (drop_bit 16 (ucast a OR push_bit 8 (ucast b) OR push_bit 16 (ucast c) :: u32) AND 0xFFFF) = c"
    for a b :: u8 and c :: u16
    by (rule bit_word_eqI) (auto simp: bit_simps and_mask_literals dest: bit_imp_le_length)
  ultimately show ?thesis
    by (simp add: vf_event_of_payload_def vf_event_payload_def)
qed

subsection \<open>Tag width\<close>

definition tag_width_to_mask :: "u8 \<Rightarrow> u16" where
  "tag_width_to_mask width = (if width = 0 then 0x001F else if width = 1 then 0x00FF
     else if width = 2 then 0x03FF else 0x001F)"

text \<open>Every mask is one less than a power of two, so masking is reduction modulo the tag count.\<close>

lemma and_tag_mask_unat:
  "unat (t AND tag_width_to_mask width) = unat t mod (unat (tag_width_to_mask width) + 1)"
  by (simp add: tag_width_to_mask_def and_mask_literals take_bit_eq_mod unat_mod)

subsection \<open>Properties\<close>



text \<open>A VF event packed by the QEMU side into the payload word of a sync message is unpacked by the
  simulator side to the same event, whatever its type, function index and VF count.\<close>

lemma vf_event_roundtrip: "vf_event_of_payload (vf_event_payload e) = e"
  by simp

end
