(* ===== verification/Fifo.thy ===== *)
theory Fifo
  imports Prelude
begin

section \<open>Bounded queues: ring arithmetic and the queue interface\<close>

text \<open>
  Three queues of the code are rings with one slot kept free (ring\_buffer.c, eth\_shm.c, the TLP
  cache of bridge\_vcs.c).  This theory holds the index arithmetic of a ring and the interface of a
  bounded queue: an abstract list of queued elements, refused only when full, delivered in order.
\<close>

subsection \<open>Live indices of a ring\<close>

text \<open>\<open>h\<close> is the read index, \<open>t\<close> the write index, \<open>c\<close> the number of slots.\<close>

definition ring_count :: "nat \<Rightarrow> nat \<Rightarrow> nat \<Rightarrow> nat" where
  "ring_count h t c = (t + c - h) mod c"

definition ring_idx :: "nat \<Rightarrow> nat \<Rightarrow> nat \<Rightarrow> nat list" where
  "ring_idx h t c = map (\<lambda>i. (h + i) mod c) [0..<ring_count h t c]"

lemma length_ring_idx [simp]: "length (ring_idx h t c) = ring_count h t c"
  by (simp add: ring_idx_def)

lemma ring_idx_less: "0 < c \<Longrightarrow> i \<in> set (ring_idx h t c) \<Longrightarrow> i < c"
  by (auto simp: ring_idx_def)

lemma mod_if_less: "(n::nat) < 2 * c \<Longrightarrow> n mod c = (if n < c then n else n - c)"
  by (simp add: mod_if [of n c] mod_if [of "n - c" c])

lemma ring_count_if:
  "h < c \<Longrightarrow> t < c \<Longrightarrow> ring_count h t c = (if h \<le> t then t - h else c - h + t)"
  by (auto simp: ring_count_def mod_if_less)

lemma ring_next_if: "t < c \<Longrightarrow> Suc t mod c = (if Suc t = c then 0 else Suc t)"
  by (auto simp: mod_if_less)

lemma ring_count_le: "h < c \<Longrightarrow> t < c \<Longrightarrow> ring_count h t c \<le> c - 1"
  by (auto simp: ring_count_if)

lemma ring_count_0 [simp]: "h < c \<Longrightarrow> t < c \<Longrightarrow> ring_count h t c = 0 \<longleftrightarrow> h = t"
  by (auto simp: ring_count_if)

lemma ring_idx_empty: "h < c \<Longrightarrow> t < c \<Longrightarrow> ring_idx h t c = [] \<longleftrightarrow> h = t"
  by (simp add: ring_idx_def)

lemma ring_full_iff:
  "h < c \<Longrightarrow> t < c \<Longrightarrow> Suc t mod c = h \<longleftrightarrow> ring_count h t c = c - 1"
  by (auto simp: ring_count_if ring_next_if)

lemma ring_count_push:
  assumes "h < c" "t < c" "Suc t mod c \<noteq> h"
  shows "ring_count h (Suc t mod c) c = Suc (ring_count h t c)"
  using assms by (auto simp: ring_count_if ring_next_if)

lemma ring_count_pop:
  assumes "h < c" "t < c" "h \<noteq> t"
  shows "ring_count h t c = Suc (ring_count (Suc h mod c) t c)"
  using assms by (auto simp: ring_count_if ring_next_if)

lemma ring_last: "h < c \<Longrightarrow> t < c \<Longrightarrow> (h + ring_count h t c) mod c = t"
  by (auto simp: ring_count_if)

lemma ring_idx_push:
  assumes "h < c" "t < c" "Suc t mod c \<noteq> h"
  shows "ring_idx h (Suc t mod c) c = ring_idx h t c @ [t]"
  using assms by (simp add: ring_idx_def ring_count_push ring_last)

lemma ring_idx_pop:
  assumes "h < c" "t < c" "h \<noteq> t"
  shows "ring_idx h t c = h # ring_idx (Suc h mod c) t c"
proof -
  have "map (\<lambda>i. (h + i) mod c) [0..<Suc n] = h # map (\<lambda>i. (Suc h mod c + i) mod c) [0..<n]" for n
    using assms(1)
    by (intro nth_equalityI) (auto simp: nth_Cons mod_add_left_eq simp del: upt_Suc split: nat.splits)
  then show ?thesis using assms by (simp add: ring_idx_def ring_count_pop del: upt_Suc)
qed

text \<open>The slot a producer writes next holds no live element.\<close>

lemma ring_tail_not_live:
  assumes "h < c" "t < c"
  shows "t \<notin> set (ring_idx h t c)"
proof
  assume "t \<in> set (ring_idx h t c)"
  then obtain i where i: "i < ring_count h t c" and eq: "(h + i) mod c = t"
    by (auto simp: ring_idx_def)
  have "h + i < 2 * c" using i assms ring_count_le [of h c t] by simp
  then have "(h + i) mod c = (if h + i < c then h + i else h + i - c)" by (rule mod_if_less)
  with i eq assms show False by (auto simp: ring_count_if split: if_splits)
qed

text \<open>The C index arithmetic, without wrap-around.\<close>

lemma unat_next_index:
  fixes i c :: u32
  assumes "unat i < unat c"
  shows "unat ((i + 1) mod c) = Suc (unat i) mod unat c"
proof -
  have "unat i + 1 < 2 ^ LENGTH(32)"
    using assms unat_bound [of c] by simp
  then have "unat (i + 1) = Suc (unat i)" using unat_plus_1_if [of i] by simp
  then show ?thesis by (simp add: unat_mod)
qed

subsection \<open>The interface\<close>

text \<open>\<open>enq\<close> returns 0 or a negative code, as the C functions do; \<open>deq\<close> returns the element, or
  nothing when the queue is empty.  \<open>ok\<close> says which elements fit a slot.\<close>

locale bounded_fifo =
  fixes enq :: "'q \<Rightarrow> 'a \<Rightarrow> rc \<times> 'q"
    and deq :: "'q \<Rightarrow> 'a option \<times> 'q"
    and items :: "'q \<Rightarrow> 'a list"
    and inv :: "'q \<Rightarrow> bool"
    and cap :: "'q \<Rightarrow> nat"
    and ok :: "'a \<Rightarrow> bool"
  assumes enq_room: "inv q \<Longrightarrow> ok x \<Longrightarrow> length (items q) < cap q \<Longrightarrow>
        fst (enq q x) = 0 \<and> items (snd (enq q x)) = items q @ [x]"
    and enq_full: "inv q \<Longrightarrow> ok x \<Longrightarrow> \<not> length (items q) < cap q \<Longrightarrow> enq q x = (-1, q)"
    and enq_inv: "inv q \<Longrightarrow> ok x \<Longrightarrow> inv (snd (enq q x)) \<and> cap (snd (enq q x)) = cap q"
    and deq_some: "inv q \<Longrightarrow> items q = x # xs \<Longrightarrow> fst (deq q) = Some x \<and> items (snd (deq q)) = xs"
    and deq_none: "inv q \<Longrightarrow> items q = [] \<Longrightarrow> deq q = (None, q)"
    and deq_inv: "inv q \<Longrightarrow> inv (snd (deq q)) \<and> cap (snd (deq q)) = cap q"
    and bounded: "inv q \<Longrightarrow> length (items q) \<le> cap q"

text \<open>Sequences of operations, the elements a run accepts and delivers, and the specification: a
  list that refuses an element when it holds \<open>n\<close>.\<close>

datatype 'a fifo_op = Put 'a | Take

fun fifo_run :: "('q \<Rightarrow> 'a \<Rightarrow> rc \<times> 'q) \<Rightarrow> ('q \<Rightarrow> 'a option \<times> 'q) \<Rightarrow> 'q \<Rightarrow> 'a fifo_op list
    \<Rightarrow> 'a list \<times> 'a list \<times> 'q" where
  "fifo_run enq deq q [] = ([], [], q)"
| "fifo_run enq deq q (Put x # ops) =
     (let (r, q1) = enq q x; (ins, outs, q2) = fifo_run enq deq q1 ops
      in (if r = 0 then x # ins else ins, outs, q2))"
| "fifo_run enq deq q (Take # ops) =
     (let (r, q1) = deq q; (ins, outs, q2) = fifo_run enq deq q1 ops
      in (ins, case r of None \<Rightarrow> outs | Some x \<Rightarrow> x # outs, q2))"

definition spec_put :: "nat \<Rightarrow> 'a list \<Rightarrow> 'a \<Rightarrow> rc \<times> 'a list" where
  "spec_put n xs x = (if length xs < n then (0, xs @ [x]) else (-1, xs))"

definition spec_take :: "'a list \<Rightarrow> 'a option \<times> 'a list" where
  "spec_take xs = (case xs of [] \<Rightarrow> (None, []) | y # ys \<Rightarrow> (Some y, ys))"

definition fifo_ops_ok :: "('a \<Rightarrow> bool) \<Rightarrow> 'a fifo_op list \<Rightarrow> bool" where
  "fifo_ops_ok ok ops \<longleftrightarrow> (\<forall>op\<in>set ops. case op of Put x \<Rightarrow> ok x | Take \<Rightarrow> True)"

lemma fifo_ops_ok_simps [simp]:
  "fifo_ops_ok ok []"
  "fifo_ops_ok ok (Put x # ops) \<longleftrightarrow> ok x \<and> fifo_ops_ok ok ops"
  "fifo_ops_ok ok (Take # ops) \<longleftrightarrow> fifo_ops_ok ok ops"
  by (auto simp: fifo_ops_ok_def)

context bounded_fifo
begin

lemma enq_rc: "inv q \<Longrightarrow> ok x \<Longrightarrow> fst (enq q x) = (if length (items q) < cap q then 0 else -1)"
  using enq_room enq_full by auto

lemma enq_refines:
  "inv q \<Longrightarrow> ok x \<Longrightarrow> spec_put (cap q) (items q) x = (fst (enq q x), items (snd (enq q x)))"
  using enq_room [of q x] enq_full [of q x] by (auto simp: spec_put_def)

lemma deq_refines: "inv q \<Longrightarrow> spec_take (items q) = (fst (deq q), items (snd (deq q)))"
  using deq_some [of q] deq_none [of q] by (auto simp: spec_take_def split: list.splits)

text \<open>A run refines the list specification: the same elements are accepted and delivered.\<close>

lemma run_refines:
  assumes "inv q" and "fifo_ops_ok ok ops"
  shows "fifo_run (spec_put (cap q)) spec_take (items q) ops
       = (let (ins, outs, q') = fifo_run enq deq q ops in (ins, outs, items q'))"
  using assms
proof (induction ops arbitrary: q)
  case Nil
  then show ?case by simp
next
  case (Cons op ops)
  show ?case
  proof (cases op)
    case (Put x)
    obtain r q1 where e: "enq q x = (r, q1)" by fastforce
    have "inv q1" "cap q1 = cap q"
      using enq_inv [of q x] Cons.prems Put e by auto
    moreover from enq_refines [of q x] have "spec_put (cap q) (items q) x = (r, items q1)"
      using Cons.prems Put e by simp
    ultimately show ?thesis
      using Cons.IH [of q1] Cons.prems Put e by (simp split: prod.splits)
  next
    case Take
    obtain r q1 where d: "deq q = (r, q1)" by fastforce
    have "inv q1" "cap q1 = cap q"
      using deq_inv [of q] Cons.prems d by auto
    moreover from deq_refines [of q] have "spec_take (items q) = (r, items q1)"
      using Cons.prems d by simp
    ultimately show ?thesis
      using Cons.IH [of q1] Cons.prems Take d by (simp split: prod.splits)
  qed
qed

text \<open>Conservation: what was queued and what is accepted comes out in order or is still queued.\<close>

lemma run_conserves:
  assumes "inv q" and "fifo_ops_ok ok ops" and "fifo_run enq deq q ops = (ins, outs, q')"
  shows "items q @ ins = outs @ items q' \<and> inv q' \<and> cap q' = cap q \<and> length (items q') \<le> cap q"
  using assms
proof (induction ops arbitrary: q ins outs)
  case Nil
  then show ?case using bounded by simp
next
  case (Cons op ops)
  show ?case
  proof (cases op)
    case (Put x)
    obtain r q1 where e: "enq q x = (r, q1)" by fastforce
    obtain i o' where run: "fifo_run enq deq q1 ops = (i, o', q')"
      and ins: "ins = (if r = 0 then x # i else i)" and outs: "outs = o'"
      using Cons.prems(3) Put e by (auto split: prod.splits)
    have inv1: "inv q1" "cap q1 = cap q" using enq_inv [of q x] Cons.prems Put e by auto
    have "items q @ (if r = 0 then [x] else []) = items q1"
      using enq_room [of q x] enq_full [of q x] Cons.prems Put e
      by (cases "length (items q) < cap q") auto
    moreover have "items q1 @ i = o' @ items q'"
      using Cons.IH [OF inv1(1) _ run] Cons.prems Put by simp
    ultimately show ?thesis
      using Cons.IH [OF inv1(1) _ run] Cons.prems Put ins outs inv1
      by (auto split: if_splits) (metis append.assoc append_Cons append_Nil)
  next
    case Take
    obtain r q1 where d: "deq q = (r, q1)" by fastforce
    obtain i o' where run: "fifo_run enq deq q1 ops = (i, o', q')"
      and ins: "ins = i" and outs: "outs = (case r of None \<Rightarrow> o' | Some y \<Rightarrow> y # o')"
      using Cons.prems(3) Take d by (auto split: prod.splits)
    have inv1: "inv q1" "cap q1 = cap q" using deq_inv [of q] Cons.prems d by auto
    have "items q = (case r of None \<Rightarrow> [] | Some y \<Rightarrow> [y]) @ items q1"
      using deq_some [of q] deq_none [of q] Cons.prems d by (cases "items q") auto
    then show ?thesis
      using Cons.IH [OF inv1(1) _ run] Cons.prems Take ins outs inv1
      by (auto split: option.splits)
  qed
qed

end

end
