(* ===== verification/Ring_Buffer.thy ===== *)
theory Ring_Buffer
  imports Fifo
begin

section \<open>Shared-memory ring: ring\_buffer.c\<close>

text \<open>
  The byte-level ring in shared memory: a header (head, tail, capacity, element size) followed by the
  slots.  Indices are 32-bit words, so \<open>(tail + 1) % capacity\<close> and \<open>tail * element_size\<close> are the
  C computations; the lemmas show that they do not wrap on an initialised ring and that every
  \<open>memcpy\<close> stays inside the buffer.  Null-pointer guards have no counterpart: the model's handles
  are values.
\<close>

record ring_buf =
  rb_head :: u32
  rb_tail :: u32
  rb_capacity :: u32
  rb_element_size :: u32
  rb_data :: bytes

definition RING_HDR_SIZE :: u32 where
  [code_consts]: "RING_HDR_SIZE = 16"

subsection \<open>Operations\<close>

definition ring_capacity_of :: "u32 \<Rightarrow> u32 \<Rightarrow> u32" where
  "ring_capacity_of buf_size element_size =
     (if buf_size \<le> RING_HDR_SIZE then 0 else (buf_size - RING_HDR_SIZE) div element_size)"

definition ring_buf_init :: "bytes \<Rightarrow> u32 \<Rightarrow> u32 \<Rightarrow> ring_buf option" where
  "ring_buf_init buf buf_size element_size =
     (if element_size = 0 then None
      else let cap = ring_capacity_of buf_size element_size
           in if cap < 2 then None
              else Some \<lparr>rb_head = 0, rb_tail = 0, rb_capacity = cap, rb_element_size = element_size,
                         rb_data = drop (unat RING_HDR_SIZE) buf\<rparr>)"

text \<open>The opener sees the header its creator wrote: \<open>hdr\<close> is the ring found in shared memory.\<close>

definition ring_buf_attach :: "ring_buf \<Rightarrow> u32 \<Rightarrow> u32 \<Rightarrow> ring_buf option" where
  "ring_buf_attach hdr buf_size element_size =
     (if element_size = 0 then None
      else let cap = ring_capacity_of buf_size element_size
           in if cap < 2 then None
              else if rb_capacity hdr \<noteq> cap \<or> rb_element_size hdr \<noteq> element_size then None
              else Some hdr)"

definition ring_buf_enqueue :: "ring_buf \<Rightarrow> bytes \<Rightarrow> rc \<times> ring_buf" where
  "ring_buf_enqueue rb element =
     (let tail = rb_tail rb;
          next_tail = (tail + 1) mod rb_capacity rb;
          head = rb_head rb
      in if next_tail = head then (-1, rb)
         else (0, rb\<lparr>rb_data := blit (unat (tail * rb_element_size rb))
                                  (take (unat (rb_element_size rb)) element) (rb_data rb),
                     rb_tail := next_tail\<rparr>))"

definition ring_buf_dequeue :: "ring_buf \<Rightarrow> bytes option \<times> ring_buf" where
  "ring_buf_dequeue rb =
     (let head = rb_head rb;
          tail = rb_tail rb
      in if head = tail then (None, rb)
         else (Some (take (unat (rb_element_size rb))
                      (drop (unat (head * rb_element_size rb)) (rb_data rb))),
               rb\<lparr>rb_head := (head + 1) mod rb_capacity rb\<rparr>))"

definition ring_buf_is_empty :: "ring_buf \<Rightarrow> bool" where
  "ring_buf_is_empty rb \<longleftrightarrow> rb_head rb = rb_tail rb"

definition ring_buf_is_full :: "ring_buf \<Rightarrow> bool" where
  "ring_buf_is_full rb \<longleftrightarrow> (rb_tail rb + 1) mod rb_capacity rb = rb_head rb"

definition ring_buf_count :: "ring_buf \<Rightarrow> u32" where
  "ring_buf_count rb = (if rb_tail rb \<ge> rb_head rb then rb_tail rb - rb_head rb
     else rb_capacity rb - rb_head rb + rb_tail rb)"

definition ring_buf_capacity :: "ring_buf \<Rightarrow> u32" where
  "ring_buf_capacity rb = rb_capacity rb - 1"

subsection \<open>Abstraction and invariant\<close>

definition ring_slot :: "ring_buf \<Rightarrow> nat \<Rightarrow> bytes" where
  "ring_slot rb i = take (unat (rb_element_size rb)) (drop (i * unat (rb_element_size rb)) (rb_data rb))"

definition ring_items :: "ring_buf \<Rightarrow> bytes list" where
  "ring_items rb = map (ring_slot rb)
     (ring_idx (unat (rb_head rb)) (unat (rb_tail rb)) (unat (rb_capacity rb)))"

definition ring_inv :: "ring_buf \<Rightarrow> bool" where
  "ring_inv rb \<longleftrightarrow> 2 \<le> unat (rb_capacity rb) \<and> 0 < unat (rb_element_size rb)
     \<and> unat (rb_head rb) < unat (rb_capacity rb) \<and> unat (rb_tail rb) < unat (rb_capacity rb)
     \<and> unat (rb_capacity rb) * unat (rb_element_size rb) \<le> length (rb_data rb)
     \<and> length (rb_data rb) < 2 ^ 32"

definition ring_cap :: "ring_buf \<Rightarrow> nat" where
  "ring_cap rb = unat (rb_capacity rb) - 1"

definition ring_ok :: "u32 \<Rightarrow> bytes \<Rightarrow> bool" where
  "ring_ok esz el \<longleftrightarrow> length el = unat esz"

lemma slot_product_bound:
  assumes "i < c" "c * e \<le> (n::nat)"
  shows "i * e + e \<le> n"
proof -
  have "Suc i * e \<le> c * e" using assms(1) by (intro mult_le_mono1) simp
  then show ?thesis using assms(2) by simp
qed

lemma ring_slot_offset:
  assumes "ring_inv rb" "unat i < unat (rb_capacity rb)"
  shows "unat (i * rb_element_size rb) = unat i * unat (rb_element_size rb)"
    and "unat i * unat (rb_element_size rb) + unat (rb_element_size rb) \<le> length (rb_data rb)"
proof -
  show b: "unat i * unat (rb_element_size rb) + unat (rb_element_size rb) \<le> length (rb_data rb)"
    using assms by (auto simp: ring_inv_def intro: slot_product_bound)
  then show "unat (i * rb_element_size rb) = unat i * unat (rb_element_size rb)"
    using assms by (intro unat_mult_no_wrap) (simp add: ring_inv_def)
qed

lemma length_ring_slot:
  assumes "ring_inv rb" "i < unat (rb_capacity rb)"
  shows "length (ring_slot rb i) = unat (rb_element_size rb)"
proof -
  have "i * unat (rb_element_size rb) + unat (rb_element_size rb) \<le> length (rb_data rb)"
    using assms by (auto simp: ring_inv_def intro: slot_product_bound)
  then show ?thesis by (simp add: ring_slot_def)
qed

lemma ring_items_ok:
  assumes "ring_inv rb" "x \<in> set (ring_items rb)"
  shows "ring_ok (rb_element_size rb) x"
proof -
  from assms(1) have "0 < unat (rb_capacity rb)" by (simp add: ring_inv_def)
  with assms show ?thesis
    by (auto simp: ring_items_def ring_ok_def length_ring_slot dest: ring_idx_less)
qed

lemma length_ring_items:
  "ring_inv rb \<Longrightarrow> length (ring_items rb) \<le> ring_cap rb"
  using ring_count_le [of "unat (rb_head rb)" "unat (rb_capacity rb)" "unat (rb_tail rb)"]
  by (simp add: ring_items_def ring_cap_def ring_inv_def)

lemma ring_next_full:
  assumes "ring_inv rb"
  shows "(rb_tail rb + 1) mod rb_capacity rb = rb_head rb \<longleftrightarrow> \<not> length (ring_items rb) < ring_cap rb"
proof -
  have "(rb_tail rb + 1) mod rb_capacity rb = rb_head rb
      \<longleftrightarrow> Suc (unat (rb_tail rb)) mod unat (rb_capacity rb) = unat (rb_head rb)"
    using assms by (simp add: word_unat_eq_iff unat_next_index ring_inv_def)
  also have "\<dots> \<longleftrightarrow> length (ring_items rb) = ring_cap rb"
    using assms by (simp add: ring_inv_def ring_full_iff ring_items_def ring_cap_def)
  finally show ?thesis using length_ring_items [OF assms] by auto
qed

text \<open>Disjoint slots: writing slot \<open>t\<close> leaves the others alone.\<close>

lemma slots_disjoint: "i \<noteq> j \<Longrightarrow> i * e + e \<le> j * e \<or> j * e + e \<le> (i * e :: nat)"
proof -
  assume "i \<noteq> j"
  then consider "Suc i \<le> j" | "Suc j \<le> i" by linarith
  then show ?thesis
  proof cases
    case 1
    then have "Suc i * e \<le> j * e" by (rule mult_le_mono1)
    then show ?thesis by simp
  next
    case 2
    then have "Suc j * e \<le> i * e" by (rule mult_le_mono1)
    then show ?thesis by simp
  qed
qed

lemma ring_slot_blit_other:
  assumes "ring_inv rb" "t < unat (rb_capacity rb)" "length x = unat (rb_element_size rb)" "i \<noteq> t"
  shows "ring_slot (rb\<lparr>rb_data := blit (t * unat (rb_element_size rb)) x (rb_data rb)\<rparr>) i = ring_slot rb i"
proof -
  have "t * unat (rb_element_size rb) + length x \<le> length (rb_data rb)"
    using assms by (auto simp: ring_inv_def intro: slot_product_bound)
  moreover have "i * unat (rb_element_size rb) + unat (rb_element_size rb) \<le> t * unat (rb_element_size rb)
      \<or> t * unat (rb_element_size rb) + length x \<le> i * unat (rb_element_size rb)"
    using slots_disjoint [OF assms(4)] assms(3) by simp
  ultimately show ?thesis by (simp add: ring_slot_def take_drop_blit_other)
qed

lemma ring_slot_blit_same:
  assumes "ring_inv rb" "t < unat (rb_capacity rb)" "length x = unat (rb_element_size rb)"
  shows "ring_slot (rb\<lparr>rb_data := blit (t * unat (rb_element_size rb)) x (rb_data rb)\<rparr>) t = x"
proof -
  have "t * unat (rb_element_size rb) + length x \<le> length (rb_data rb)"
    using assms by (auto simp: ring_inv_def intro: slot_product_bound)
  then show ?thesis using assms(3) by (simp add: ring_slot_def take_drop_blit_same)
qed

subsection \<open>The operations implement the queue interface\<close>

lemma enqueue_room:
  assumes inv: "ring_inv rb" and ok: "ring_ok (rb_element_size rb) x"
    and room: "length (ring_items rb) < ring_cap rb"
  shows "fst (ring_buf_enqueue rb x) = 0 \<and> ring_items (snd (ring_buf_enqueue rb x)) = ring_items rb @ [x]"
proof -
  let ?t = "unat (rb_tail rb)" and ?e = "unat (rb_element_size rb)" and ?c = "unat (rb_capacity rb)"
  let ?d = "blit (?t * ?e) x (rb_data rb)"
  have t: "?t < ?c" and h: "unat (rb_head rb) < ?c" using inv by (simp_all add: ring_inv_def)
  have len: "length x = ?e" using ok by (simp add: ring_ok_def)
  have notfull: "(rb_tail rb + 1) mod rb_capacity rb \<noteq> rb_head rb"
    using ring_next_full [OF inv] room by simp
  then have nf: "Suc ?t mod ?c \<noteq> unat (rb_head rb)"
    using t by (simp add: word_unat_eq_iff unat_next_index)
  have res: "ring_buf_enqueue rb x = (0, rb\<lparr>rb_data := ?d, rb_tail := (rb_tail rb + 1) mod rb_capacity rb\<rparr>)"
    using notfull len ring_slot_offset(1) [OF inv t] by (simp add: ring_buf_enqueue_def Let_def)
  have "ring_slot (rb\<lparr>rb_data := ?d\<rparr>) i = ring_slot rb i" if "i \<in> set (ring_idx (unat (rb_head rb)) ?t ?c)" for i
  proof -
    have "i \<noteq> ?t" using that ring_tail_not_live [OF h t] by auto
    then show ?thesis by (rule ring_slot_blit_other [OF inv t len])
  qed
  moreover have "ring_slot (rb\<lparr>rb_data := ?d\<rparr>) ?t = x" by (rule ring_slot_blit_same [OF inv t len])
  ultimately show ?thesis
    using t h nf by (simp add: res ring_items_def unat_next_index ring_idx_push ring_slot_def)
qed

lemma enqueue_full:
  "ring_inv rb \<Longrightarrow> \<not> length (ring_items rb) < ring_cap rb \<Longrightarrow> ring_buf_enqueue rb x = (-1, rb)"
  using ring_next_full [of rb] by (simp add: ring_buf_enqueue_def Let_def)

lemma enqueue_inv:
  assumes "ring_inv rb" "ring_ok (rb_element_size rb) x"
  shows "ring_inv (snd (ring_buf_enqueue rb x))"
    and "rb_capacity (snd (ring_buf_enqueue rb x)) = rb_capacity rb"
    and "rb_element_size (snd (ring_buf_enqueue rb x)) = rb_element_size rb"
    and "rb_head (snd (ring_buf_enqueue rb x)) = rb_head rb"
proof -
  have t: "unat (rb_tail rb) < unat (rb_capacity rb)" using assms by (simp add: ring_inv_def)
  have "unat (rb_tail rb * rb_element_size rb) + length x \<le> length (rb_data rb)"
    using ring_slot_offset [OF assms(1) t] assms(2) by (simp add: ring_ok_def)
  moreover have "Suc (unat (rb_tail rb)) mod unat (rb_capacity rb) < unat (rb_capacity rb)"
    using t by simp
  ultimately show "ring_inv (snd (ring_buf_enqueue rb x))"
    using assms t by (auto simp: ring_buf_enqueue_def Let_def ring_inv_def ring_ok_def unat_next_index)
qed (simp_all add: ring_buf_enqueue_def Let_def)

lemma dequeue_some:
  assumes inv: "ring_inv rb" and items: "ring_items rb = x # xs"
  shows "fst (ring_buf_dequeue rb) = Some x \<and> ring_items (snd (ring_buf_dequeue rb)) = xs"
proof -
  let ?h = "unat (rb_head rb)" and ?t = "unat (rb_tail rb)" and ?c = "unat (rb_capacity rb)"
  have h: "?h < ?c" and t: "?t < ?c" using inv by (simp_all add: ring_inv_def)
  have ne: "?h \<noteq> ?t" using items h t by (auto simp: ring_items_def ring_idx_def)
  have "ring_items rb = ring_slot rb ?h # map (ring_slot rb) (ring_idx (Suc ?h mod ?c) ?t ?c)"
    using ring_idx_pop [OF h t ne] by (simp add: ring_items_def)
  with items have x: "x = ring_slot rb ?h"
    and xs: "xs = map (ring_slot rb) (ring_idx (Suc ?h mod ?c) ?t ?c)" by simp_all
  from ne have "rb_head rb \<noteq> rb_tail rb" by auto
  then have "ring_buf_dequeue rb = (Some x, rb\<lparr>rb_head := (rb_head rb + 1) mod rb_capacity rb\<rparr>)"
    using ring_slot_offset(1) [OF inv h] by (simp add: ring_buf_dequeue_def Let_def x ring_slot_def)
  then show ?thesis
    using h by (simp add: ring_items_def unat_next_index xs ring_slot_def)
qed

lemma dequeue_none:
  "ring_inv rb \<Longrightarrow> ring_items rb = [] \<Longrightarrow> ring_buf_dequeue rb = (None, rb)"
  by (simp add: ring_items_def ring_buf_dequeue_def Let_def ring_inv_def ring_idx_empty word_unat_eq_iff)

lemma dequeue_inv:
  assumes "ring_inv rb"
  shows "ring_inv (snd (ring_buf_dequeue rb))"
    and "rb_capacity (snd (ring_buf_dequeue rb)) = rb_capacity rb"
    and "rb_element_size (snd (ring_buf_dequeue rb)) = rb_element_size rb"
proof -
  have h: "unat (rb_head rb) < unat (rb_capacity rb)" using assms by (simp add: ring_inv_def)
  have "Suc (unat (rb_head rb)) mod unat (rb_capacity rb) < unat (rb_capacity rb)" using h by simp
  then show "ring_inv (snd (ring_buf_dequeue rb))"
    using assms h by (auto simp: ring_buf_dequeue_def Let_def ring_inv_def unat_next_index)
qed (simp_all add: ring_buf_dequeue_def Let_def)

text \<open>The invariant with the element size fixed: a ring for elements of \<open>e\<close> bytes.\<close>

definition ring_of :: "u32 \<Rightarrow> ring_buf \<Rightarrow> bool" where
  "ring_of e rb \<longleftrightarrow> ring_inv rb \<and> rb_element_size rb = e"

interpretation rb: bounded_fifo ring_buf_enqueue ring_buf_dequeue ring_items "ring_of e" ring_cap "ring_ok e"
  for e
  by unfold_locales
    (use enqueue_room enqueue_full dequeue_some dequeue_none length_ring_items
      in \<open>auto simp: ring_of_def ring_cap_def enqueue_inv dequeue_inv\<close>)

lemma ring_buf_count_items:
  assumes "ring_inv rb"
  shows "unat (ring_buf_count rb) = length (ring_items rb)"
proof -
  have h: "unat (rb_head rb) < unat (rb_capacity rb)" and t: "unat (rb_tail rb) < unat (rb_capacity rb)"
    using assms by (simp_all add: ring_inv_def)
  have "unat (rb_capacity rb - rb_head rb + rb_tail rb)
      = unat (rb_capacity rb) - unat (rb_head rb) + unat (rb_tail rb)" if "rb_tail rb < rb_head rb"
  proof -
    have sub: "unat (rb_capacity rb - rb_head rb) = unat (rb_capacity rb) - unat (rb_head rb)"
      using h by (intro unat_sub) (simp add: word_le_nat_alt)
    have "unat (rb_capacity rb) - unat (rb_head rb) + unat (rb_tail rb) < 2 ^ 32"
      using that h unat_bound [of "rb_capacity rb"] by (simp add: word_less_nat_alt)
    then show ?thesis using sub by (simp add: unat_add_no_wrap)
  qed
  moreover have "unat (rb_tail rb - rb_head rb) = unat (rb_tail rb) - unat (rb_head rb)"
    if "rb_head rb \<le> rb_tail rb"
    using that by (rule unat_sub)
  ultimately show ?thesis
    using h t by (auto simp: ring_buf_count_def ring_items_def ring_count_if word_le_nat_alt word_less_nat_alt)
qed

lemma ring_buf_is_empty_items: "ring_inv rb \<Longrightarrow> ring_buf_is_empty rb \<longleftrightarrow> ring_items rb = []"
  by (simp add: ring_buf_is_empty_def ring_items_def ring_inv_def ring_idx_empty word_unat_eq_iff)

lemma ring_buf_is_full_items:
  "ring_inv rb \<Longrightarrow> ring_buf_is_full rb \<longleftrightarrow> length (ring_items rb) = unat (ring_buf_capacity rb)"
proof -
  assume inv: "ring_inv rb"
  then have "unat (rb_capacity rb - 1) = unat (rb_capacity rb) - 1"
    by (intro unat_minus_one) (auto simp: ring_inv_def)
  with ring_next_full [OF inv] length_ring_items [OF inv] show ?thesis
    by (auto simp: ring_buf_is_full_def ring_buf_capacity_def ring_cap_def)
qed

subsection \<open>Creation\<close>

lemma ring_buf_init_ok:
  assumes "ring_buf_init buf buf_size e = Some rb" and "length buf = unat buf_size"
  shows "ring_of e rb \<and> ring_items rb = [] \<and> ring_cap rb = (unat buf_size - 16) div unat e - 1"
proof -
  from assms(1) have e: "e \<noteq> 0" and cap: "\<not> ring_capacity_of buf_size e < 2"
    and rb: "rb = \<lparr>rb_head = 0, rb_tail = 0, rb_capacity = ring_capacity_of buf_size e,
               rb_element_size = e, rb_data = drop 16 buf\<rparr>"
    by (auto simp: ring_buf_init_def Let_def RING_HDR_SIZE_def split: if_splits)
  have big: "16 < unat buf_size"
    using cap by (auto simp: ring_capacity_of_def RING_HDR_SIZE_def word_le_nat_alt split: if_splits)
  have c: "unat (ring_capacity_of buf_size e) = (unat buf_size - 16) div unat e"
    using big by (simp add: ring_capacity_of_def RING_HDR_SIZE_def word_le_nat_alt unat_div unat_sub)
  have "2 \<le> unat (ring_capacity_of buf_size e)" using cap by (simp add: word_less_nat_alt)
  moreover have "0 < unat e" using e by (simp add: unat_gt_0)
  moreover have "(unat buf_size - 16) div unat e * unat e \<le> unat buf_size - 16" by simp
  moreover have "unat buf_size < 2 ^ 32" using unat_bound [of buf_size] by simp
  ultimately show ?thesis
    using assms(2) c by (simp add: ring_of_def ring_inv_def rb ring_items_def ring_cap_def ring_idx_def ring_count_def)
qed

lemma ring_attach_after_init:
  assumes "ring_buf_init buf buf_size e = Some rb"
  shows "ring_buf_attach rb buf_size e' = (if e' = e then Some rb else ring_buf_attach rb buf_size e')"
    and "ring_buf_attach rb buf_size e = Some rb"
    and "e' \<noteq> e \<Longrightarrow> ring_buf_attach rb buf_size e' = None"
  using assms by (auto simp: ring_buf_init_def ring_buf_attach_def Let_def split: if_splits)

subsection \<open>Properties\<close>

text \<open>C13: On a freshly initialised ring, any sequence of enqueues and dequeues behaves as a list bounded by
  capacity - 1: the same elements are refused, the same are delivered, in order, and what was accepted
  is what was delivered followed by what the ring still holds.\<close>

theorem ring_buf_is_bounded_queue:
  assumes "ring_buf_init buf buf_size e = Some rb" and "length buf = unat buf_size"
    and "fifo_ops_ok (ring_ok e) ops"
    and "fifo_run ring_buf_enqueue ring_buf_dequeue rb ops = (ins, outs, rb')"
  shows "fifo_run (spec_put ((unat buf_size - 16) div unat e - 1)) spec_take [] ops = (ins, outs, ring_items rb')
    \<and> ins = outs @ ring_items rb' \<and> unat (ring_buf_count rb') = length (ring_items rb')
    \<and> length (ring_items rb') \<le> (unat buf_size - 16) div unat e - 1"
proof -
  note init = ring_buf_init_ok [OF assms(1,2)]
  have rb: "ring_of e rb" using init by simp
  have "ring_of e rb'" using rb.run_conserves [OF rb assms(3,4)] by simp
  then have "unat (ring_buf_count rb') = length (ring_items rb')"
    by (intro ring_buf_count_items) (simp add: ring_of_def)
  then show ?thesis
    using rb.run_refines [OF rb assms(3)] rb.run_conserves [OF rb assms(3,4)] init assms(4) by simp
qed

lemma ring_example:
  "ring_buf_init (replicate 24 0) 24 2 = Some \<lparr>rb_head = 0, rb_tail = 0, rb_capacity = 4, rb_element_size = 2,
     rb_data = replicate 8 0\<rparr>"
  by (simp add: ring_buf_init_def ring_capacity_of_def RING_HDR_SIZE_def Let_def word_le_nat_alt)

theorem ring_buf_is_bounded_queue_witness:
  "\<exists>rb'. fifo_run ring_buf_enqueue ring_buf_dequeue
      \<lparr>rb_head = 0, rb_tail = 0, rb_capacity = 4, rb_element_size = 2, rb_data = replicate 8 0\<rparr>
      [Put [1, 2], Put [3, 4], Take] = ([[1, 2], [3, 4]], [[1, 2]], rb') \<and> ring_items rb' = [[3, 4]]"
proof -
  let ?rb = "\<lparr>rb_head = 0, rb_tail = 0, rb_capacity = 4, rb_element_size = 2, rb_data = replicate 8 (0 :: u8)\<rparr>"
  obtain ins outs rb' where run: "fifo_run ring_buf_enqueue ring_buf_dequeue ?rb [Put [1, 2], Put [3, 4], Take] = (ins, outs, rb')"
    using prod_cases3 by blast
  have "fifo_ops_ok (ring_ok 2) [Put [1, 2], Put [3, 4], Take]" by (simp add: ring_ok_def)
  from ring_buf_is_bounded_queue [OF ring_example _ this run]
  have "fifo_run (spec_put 3) spec_take [] [Put [1, 2], Put [3, 4], Take] = (ins, outs, ring_items rb')" by simp
  moreover have "fifo_run (spec_put 3) spec_take [] [Put [1, 2], Put [3, 4], Take]
      = ([[1, 2], [3, 4]], [[1, 2]], [[3 :: u8, 4]])" by (simp add: spec_put_def spec_take_def)
  ultimately show ?thesis using run by auto
qed

text \<open>A ring is attached by its opener exactly when creator and opener agree on the element size: the
  opener then sees the creator's ring, and a different size is rejected.\<close>

lemma ring_attach_agrees:
  assumes "ring_buf_init buf buf_size e = Some rb"
  shows "ring_buf_attach rb buf_size e' = (if e' = e then Some rb else None)"
  using ring_attach_after_init [OF assms] by simp

lemma ring_attach_agrees_witness:
  "ring_buf_attach \<lparr>rb_head = 0, rb_tail = 0, rb_capacity = 4, rb_element_size = 2, rb_data = replicate 8 0\<rparr> 24 4 = None"
  using ring_attach_agrees [OF ring_example, of 4] by simp

end
