(* ===== verification/Ring_Spsc.thy ===== *)
theory Ring_Spsc
  imports Ring_Buffer
begin

section \<open>Concurrent use of the ring: one producer, one consumer\<close>

text \<open>
  \<open>ring_buf_enqueue\<close> and \<open>ring_buf_dequeue\<close> run in two processes on the same memory.  Here each is
  split at its atomic accesses, as the C code is: the load of the own index, the load of the peer's
  index with the full or empty test, the \<open>memcpy\<close> of the slot, and the store that publishes the new
  index.  A step of the system is one such access by either side; the loads and stores of head and
  tail are taken as sequentially consistent (they are acquire and release accesses in the code).
  Two ghost lists record the elements whose enqueue and whose dequeue have completed.
\<close>

datatype prod_pc =
    P_Idle
  | P_Loaded bytes u32       \<comment> \<open>element and tail, before the load of head\<close>
  | P_Room bytes u32         \<comment> \<open>the test found room\<close>
  | P_Copied bytes u32       \<comment> \<open>the slot is written, tail not yet stored\<close>

datatype cons_pc =
    C_Idle
  | C_Loaded u32
  | C_Some u32               \<comment> \<open>the test found an element\<close>
  | C_Copied u32 bytes       \<comment> \<open>the element is copied out, head not yet stored\<close>

record spsc =
  sp_ring :: ring_buf
  sp_prod :: prod_pc
  sp_cons :: cons_pc
  sp_in :: "bytes list"
  sp_out :: "bytes list"

definition spsc_init :: "ring_buf \<Rightarrow> spsc" where
  "spsc_init rb = \<lparr>sp_ring = rb, sp_prod = P_Idle, sp_cons = C_Idle, sp_in = ring_items rb, sp_out = []\<rparr>"

definition put_slot :: "ring_buf \<Rightarrow> u32 \<Rightarrow> bytes \<Rightarrow> ring_buf" where
  "put_slot rb t x = rb\<lparr>rb_data := blit (unat (t * rb_element_size rb)) (take (unat (rb_element_size rb)) x) (rb_data rb)\<rparr>"

definition get_slot :: "ring_buf \<Rightarrow> u32 \<Rightarrow> bytes" where
  "get_slot rb h = take (unat (rb_element_size rb)) (drop (unat (h * rb_element_size rb)) (rb_data rb))"

definition next_index :: "ring_buf \<Rightarrow> u32 \<Rightarrow> u32" where
  "next_index rb i = (i + 1) mod rb_capacity rb"

inductive spsc_step :: "spsc \<Rightarrow> spsc \<Rightarrow> bool" where
  p_load: "sp_prod s = P_Idle \<Longrightarrow> ring_ok (rb_element_size (sp_ring s)) x \<Longrightarrow>
     spsc_step s (s\<lparr>sp_prod := P_Loaded x (rb_tail (sp_ring s))\<rparr>)"
| p_full: "sp_prod s = P_Loaded x t \<Longrightarrow> next_index (sp_ring s) t = rb_head (sp_ring s) \<Longrightarrow>
     spsc_step s (s\<lparr>sp_prod := P_Idle\<rparr>)"
| p_room: "sp_prod s = P_Loaded x t \<Longrightarrow> next_index (sp_ring s) t \<noteq> rb_head (sp_ring s) \<Longrightarrow>
     spsc_step s (s\<lparr>sp_prod := P_Room x t\<rparr>)"
| p_copy: "sp_prod s = P_Room x t \<Longrightarrow>
     spsc_step s (s\<lparr>sp_prod := P_Copied x t, sp_ring := put_slot (sp_ring s) t x\<rparr>)"
| p_publish: "sp_prod s = P_Copied x t \<Longrightarrow>
     spsc_step s (s\<lparr>sp_prod := P_Idle, sp_ring := (sp_ring s)\<lparr>rb_tail := next_index (sp_ring s) t\<rparr>,
                    sp_in := sp_in s @ [x]\<rparr>)"
| c_load: "sp_cons s = C_Idle \<Longrightarrow>
     spsc_step s (s\<lparr>sp_cons := C_Loaded (rb_head (sp_ring s))\<rparr>)"
| c_empty: "sp_cons s = C_Loaded h \<Longrightarrow> h = rb_tail (sp_ring s) \<Longrightarrow>
     spsc_step s (s\<lparr>sp_cons := C_Idle\<rparr>)"
| c_some: "sp_cons s = C_Loaded h \<Longrightarrow> h \<noteq> rb_tail (sp_ring s) \<Longrightarrow>
     spsc_step s (s\<lparr>sp_cons := C_Some h\<rparr>)"
| c_copy: "sp_cons s = C_Some h \<Longrightarrow>
     spsc_step s (s\<lparr>sp_cons := C_Copied h (get_slot (sp_ring s) h)\<rparr>)"
| c_publish: "sp_cons s = C_Copied h x \<Longrightarrow>
     spsc_step s (s\<lparr>sp_cons := C_Idle, sp_ring := (sp_ring s)\<lparr>rb_head := next_index (sp_ring s) h\<rparr>,
                    sp_out := sp_out s @ [x]\<rparr>)"

inductive_cases spsc_step_cases: "spsc_step s t"

inductive spsc_reach :: "ring_buf \<Rightarrow> spsc \<Rightarrow> bool" for rb where
  start: "spsc_reach rb (spsc_init rb)"
| step: "spsc_reach rb s \<Longrightarrow> spsc_step s t \<Longrightarrow> spsc_reach rb t"

subsection \<open>Run alone, the micro-steps are the C functions\<close>

lemma put_publish_is_enqueue:
  assumes "next_index rb (rb_tail rb) \<noteq> rb_head rb"
  shows "ring_buf_enqueue rb x = (0, (put_slot rb (rb_tail rb) x)\<lparr>rb_tail := next_index rb (rb_tail rb)\<rparr>)"
  using assms by (simp add: ring_buf_enqueue_def Let_def put_slot_def next_index_def)

lemma get_publish_is_dequeue:
  assumes "rb_head rb \<noteq> rb_tail rb"
  shows "ring_buf_dequeue rb = (Some (get_slot rb (rb_head rb)), rb\<lparr>rb_head := next_index rb (rb_head rb)\<rparr>)"
  using assms by (simp add: ring_buf_dequeue_def Let_def get_slot_def next_index_def)

subsection \<open>The invariant\<close>

definition prod_inv :: "spsc \<Rightarrow> bool" where
  "prod_inv s = (case sp_prod s of
       P_Idle \<Rightarrow> True
     | P_Loaded x t \<Rightarrow> t = rb_tail (sp_ring s) \<and> ring_ok (rb_element_size (sp_ring s)) x
     | P_Room x t \<Rightarrow> t = rb_tail (sp_ring s) \<and> ring_ok (rb_element_size (sp_ring s)) x
          \<and> length (ring_items (sp_ring s)) < ring_cap (sp_ring s)
     | P_Copied x t \<Rightarrow> t = rb_tail (sp_ring s) \<and> ring_ok (rb_element_size (sp_ring s)) x
          \<and> length (ring_items (sp_ring s)) < ring_cap (sp_ring s) \<and> get_slot (sp_ring s) t = x)"

definition cons_inv :: "spsc \<Rightarrow> bool" where
  "cons_inv s = (case sp_cons s of
       C_Idle \<Rightarrow> True
     | C_Loaded h \<Rightarrow> h = rb_head (sp_ring s)
     | C_Some h \<Rightarrow> h = rb_head (sp_ring s) \<and> ring_items (sp_ring s) \<noteq> []
     | C_Copied h x \<Rightarrow> h = rb_head (sp_ring s) \<and> (\<exists>xs. ring_items (sp_ring s) = x # xs))"

definition spsc_inv :: "spsc \<Rightarrow> bool" where
  "spsc_inv s \<longleftrightarrow> ring_inv (sp_ring s) \<and> prod_inv s \<and> cons_inv s
     \<and> sp_in s = sp_out s @ ring_items (sp_ring s)"

lemma get_slot_ring_slot:
  "ring_inv rb \<Longrightarrow> unat h < unat (rb_capacity rb) \<Longrightarrow> get_slot rb h = ring_slot rb (unat h)"
  by (simp add: get_slot_def ring_slot_def ring_slot_offset(1))

lemma items_head:
  assumes "ring_inv rb" "ring_items rb \<noteq> []"
  shows "ring_items rb = get_slot rb (rb_head rb) # tl (ring_items rb)"
  using assms ring_idx_pop [of "unat (rb_head rb)" "unat (rb_capacity rb)" "unat (rb_tail rb)"]
  by (auto simp: ring_items_def ring_inv_def ring_idx_empty get_slot_ring_slot)

text \<open>Writing the free slot changes no live element.\<close>

lemma put_slot_items:
  assumes inv: "ring_inv rb" and ok: "ring_ok (rb_element_size rb) x"
  shows "ring_items (put_slot rb (rb_tail rb) x) = ring_items rb"
    and "ring_inv (put_slot rb (rb_tail rb) x)"
    and "get_slot (put_slot rb (rb_tail rb) x) (rb_tail rb) = x"
proof -
  let ?t = "unat (rb_tail rb)" and ?c = "unat (rb_capacity rb)" and ?e = "unat (rb_element_size rb)"
  have h: "unat (rb_head rb) < ?c" and t: "?t < ?c" using inv by (simp_all add: ring_inv_def)
  have len: "length x = ?e" using ok by (simp add: ring_ok_def)
  have put: "put_slot rb (rb_tail rb) x = rb\<lparr>rb_data := blit (?t * ?e) x (rb_data rb)\<rparr>"
    using len ring_slot_offset(1) [OF inv t] by (simp add: put_slot_def)
  have fits: "?t * ?e + length x \<le> length (rb_data rb)"
    using ring_slot_offset(2) [OF inv t] len by simp
  show i: "ring_inv (put_slot rb (rb_tail rb) x)" using inv fits by (simp add: put ring_inv_def)
  have "ring_slot (put_slot rb (rb_tail rb) x) i = ring_slot rb i"
    if "i \<in> set (ring_idx (unat (rb_head rb)) ?t ?c)" for i
  proof -
    have "i \<noteq> ?t" using that ring_tail_not_live [OF h t] by metis
    then show ?thesis unfolding put by (rule ring_slot_blit_other [OF inv t len])
  qed
  then show "ring_items (put_slot rb (rb_tail rb) x) = ring_items rb"
    by (simp add: ring_items_def put)
  show "get_slot (put_slot rb (rb_tail rb) x) (rb_tail rb) = x"
    using get_slot_ring_slot [OF i] t ring_slot_blit_same [OF inv t len] by (simp add: put)
qed

lemma publish_tail_items:
  assumes inv: "ring_inv rb" and room: "length (ring_items rb) < ring_cap rb"
  shows "ring_items (rb\<lparr>rb_tail := next_index rb (rb_tail rb)\<rparr>) = ring_items rb @ [get_slot rb (rb_tail rb)]"
    and "ring_inv (rb\<lparr>rb_tail := next_index rb (rb_tail rb)\<rparr>)"
proof -
  let ?t = "unat (rb_tail rb)" and ?c = "unat (rb_capacity rb)"
  have h: "unat (rb_head rb) < ?c" and t: "?t < ?c" using inv by (simp_all add: ring_inv_def)
  have "Suc ?t mod ?c \<noteq> unat (rb_head rb)"
    using ring_next_full [OF inv] room t by (simp add: word_unat_eq_iff unat_next_index)
  then show "ring_items (rb\<lparr>rb_tail := next_index rb (rb_tail rb)\<rparr>) = ring_items rb @ [get_slot rb (rb_tail rb)]"
    using h t by (simp add: ring_items_def next_index_def unat_next_index ring_idx_push
        get_slot_ring_slot [OF inv] ring_slot_def)
  have "Suc ?t mod ?c < ?c" using t by simp
  then show "ring_inv (rb\<lparr>rb_tail := next_index rb (rb_tail rb)\<rparr>)"
    using inv t by (simp add: ring_inv_def next_index_def unat_next_index)
qed

lemma publish_head_items:
  assumes inv: "ring_inv rb" and ne: "ring_items rb \<noteq> []"
  shows "ring_items rb = get_slot rb (rb_head rb) # ring_items (rb\<lparr>rb_head := next_index rb (rb_head rb)\<rparr>)"
    and "ring_inv (rb\<lparr>rb_head := next_index rb (rb_head rb)\<rparr>)"
proof -
  let ?h = "unat (rb_head rb)" and ?t = "unat (rb_tail rb)" and ?c = "unat (rb_capacity rb)"
  have h: "?h < ?c" and t: "?t < ?c" using inv by (simp_all add: ring_inv_def)
  have "?h \<noteq> ?t" using ne h t by (auto simp: ring_items_def ring_idx_empty)
  then show "ring_items rb = get_slot rb (rb_head rb) # ring_items (rb\<lparr>rb_head := next_index rb (rb_head rb)\<rparr>)"
    using h t ring_idx_pop [OF h t]
    by (simp add: ring_items_def next_index_def unat_next_index get_slot_ring_slot [OF inv] ring_slot_def)
  have "Suc ?h mod ?c < ?c" using h by simp
  then show "ring_inv (rb\<lparr>rb_head := next_index rb (rb_head rb)\<rparr>)"
    using inv h by (simp add: ring_inv_def next_index_def unat_next_index)
qed

lemma get_slot_frame [simp]:
  "get_slot (rb\<lparr>rb_head := h\<rparr>) i = get_slot rb i" "get_slot (rb\<lparr>rb_tail := t\<rparr>) i = get_slot rb i"
  by (simp_all add: get_slot_def)

lemma ring_cap_frame [simp]:
  "ring_cap (rb\<lparr>rb_head := h\<rparr>) = ring_cap rb" "ring_cap (rb\<lparr>rb_tail := t\<rparr>) = ring_cap rb"
  "ring_cap (put_slot rb i x) = ring_cap rb"
  by (simp_all add: ring_cap_def put_slot_def)

lemma put_slot_frame [simp]:
  "rb_head (put_slot rb i x) = rb_head rb" "rb_tail (put_slot rb i x) = rb_tail rb"
  "rb_element_size (put_slot rb i x) = rb_element_size rb" "rb_capacity (put_slot rb i x) = rb_capacity rb"
  by (simp_all add: put_slot_def)

lemmas spsc_simps = spsc_inv_def prod_inv_def cons_inv_def

lemma spsc_inv_init: "ring_inv rb \<Longrightarrow> spsc_inv (spsc_init rb)"
  by (simp add: spsc_simps spsc_init_def)

lemma spsc_inv_step: "spsc_step s t \<Longrightarrow> spsc_inv s \<Longrightarrow> spsc_inv t"
proof (induction rule: spsc_step.induct)
  case (p_room s x t)
  then have "length (ring_items (sp_ring s)) < ring_cap (sp_ring s)"
    using ring_next_full [of "sp_ring s"] by (simp add: spsc_simps next_index_def)
  with p_room show ?case by (auto simp: spsc_simps split: cons_pc.splits)
next
  case (p_copy s x t)
  then show ?case using put_slot_items [of "sp_ring s" x]
    by (auto simp: spsc_simps split: cons_pc.splits)
next
  case (p_publish s x t)
  then show ?case using publish_tail_items [of "sp_ring s"]
    by (auto simp: spsc_simps split: cons_pc.splits)
next
  case (c_copy s h)
  then show ?case using items_head [of "sp_ring s"]
    by (auto simp: spsc_simps split: prod_pc.splits)
next
  case (c_publish s h x)
  then have ne: "ring_items (sp_ring s) \<noteq> []" and inv: "ring_inv (sp_ring s)"
    by (auto simp: spsc_simps)
  let ?r = "(sp_ring s)\<lparr>rb_head := next_index (sp_ring s) (rb_head (sp_ring s))\<rparr>"
  have eq: "ring_items (sp_ring s) = get_slot (sp_ring s) (rb_head (sp_ring s)) # ring_items ?r" and inv': "ring_inv ?r"
    using publish_head_items [OF inv ne] by simp_all
  have "x = get_slot (sp_ring s) (rb_head (sp_ring s))" using eq c_publish by (auto simp: spsc_simps)
  moreover have "length (ring_items ?r) < length (ring_items (sp_ring s))" using arg_cong [OF eq, of length] by simp
  ultimately show ?case using c_publish eq inv' by (auto simp: spsc_simps split: prod_pc.splits)
next
  case (c_some s h)
  then have "ring_items (sp_ring s) \<noteq> []"
    using ring_buf_is_empty_items [of "sp_ring s"] by (simp add: spsc_simps ring_buf_is_empty_def)
  with c_some show ?case by (auto simp: spsc_simps split: prod_pc.splits)
qed (auto simp: spsc_simps split: prod_pc.splits cons_pc.splits)

lemma spsc_reach_inv: "spsc_reach rb s \<Longrightarrow> ring_inv rb \<Longrightarrow> spsc_inv s"
  by (induction rule: spsc_reach.induct) (auto intro: spsc_inv_init spsc_inv_step)

subsection \<open>What the invariant gives\<close>

text \<open>Both sides are about to access a slot at the same time: never the same one.\<close>

definition prod_slot :: "spsc \<Rightarrow> u32 option" where
  "prod_slot s = (case sp_prod s of P_Room x t \<Rightarrow> Some t | _ \<Rightarrow> None)"

definition cons_slot :: "spsc \<Rightarrow> u32 option" where
  "cons_slot s = (case sp_cons s of C_Some h \<Rightarrow> Some h | _ \<Rightarrow> None)"

lemma spsc_inv_no_race:
  assumes "spsc_inv s" "prod_slot s = Some i" "cons_slot s = Some j"
  shows "i \<noteq> j"
  using assms by (auto simp: spsc_simps prod_slot_def cons_slot_def ring_items_def ring_inv_def ring_idx_def
      ring_count_def split: prod_pc.splits cons_pc.splits)

subsection \<open>Properties\<close>

text \<open>C6: One producer and one consumer on a shared-memory ring, interleaved at every load, copy and store:
  in every reachable state the elements published are those consumed followed by those in the ring, and
  the slot being written is never the slot being read.\<close>

theorem ring_spsc_safe:
  assumes "spsc_reach rb s" and "ring_inv rb"
  shows "sp_in s = sp_out s @ ring_items (sp_ring s)
    \<and> (prod_slot s = Some i \<longrightarrow> cons_slot s \<noteq> Some i)"
  using spsc_reach_inv [OF assms] spsc_inv_no_race [of s i i] by (auto simp: spsc_inv_def)

lemma spsc_one_put:
  assumes "ring_ok (rb_element_size rb) x" and "next_index rb (rb_tail rb) \<noteq> rb_head rb"
  shows "\<exists>s. spsc_reach rb s \<and> sp_in s = ring_items rb @ [x] \<and> sp_out s = [] \<and> sp_ring s = snd (ring_buf_enqueue rb x)"
proof -
  let ?s0 = "spsc_init rb"
  let ?s1 = "?s0\<lparr>sp_prod := P_Loaded x (rb_tail rb)\<rparr>"
  let ?s2 = "?s0\<lparr>sp_prod := P_Room x (rb_tail rb)\<rparr>"
  let ?s3 = "?s0\<lparr>sp_prod := P_Copied x (rb_tail rb), sp_ring := put_slot rb (rb_tail rb) x\<rparr>"
  let ?s4 = "?s3\<lparr>sp_prod := P_Idle, sp_ring := (put_slot rb (rb_tail rb) x)\<lparr>rb_tail := next_index rb (rb_tail rb)\<rparr>,
      sp_in := ring_items rb @ [x]\<rparr>"
  have nx: "next_index (put_slot rb t x) i = next_index rb i" for t i by (simp add: next_index_def put_slot_def)
  have "spsc_reach rb ?s1"
    using spsc_reach.step [OF spsc_reach.start p_load [of ?s0 x]] assms(1) by (simp add: spsc_init_def)
  then have "spsc_reach rb ?s2"
    using spsc_reach.step p_room [of ?s1 x "rb_tail rb"] assms(2) by (fastforce simp: spsc_init_def)
  then have "spsc_reach rb ?s3"
    using spsc_reach.step p_copy [of ?s2 x "rb_tail rb"] by (fastforce simp: spsc_init_def)
  then have "spsc_reach rb ?s4"
    using spsc_reach.step p_publish [of ?s3 x "rb_tail rb"] by (fastforce simp: spsc_init_def nx)
  then show ?thesis
    by (rule_tac exI [of _ ?s4]) (simp add: spsc_init_def put_publish_is_enqueue [OF assms(2)])
qed

theorem ring_spsc_safe_witness:
  "\<exists>s. spsc_reach \<lparr>rb_head = 0, rb_tail = 0, rb_capacity = 4, rb_element_size = 2, rb_data = replicate 8 0\<rparr> s
    \<and> sp_in s = [[1, 2]] \<and> ring_items (sp_ring s) = [[1, 2]]"
proof -
  let ?rb = "\<lparr>rb_head = 0, rb_tail = 0, rb_capacity = 4, rb_element_size = 2, rb_data = replicate 8 (0 :: u8)\<rparr>"
  have inv: "ring_inv ?rb" by (simp add: ring_inv_def)
  have e: "ring_items ?rb = []" by (simp add: ring_items_def ring_idx_def ring_count_def)
  obtain s where s: "spsc_reach ?rb s" "sp_in s = [[1, 2]]" "sp_out s = []"
    using spsc_one_put [of ?rb "[1, 2]"] e by (auto simp: ring_ok_def next_index_def)
  then show ?thesis using ring_spsc_safe [OF s(1) inv] by auto
qed

end
