(* ===== verification/Dma_Manager.thy ===== *)
theory Dma_Manager
  imports Prelude
begin

section \<open>DMA region allocator: dma\_manager.c\<close>

text \<open>
  A bump allocator over a 32-bit offset, advanced by compare-and-swap.  The sequential functions are
  the C functions when no other thread interferes; the step relation runs any number of threads
  through the load, test, compare-and-swap and accounting of \<open>dma_mgr_alloc\<close>.
\<close>

definition DMA_MGR_ALIGN :: u32 where
  [code_consts]: "DMA_MGR_ALIGN = 64"

definition DMA_MGR_INVALID :: u32 where
  [code_consts]: "DMA_MGR_INVALID = 0xFFFFFFFF"

record dma_mgr =
  dm_base :: u64
  dm_total_size :: u32
  dm_next_free :: u32
  dm_used_bytes :: u32

definition dma_mgr_init :: "u64 \<Rightarrow> u32 \<Rightarrow> dma_mgr" where
  "dma_mgr_init base total_size =
     \<lparr>dm_base = base, dm_total_size = total_size, dm_next_free = 0, dm_used_bytes = 0\<rparr>"

definition dma_align :: "u32 \<Rightarrow> u32" where
  "dma_align sz = (sz + DMA_MGR_ALIGN - 1) AND NOT (DMA_MGR_ALIGN - 1)"

definition dma_mgr_alloc :: "dma_mgr \<Rightarrow> u32 \<Rightarrow> u32 \<times> dma_mgr" where
  "dma_mgr_alloc mgr sz =
     (if sz = 0 then (DMA_MGR_INVALID, mgr)
      else let aligned = dma_align sz;
               old_off = dm_next_free mgr;
               new_off = old_off + aligned
           in if new_off > dm_total_size mgr then (DMA_MGR_INVALID, mgr)
              else (old_off, mgr\<lparr>dm_next_free := new_off,
                                 dm_used_bytes := dm_used_bytes mgr + aligned\<rparr>))"

definition dma_mgr_free :: "dma_mgr \<Rightarrow> u32 \<Rightarrow> u32 \<Rightarrow> dma_mgr" where
  "dma_mgr_free mgr offset sz = mgr\<lparr>dm_used_bytes := dm_used_bytes mgr - dma_align sz\<rparr>"

definition dma_mgr_ptr :: "dma_mgr \<Rightarrow> u32 \<Rightarrow> u64 option" where
  "dma_mgr_ptr mgr offset =
     (if offset \<ge> dm_total_size mgr then None else Some (dm_base mgr + ucast offset))"

subsection \<open>Alignment\<close>

lemma and_minus_64: "w AND - 64 = w - w mod 64" for w :: u32
proof -
  have "w AND NOT (mask 6) = push_bit 6 (drop_bit 6 w)"
    by (rule bit_word_eqI) (auto simp: bit_simps)
  moreover have "push_bit 6 (drop_bit 6 w) + take_bit 6 w = w" by (rule bits_ident)
  ultimately show ?thesis
    by (simp add: mask_eq_exp_minus_1 take_bit_eq_mod eq_diff_eq)
qed

lemma unat_dma_align:
  assumes "unat sz + 63 < 2 ^ 32"
  shows "unat (dma_align sz) = (unat sz + 63) div 64 * 64"
proof -
  have s: "unat (sz + 63) = unat sz + 63" using assms by (simp add: unat_add_no_wrap)
  have "dma_align sz = (sz + 63) - (sz + 63) mod 64"
    by (simp add: dma_align_def DMA_MGR_ALIGN_def and_minus_64 add.commute)
  then have "unat (dma_align sz) = unat (sz + 63) - unat (sz + 63) mod 64"
    by (simp add: unat_sub word_le_nat_alt unat_mod)
  then show ?thesis using s by (simp add: minus_mod_eq_div_mult)
qed

lemma dma_align_bounds:
  assumes "unat sz + 63 < 2 ^ 32" "sz \<noteq> 0"
  shows "unat sz \<le> unat (dma_align sz)" "unat (dma_align sz) \<le> unat sz + 63"
    "unat (dma_align sz) mod 64 = 0" "0 < unat (dma_align sz)"
proof -
  have "0 < unat sz" using assms(2) by (simp add: unat_gt_0)
  then show "unat sz \<le> unat (dma_align sz)" "unat (dma_align sz) \<le> unat sz + 63"
    "unat (dma_align sz) mod 64 = 0" "0 < unat (dma_align sz)"
    using assms(1) by (simp_all add: unat_dma_align)
qed

subsection \<open>Concurrent allocation\<close>

datatype alloc_pc =
    A_Idle
  | A_Loaded u32 u32       \<comment> \<open>aligned size, value of \<open>next_free\<close> seen by this iteration\<close>
  | A_Won u32              \<comment> \<open>swapped, \<open>used_bytes\<close> not yet added\<close>

record alloc_sys =
  as_mgr :: dma_mgr
  as_pc :: "nat \<Rightarrow> alloc_pc"
  as_regions :: "(nat \<times> nat) list"   \<comment> \<open>offset and aligned length of every successful allocation\<close>

definition size_ok :: "dma_mgr \<Rightarrow> u32 \<Rightarrow> bool" where
  "size_ok mgr sz \<longleftrightarrow> sz \<noteq> 0 \<and> unat (dm_total_size mgr) + unat sz + 63 < 2 ^ 32"

inductive alloc_step :: "alloc_sys \<Rightarrow> alloc_sys \<Rightarrow> bool" where
  load: "as_pc s i = A_Idle \<Longrightarrow> size_ok (as_mgr s) sz \<Longrightarrow>
     alloc_step s (s\<lparr>as_pc := (as_pc s)(i := A_Loaded (dma_align sz) (dm_next_free (as_mgr s)))\<rparr>)"
| reject: "as_pc s i = A_Loaded n off \<Longrightarrow> off + n > dm_total_size (as_mgr s) \<Longrightarrow>
     alloc_step s (s\<lparr>as_pc := (as_pc s)(i := A_Idle)\<rparr>)"
| cas_ok: "as_pc s i = A_Loaded n off \<Longrightarrow> \<not> off + n > dm_total_size (as_mgr s) \<Longrightarrow>
     dm_next_free (as_mgr s) = off \<Longrightarrow>
     alloc_step s (s\<lparr>as_pc := (as_pc s)(i := A_Won n),
                     as_mgr := (as_mgr s)\<lparr>dm_next_free := off + n\<rparr>,
                     as_regions := (unat off, unat n) # as_regions s\<rparr>)"
| cas_fail: "as_pc s i = A_Loaded n off \<Longrightarrow> \<not> off + n > dm_total_size (as_mgr s) \<Longrightarrow>
     alloc_step s (s\<lparr>as_pc := (as_pc s)(i := A_Loaded n (dm_next_free (as_mgr s)))\<rparr>)"
| account: "as_pc s i = A_Won n \<Longrightarrow>
     alloc_step s (s\<lparr>as_pc := (as_pc s)(i := A_Idle),
                     as_mgr := (as_mgr s)\<lparr>dm_used_bytes := dm_used_bytes (as_mgr s) + n\<rparr>\<rparr>)"
| free: "as_pc s i = A_Idle \<Longrightarrow>
     alloc_step s (s\<lparr>as_mgr := dma_mgr_free (as_mgr s) off sz\<rparr>)"

inductive alloc_reach :: "u64 \<Rightarrow> u32 \<Rightarrow> alloc_sys \<Rightarrow> bool" for base tot where
  start: "alloc_reach base tot \<lparr>as_mgr = dma_mgr_init base tot, as_pc = (\<lambda>_. A_Idle), as_regions = []\<rparr>"
| step: "alloc_reach base tot s \<Longrightarrow> alloc_step s t \<Longrightarrow> alloc_reach base tot t"

text \<open>Regions are stacked without gaps, newest first, and end where the next allocation starts.\<close>

fun stacked :: "nat \<Rightarrow> (nat \<times> nat) list \<Rightarrow> bool" where
  "stacked hi [] \<longleftrightarrow> hi = 0"
| "stacked hi ((off, len) # rs) \<longleftrightarrow> hi = off + len \<and> 0 < len \<and> off mod 64 = 0 \<and> stacked off rs"

definition region_disjoint :: "nat \<times> nat \<Rightarrow> nat \<times> nat \<Rightarrow> bool" where
  "region_disjoint r q \<longleftrightarrow> fst r + snd r \<le> fst q \<or> fst q + snd q \<le> fst r"

lemma stacked_below: "stacked hi rs \<Longrightarrow> r \<in> set rs \<Longrightarrow> fst r + snd r \<le> hi \<and> fst r mod 64 = 0"
  by (induction hi rs rule: stacked.induct) fastforce+

lemma stacked_disjoint: "stacked hi rs \<Longrightarrow> sorted_wrt region_disjoint rs"
proof (induction hi rs rule: stacked.induct)
  case (1 hi)
  then show ?case by simp
next
  case (2 hi off len rs)
  then show ?case using stacked_below [of off rs] by (auto simp: region_disjoint_def)
qed

lemma stacked_top_aligned: "stacked hi rs \<Longrightarrow> (\<forall>r\<in>set rs. snd r mod 64 = 0) \<Longrightarrow> hi mod 64 = 0"
  by (cases rs) (auto simp: mod_add_eq)

definition alloc_inv :: "u32 \<Rightarrow> alloc_sys \<Rightarrow> bool" where
  "alloc_inv tot s \<longleftrightarrow> dm_total_size (as_mgr s) = tot
     \<and> unat (dm_next_free (as_mgr s)) \<le> unat tot
     \<and> stacked (unat (dm_next_free (as_mgr s))) (as_regions s)
     \<and> (\<forall>r\<in>set (as_regions s). snd r mod 64 = 0)
     \<and> (\<forall>i n off. as_pc s i = A_Loaded n off \<longrightarrow> unat off \<le> unat tot
           \<and> 0 < unat n \<and> unat n mod 64 = 0 \<and> unat tot + unat n < 2 ^ 32)"

lemma alloc_inv_start:
  "alloc_inv tot \<lparr>as_mgr = dma_mgr_init base tot, as_pc = (\<lambda>_. A_Idle), as_regions = []\<rparr>"
  by (simp add: alloc_inv_def dma_mgr_init_def)

lemma alloc_inv_step: "alloc_step s t \<Longrightarrow> alloc_inv tot s \<Longrightarrow> alloc_inv tot t"
proof (induction rule: alloc_step.induct)
  case (load s i sz)
  then have "unat sz + 63 < 2 ^ 32" "sz \<noteq> 0" "unat tot + unat sz + 63 < 2 ^ 32"
    by (auto simp: size_ok_def alloc_inv_def)
  with dma_align_bounds [of sz] load show ?case by (auto simp: alloc_inv_def)
next
  case (cas_ok s i n off)
  have t: "dm_total_size (as_mgr s) = tot" and off: "unat off \<le> unat tot"
    and n: "0 < unat n" "unat n mod 64 = 0" "unat tot + unat n < 2 ^ 32"
    using cas_ok by (auto simp: alloc_inv_def)
  have sum: "unat (off + n) = unat off + unat n" using off n by (intro unat_add_no_wrap) simp
  have "unat off + unat n \<le> unat tot" using cas_ok(2) t sum by (simp add: word_le_nat_alt linorder_not_less)
  moreover have "unat off mod 64 = 0"
    using cas_ok stacked_top_aligned [of "unat off" "as_regions s"] by (auto simp: alloc_inv_def)
  ultimately show ?case using cas_ok sum n by (auto simp: alloc_inv_def)
qed (auto simp: alloc_inv_def dma_mgr_free_def)

lemma alloc_reach_inv: "alloc_reach base tot s \<Longrightarrow> alloc_inv tot s"
  by (induction rule: alloc_reach.induct) (auto intro: alloc_inv_start alloc_inv_step)

text \<open>An undisturbed run of one thread is the sequential function.\<close>

lemma alloc_alone:
  assumes "size_ok mgr sz" and "dma_mgr_alloc mgr sz = (off, mgr')" and "off \<noteq> DMA_MGR_INVALID"
    and "pcs i = A_Idle"
  shows "\<exists>s1 s2. alloc_step \<lparr>as_mgr = mgr, as_pc = pcs, as_regions = rs\<rparr> s1 \<and> alloc_step s1 s2
    \<and> alloc_step s2 \<lparr>as_mgr = mgr', as_pc = pcs, as_regions = (unat off, unat (dma_align sz)) # rs\<rparr>"
proof -
  let ?s = "\<lparr>as_mgr = mgr, as_pc = pcs, as_regions = rs\<rparr>" and ?n = "dma_align sz"
  have nz: "sz \<noteq> 0" using assms(1) by (simp add: size_ok_def)
  have off: "off = dm_next_free mgr" and fits: "\<not> off + ?n > dm_total_size mgr"
    and mgr': "mgr' = mgr\<lparr>dm_next_free := off + ?n, dm_used_bytes := dm_used_bytes mgr + ?n\<rparr>"
    using assms(2,3) nz by (auto simp: dma_mgr_alloc_def Let_def split: if_splits)
  let ?s1 = "?s\<lparr>as_pc := pcs(i := A_Loaded ?n off)\<rparr>"
  let ?s2 = "?s1\<lparr>as_pc := (as_pc ?s1)(i := A_Won ?n), as_mgr := (as_mgr ?s1)\<lparr>dm_next_free := off + ?n\<rparr>,
      as_regions := (unat off, unat ?n) # as_regions ?s1\<rparr>"
  have "alloc_step ?s ?s1" using alloc_step.load [of ?s i sz] assms(1,4) off by simp
  moreover have "alloc_step ?s1 ?s2" using alloc_step.cas_ok [of ?s1 i ?n off] fits off by simp
  moreover have "alloc_step ?s2 \<lparr>as_mgr = mgr', as_pc = pcs, as_regions = (unat off, unat ?n) # rs\<rparr>"
    using alloc_step.account [of ?s2 i ?n] assms(4) by (simp add: mgr' fun_upd_idem)
  ultimately show ?thesis by blast
qed

subsection \<open>Properties\<close>



text \<open>An allocation request within 63 bytes of \<open>2 ^ 32\<close> wraps to an aligned size of 0: it succeeds with
  the current offset and reserves nothing, so the next allocation gets the same region.\<close>

lemma dma_alloc_size_wraps:
  assumes "unat sz > 0xFFFFFFC0" and "dm_next_free mgr \<le> dm_total_size mgr"
  shows "dma_mgr_alloc mgr sz = (dm_next_free mgr, mgr)"
proof -
  have "unat (sz + 63) < 64" using assms(1) unat_bounds(3) [of sz] by (simp add: unat_word_ariths le_mod_geq)
  then have "sz + 63 = (sz + 63) mod 64" by (simp add: word_unat_eq_iff unat_mod)
  then have "dma_align sz = 0" by (simp add: dma_align_def DMA_MGR_ALIGN_def and_minus_64 add.commute)
  moreover have "sz \<noteq> 0" using assms(1) by auto
  ultimately show ?thesis using assms(2) by (auto simp: dma_mgr_alloc_def Let_def)
qed

lemma dma_alloc_size_wraps_witness:
  "dma_mgr_alloc (dma_mgr_init 0 4096) 0xFFFFFFFF = (0, dma_mgr_init 0 4096)"
  using dma_alloc_size_wraps [of "0xFFFFFFFF" "dma_mgr_init 0 4096"] by (simp add: dma_mgr_init_def)

end
