(* ===== verification/Link_Model.thy ===== *)
theory Link_Model
  imports Prelude
begin

section \<open>Ethernet link model: link\_model.c\<close>

text \<open>
  Drop bursts driven by a xorshift generator, a serialisation clock with a fixed latency, and a
  window on outstanding frames.  All fields keep their C widths.
\<close>

record link_model =
  lm_drop_rate_ppm :: u32
  lm_burst_drop_len :: u16
  lm_rate_mbps :: u32
  lm_latency_ns :: u64
  lm_fc_window :: u32
  lm_rng_state :: u32
  lm_burst_remaining :: u16
  lm_token_bucket_ns :: u64
  lm_outstanding :: u32

definition xs32 :: "u32 \<Rightarrow> u32" where
  "xs32 s =
     (let x = (if s \<noteq> 0 then s else 0xDEADBEEF);
          x = x XOR push_bit 13 x;
          x = x XOR drop_bit 17 x
      in x XOR push_bit 5 x)"

definition link_model_reset :: "link_model \<Rightarrow> u32 \<Rightarrow> link_model" where
  "link_model_reset m seed = m\<lparr>lm_rng_state := (if seed \<noteq> 0 then seed else 1),
     lm_burst_remaining := 0, lm_token_bucket_ns := 0, lm_outstanding := 0\<rparr>"

definition link_model_should_drop :: "link_model \<Rightarrow> bool \<times> link_model" where
  "link_model_should_drop m =
     (if lm_burst_remaining m > 0 then (True, m\<lparr>lm_burst_remaining := lm_burst_remaining m - 1\<rparr>)
      else if lm_drop_rate_ppm m = 0 then (False, m)
      else let s = xs32 (lm_rng_state m);
               m1 = m\<lparr>lm_rng_state := s\<rparr>;
               r = s mod 1000000
           in if r < lm_drop_rate_ppm m
              then let burst = (if lm_burst_drop_len m = 0 then 1 else lm_burst_drop_len m)
                   in (True, m1\<lparr>lm_burst_remaining := burst - 1\<rparr>)
              else (False, m1))"

definition link_serialize_ns :: "link_model \<Rightarrow> u32 \<Rightarrow> u64" where
  "link_serialize_ns m frame_bytes =
     (if lm_rate_mbps m > 0 then (ucast frame_bytes * 8000) div ucast (lm_rate_mbps m) else 0)"

definition link_model_deadline :: "link_model \<Rightarrow> u32 \<Rightarrow> u64 \<Rightarrow> u64 \<times> link_model" where
  "link_model_deadline m frame_bytes now_ns =
     (let serialize_ns = link_serialize_ns m frame_bytes;
          earliest = (if now_ns > lm_token_bucket_ns m then now_ns else lm_token_bucket_ns m)
      in (earliest + serialize_ns + lm_latency_ns m,
          m\<lparr>lm_token_bucket_ns := earliest + serialize_ns\<rparr>))"

definition link_model_fc_can_send :: "link_model \<Rightarrow> bool" where
  "link_model_fc_can_send m \<longleftrightarrow> lm_fc_window m = 0 \<or> lm_outstanding m < lm_fc_window m"

definition link_model_inc_outstanding :: "link_model \<Rightarrow> link_model" where
  "link_model_inc_outstanding m = m\<lparr>lm_outstanding := lm_outstanding m + 1\<rparr>"

definition link_model_dec_outstanding :: "link_model \<Rightarrow> link_model" where
  "link_model_dec_outstanding m =
     (if lm_outstanding m > 0 then m\<lparr>lm_outstanding := lm_outstanding m - 1\<rparr> else m)"

subsection \<open>The generator never reaches the stuck state 0\<close>

lemma push_bit_fixed_0:
  fixes x :: "'a::len word"
  assumes "x = push_bit k x" "0 < k"
  shows "x = 0"
proof (rule bit_word_eqI)
  fix n
  show "bit x n = bit 0 n"
  proof (induction n rule: less_induct)
    case (less n)
    have "bit x n \<longleftrightarrow> bit (push_bit k x) n" using assms(1) by simp
    then show ?case using less.IH [of "n - k"] assms(2) by (auto simp: bit_simps)
  qed
qed

lemma drop_bit_fixed_0:
  fixes x :: "'a::len word"
  assumes "x = drop_bit k x" "0 < k"
  shows "x = 0"
proof (rule bit_word_eqI)
  fix n
  show "bit x n = bit 0 n"
  proof (induction "LENGTH('a) - n" arbitrary: n rule: less_induct)
    case less
    have "bit x n \<longleftrightarrow> bit x (k + n)" using assms(1) by (metis bit_drop_bit_eq comp_apply)
    show ?case
    proof (cases "n < LENGTH('a)")
      case True
      then have "\<not> bit x (k + n)" using less.hyps [of "k + n"] assms(2) by simp
      then show ?thesis using \<open>bit x n \<longleftrightarrow> bit x (k + n)\<close> by simp
    next
      case False
      then show ?thesis by (auto dest: bit_imp_le_length)
    qed
  qed
qed

lemma xor_self_zero: "x XOR y = 0 \<longleftrightarrow> x = y" for x y :: "'a::len word"
  by (auto simp: bit_eq_iff bit_simps)

lemma xs32_nonzero: "xs32 s \<noteq> 0"
proof -
  have p: "x XOR push_bit k x \<noteq> 0" if "x \<noteq> 0" "0 < k" for x :: u32 and k
    using push_bit_fixed_0 [of x k] that by (auto simp: xor_self_zero)
  have d: "x XOR drop_bit k x \<noteq> 0" if "x \<noteq> 0" "0 < k" for x :: u32 and k
    using drop_bit_fixed_0 [of x k] that by (auto simp: xor_self_zero)
  show ?thesis by (simp only: xs32_def Let_def) (rule p | rule d | simp)+
qed

subsection \<open>Drop bursts\<close>

fun drop_run :: "nat \<Rightarrow> link_model \<Rightarrow> bool list \<times> link_model" where
  "drop_run 0 m = ([], m)"
| "drop_run (Suc n) m =
     (let (d, m1) = link_model_should_drop m; (ds, m2) = drop_run n m1 in (d # ds, m2))"

lemma drop_run_burst:
  "unat (lm_burst_remaining m) = n \<Longrightarrow>
     drop_run n m = (replicate n True, m\<lparr>lm_burst_remaining := 0\<rparr>)"
proof (induction n arbitrary: m)
  case 0
  then have "lm_burst_remaining m = 0" by (simp add: unat_eq_0)
  then show ?case by simp
next
  case (Suc n)
  then have pos: "lm_burst_remaining m > 0" by (auto simp: word_gt_0)
  then have "unat (lm_burst_remaining m - 1) = n"
    using Suc.prems by (simp add: unat_minus_one word_gt_0)
  then show ?case
    using Suc.IH [of "m\<lparr>lm_burst_remaining := lm_burst_remaining m - 1\<rparr>"] pos
    by (simp add: link_model_should_drop_def)
qed

text \<open>The configured burst length, read as the code reads it (0 means 1).\<close>

definition burst_len :: "link_model \<Rightarrow> nat" where
  "burst_len m = (if lm_burst_drop_len m = 0 then 1 else unat (lm_burst_drop_len m))"

lemma should_drop_trigger:
  assumes "lm_burst_remaining m = 0" and "link_model_should_drop m = (True, m1)"
  shows "unat (lm_burst_remaining m1) = burst_len m - 1"
  using assms by (auto simp: link_model_should_drop_def burst_len_def Let_def unat_minus_one split: if_splits)

lemma should_drop_frame [simp]:
  "lm_outstanding (snd (link_model_should_drop m)) = lm_outstanding m"
  "lm_fc_window (snd (link_model_should_drop m)) = lm_fc_window m"
  "lm_token_bucket_ns (snd (link_model_should_drop m)) = lm_token_bucket_ns m"
  "lm_rate_mbps (snd (link_model_should_drop m)) = lm_rate_mbps m"
  "lm_latency_ns (snd (link_model_should_drop m)) = lm_latency_ns m"
  "lm_drop_rate_ppm (snd (link_model_should_drop m)) = lm_drop_rate_ppm m"
  "lm_burst_drop_len (snd (link_model_should_drop m)) = lm_burst_drop_len m"
  by (simp_all add: link_model_should_drop_def Let_def)

lemma no_drop_rate_0:
  "lm_burst_remaining m = 0 \<Longrightarrow> lm_drop_rate_ppm m = 0 \<Longrightarrow> link_model_should_drop m = (False, m)"
  by (simp add: link_model_should_drop_def)

lemma always_drop_rate_full:
  assumes "unat (lm_drop_rate_ppm m) \<ge> 1000000"
  shows "fst (link_model_should_drop m)"
proof -
  have "unat (xs32 (lm_rng_state m) mod 1000000) < 1000000"
    by (simp add: unat_mod)
  then have "xs32 (lm_rng_state m) mod 1000000 < lm_drop_rate_ppm m"
    using assms by (simp only: word_less_nat_alt)
  moreover have "lm_drop_rate_ppm m \<noteq> 0" using assms by auto
  ultimately show ?thesis by (simp add: link_model_should_drop_def Let_def)
qed

subsection \<open>Serialisation\<close>

lemma deadline_frame [simp]:
  "lm_outstanding (snd (link_model_deadline m n now)) = lm_outstanding m"
  "lm_fc_window (snd (link_model_deadline m n now)) = lm_fc_window m"
  "lm_rate_mbps (snd (link_model_deadline m n now)) = lm_rate_mbps m"
  "lm_latency_ns (snd (link_model_deadline m n now)) = lm_latency_ns m"
  by (simp_all add: link_model_deadline_def Let_def)

lemma unat_ucast_u32_64: "unat (ucast w :: u64) = unat w" for w :: u32
  using unat_bounds(3) [of w] by (simp add: unsigned_ucast_eq take_bit_nat_eq_self)

lemma unat_link_serialize:
  "unat (link_serialize_ns m n) =
     (if unat (lm_rate_mbps m) = 0 then 0 else unat n * 8000 div unat (lm_rate_mbps m))"
proof -
  have "unat (ucast n * 8000 :: u64) = unat n * 8000"
    using unat_bounds(3) [of n]
    by (simp add: unat_word_ariths unsigned_ucast_eq take_bit_nat_eq_self)
  then show ?thesis
    by (auto simp: link_serialize_ns_def unat_div word_gt_0 unat_eq_0 unat_ucast_u32_64)
qed

definition deadline_fits :: "link_model \<Rightarrow> u32 \<Rightarrow> u64 \<Rightarrow> bool" where
  "deadline_fits m n now \<longleftrightarrow>
     max (unat now) (unat (lm_token_bucket_ns m)) + unat (link_serialize_ns m n) + unat (lm_latency_ns m) < 2 ^ 64"

lemma deadline_unat:
  assumes "deadline_fits m n now" and "link_model_deadline m n now = (dl, m1)"
  shows "unat dl = max (unat now) (unat (lm_token_bucket_ns m)) + unat (link_serialize_ns m n) + unat (lm_latency_ns m)"
    and "unat (lm_token_bucket_ns m1) = max (unat now) (unat (lm_token_bucket_ns m)) + unat (link_serialize_ns m n)"
proof -
  define e where "e = (if now > lm_token_bucket_ns m then now else lm_token_bucket_ns m)"
  have e: "unat e = max (unat now) (unat (lm_token_bucket_ns m))"
    by (simp add: e_def word_less_nat_alt max_def)
  have dl: "dl = e + link_serialize_ns m n + lm_latency_ns m"
    and m1: "m1 = m\<lparr>lm_token_bucket_ns := e + link_serialize_ns m n\<rparr>"
    using assms(2) by (auto simp: link_model_deadline_def Let_def e_def)
  have s: "unat (e + link_serialize_ns m n) = unat e + unat (link_serialize_ns m n)"
    using assms(1) by (intro unat_add_no_wrap) (simp add: deadline_fits_def e)
  then show "unat (lm_token_bucket_ns m1) = max (unat now) (unat (lm_token_bucket_ns m)) + unat (link_serialize_ns m n)"
    by (simp add: m1 e)
  have "unat dl = unat (e + link_serialize_ns m n) + unat (lm_latency_ns m)"
    using assms(1) unfolding dl by (intro unat_add_no_wrap) (simp add: deadline_fits_def e s)
  then show "unat dl = max (unat now) (unat (lm_token_bucket_ns m)) + unat (link_serialize_ns m n) + unat (lm_latency_ns m)"
    by (simp add: s e)
qed

subsection \<open>Properties\<close>

text \<open>Once the link model decides to drop a frame outside a burst, exactly the following
  \<open>burst_drop_len - 1\<close> frames (none when the length is 0 or 1) are dropped without consulting the
  generator, and then the burst is over.\<close>

lemma link_burst_exact:
  assumes "lm_burst_remaining m = 0" and "link_model_should_drop m = (True, m1)"
  shows "drop_run (burst_len m - 1) m1 = (replicate (burst_len m - 1) True, m1\<lparr>lm_burst_remaining := 0\<rparr>)
    \<and> lm_rng_state m1 = xs32 (lm_rng_state m) \<and> lm_rng_state m1 \<noteq> 0"
proof -
  have "lm_rng_state m1 = xs32 (lm_rng_state m)"
    using assms by (auto simp: link_model_should_drop_def Let_def split: if_splits)
  then show ?thesis using drop_run_burst [OF should_drop_trigger [OF assms]] xs32_nonzero by simp
qed

lemma link_burst_exact_witness:
  "\<exists>m1. drop_run 2 m1 = ([True, True], m1\<lparr>lm_burst_remaining := 0\<rparr>) \<and> lm_burst_drop_len m1 = 3"
proof -
  let ?m = "\<lparr>lm_drop_rate_ppm = 1000000, lm_burst_drop_len = 3, lm_rate_mbps = 0, lm_latency_ns = 0,
     lm_fc_window = 0, lm_rng_state = 1, lm_burst_remaining = 0, lm_token_bucket_ns = 0, lm_outstanding = 0\<rparr>"
  have "fst (link_model_should_drop ?m)" by (rule always_drop_rate_full) simp
  then obtain m1 where m1: "link_model_should_drop ?m = (True, m1)" by (metis prod.collapse)
  have "lm_burst_drop_len m1 = 3" using should_drop_frame(7) [of ?m] m1 by simp
  moreover have "burst_len ?m - 1 = 2" by (simp add: burst_len_def)
  then have "drop_run 2 m1 = (replicate 2 True, m1\<lparr>lm_burst_remaining := 0\<rparr>)"
    using link_burst_exact [OF _ m1] by simp
  moreover have "replicate 2 True = [True, True]" by (simp add: numeral_2_eq_2)
  ultimately show ?thesis by auto
qed

end
