(* ===== verification/Eth_Shm.thy ===== *)
theory Eth_Shm
  imports Fifo
begin

section \<open>The Ethernet link: eth\_types.h, eth\_shm.c\<close>

text \<open>
  Two frame rings and a control block in shared memory.  A ring is a \<^theory_text>\<open>bounded_fifo\<close>
  whose producer index is \<open>head\<close> (the opposite naming of ring\_buffer.c); the control block holds the
  ready flags and the published simulation time of both nodes.
\<close>

definition ETH_FRAME_MAX_DATA :: nat where
  [code_consts]: "ETH_FRAME_MAX_DATA = 9216"

definition ETH_FRAME_RING_DEPTH :: nat where
  [code_consts]: "ETH_FRAME_RING_DEPTH = 256"

datatype eth_role = ETH_ROLE_A | ETH_ROLE_B

record eth_frame =
  ef_len :: u16
  ef_flags :: u16
  ef_seq :: u32
  ef_timestamp_ns :: u64
  ef_data :: bytes

definition wf_frame :: "eth_frame \<Rightarrow> bool" where
  "wf_frame f \<longleftrightarrow> length (ef_data f) = ETH_FRAME_MAX_DATA"

definition frame_zero :: eth_frame where
  "frame_zero = \<lparr>ef_len = 0, ef_flags = 0, ef_seq = 0, ef_timestamp_ns = 0,
     ef_data = replicate ETH_FRAME_MAX_DATA 0\<rparr>"

lemma wf_frame_zero [simp]: "wf_frame frame_zero"
  by (simp add: wf_frame_def frame_zero_def)

definition enc_frame :: "eth_frame \<Rightarrow> bytes" where
  [codec_simps]: "enc_frame f = le_bytes 2 (ef_len f) @ le_bytes 2 (ef_flags f) @ le_bytes 4 (ef_seq f)
     @ le_bytes 8 (ef_timestamp_ns f) @ ef_data f"

definition dec_frame :: "bytes \<Rightarrow> eth_frame" where
  [codec_simps]: "dec_frame bs = \<lparr>ef_len = le_word (field 0 2 bs), ef_flags = le_word (field 2 2 bs),
     ef_seq = le_word (field 4 4 bs), ef_timestamp_ns = le_word (field 8 8 bs),
     ef_data = field 16 ETH_FRAME_MAX_DATA bs\<rparr>"

lemma length_enc_frame [simp]: "wf_frame f \<Longrightarrow> length (enc_frame f) = 9232"
  by (simp add: enc_frame_def wf_frame_def code_consts)

lemma dec_enc_frame [simp]: "wf_frame f \<Longrightarrow> dec_frame (enc_frame f) = f"
  by (simp add: codec_simps wf_frame_def)

subsection \<open>Frame rings\<close>

record eth_ring =
  er_head :: u32
  er_tail :: u32
  er_depth :: u32
  er_slots :: "eth_frame list"

definition eth_shm_enqueue :: "eth_ring \<Rightarrow> eth_frame \<Rightarrow> rc \<times> eth_ring" where
  "eth_shm_enqueue ring f =
     (let head = er_head ring;
          tail = er_tail ring;
          nxt = (head + 1) mod er_depth ring
      in if nxt = tail then (-1, ring)
         else (0, ring\<lparr>er_slots := (er_slots ring)[unat head := f], er_head := nxt\<rparr>))"

definition eth_shm_dequeue :: "eth_ring \<Rightarrow> eth_frame option \<times> eth_ring" where
  "eth_shm_dequeue ring =
     (let tail = er_tail ring;
          head = er_head ring
      in if tail = head then (None, ring)
         else (Some (er_slots ring ! unat tail), ring\<lparr>er_tail := (tail + 1) mod er_depth ring\<rparr>))"

definition eth_items :: "eth_ring \<Rightarrow> eth_frame list" where
  "eth_items ring = map ((!) (er_slots ring))
     (ring_idx (unat (er_tail ring)) (unat (er_head ring)) (unat (er_depth ring)))"

definition eth_ring_inv :: "eth_ring \<Rightarrow> bool" where
  "eth_ring_inv ring \<longleftrightarrow> 2 \<le> unat (er_depth ring) \<and> length (er_slots ring) = unat (er_depth ring)
     \<and> unat (er_head ring) < unat (er_depth ring) \<and> unat (er_tail ring) < unat (er_depth ring)
     \<and> (\<forall>f\<in>set (er_slots ring). wf_frame f)"

definition eth_ring_cap :: "eth_ring \<Rightarrow> nat" where
  "eth_ring_cap ring = unat (er_depth ring) - 1"

lemma length_eth_items: "eth_ring_inv r \<Longrightarrow> length (eth_items r) \<le> eth_ring_cap r"
  using ring_count_le [of "unat (er_tail r)" "unat (er_depth r)" "unat (er_head r)"]
  by (simp add: eth_items_def eth_ring_cap_def eth_ring_inv_def)

lemma eth_full_iff:
  assumes "eth_ring_inv r"
  shows "(er_head r + 1) mod er_depth r = er_tail r \<longleftrightarrow> \<not> length (eth_items r) < eth_ring_cap r"
proof -
  have "(er_head r + 1) mod er_depth r = er_tail r
      \<longleftrightarrow> Suc (unat (er_head r)) mod unat (er_depth r) = unat (er_tail r)"
    using assms by (simp add: word_unat_eq_iff unat_next_index eth_ring_inv_def)
  also have "\<dots> \<longleftrightarrow> length (eth_items r) = eth_ring_cap r"
    using assms by (simp add: eth_ring_inv_def ring_full_iff eth_items_def eth_ring_cap_def)
  finally show ?thesis using length_eth_items [OF assms] by auto
qed

lemma eth_enqueue_room:
  assumes inv: "eth_ring_inv r" and room: "length (eth_items r) < eth_ring_cap r"
  shows "fst (eth_shm_enqueue r f) = 0 \<and> eth_items (snd (eth_shm_enqueue r f)) = eth_items r @ [f]"
proof -
  let ?h = "unat (er_head r)" and ?t = "unat (er_tail r)" and ?c = "unat (er_depth r)"
  have h: "?h < ?c" and t: "?t < ?c" and len: "length (er_slots r) = ?c"
    using inv by (simp_all add: eth_ring_inv_def)
  have notfull: "(er_head r + 1) mod er_depth r \<noteq> er_tail r" using eth_full_iff [OF inv] room by simp
  then have nf: "Suc ?h mod ?c \<noteq> ?t" using h by (simp add: word_unat_eq_iff unat_next_index)
  have "(er_slots r)[?h := f] ! i = er_slots r ! i" if "i \<in> set (ring_idx ?t ?h ?c)" for i
    using that ring_tail_not_live [OF t h] by (metis nth_list_update_neq)
  then show ?thesis
    using notfull h t len nf
    by (simp add: eth_shm_enqueue_def Let_def eth_items_def unat_next_index ring_idx_push)
qed

lemma eth_enqueue_full:
  "eth_ring_inv r \<Longrightarrow> \<not> length (eth_items r) < eth_ring_cap r \<Longrightarrow> eth_shm_enqueue r f = (-1, r)"
  using eth_full_iff [of r] by (simp add: eth_shm_enqueue_def Let_def)

lemma eth_enqueue_inv:
  assumes "eth_ring_inv r" "wf_frame f"
  shows "eth_ring_inv (snd (eth_shm_enqueue r f))" "er_depth (snd (eth_shm_enqueue r f)) = er_depth r"
  using assms set_update_subset_insert [of "er_slots r" "unat (er_head r)" f]
  by (auto simp: eth_shm_enqueue_def Let_def eth_ring_inv_def unat_next_index)

lemma eth_dequeue_some:
  assumes inv: "eth_ring_inv r" and items: "eth_items r = f # fs"
  shows "fst (eth_shm_dequeue r) = Some f \<and> eth_items (snd (eth_shm_dequeue r)) = fs"
proof -
  let ?h = "unat (er_head r)" and ?t = "unat (er_tail r)" and ?c = "unat (er_depth r)"
  have h: "?h < ?c" and t: "?t < ?c" using inv by (simp_all add: eth_ring_inv_def)
  have ne: "?t \<noteq> ?h" using items h t by (auto simp: eth_items_def ring_idx_def)
  then have "eth_items r = er_slots r ! ?t # map ((!) (er_slots r)) (ring_idx (Suc ?t mod ?c) ?h ?c)"
    using ring_idx_pop [OF t h] by (simp add: eth_items_def)
  then show ?thesis
    using items ne t by (auto simp: eth_shm_dequeue_def Let_def eth_items_def unat_next_index)
qed

lemma eth_dequeue_none: "eth_ring_inv r \<Longrightarrow> eth_items r = [] \<Longrightarrow> eth_shm_dequeue r = (None, r)"
  by (simp add: eth_items_def eth_shm_dequeue_def Let_def eth_ring_inv_def ring_idx_empty word_unat_eq_iff)

lemma eth_dequeue_inv:
  assumes "eth_ring_inv r"
  shows "eth_ring_inv (snd (eth_shm_dequeue r))" "er_depth (snd (eth_shm_dequeue r)) = er_depth r"
  using assms by (auto simp: eth_shm_dequeue_def Let_def eth_ring_inv_def unat_next_index)

interpretation er: bounded_fifo eth_shm_enqueue eth_shm_dequeue eth_items eth_ring_inv eth_ring_cap wf_frame
  by unfold_locales
    (use eth_enqueue_room eth_enqueue_full eth_dequeue_some eth_dequeue_none length_eth_items
      in \<open>auto simp: eth_ring_cap_def eth_enqueue_inv eth_dequeue_inv\<close>)

lemma eth_items_wf: "eth_ring_inv r \<Longrightarrow> f \<in> set (eth_items r) \<Longrightarrow> wf_frame f"
  by (auto simp: eth_items_def eth_ring_inv_def dest!: ring_idx_less [rotated])

subsection \<open>The shared object and a handle on it\<close>

text \<open>\<open>ec_ready\<close> and \<open>ec_time\<close> are the two-element arrays indexed by role.\<close>

record eth_ctrl =
  ec_magic :: u32
  ec_version :: u32
  ec_ready :: "eth_role \<Rightarrow> u32"
  ec_time :: "eth_role \<Rightarrow> u64"
  ec_link_up :: u32

record eth_link =
  el_ctrl :: eth_ctrl
  el_a_to_b :: eth_ring
  el_b_to_a :: eth_ring

text \<open>The handle: \<open>es_mapped\<close> is \<open>base != NULL\<close>, \<open>es_ctrl\<close> is \<open>ctrl != NULL\<close> (closing a handle clears
  the former only).  The mapped object itself is a separate argument of the operations.\<close>

record eth_shm =
  es_mapped :: bool
  es_ctrl :: bool
  es_fd :: int
  es_name :: string

definition ETH_SHM_MAGIC :: u32 where
  [code_consts]: "ETH_SHM_MAGIC = 0x45544831"

definition ETH_SHM_VERSION :: u32 where
  [code_consts]: "ETH_SHM_VERSION = 1"

definition eth_ring_zero :: eth_ring where
  "eth_ring_zero = \<lparr>er_head = 0, er_tail = 0, er_depth = 0,
     er_slots = replicate ETH_FRAME_RING_DEPTH frame_zero\<rparr>"

text \<open>The object as \<open>ftruncate\<close> leaves it (all bytes zero), and as the creator initialises it.\<close>

definition eth_link_zero :: eth_link where
  "eth_link_zero = \<lparr>el_ctrl = \<lparr>ec_magic = 0, ec_version = 0, ec_ready = (\<lambda>_. 0), ec_time = (\<lambda>_. 0),
       ec_link_up = 0\<rparr>, el_a_to_b = eth_ring_zero, el_b_to_a = eth_ring_zero\<rparr>"

definition eth_link_init :: eth_link where
  "eth_link_init = eth_link_zero\<lparr>
     el_ctrl := (el_ctrl eth_link_zero)\<lparr>ec_magic := ETH_SHM_MAGIC, ec_version := ETH_SHM_VERSION,
       ec_link_up := 1\<rparr>,
     el_a_to_b := eth_ring_zero\<lparr>er_depth := of_nat ETH_FRAME_RING_DEPTH\<rparr>,
     el_b_to_a := eth_ring_zero\<lparr>er_depth := of_nat ETH_FRAME_RING_DEPTH\<rparr>\<rparr>"

text \<open>What the operating system answers: the descriptor of a successful \<open>shm_open\<close>, and whether each
  call fails.  The object found under the name, if any, is the \<open>eth_link option\<close> argument.\<close>

record os_answers =
  os_fd :: int
  os_open_fails :: bool
  os_truncate_fails :: bool
  os_mmap_fails :: bool

definition eth_shm_zero :: eth_shm where
  "eth_shm_zero = \<lparr>es_mapped = False, es_ctrl = False, es_fd = 0, es_name = []\<rparr>"

definition eth_shm_close :: "eth_shm \<Rightarrow> eth_shm" where
  "eth_shm_close shm = shm\<lparr>es_mapped := False, es_fd := -1\<rparr>"

definition eth_shm_unlink :: "eth_link option \<Rightarrow> eth_link option" where
  "eth_shm_unlink obj = None"

definition eth_shm_open :: "os_answers \<Rightarrow> string \<Rightarrow> bool \<Rightarrow> eth_link option
    \<Rightarrow> rc \<times> eth_shm \<times> eth_link option" where
  "eth_shm_open os name create obj =
     (let shm = eth_shm_zero\<lparr>es_fd := -1, es_name := take 127 name\<rparr>;
          mapped = shm\<lparr>es_fd := os_fd os, es_mapped := True, es_ctrl := True\<rparr>
      in if os_open_fails os \<or> (\<not> create \<and> obj = None) then (-1, shm, obj)
         else if create \<and> os_truncate_fails os then (-1, shm, eth_shm_unlink obj)
         else if os_mmap_fails os then (-1, shm, if obj = None then Some eth_link_zero else obj)
         else if create then (0, mapped, Some eth_link_init)
         else (case obj of
             None \<Rightarrow> (-1, shm, obj)
           | Some l \<Rightarrow>
               if ec_magic (el_ctrl l) \<noteq> ETH_SHM_MAGIC \<or> ec_version (el_ctrl l) \<noteq> ETH_SHM_VERSION
               then (-1, eth_shm_close mapped, obj)
               else (0, mapped, obj)))"

definition eth_peer :: "eth_role \<Rightarrow> eth_role" where
  "eth_peer self_role = (if self_role = ETH_ROLE_A then ETH_ROLE_B else ETH_ROLE_A)"

definition eth_shm_mark_ready :: "eth_shm \<Rightarrow> eth_role \<Rightarrow> eth_link \<Rightarrow> eth_link" where
  "eth_shm_mark_ready shm role l =
     (if \<not> es_ctrl shm then l
      else l\<lparr>el_ctrl := (el_ctrl l)\<lparr>ec_ready := (ec_ready (el_ctrl l))(role := 1)\<rparr>\<rparr>)"

definition eth_shm_peer_ready :: "eth_shm \<Rightarrow> eth_role \<Rightarrow> eth_link \<Rightarrow> bool" where
  "eth_shm_peer_ready shm self_role l =
     (es_ctrl shm \<and> ec_ready (el_ctrl l) (eth_peer self_role) \<noteq> 0)"

definition eth_shm_tx_ring :: "eth_link \<Rightarrow> eth_role \<Rightarrow> eth_ring" where
  "eth_shm_tx_ring l role = (if role = ETH_ROLE_A then el_a_to_b l else el_b_to_a l)"

definition eth_shm_rx_ring :: "eth_link \<Rightarrow> eth_role \<Rightarrow> eth_ring" where
  "eth_shm_rx_ring l role = (if role = ETH_ROLE_A then el_b_to_a l else el_a_to_b l)"

text \<open>Writing through the pointers those two return.\<close>

definition set_tx_ring :: "eth_role \<Rightarrow> eth_ring \<Rightarrow> eth_link \<Rightarrow> eth_link" where
  "set_tx_ring role r l = (if role = ETH_ROLE_A then l\<lparr>el_a_to_b := r\<rparr> else l\<lparr>el_b_to_a := r\<rparr>)"

definition set_rx_ring :: "eth_role \<Rightarrow> eth_ring \<Rightarrow> eth_link \<Rightarrow> eth_link" where
  "set_rx_ring role r l = (if role = ETH_ROLE_A then l\<lparr>el_b_to_a := r\<rparr> else l\<lparr>el_a_to_b := r\<rparr>)"

definition eth_shm_advance_time :: "eth_shm \<Rightarrow> eth_role \<Rightarrow> u64 \<Rightarrow> eth_link \<Rightarrow> eth_link" where
  "eth_shm_advance_time shm role ns l =
     (if \<not> es_ctrl shm then l
      else l\<lparr>el_ctrl := (el_ctrl l)\<lparr>ec_time := (ec_time (el_ctrl l))(role := ns)\<rparr>\<rparr>)"

definition eth_shm_peer_time :: "eth_shm \<Rightarrow> eth_role \<Rightarrow> eth_link \<Rightarrow> u64" where
  "eth_shm_peer_time shm self_role l = (if \<not> es_ctrl shm then 0 else ec_time (el_ctrl l) (eth_peer self_role))"

definition eth_link_inv :: "eth_link \<Rightarrow> bool" where
  "eth_link_inv l \<longleftrightarrow> eth_ring_inv (el_a_to_b l) \<and> eth_ring_inv (el_b_to_a l)"

lemma eth_peer_peer [simp]: "eth_peer (eth_peer role) = role"
  by (cases role) (simp_all add: eth_peer_def)

lemma eth_peer_neq [simp]: "eth_peer role \<noteq> role" "role \<noteq> eth_peer role"
  by (cases role; simp add: eth_peer_def)+

text \<open>One side's transmit ring is the other side's receive ring.\<close>

lemma rx_ring_peer [simp]: "eth_shm_rx_ring l (eth_peer role) = eth_shm_tx_ring l role"
  by (cases role) (simp_all add: eth_peer_def eth_shm_rx_ring_def eth_shm_tx_ring_def)

lemma tx_ring_peer [simp]: "eth_shm_tx_ring l (eth_peer role) = eth_shm_rx_ring l role"
  by (cases role) (simp_all add: eth_peer_def eth_shm_rx_ring_def eth_shm_tx_ring_def)

lemma ring_of_link [simp]:
  "eth_shm_tx_ring (set_tx_ring role r l) role = r"
  "eth_shm_rx_ring (set_tx_ring role r l) role = eth_shm_rx_ring l role"
  "eth_shm_rx_ring (set_rx_ring role r l) role = r"
  "eth_shm_tx_ring (set_rx_ring role r l) role = eth_shm_tx_ring l role"
  "el_ctrl (set_tx_ring role r l) = el_ctrl l" "el_ctrl (set_rx_ring role r l) = el_ctrl l"
  by (simp_all add: set_tx_ring_def set_rx_ring_def eth_shm_tx_ring_def eth_shm_rx_ring_def)

lemma rings_ctrl [simp]:
  "eth_shm_tx_ring (l\<lparr>el_ctrl := c\<rparr>) role = eth_shm_tx_ring l role"
  "eth_shm_rx_ring (l\<lparr>el_ctrl := c\<rparr>) role = eth_shm_rx_ring l role"
  by (simp_all add: eth_shm_tx_ring_def eth_shm_rx_ring_def)

lemma rings_control_ops [simp]:
  "eth_shm_tx_ring (eth_shm_advance_time shm who ns l) role = eth_shm_tx_ring l role"
  "eth_shm_rx_ring (eth_shm_advance_time shm who ns l) role = eth_shm_rx_ring l role"
  "eth_shm_tx_ring (eth_shm_mark_ready shm who l) role = eth_shm_tx_ring l role"
  "eth_shm_rx_ring (eth_shm_mark_ready shm who l) role = eth_shm_rx_ring l role"
  by (simp_all add: eth_shm_advance_time_def eth_shm_mark_ready_def)

lemma eth_link_inv_rings:
  "eth_link_inv l \<longleftrightarrow> eth_ring_inv (eth_shm_tx_ring l role) \<and> eth_ring_inv (eth_shm_rx_ring l role)"
  by (auto simp: eth_link_inv_def eth_shm_tx_ring_def eth_shm_rx_ring_def)

lemma eth_link_inv_init: "eth_link_inv eth_link_init"
  by (simp add: eth_link_inv_def eth_link_init_def eth_ring_inv_def eth_ring_zero_def code_consts)

lemma peer_time_advance:
  "es_ctrl shm \<Longrightarrow> es_ctrl peer \<Longrightarrow>
     eth_shm_peer_time peer (eth_peer role) (eth_shm_advance_time shm role ns l) = ns"
  by (simp add: eth_shm_peer_time_def eth_shm_advance_time_def)

lemma peer_ready_mark:
  "es_ctrl shm \<Longrightarrow> es_ctrl peer \<Longrightarrow>
     eth_shm_peer_ready peer (eth_peer role) (eth_shm_mark_ready shm role l)"
  by (simp add: eth_shm_peer_ready_def eth_shm_mark_ready_def)

lemma eth_open_ok:
  assumes "eth_shm_open os name create obj = (0, shm, obj')"
  shows "es_mapped shm \<and> es_ctrl shm \<and> (\<exists>l. obj' = Some l \<and> ec_magic (el_ctrl l) = ETH_SHM_MAGIC
    \<and> ec_version (el_ctrl l) = ETH_SHM_VERSION \<and> (create \<longrightarrow> l = eth_link_init)
    \<and> (\<not> create \<longrightarrow> obj = Some l))"
  using assms by (auto simp: eth_shm_open_def Let_def eth_link_init_def split: if_splits option.splits)

end
