(* ===== verification/Eth_Port.thy ===== *)
theory Eth_Port
  imports Eth_Shm Link_Model
begin

section \<open>Ethernet ports: eth\_port.c, mac\_stub.c, eth\_mac\_dpi.c\<close>

text \<open>
  A port is one node's handle on the link with its transmit-side link model.  The shared object is a
  separate argument, so two ports on one link are two values and one object.  The receive loop is
  driven by what each poll finds: the frames the peer has queued meanwhile and the clock reading.
\<close>

record eth_port =
  ep_shm :: eth_shm
  ep_role :: eth_role
  ep_link :: link_model
  ep_seq_tx :: u32
  ep_owned_shm :: bool

definition eth_seed :: "eth_role \<Rightarrow> u32" where
  "eth_seed role = (if role = ETH_ROLE_A then 0xA11CE else 0xB0B)"

definition eth_port_open :: "os_answers \<Rightarrow> eth_port \<Rightarrow> string \<Rightarrow> eth_role \<Rightarrow> bool \<Rightarrow> eth_link option
    \<Rightarrow> rc \<times> eth_port \<times> eth_link option" where
  "eth_port_open os port shm_name role create_shm obj =
     (let port1 = port\<lparr>ep_shm := eth_shm_zero, ep_role := role, ep_seq_tx := 0, ep_owned_shm := create_shm,
                       ep_link := link_model_reset (ep_link port) (eth_seed role)\<rparr>;
          (r, shm, obj1) = eth_shm_open os shm_name create_shm obj;
          port2 = port1\<lparr>ep_shm := shm\<rparr>
      in if r < 0 then (-1, port2, obj1)
         else (0, port2, map_option (eth_shm_mark_ready shm role) obj1))"

text \<open>The frame is stamped in place, so the stamped frame is returned as well.\<close>

definition eth_port_send :: "eth_port \<Rightarrow> eth_frame \<Rightarrow> u64 \<Rightarrow> eth_link
    \<Rightarrow> rc \<times> eth_port \<times> eth_frame \<times> eth_link" where
  "eth_port_send port frame now_ns l =
     (if \<not> link_model_fc_can_send (ep_link port) then (-2, port, frame, l)
      else let (dropped, lm1) = link_model_should_drop (ep_link port);
               port1 = port\<lparr>ep_link := lm1\<rparr>
           in if dropped then (-3, port1, frame, l)
              else let (deadline, lm2) = link_model_deadline lm1 (ucast (ef_len frame)) now_ns;
                       frame1 = frame\<lparr>ef_seq := ep_seq_tx port1, ef_timestamp_ns := deadline\<rparr>;
                       port2 = port1\<lparr>ep_link := lm2, ep_seq_tx := ep_seq_tx port1 + 1\<rparr>;
                       (r, tx) = eth_shm_enqueue (eth_shm_tx_ring l (ep_role port)) frame1
                   in if r < 0 then (-1, port2, frame1, l)
                      else (0, port2\<lparr>ep_link := link_model_inc_outstanding lm2\<rparr>, frame1,
                            eth_shm_advance_time (ep_shm port) (ep_role port) (ef_timestamp_ns frame1)
                              (set_tx_ring (ep_role port) tx l)))"

definition eth_port_try_recv :: "eth_port \<Rightarrow> eth_link \<Rightarrow> eth_frame option \<times> eth_link" where
  "eth_port_try_recv port l =
     (let (f, rx) = eth_shm_dequeue (eth_shm_rx_ring l (ep_role port))
      in (f, set_rx_ring (ep_role port) rx l))"

text \<open>A poll: the clock read after a failed attempt, and the frames the peer queues before the next.\<close>

type_synonym poll = "u64 \<times> eth_frame list"

definition peer_queues :: "eth_role \<Rightarrow> eth_frame list \<Rightarrow> eth_link \<Rightarrow> eth_link" where
  "peer_queues role fs l =
     set_rx_ring role (foldl (\<lambda>r f. snd (eth_shm_enqueue r f)) (eth_shm_rx_ring l role) fs) l"

text \<open>\<^theory_text>\<open>None\<close>: the polls are used up and the function has not returned.\<close>

fun recv_loop :: "eth_port \<Rightarrow> u64 \<Rightarrow> u64 \<Rightarrow> poll list \<Rightarrow> eth_link \<Rightarrow> (eth_frame option \<times> eth_link) option" where
  "recv_loop port start timeout_ns polls l =
     (case eth_port_try_recv port l of
        (Some f, l1) \<Rightarrow> Some (Some f, l1)
      | (None, l1) \<Rightarrow>
          if timeout_ns = 0 then Some (None, l1)
          else (case polls of
              [] \<Rightarrow> None
            | (now, fs) # ps \<Rightarrow>
                if now - start > timeout_ns then Some (None, l1)
                else recv_loop port start timeout_ns ps (peer_queues (ep_role port) fs l1)))"

declare recv_loop.simps [simp del]

definition eth_port_recv :: "eth_port \<Rightarrow> u64 \<Rightarrow> u64 \<Rightarrow> poll list \<Rightarrow> eth_link
    \<Rightarrow> (eth_frame option \<times> eth_link) option" where
  "eth_port_recv port start timeout_ns polls l = recv_loop port start timeout_ns polls l"

definition eth_port_tx_complete :: "eth_port \<Rightarrow> eth_port" where
  "eth_port_tx_complete port = port\<lparr>ep_link := link_model_dec_outstanding (ep_link port)\<rparr>"

definition eth_port_close :: "eth_port \<Rightarrow> eth_link option \<Rightarrow> eth_port \<times> eth_link option" where
  "eth_port_close port obj =
     (port\<lparr>ep_shm := eth_shm_close (ep_shm port)\<rparr>,
      if ep_owned_shm port \<and> es_name (ep_shm port) \<noteq> [] then eth_shm_unlink obj else obj)"

subsection \<open>mac\_stub.c: the polling thread\<close>

text \<open>One iteration of the worker: a frame handed to the callback, or an idle sleep.\<close>

definition mac_stub_poll :: "eth_port \<Rightarrow> eth_link \<Rightarrow> eth_frame option \<times> eth_port \<times> eth_link" where
  "mac_stub_poll port l =
     (case eth_port_recv port 0 0 [] l of
        Some (Some f, l1) \<Rightarrow> (Some f, eth_port_tx_complete port, l1)
      | Some (None, l1) \<Rightarrow> (None, port, l1)
      | None \<Rightarrow> (None, port, l))"

text \<open>
  The worker: as often as \<open>running\<close> is read as set, one iteration.  The other node works on the link between the
  iterations; each element of the list is what it does to the link before one.
\<close>

fun mac_stub_worker :: "(eth_frame \<Rightarrow> 'u \<Rightarrow> 'u) option \<Rightarrow> (eth_link \<Rightarrow> eth_link) list \<Rightarrow> eth_port \<Rightarrow> eth_link \<Rightarrow> 'u
    \<Rightarrow> eth_port \<times> eth_link \<times> 'u" where
  "mac_stub_worker rx_cb [] port l u = (port, l, u)"
| "mac_stub_worker rx_cb (peer # peers) port l u =
     (case mac_stub_poll port (peer l) of (res, port1, l1) \<Rightarrow>
        mac_stub_worker rx_cb peers port1 l1 (case (res, rx_cb) of (Some f, Some cb) \<Rightarrow> cb f u | _ \<Rightarrow> u))"

record mac_stub =
  ms_port :: "eth_port option"
  ms_running :: bool
  ms_started :: bool

definition mac_stub_start :: "bool \<Rightarrow> eth_port option \<Rightarrow> mac_stub \<Rightarrow> rc \<times> mac_stub" where
  "mac_stub_start create_fails port stub =
     (if port = None then (-1, stub)
      else if create_fails then (-1, \<lparr>ms_port = port, ms_running = False, ms_started = False\<rparr>)
      else (0, \<lparr>ms_port = port, ms_running = True, ms_started = True\<rparr>))"

definition mac_stub_tx :: "mac_stub \<Rightarrow> eth_frame \<Rightarrow> u64 \<Rightarrow> eth_link \<Rightarrow> rc \<times> mac_stub \<times> eth_frame \<times> eth_link" where
  "mac_stub_tx stub frame now_ns l =
     (case ms_port stub of
        None \<Rightarrow> (-1, stub, frame, l)
      | Some port \<Rightarrow> (case eth_port_send port frame now_ns l of
          (r, port1, frame1, l1) \<Rightarrow> (r, stub\<lparr>ms_port := Some port1\<rparr>, frame1, l1)))"

definition mac_stub_stop :: "mac_stub \<Rightarrow> mac_stub" where
  "mac_stub_stop stub =
     (if ms_started stub then stub\<lparr>ms_started := False, ms_running := False\<rparr> else stub\<lparr>ms_started := False\<rparr>)"

subsection \<open>What a send does, by outcome\<close>

lemma wf_stamp [simp]: "wf_frame (f\<lparr>ef_seq := n, ef_timestamp_ns := t\<rparr>) = wf_frame f"
  by (simp add: wf_frame_def)

text \<open>The deadline a send uses: the link model after the drop decision.\<close>

definition send_deadline :: "eth_port \<Rightarrow> eth_frame \<Rightarrow> u64 \<Rightarrow> u64 \<times> link_model" where
  "send_deadline port f now =
     link_model_deadline (snd (link_model_should_drop (ep_link port))) (ucast (ef_len f)) now"

lemma send_deadline_config [simp]:
  "lm_outstanding (snd (send_deadline port f now)) = lm_outstanding (ep_link port)"
  "lm_fc_window (snd (send_deadline port f now)) = lm_fc_window (ep_link port)"
  "lm_latency_ns (snd (send_deadline port f now)) = lm_latency_ns (ep_link port)"
  "lm_rate_mbps (snd (send_deadline port f now)) = lm_rate_mbps (ep_link port)"
  by (simp_all add: send_deadline_def)

definition stamped :: "eth_port \<Rightarrow> eth_frame \<Rightarrow> u64 \<Rightarrow> eth_frame" where
  "stamped port f now = f\<lparr>ef_seq := ep_seq_tx port, ef_timestamp_ns := fst (send_deadline port f now)\<rparr>"

lemma wf_stamped [simp]: "wf_frame (stamped port f now) = wf_frame f"
  by (simp add: stamped_def)

lemma port_send_eq:
  "eth_port_send port f now l =
    (if \<not> link_model_fc_can_send (ep_link port) then (-2, port, f, l)
     else if fst (link_model_should_drop (ep_link port))
     then (-3, port\<lparr>ep_link := snd (link_model_should_drop (ep_link port))\<rparr>, f, l)
     else let e = eth_shm_enqueue (eth_shm_tx_ring l (ep_role port)) (stamped port f now);
              lm2 = snd (send_deadline port f now)
          in if fst e < 0 then (-1, port\<lparr>ep_link := lm2, ep_seq_tx := ep_seq_tx port + 1\<rparr>, stamped port f now, l)
             else (0, port\<lparr>ep_link := link_model_inc_outstanding lm2, ep_seq_tx := ep_seq_tx port + 1\<rparr>,
                   stamped port f now,
                   eth_shm_advance_time (ep_shm port) (ep_role port) (fst (send_deadline port f now))
                     (set_tx_ring (ep_role port) (snd e) l)))"
  by (simp add: eth_port_send_def stamped_def send_deadline_def Let_def split_beta)

lemma tx_ring_inv: "eth_link_inv l \<Longrightarrow> eth_ring_inv (eth_shm_tx_ring l role)"
  using eth_link_inv_rings by blast

text \<open>A full ring is the only reason for -1, and the window the only reason for -2.\<close>

lemma send_rc:
  assumes "eth_link_inv l" and "wf_frame f"
  shows "fst (eth_port_send port f now l) =
    (if \<not> link_model_fc_can_send (ep_link port) then -2
     else if fst (link_model_should_drop (ep_link port)) then -3
     else if length (eth_items (eth_shm_tx_ring l (ep_role port))) < eth_ring_cap (eth_shm_tx_ring l (ep_role port))
     then 0 else -1)"
  using er.enq_rc [OF tx_ring_inv [OF assms(1)], of "stamped port f now" "ep_role port"] assms(2)
  by (simp add: port_send_eq Let_def)

lemma send_ok:
  assumes "eth_port_send port f now l = (0, port', f', l')" and "eth_link_inv l" and "wf_frame f"
  shows "f' = stamped port f now"
    and "link_model_fc_can_send (ep_link port)"
    and "port' = port\<lparr>ep_link := link_model_inc_outstanding (snd (send_deadline port f now)),
           ep_seq_tx := ep_seq_tx port + 1\<rparr>"
    and "l' = eth_shm_advance_time (ep_shm port) (ep_role port) (ef_timestamp_ns f') (set_tx_ring (ep_role port)
           (snd (eth_shm_enqueue (eth_shm_tx_ring l (ep_role port)) f')) l)"
    and "eth_items (eth_shm_tx_ring l' (ep_role port)) = eth_items (eth_shm_tx_ring l (ep_role port)) @ [f']"
    and "eth_shm_rx_ring l' (ep_role port) = eth_shm_rx_ring l (ep_role port)"
    and "eth_link_inv l'"
proof -
  let ?e = "eth_shm_enqueue (eth_shm_tx_ring l (ep_role port)) (stamped port f now)"
  show can: "link_model_fc_can_send (ep_link port)"
    using assms(1) by (rule_tac ccontr) (simp add: port_send_eq)
  have nd: "\<not> fst (link_model_should_drop (ep_link port))"
    using assms(1) can by (rule_tac notI) (simp add: port_send_eq)
  have e: "\<not> fst ?e < 0" using assms(1) can nd by (rule_tac notI) (simp add: port_send_eq)
  note eq = assms(1) [unfolded port_send_eq Let_def, simplified can nd e, simplified]
  show f': "f' = stamped port f now" using eq by simp
  show "port' = port\<lparr>ep_link := link_model_inc_outstanding (snd (send_deadline port f now)),
           ep_seq_tx := ep_seq_tx port + 1\<rparr>" using eq by simp
  show l': "l' = eth_shm_advance_time (ep_shm port) (ep_role port) (ef_timestamp_ns f') (set_tx_ring (ep_role port)
           (snd (eth_shm_enqueue (eth_shm_tx_ring l (ep_role port)) f')) l)"
    using eq f' by (simp add: stamped_def)
  have inv: "eth_ring_inv (eth_shm_tx_ring l (ep_role port))" and wf: "wf_frame (stamped port f now)"
    using assms(2,3) by (simp_all add: tx_ring_inv)
  have "length (eth_items (eth_shm_tx_ring l (ep_role port))) < eth_ring_cap (eth_shm_tx_ring l (ep_role port))"
    using er.enq_rc [OF inv wf] e by (simp split: if_splits)
  from er.enq_room [OF inv wf this]
  show "eth_items (eth_shm_tx_ring l' (ep_role port)) = eth_items (eth_shm_tx_ring l (ep_role port)) @ [f']"
    by (simp add: l' f')
  show "eth_shm_rx_ring l' (ep_role port) = eth_shm_rx_ring l (ep_role port)" by (simp add: l')
  show "eth_link_inv l'"
    using eth_enqueue_inv(1) [OF inv wf] assms(2) eth_link_inv_rings [of l "ep_role port"]
      eth_link_inv_rings [of l' "ep_role port"] by (simp add: l' f')
qed

lemma send_fail:
  assumes "eth_port_send port f now l = (r, port', f', l')" and "r \<noteq> 0"
  shows "l' = l" and "ep_role port' = ep_role port" "ep_shm port' = ep_shm port"
    and "lm_outstanding (ep_link port') = lm_outstanding (ep_link port)"
    and "lm_fc_window (ep_link port') = lm_fc_window (ep_link port)"
    and "lm_latency_ns (ep_link port') = lm_latency_ns (ep_link port)"
    and "lm_rate_mbps (ep_link port') = lm_rate_mbps (ep_link port)"
    and "ep_seq_tx port' = ep_seq_tx port \<or> ep_seq_tx port' = ep_seq_tx port + 1"
    and "lm_token_bucket_ns (ep_link port') = lm_token_bucket_ns (ep_link port)
       \<or> lm_token_bucket_ns (ep_link port') = lm_token_bucket_ns (snd (send_deadline port f now))"
  using assms by (auto simp: port_send_eq Let_def split: if_splits)

subsection \<open>Receiving\<close>

lemma try_recv:
  assumes "eth_link_inv l" and "eth_port_try_recv port l = (res, l')"
  shows "eth_items (eth_shm_rx_ring l (ep_role port)) =
      (case res of None \<Rightarrow> [] | Some f \<Rightarrow> [f]) @ eth_items (eth_shm_rx_ring l' (ep_role port))"
    and "res = None \<longleftrightarrow> eth_items (eth_shm_rx_ring l (ep_role port)) = []"
    and "eth_shm_tx_ring l' (ep_role port) = eth_shm_tx_ring l (ep_role port)"
    and "eth_link_inv l'" and "el_ctrl l' = el_ctrl l"
proof -
  let ?rx = "eth_shm_rx_ring l (ep_role port)"
  have inv: "eth_ring_inv ?rx" "eth_ring_inv (eth_shm_tx_ring l (ep_role port))"
    using assms(1) eth_link_inv_rings [of l "ep_role port"] by simp_all
  obtain rx' where d: "eth_shm_dequeue ?rx = (res, rx')" and l': "l' = set_rx_ring (ep_role port) rx' l"
    using assms(2) by (auto simp: eth_port_try_recv_def split: prod.splits)
  from l' show "eth_shm_tx_ring l' (ep_role port) = eth_shm_tx_ring l (ep_role port)" by simp
  from l' show "el_ctrl l' = el_ctrl l" by simp
  show "eth_link_inv l'"
    using eth_dequeue_inv(1) [OF inv(1)] inv d l' eth_link_inv_rings [of l' "ep_role port"] by simp
  show "eth_items ?rx = (case res of None \<Rightarrow> [] | Some f \<Rightarrow> [f]) @ eth_items (eth_shm_rx_ring l' (ep_role port))"
    using er.deq_some [OF inv(1)] er.deq_none [OF inv(1)] d
    by (cases "eth_items ?rx") (fastforce simp: l')+
  show "res = None \<longleftrightarrow> eth_items ?rx = []"
    using er.deq_some [OF inv(1)] er.deq_none [OF inv(1)] d by (cases "eth_items ?rx") auto
qed

text \<open>A non-blocking receive returns at once; a blocking one returns by the first poll whose clock is
  past the timeout.\<close>

lemma recv_nonblocking: "eth_port_recv port start 0 polls l = Some (eth_port_try_recv port l)"
  by (auto simp: eth_port_recv_def recv_loop.simps split: prod.splits option.splits)

lemma recv_returns:
  assumes "\<exists>p\<in>set polls. fst p - start > timeout_ns"
  shows "\<exists>r. eth_port_recv port start timeout_ns polls l = Some r"
  using assms unfolding eth_port_recv_def
proof (induction polls arbitrary: l)
  case Nil
  then show ?case by simp
next
  case (Cons p ps)
  obtain now fs where p: "p = (now, fs)" by fastforce
  show ?case
  proof (cases "now - start > timeout_ns")
    case True
    then show ?thesis by (subst recv_loop.simps) (auto simp: p split: prod.splits option.splits)
  next
    case False
    then have ex: "\<exists>p\<in>set ps. fst p - start > timeout_ns" using Cons.prems p by auto
    obtain res l1 where t: "eth_port_try_recv port l = (res, l1)" by fastforce
    show ?thesis
      using Cons.IH [OF ex, of "peer_queues (ep_role port) fs l1"]
      by (subst recv_loop.simps) (auto simp: p False t split: option.splits)
  qed
qed

lemma mac_stub_poll_eq:
  "mac_stub_poll port l = (case eth_port_try_recv port l of
     (Some f, l1) \<Rightarrow> (Some f, eth_port_tx_complete port, l1) | (None, l1) \<Rightarrow> (None, port, l1))"
  by (simp add: mac_stub_poll_def recv_nonblocking split: prod.splits option.splits)

text \<open>The worker hands every frame to the callback once and in order: those on the ring and those the peer adds.\<close>

fun adds_frames :: "eth_role \<Rightarrow> (eth_link \<Rightarrow> eth_link) list \<Rightarrow> eth_frame list list \<Rightarrow> bool" where
  "adds_frames role [] [] \<longleftrightarrow> True"
| "adds_frames role (peer # peers) (fs # fss) \<longleftrightarrow>
     (\<forall>l. eth_link_inv l \<longrightarrow> eth_link_inv (peer l) \<and> eth_items (eth_shm_rx_ring (peer l) role) = eth_items (eth_shm_rx_ring l role) @ fs)
     \<and> adds_frames role peers fss"
| "adds_frames role _ _ \<longleftrightarrow> False"

lemma worker_hands_over:
  assumes "mac_stub_worker (Some (\<lambda>f u. u @ [f])) peers port l u = (port', l', u')"
    and "adds_frames (ep_role port) peers fss" and "eth_link_inv l"
  shows "u' @ eth_items (eth_shm_rx_ring l' (ep_role port)) = u @ eth_items (eth_shm_rx_ring l (ep_role port)) @ concat fss
    \<and> eth_link_inv l'"
  using assms
proof (induction "ep_role port" peers fss arbitrary: port l u rule: adds_frames.induct)
  case (2 peer peers fs fss)
  obtain res l1 where t: "eth_port_try_recv port (peer l) = (res, l1)" by fastforce
  have i: "eth_link_inv (peer l)" "eth_items (eth_shm_rx_ring (peer l) (ep_role port)) = eth_items (eth_shm_rx_ring l (ep_role port)) @ fs"
    using 2 by simp_all
  have inv: "eth_link_inv l1" by (rule try_recv(4) [OF i(1) t])
  have r: "ep_role (eth_port_tx_complete port) = ep_role port" by (simp add: eth_port_tx_complete_def)
  show ?case
  proof (cases res)
    case None
    then show ?thesis using 2(1) [of port l1 u] 2(2,3) inv t i(2) try_recv(1) [OF i(1) t] by (simp add: mac_stub_poll_eq)
  next
    case (Some f)
    then show ?thesis
      using 2(1) [of "eth_port_tx_complete port" l1 "u @ [f]"] 2(2,3) inv t i(2) r try_recv(1) [OF i(1) t]
      by (simp add: mac_stub_poll_eq)
  qed
qed auto

subsection \<open>Properties\<close>

text \<open>A blocking receive terminates: it returns by the first poll at which the clock is past the timeout,
  whatever frames the peer queues in between, and a non-blocking one returns without any poll.\<close>

lemma eth_recv_terminates:
  assumes "timeout_ns = 0 \<or> (\<exists>p\<in>set polls. fst p - start > timeout_ns)"
  shows "\<exists>res l'. eth_port_recv port start timeout_ns polls l = Some (res, l')"
  using assms recv_returns [of polls timeout_ns start port l] by (auto simp: recv_nonblocking)

lemma eth_recv_terminates_witness:
  "\<exists>res l'. eth_port_recv \<lparr>ep_shm = eth_shm_zero, ep_role = ETH_ROLE_B,
       ep_link = \<lparr>lm_drop_rate_ppm = 0, lm_burst_drop_len = 0, lm_rate_mbps = 0, lm_latency_ns = 0,
         lm_fc_window = 0, lm_rng_state = 1, lm_burst_remaining = 0, lm_token_bucket_ns = 0, lm_outstanding = 0\<rparr>,
       ep_seq_tx = 0, ep_owned_shm = False\<rparr> 10 1000 [(500, []), (2000, [])] eth_link_init = Some (res, l')"
  by (rule eth_recv_terminates) simp

end
