(* ===== verification/Eth_Net.thy ===== *)
theory Eth_Net
  imports Eth_Port
begin

section \<open>Two nodes on one Ethernet link\<close>

text \<open>
  Any interleaving of sends and polls of the two nodes of a link (ports opened by eth\_port.c, frames
  taken by the worker of mac\_stub.c or the poll of eth\_mac\_dpi.c, which behave alike).  The log
  fields record which frames each node had accepted and delivered.
\<close>

record eth_net =
  en_port :: "eth_role \<Rightarrow> eth_port"
  en_link :: eth_link
  en_sent :: "eth_role \<Rightarrow> eth_frame list"
  en_rcvd :: "eth_role \<Rightarrow> eth_frame list"

text \<open>A send of the model: a well-formed frame, fewer than \<open>2 ^ 32\<close> frames numbered so far, and a
  deadline within 64 bits of nanoseconds.\<close>

definition send_bounded :: "eth_port \<Rightarrow> eth_frame \<Rightarrow> u64 \<Rightarrow> bool" where
  "send_bounded port f now \<longleftrightarrow> wf_frame f \<and> unat (ep_seq_tx port) + 1 < 2 ^ 32
     \<and> deadline_fits (ep_link port) (ucast (ef_len f)) now"

inductive net_step :: "eth_net \<Rightarrow> eth_net \<Rightarrow> bool" where
  send: "send_bounded (en_port s role) f now \<Longrightarrow>
     eth_port_send (en_port s role) f now (en_link s) = (r, port', f', l') \<Longrightarrow>
     net_step s (s\<lparr>en_port := (en_port s)(role := port'), en_link := l',
       en_sent := (en_sent s)(role := en_sent s role @ (if r = 0 then [f'] else []))\<rparr>)"
| recv: "mac_stub_poll (en_port s role) (en_link s) = (res, port', l') \<Longrightarrow>
     net_step s (s\<lparr>en_port := (en_port s)(role := port'), en_link := l',
       en_rcvd := (en_rcvd s)(role := en_rcvd s role @ (case res of None \<Rightarrow> [] | Some f \<Rightarrow> [f]))\<rparr>)"

text \<open>Both ports as \<open>eth_port_open\<close> leaves them on a fresh link, with any link configuration.\<close>

definition open_port :: "link_model \<Rightarrow> eth_role \<Rightarrow> eth_port" where
  "open_port cfg role = \<lparr>ep_shm = \<lparr>es_mapped = True, es_ctrl = True, es_fd = 3, es_name = ''eth''\<rparr>,
     ep_role = role, ep_link = link_model_reset cfg (eth_seed role), ep_seq_tx = 0,
     ep_owned_shm = (role = ETH_ROLE_A)\<rparr>"

definition net_init :: "(eth_role \<Rightarrow> link_model) \<Rightarrow> eth_net" where
  "net_init cfg = \<lparr>en_port = (\<lambda>role. open_port (cfg role) role), en_link = eth_link_init,
     en_sent = (\<lambda>_. []), en_rcvd = (\<lambda>_. [])\<rparr>"

inductive net_reach :: "(eth_role \<Rightarrow> link_model) \<Rightarrow> eth_net \<Rightarrow> bool" for cfg where
  start: "net_reach cfg (net_init cfg)"
| step: "net_reach cfg s \<Longrightarrow> net_step s t \<Longrightarrow> net_reach cfg t"

lemma net_init_opened:
  "eth_port_open \<lparr>os_fd = 3, os_open_fails = False, os_truncate_fails = False, os_mmap_fails = False\<rparr>
     (p\<lparr>ep_link := cfg\<rparr>) ''eth'' ETH_ROLE_A True None =
   (0, open_port cfg ETH_ROLE_A, Some (eth_shm_mark_ready (ep_shm (open_port cfg ETH_ROLE_A)) ETH_ROLE_A eth_link_init))"
  by (simp add: eth_port_open_def eth_shm_open_def open_port_def eth_shm_zero_def Let_def)

subsection \<open>Invariant\<close>

text \<open>Frames leave a node at least the next frame's serialisation time apart.\<close>

definition spaced :: "link_model \<Rightarrow> eth_frame \<Rightarrow> eth_frame \<Rightarrow> bool" where
  "spaced cfg f g \<longleftrightarrow> unat (ef_seq f) < unat (ef_seq g) \<and>
     unat (ef_timestamp_ns f) + unat (link_serialize_ns cfg (ucast (ef_len g))) \<le> unat (ef_timestamp_ns g)"

definition port_inv :: "link_model \<Rightarrow> eth_port \<Rightarrow> eth_frame list \<Rightarrow> eth_frame list \<Rightarrow> bool" where
  "port_inv cfg port sent rcvd \<longleftrightarrow>
     lm_rate_mbps (ep_link port) = lm_rate_mbps cfg \<and> lm_latency_ns (ep_link port) = lm_latency_ns cfg
   \<and> lm_fc_window (ep_link port) = lm_fc_window cfg
   \<and> sorted_wrt (spaced cfg) sent
   \<and> (\<forall>f\<in>set sent. unat (ef_seq f) < unat (ep_seq_tx port)
        \<and> unat (ef_timestamp_ns f) \<le> unat (lm_token_bucket_ns (ep_link port)) + unat (lm_latency_ns cfg))
   \<and> (lm_fc_window cfg \<noteq> 0 \<longrightarrow> unat (lm_outstanding (ep_link port)) \<le> unat (lm_fc_window cfg)
        \<and> length sent \<le> unat (lm_outstanding (ep_link port)) + length rcvd)"

definition net_inv :: "(eth_role \<Rightarrow> link_model) \<Rightarrow> eth_net \<Rightarrow> bool" where
  "net_inv cfg s \<longleftrightarrow> eth_link_inv (en_link s) \<and> (\<forall>role. ep_role (en_port s role) = role
     \<and> port_inv (cfg role) (en_port s role) (en_sent s role) (en_rcvd s role)
     \<and> en_sent s role = en_rcvd s (eth_peer role) @ eth_items (eth_shm_tx_ring (en_link s) role))"

lemma items_init [simp]: "eth_items (eth_shm_tx_ring eth_link_init role) = []"
  by (simp add: eth_link_init_def eth_link_zero_def eth_ring_zero_def eth_shm_tx_ring_def eth_items_def
      ring_idx_def ring_count_def)

lemma net_inv_init: "net_inv cfg (net_init cfg)"
  by (simp add: net_inv_def net_init_def eth_link_inv_init port_inv_def open_port_def link_model_reset_def)

text \<open>The clock part of a numbered send: the new token bucket and the stamp.\<close>

lemma serialize_config:
  "lm_rate_mbps m = lm_rate_mbps cfg \<Longrightarrow> link_serialize_ns m n = link_serialize_ns cfg n"
  by (simp add: link_serialize_ns_def)

lemma send_deadline_unat:
  assumes "deadline_fits (ep_link port) (ucast (ef_len f)) now"
  shows "unat (fst (send_deadline port f now)) =
      unat (lm_token_bucket_ns (snd (send_deadline port f now))) + unat (lm_latency_ns (ep_link port))"
    and "unat (lm_token_bucket_ns (snd (send_deadline port f now))) \<ge>
      unat (lm_token_bucket_ns (ep_link port)) + unat (link_serialize_ns (ep_link port) (ucast (ef_len f)))"
proof -
  let ?m = "snd (link_model_should_drop (ep_link port))"
  have "link_serialize_ns ?m n = link_serialize_ns (ep_link port) n" for n
    by (rule serialize_config) simp
  then have fits: "deadline_fits ?m (ucast (ef_len f)) now" and
      ser: "link_serialize_ns ?m (ucast (ef_len f)) = link_serialize_ns (ep_link port) (ucast (ef_len f))"
    using assms by (simp_all add: deadline_fits_def)
  obtain d m1 where d: "send_deadline port f now = (d, m1)" by fastforce
  then have dl: "link_model_deadline ?m (ucast (ef_len f)) now = (d, m1)" by (simp add: send_deadline_def)
  note u = deadline_unat [OF fits dl]
  show "unat (fst (send_deadline port f now)) =
      unat (lm_token_bucket_ns (snd (send_deadline port f now))) + unat (lm_latency_ns (ep_link port))"
    using u by (simp add: d)
  show "unat (lm_token_bucket_ns (snd (send_deadline port f now))) \<ge>
      unat (lm_token_bucket_ns (ep_link port)) + unat (link_serialize_ns (ep_link port) (ucast (ef_len f)))"
    using u ser by (simp add: d)
qed

lemma inc_outstanding_frame [simp]:
  "lm_rate_mbps (link_model_inc_outstanding m) = lm_rate_mbps m"
  "lm_latency_ns (link_model_inc_outstanding m) = lm_latency_ns m"
  "lm_fc_window (link_model_inc_outstanding m) = lm_fc_window m"
  "lm_token_bucket_ns (link_model_inc_outstanding m) = lm_token_bucket_ns m"
  by (simp_all add: link_model_inc_outstanding_def)

lemma dec_outstanding_frame [simp]:
  "lm_rate_mbps (link_model_dec_outstanding m) = lm_rate_mbps m"
  "lm_latency_ns (link_model_dec_outstanding m) = lm_latency_ns m"
  "lm_fc_window (link_model_dec_outstanding m) = lm_fc_window m"
  "lm_token_bucket_ns (link_model_dec_outstanding m) = lm_token_bucket_ns m"
  by (simp_all add: link_model_dec_outstanding_def)

lemma inc_outstanding_unat:
  assumes "link_model_fc_can_send m" "lm_fc_window m \<noteq> 0"
  shows "unat (lm_outstanding (link_model_inc_outstanding m)) = unat (lm_outstanding m) + 1"
    "unat (lm_outstanding m) < unat (lm_fc_window m)"
proof -
  show "unat (lm_outstanding m) < unat (lm_fc_window m)"
    using assms by (simp add: link_model_fc_can_send_def word_less_nat_alt)
  then have "unat (lm_outstanding m) + 1 < 2 ^ LENGTH(32)"
    using unat_bound [of "lm_fc_window m"] by linarith
  from unat_plus_1_if [OF this]
  show "unat (lm_outstanding (link_model_inc_outstanding m)) = unat (lm_outstanding m) + 1"
    by (simp add: link_model_inc_outstanding_def)
qed

lemma dec_outstanding_unat: "unat (lm_outstanding (link_model_dec_outstanding m)) = unat (lm_outstanding m) - 1"
  by (auto simp: link_model_dec_outstanding_def word_gt_0 unat_minus_one)

lemma port_inv_send_ok:
  assumes "port_inv cfg port sent rcvd" and "send_bounded port f now"
    and "link_model_fc_can_send (ep_link port)"
  shows "port_inv cfg (port\<lparr>ep_link := link_model_inc_outstanding (snd (send_deadline port f now)),
      ep_seq_tx := ep_seq_tx port + 1\<rparr>) (sent @ [stamped port f now]) rcvd"
proof -
  let ?lm = "snd (send_deadline port f now)"
  have fits: "deadline_fits (ep_link port) (ucast (ef_len f)) now" using assms(2) by (simp add: send_bounded_def)
  have seq: "unat (ep_seq_tx port + 1) = unat (ep_seq_tx port) + 1"
    using assms(2) by (intro unat_plus_1_if) (simp add: send_bounded_def)
  have ser: "link_serialize_ns (ep_link port) n = link_serialize_ns cfg n" for n
    using assms(1) by (intro serialize_config) (simp add: port_inv_def)
  note dl = send_deadline_unat [OF fits, unfolded ser]
  have old: "\<forall>g\<in>set sent. spaced cfg g (stamped port f now)"
    using assms(1) dl by (force simp: port_inv_def spaced_def stamped_def)
  have can: "link_model_fc_can_send ?lm" using assms(3) by (simp add: link_model_fc_can_send_def)
  have fc: "lm_fc_window ?lm = lm_fc_window cfg" using assms(1) by (simp add: port_inv_def)
  have "lm_fc_window cfg \<noteq> 0 \<longrightarrow>
      unat (lm_outstanding (link_model_inc_outstanding ?lm)) = unat (lm_outstanding (ep_link port)) + 1
      \<and> unat (lm_outstanding (ep_link port)) < unat (lm_fc_window cfg)"
    using inc_outstanding_unat [OF can] unfolding fc by simp
  then show ?thesis
    using assms(1) seq dl old by (fastforce simp: port_inv_def sorted_wrt_append stamped_def)
qed

lemma port_inv_send_fail:
  assumes "port_inv cfg port sent rcvd" and "send_bounded port f now"
    and "eth_port_send port f now l = (r, port', f', l')" and "r \<noteq> 0"
  shows "port_inv cfg port' sent rcvd"
proof -
  have fits: "deadline_fits (ep_link port) (ucast (ef_len f)) now" using assms(2) by (simp add: send_bounded_def)
  note fail = send_fail [OF assms(3,4)]
  have "unat (ep_seq_tx port + 1) = unat (ep_seq_tx port) + 1"
    using assms(2) by (intro unat_plus_1_if) (simp add: send_bounded_def)
  then have "unat (ep_seq_tx port') \<ge> unat (ep_seq_tx port)" using fail(8) by auto
  moreover have "unat (lm_token_bucket_ns (ep_link port')) \<ge> unat (lm_token_bucket_ns (ep_link port))"
    using fail(9) send_deadline_unat(2) [OF fits] by auto
  ultimately show ?thesis using assms(1) fail by (fastforce simp: port_inv_def)
qed

lemma port_inv_recv:
  assumes "port_inv cfg port sent rcvd"
  shows "port_inv cfg (eth_port_tx_complete port) sent (rcvd @ [f])"
  using assms by (auto simp: port_inv_def eth_port_tx_complete_def dec_outstanding_unat)

lemma role_cases: "who = role \<or> who = eth_peer role"
  by (cases who; cases role) (simp_all add: eth_peer_def)

lemma net_invD:
  assumes "net_inv cfg s"
  shows "eth_link_inv (en_link s)" "ep_role (en_port s role) = role"
    "port_inv (cfg role) (en_port s role) (en_sent s role) (en_rcvd s role)"
    "en_sent s role = en_rcvd s (eth_peer role) @ eth_items (eth_shm_tx_ring (en_link s) role)"
  using assms unfolding net_inv_def by blast+

lemma net_inv_send:
  assumes inv: "net_inv cfg s" and b: "send_bounded (en_port s role) f now"
    and send: "eth_port_send (en_port s role) f now (en_link s) = (r, port', f', l')"
  shows "net_inv cfg (s\<lparr>en_port := (en_port s)(role := port'), en_link := l',
       en_sent := (en_sent s)(role := en_sent s role @ (if r = 0 then [f'] else []))\<rparr>)"
proof (cases "r = 0")
  case True
  have i: "eth_link_inv (en_link s)" "ep_role (en_port s role) = role" "wf_frame f"
    "port_inv (cfg role) (en_port s role) (en_sent s role) (en_rcvd s role)"
    using net_invD [OF inv] b unfolding send_bounded_def by blast+
  note ok = send_ok [OF send [unfolded True] i(1,3), unfolded i(2)]
  have "port_inv (cfg role) port' (en_sent s role @ [f']) (en_rcvd s role)"
    using port_inv_send_ok [OF i(4) b ok(2)] ok(1,3) by simp
  moreover have "ep_role port' = role" using ok(3) i(2) by simp
  moreover have "eth_shm_tx_ring l' (eth_peer role) = eth_shm_tx_ring (en_link s) (eth_peer role)"
    using ok(6) by simp
  moreover have "x = role \<or> x = eth_peer role" for x by (rule role_cases)
  ultimately show ?thesis
    using inv True ok(5,7) unfolding net_inv_def by (simp, metis eth_peer_peer)
next
  case False
  have i: "ep_role (en_port s role) = role" "port_inv (cfg role) (en_port s role) (en_sent s role) (en_rcvd s role)"
    using net_invD [OF inv] by blast+
  have "port_inv (cfg role) port' (en_sent s role) (en_rcvd s role)" "ep_role port' = role" "l' = en_link s"
    using port_inv_send_fail [OF i(2) b send False] send_fail(1,2) [OF send False] i(1) by simp_all
  then show ?thesis
    using False net_invD [OF inv] unfolding net_inv_def by simp
qed

lemma net_inv_recv:
  assumes inv: "net_inv cfg s" and recv: "mac_stub_poll (en_port s role) (en_link s) = (res, port', l')"
  shows "net_inv cfg (s\<lparr>en_port := (en_port s)(role := port'), en_link := l',
       en_rcvd := (en_rcvd s)(role := en_rcvd s role @ (case res of None \<Rightarrow> [] | Some f \<Rightarrow> [f]))\<rparr>)"
proof -
  have i: "eth_link_inv (en_link s)" "ep_role (en_port s role) = role"
    "port_inv (cfg role) (en_port s role) (en_sent s role) (en_rcvd s role)"
    using net_invD [OF inv] by blast+
  have tr: "eth_port_try_recv (en_port s role) (en_link s) = (res, l')"
    and port': "port' = (case res of None \<Rightarrow> en_port s role | Some f \<Rightarrow> eth_port_tx_complete (en_port s role))"
    using recv by (auto simp: mac_stub_poll_eq split: prod.splits option.splits)
  note t = try_recv [OF i(1) tr, unfolded i(2)]
  have p: "port_inv (cfg role) port' (en_sent s role)
      (en_rcvd s role @ (case res of None \<Rightarrow> [] | Some f \<Rightarrow> [f]))" "ep_role port' = role"
    using i port_inv_recv by (auto simp: port' eth_port_tx_complete_def split: option.splits)
  have rings: "eth_items (eth_shm_tx_ring (en_link s) (eth_peer role)) =
      (case res of None \<Rightarrow> [] | Some f \<Rightarrow> [f]) @ eth_items (eth_shm_tx_ring l' (eth_peer role))"
    using t(1) by simp
  have "net_inv cfg t" if t': "t = s\<lparr>en_port := (en_port s)(role := port'), en_link := l',
       en_rcvd := (en_rcvd s)(role := en_rcvd s role @ (case res of None \<Rightarrow> [] | Some f \<Rightarrow> [f]))\<rparr>" for t
  proof -
    have "ep_role (en_port t who) = who
        \<and> port_inv (cfg who) (en_port t who) (en_sent t who) (en_rcvd t who)
        \<and> en_sent t who = en_rcvd t (eth_peer who) @ eth_items (eth_shm_tx_ring (en_link t) who)" for who
      using role_cases [of who role]
    proof
      assume "who = role"
      then show ?thesis using net_invD(2-4) [OF inv, of role] p t(3) by (simp add: t')
    next
      assume "who = eth_peer role"
      then show ?thesis using net_invD(2-4) [OF inv, of "eth_peer role"] rings by (simp add: t')
    qed
    moreover have "eth_link_inv (en_link t)" using t(4) by (simp add: t')
    ultimately show ?thesis unfolding net_inv_def by blast
  qed
  then show ?thesis by blast
qed

lemma net_reach_inv: "net_reach cfg s \<Longrightarrow> net_inv cfg s"
proof (induction rule: net_reach.induct)
  case start
  show ?case by (rule net_inv_init)
next
  case (step s t)
  from step.hyps(2) show ?case
  proof (cases rule: net_step.cases)
    case (send role f now r port' f' l')
    then show ?thesis using net_inv_send [OF step.IH send(2,3)] by simp
  next
    case (recv role res port' l')
    then show ?thesis using net_inv_recv [OF step.IH recv(2)] by simp
  qed
qed

subsection \<open>Properties\<close>

text \<open>C18: However the two nodes interleave sends and polls: the frames a node has sent are, in order, those
  its peer has received followed by those in the ring; sequence numbers strictly increase; and two frames
  are stamped at least the later one's serialisation time apart.\<close>

theorem eth_link_in_order:
  assumes "net_reach cfg s"
  shows "en_sent s role = en_rcvd s (eth_peer role) @ eth_items (eth_shm_tx_ring (en_link s) role)
    \<and> sorted_wrt (spaced (cfg role)) (en_sent s role)"
  using net_invD(3,4) [OF net_reach_inv [OF assms], of role] by (simp add: port_inv_def)

text \<open>C29: With a flow-control window a node is limited by what it has itself received: at most the window
  plus the number of frames it polled.  Frames the peer consumes do not reopen the window, so a node that
  only transmits is blocked for good once it has filled it.\<close>

theorem eth_window_limits_sender:
  assumes "net_reach cfg s" and "lm_fc_window (cfg role) \<noteq> 0"
  shows "length (en_sent s role) \<le> unat (lm_fc_window (cfg role)) + length (en_rcvd s role)"
  using net_invD(3) [OF net_reach_inv [OF assms(1)], of role] assms(2) by (auto simp: port_inv_def)

definition cfg_example :: link_model where
  "cfg_example = \<lparr>lm_drop_rate_ppm = 0, lm_burst_drop_len = 0, lm_rate_mbps = 1000, lm_latency_ns = 5,
     lm_fc_window = 1, lm_rng_state = 0, lm_burst_remaining = 0, lm_token_bucket_ns = 0, lm_outstanding = 0\<rparr>"

text \<open>One frame sent and polled by the peer, on links with a window of one frame.\<close>

lemma net_example:
  "\<exists>s. net_reach (\<lambda>_. cfg_example) s \<and> length (en_sent s ETH_ROLE_A) = 1 \<and> length (en_rcvd s ETH_ROLE_B) = 1
     \<and> en_rcvd s ETH_ROLE_A = []"
proof -
  let ?cfg = "\<lambda>_. cfg_example" and ?f = "frame_zero\<lparr>ef_len := 100\<rparr>"
  let ?s0 = "net_init ?cfg" and ?p = "open_port cfg_example ETH_ROLE_A"
  have port: "en_port ?s0 ETH_ROLE_A = ?p" "en_link ?s0 = eth_link_init" by (simp_all add: net_init_def)
  have b: "send_bounded (en_port ?s0 ETH_ROLE_A) ?f 0"
    unfolding port send_bounded_def deadline_fits_def unat_link_serialize
    by (simp add: wf_frame_def frame_zero_def open_port_def link_model_reset_def cfg_example_def unsigned_ucast_eq)
  have "wf_frame ?f" by (simp add: wf_frame_def frame_zero_def)
  moreover have "link_model_fc_can_send (ep_link ?p)" "\<not> fst (link_model_should_drop (ep_link ?p))"
    by (simp_all add: open_port_def link_model_reset_def cfg_example_def link_model_fc_can_send_def
        link_model_should_drop_def)
  moreover have "eth_ring_cap (eth_shm_tx_ring eth_link_init r) = 255" for r
    by (simp add: eth_ring_cap_def eth_shm_tx_ring_def eth_link_init_def code_consts)
  ultimately have "fst (eth_port_send ?p ?f 0 eth_link_init) = 0"
    using send_rc [OF eth_link_inv_init, of ?f ?p 0] by simp
  then obtain p' f' l' where send: "eth_port_send (en_port ?s0 ETH_ROLE_A) ?f 0 (en_link ?s0) = (0, p', f', l')"
    unfolding port by (metis prod.collapse)
  let ?s1 = "?s0\<lparr>en_port := (en_port ?s0)(ETH_ROLE_A := p'), en_link := l',
       en_sent := (en_sent ?s0)(ETH_ROLE_A := en_sent ?s0 ETH_ROLE_A @ (if (0::rc) = 0 then [f'] else []))\<rparr>"
  have r1: "net_reach ?cfg ?s1" by (rule net_reach.step [OF net_reach.start net_step.send [OF b send]])
  have s1: "en_sent ?s1 ETH_ROLE_A = [f']" "en_rcvd ?s1 r = []" for r by (simp_all add: net_init_def)
  have "eth_items (eth_shm_tx_ring (en_link ?s1) ETH_ROLE_A) = [f']"
    using net_invD(4) [OF net_reach_inv [OF r1], of ETH_ROLE_A] s1 by (metis append_Nil)
  then have items: "eth_items (eth_shm_rx_ring l' ETH_ROLE_B) = [f']"
    by (simp add: eth_shm_tx_ring_def eth_shm_rx_ring_def)
  obtain res q' l2 where poll: "mac_stub_poll (en_port ?s1 ETH_ROLE_B) (en_link ?s1) = (res, q', l2)"
    using prod_cases3 by blast
  have "ep_role (en_port ?s1 ETH_ROLE_B) = ETH_ROLE_B" by (simp add: net_init_def open_port_def)
  then have "res \<noteq> None"
    using poll items try_recv(2) [OF net_invD(1) [OF net_reach_inv [OF r1]], of "en_port ?s1 ETH_ROLE_B"]
    by (auto simp: mac_stub_poll_eq split: prod.splits option.splits)
  then obtain g where g: "res = Some g" by blast
  show ?thesis
    by (rule exI, rule conjI, rule net_reach.step [OF r1 net_step.recv [OF poll]]) (simp add: g net_init_def)
qed

theorem eth_link_in_order_witness:
  "\<exists>s. net_reach (\<lambda>_. cfg_example) s \<and> length (en_sent s ETH_ROLE_A) = 1
     \<and> en_sent s ETH_ROLE_A = en_rcvd s ETH_ROLE_B"
proof -
  obtain s where s: "net_reach (\<lambda>_. cfg_example) s" "length (en_sent s ETH_ROLE_A) = 1" "length (en_rcvd s ETH_ROLE_B) = 1"
    using net_example by blast
  then show ?thesis using eth_link_in_order [OF s(1), of ETH_ROLE_A]
    by (intro exI [of _ s]) (simp add: eth_peer_def)
qed

theorem eth_window_limits_sender_witness:
  "\<exists>s. net_reach (\<lambda>_. cfg_example) s \<and> length (en_rcvd s ETH_ROLE_B) = 1 \<and> length (en_sent s ETH_ROLE_A) \<le> 1"
proof -
  obtain s where s: "net_reach (\<lambda>_. cfg_example) s" "length (en_rcvd s ETH_ROLE_B) = 1" "en_rcvd s ETH_ROLE_A = []"
    using net_example by blast
  then show ?thesis using eth_window_limits_sender [OF s(1), of ETH_ROLE_A]
    by (intro exI [of _ s]) (simp add: cfg_example_def)
qed

end
