(* ===== verification/Eth_Mac_Dpi.thy ===== *)
theory Eth_Mac_Dpi
  imports Eth_Net
begin

section \<open>The simulator's MAC shim and the TAP bridge: eth\_mac\_dpi.c, eth\_tap\_bridge.c\<close>

text \<open>
  The shim owns one port: \<^theory_text>\<open>None\<close> while \<open>g_opened\<close> is 0.  A data argument is
  \<^theory_text>\<open>None\<close> for a null pointer (also when \<open>svGetArrayPtr\<close> of the simulator gives none).
  The bridge shuttles frames between a TAP device and its port.
\<close>

type_synonym mac_state = "eth_port option"

definition port_zero :: eth_port where
  "port_zero = \<lparr>ep_shm = eth_shm_zero, ep_role = ETH_ROLE_A,
     ep_link = \<lparr>lm_drop_rate_ppm = 0, lm_burst_drop_len = 0, lm_rate_mbps = 0, lm_latency_ns = 0,
       lm_fc_window = 0, lm_rng_state = 0, lm_burst_remaining = 0, lm_token_bucket_ns = 0, lm_outstanding = 0\<rparr>,
     ep_seq_tx = 0, ep_owned_shm = False\<rparr>"

definition vcs_eth_mac_init_dpi :: "os_answers \<Rightarrow> string \<Rightarrow> int \<Rightarrow> bool \<Rightarrow> mac_state \<Rightarrow> eth_link option
    \<Rightarrow> rc \<times> mac_state \<times> eth_link option" where
  "vcs_eth_mac_init_dpi os shm_name role create g obj =
     (if g \<noteq> None then (-1, g, obj)
      else if role \<noteq> 0 \<and> role \<noteq> 1 then (-1, g, obj)
      else (case eth_port_open os port_zero shm_name (if role = 0 then ETH_ROLE_A else ETH_ROLE_B) create obj of
          (r, port, obj1) \<Rightarrow> if r \<noteq> 0 then (-1, None, obj1) else (0, Some port, obj1)))"

definition frame_of_bytes :: "bytes \<Rightarrow> int \<Rightarrow> eth_frame" where
  "frame_of_bytes data len = frame_zero\<lparr>ef_len := word_of_int len,
     ef_data := blit 0 (take (nat len) data) (ef_data frame_zero)\<rparr>"

definition vcs_eth_mac_send_raw :: "bytes option \<Rightarrow> int \<Rightarrow> mac_state \<Rightarrow> eth_link \<Rightarrow> rc \<times> mac_state \<times> eth_link" where
  "vcs_eth_mac_send_raw data len g l =
     (case (g, data) of
        (Some port, Some d) \<Rightarrow>
          if len \<le> 0 \<or> len > int ETH_FRAME_MAX_DATA then (-1, g, l)
          else (case eth_port_send port (frame_of_bytes d len) 0 l of
              (r, port1, _, l1) \<Rightarrow> (r, Some port1, l1))
      | _ \<Rightarrow> (-1, g, l))"

definition vcs_eth_mac_send_frame_dpi :: "bytes option \<Rightarrow> int \<Rightarrow> mac_state \<Rightarrow> eth_link \<Rightarrow> rc \<times> mac_state \<times> eth_link" where
  "vcs_eth_mac_send_frame_dpi data len g l = vcs_eth_mac_send_raw data len g l"

text \<open>How many bytes of the frame are copied out; the comparison is in 16 bits.\<close>

definition recv_copy_len :: "eth_frame \<Rightarrow> int \<Rightarrow> int" where
  "recv_copy_len f max_len = (if ef_len f < word_of_int max_len then uint (ef_len f) else max_len)"

text \<open>Result and copied bytes; \<^theory_text>\<open>None\<close> is a copy that reads past the frame's data array.\<close>

definition vcs_eth_mac_recv_raw :: "bool \<Rightarrow> int \<Rightarrow> mac_state \<Rightarrow> eth_link
    \<Rightarrow> ((int \<times> bytes) \<times> mac_state \<times> eth_link) option" where
  "vcs_eth_mac_recv_raw has_buf max_len g l =
     (case g of
        None \<Rightarrow> Some ((-1, []), g, l)
      | Some port \<Rightarrow>
          if \<not> has_buf \<or> max_len \<le> 0 then Some ((-1, []), g, l)
          else (case eth_port_recv port 0 0 [] l of
              Some (Some f, l1) \<Rightarrow>
                (let copy = recv_copy_len f max_len
                 in if copy > int ETH_FRAME_MAX_DATA then None
                    else Some ((copy, take (nat copy) (ef_data f)), Some (eth_port_tx_complete port), l1))
            | Some (None, l1) \<Rightarrow> Some ((0, []), g, l1)
            | None \<Rightarrow> None))"

definition vcs_eth_mac_poll_frame_dpi :: "bool \<Rightarrow> int \<Rightarrow> mac_state \<Rightarrow> eth_link
    \<Rightarrow> ((int \<times> bytes) \<times> mac_state \<times> eth_link) option" where
  "vcs_eth_mac_poll_frame_dpi has_buf max_len g l = vcs_eth_mac_recv_raw has_buf max_len g l"

definition set_link_up :: "u32 \<Rightarrow> mac_state \<Rightarrow> eth_link \<Rightarrow> eth_link" where
  "set_link_up up g l = (case g of None \<Rightarrow> l
     | Some port \<Rightarrow> if es_ctrl (ep_shm port) then l\<lparr>el_ctrl := (el_ctrl l)\<lparr>ec_link_up := up\<rparr>\<rparr> else l)"

definition vcs_eth_mac_link_up_dpi :: "mac_state \<Rightarrow> eth_link \<Rightarrow> eth_link" where
  "vcs_eth_mac_link_up_dpi g l = set_link_up 1 g l"

definition vcs_eth_mac_link_down_dpi :: "mac_state \<Rightarrow> eth_link \<Rightarrow> eth_link" where
  "vcs_eth_mac_link_down_dpi g l = set_link_up 0 g l"

definition vcs_eth_mac_peer_ready_dpi :: "mac_state \<Rightarrow> eth_link \<Rightarrow> bool" where
  "vcs_eth_mac_peer_ready_dpi g l =
     (case g of None \<Rightarrow> False | Some port \<Rightarrow> eth_shm_peer_ready (ep_shm port) (ep_role port) l)"

definition vcs_eth_mac_configure_link_dpi :: "u32 \<Rightarrow> int \<Rightarrow> u32 \<Rightarrow> u64 \<Rightarrow> u32 \<Rightarrow> mac_state \<Rightarrow> mac_state" where
  "vcs_eth_mac_configure_link_dpi drop_rate_ppm burst_drop_len rate_mbps latency_ns fc_window g =
     map_option (\<lambda>port. port\<lparr>ep_link := (ep_link port)\<lparr>lm_drop_rate_ppm := drop_rate_ppm,
        lm_burst_drop_len := word_of_int (if burst_drop_len < 0 then 0 else burst_drop_len),
        lm_rate_mbps := rate_mbps, lm_latency_ns := latency_ns, lm_fc_window := fc_window\<rparr>\<rparr>) g"

definition vcs_eth_mac_close_dpi :: "mac_state \<Rightarrow> eth_link option \<Rightarrow> mac_state \<times> eth_link option" where
  "vcs_eth_mac_close_dpi g obj =
     (case g of None \<Rightarrow> (None, obj) | Some port \<Rightarrow> (None, snd (eth_port_close port obj)))"

subsection \<open>Bytes across the link\<close>

lemma wf_frame_of_bytes:
  "0 < len \<Longrightarrow> len \<le> int ETH_FRAME_MAX_DATA \<Longrightarrow> nat len \<le> length data \<Longrightarrow> wf_frame (frame_of_bytes data len)"
  by (simp add: wf_frame_def frame_of_bytes_def frame_zero_def)

lemma recv_raw_some:
  assumes "eth_port_try_recv port l = (Some f, l1)" and "0 < max_len"
    and "recv_copy_len f max_len \<le> int ETH_FRAME_MAX_DATA"
  shows "vcs_eth_mac_recv_raw True max_len (Some port) l =
    Some ((recv_copy_len f max_len, take (nat (recv_copy_len f max_len)) (ef_data f)),
      Some (eth_port_tx_complete port), l1)"
  using assms by (simp add: vcs_eth_mac_recv_raw_def recv_nonblocking Let_def)

lemma recv_copy_len_frame_of_bytes:
  assumes "0 < len" "len \<le> int ETH_FRAME_MAX_DATA" "len \<le> max_len" "max_len < 2 ^ 16"
    and "ef_len f = word_of_int len"
  shows "recv_copy_len f max_len = len"
proof -
  have l: "uint (word_of_int len :: u16) = len" and m: "uint (word_of_int max_len :: u16) = max_len"
    using assms by (simp_all add: uint_word_of_int code_consts)
  then show ?thesis using assms by (auto simp: recv_copy_len_def word_less_def)
qed

text \<open>A frame sent on one side is the frame polled on the other, byte for byte, when the receive ring
  is empty and the send succeeds.\<close>

lemma raw_roundtrip:
  assumes "vcs_eth_mac_send_raw (Some data) len (Some p) l = (0, g1, l1)" and "eth_link_inv l"
    and "eth_items (eth_shm_tx_ring l (ep_role p)) = []" and "ep_role q = eth_peer (ep_role p)"
    and "nat len \<le> length data" and "len \<le> max_len" and "max_len < 2 ^ 16"
  shows "\<exists>l2. vcs_eth_mac_recv_raw True max_len (Some q) l1 =
      Some ((len, take (nat len) data), Some (eth_port_tx_complete q), l2)
    \<and> eth_items (eth_shm_tx_ring l2 (ep_role p)) = []"
proof -
  have len: "0 < len" "len \<le> int ETH_FRAME_MAX_DATA"
    using assms(1) by (auto simp: vcs_eth_mac_send_raw_def split: if_splits)
  obtain p1 f where send: "eth_port_send p (frame_of_bytes data len) 0 l = (0, p1, f, l1)"
    using assms(1) len by (auto simp: vcs_eth_mac_send_raw_def split: prod.splits)
  note wf = wf_frame_of_bytes [OF len assms(5)]
  note ok = send_ok [OF send assms(2) wf]
  obtain res l2 where tr: "eth_port_try_recv q l1 = (res, l2)" by fastforce
  note t = try_recv [OF ok(7) tr, unfolded assms(4), simplified]
  have "res = Some f" and rest: "eth_items (eth_shm_tx_ring l2 (ep_role p)) = []"
    using t(1,2) ok(5) assms(3) by (cases res; simp)+
  moreover have c: "recv_copy_len f max_len = len"
    using len assms(6,7) ok(1) by (intro recv_copy_len_frame_of_bytes) (simp_all add: stamped_def frame_of_bytes_def)
  moreover have "take (nat len) (ef_data f) = take (nat len) data"
    using ok(1) len assms(5) by (simp add: stamped_def frame_of_bytes_def frame_zero_def)
  ultimately show ?thesis using recv_raw_some [of q l1 f l2 max_len] tr len assms(6) by simp
qed

subsection \<open>Properties\<close>

text \<open>A frame that one node's shim sends on an idle link is what the other node's shim receives: the same
  length and the same bytes, and the ring is empty again.\<close>

lemma mac_frame_delivered:
  assumes "vcs_eth_mac_send_raw (Some data) len (Some p) l = (0, g1, l1)" and "eth_link_inv l"
    and "eth_items (eth_shm_tx_ring l (ep_role p)) = []" and "ep_role q = eth_peer (ep_role p)"
    and "nat len \<le> length data" and "len \<le> max_len" and "max_len < 2 ^ 16"
  shows "\<exists>l2. vcs_eth_mac_recv_raw True max_len (Some q) l1 =
      Some ((len, take (nat len) data), Some (eth_port_tx_complete q), l2)
    \<and> eth_items (eth_shm_tx_ring l2 (ep_role p)) = []"
  using raw_roundtrip [OF assms] .

lemma mac_frame_delivered_witness:
  "\<exists>g1 l1 l2. vcs_eth_mac_send_raw (Some [1, 2, 3]) 3 (Some (open_port cfg_example ETH_ROLE_A)) eth_link_init = (0, g1, l1)
    \<and> vcs_eth_mac_recv_raw True 2048 (Some (open_port cfg_example ETH_ROLE_B)) l1 =
      Some ((3, [1, 2, 3]), Some (eth_port_tx_complete (open_port cfg_example ETH_ROLE_B)), l2)"
proof -
  let ?p = "open_port cfg_example ETH_ROLE_A" and ?f = "frame_of_bytes [1, 2, 3] 3"
  have wf: "wf_frame ?f" by (rule wf_frame_of_bytes) (simp_all add: code_consts)
  have "link_model_fc_can_send (ep_link ?p)" "\<not> fst (link_model_should_drop (ep_link ?p))"
    by (simp_all add: open_port_def link_model_reset_def cfg_example_def link_model_fc_can_send_def
        link_model_should_drop_def)
  moreover have "eth_ring_cap (eth_shm_tx_ring eth_link_init r) = 255" for r
    by (simp add: eth_ring_cap_def eth_shm_tx_ring_def eth_link_init_def code_consts)
  ultimately have "fst (eth_port_send ?p ?f 0 eth_link_init) = 0"
    using send_rc [OF eth_link_inv_init wf, of ?p 0] by simp
  then obtain p1 f1 l1 where s: "eth_port_send ?p ?f 0 eth_link_init = (0, p1, f1, l1)"
    by (metis prod.collapse)
  then have send: "vcs_eth_mac_send_raw (Some [1, 2, 3]) 3 (Some ?p) eth_link_init = (0, Some p1, l1)"
    by (simp add: vcs_eth_mac_send_raw_def code_consts)
  have role: "ep_role (open_port cfg_example ETH_ROLE_B) = eth_peer (ep_role ?p)"
    by (simp add: open_port_def eth_peer_def)
  from mac_frame_delivered [OF send eth_link_inv_init _ role, of 2048] show ?thesis
    using send by auto
qed

text \<open>The copy length of a poll is compared in 16 bits: with a buffer of exactly 65536 bytes every received
  frame is copied as 65536 bytes, past the end of the 9216-byte frame.\<close>

lemma mac_poll_truncated_bound:
  assumes "eth_port_try_recv port l = (Some f, l1)"
  shows "vcs_eth_mac_recv_raw True 65536 (Some port) l = None"
proof -
  have "\<not> w < 65536" for w :: u16 by (simp add: word_less_nat_alt)
  then have "recv_copy_len f 65536 = 65536" by (simp add: recv_copy_len_def)
  then show ?thesis using assms by (simp add: vcs_eth_mac_recv_raw_def recv_nonblocking code_consts)
qed

text \<open>A link on which one frame waits for role B.\<close>

definition link_with :: "eth_frame \<Rightarrow> eth_link" where
  "link_with f = eth_link_init\<lparr>el_a_to_b := snd (eth_shm_enqueue (el_a_to_b eth_link_init) f)\<rparr>"

lemma link_with:
  assumes "wf_frame f"
  shows "eth_items (eth_shm_rx_ring (link_with f) ETH_ROLE_B) = [f]" and "eth_link_inv (link_with f)"
proof -
  let ?r = "el_a_to_b eth_link_init"
  have inv: "eth_ring_inv ?r" "eth_ring_inv (el_b_to_a eth_link_init)"
    using eth_link_inv_init by (simp_all add: eth_link_inv_def)
  have "eth_items ?r = []" using items_init [of ETH_ROLE_A] by (simp add: eth_shm_tx_ring_def)
  moreover have "eth_ring_cap ?r = 255" by (simp add: eth_ring_cap_def eth_link_init_def code_consts)
  ultimately have "eth_items (snd (eth_shm_enqueue ?r f)) = [f]"
    using er.enq_room [OF inv(1) assms] by simp
  then show "eth_items (eth_shm_rx_ring (link_with f) ETH_ROLE_B) = [f]"
    by (simp add: link_with_def eth_shm_rx_ring_def)
  show "eth_link_inv (link_with f)"
    using inv eth_enqueue_inv(1) [OF inv(1) assms] by (simp add: eth_link_inv_def link_with_def)
qed

theorem mac_poll_truncated_bound_witness:
  "vcs_eth_mac_recv_raw True 65536 (Some (open_port cfg_example ETH_ROLE_B)) (link_with frame_zero) = None"
proof -
  let ?q = "open_port cfg_example ETH_ROLE_B"
  have role: "ep_role ?q = ETH_ROLE_B" by (simp add: open_port_def)
  obtain res l1 where tr: "eth_port_try_recv ?q (link_with frame_zero) = (res, l1)" by fastforce
  have "res \<noteq> None"
    using try_recv(2) [OF _ tr] link_with [of frame_zero] by (simp add: role)
  then obtain f where "res = Some f" by blast
  with tr mac_poll_truncated_bound show ?thesis by blast
qed

end
