(* ===== verification/Tap_Bridge.thy ===== *)
theory Tap_Bridge
  imports Eth_Mac_Dpi
begin

section \<open>The TAP bridge daemon: tools/eth\_tap\_bridge.c\<close>

text \<open>
  The main loop of the daemon on role B of the link.  One iteration drains the receive ring into the
  TAP device, then moves at most one frame from the device to the link.  The answers of
  \<open>write\<close> (bytes written, or a negative value) and of \<open>read\<close> are arguments.
\<close>

record tap_state =
  tb_port :: eth_port
  tb_shm_to_tap :: u64
  tb_tap_to_shm :: u64
  tb_did_work :: bool

text \<open>The inner loop; \<^theory_text>\<open>None\<close> when the answers of \<open>write\<close> run out before the ring is
  empty, or when a frame's length exceeds its data array.\<close>

fun tap_drain :: "int list \<Rightarrow> tap_state \<Rightarrow> eth_link \<Rightarrow> (bytes list \<times> tap_state \<times> eth_link) option" where
  "tap_drain writes tb l =
     (case eth_port_try_recv (tb_port tb) l of
        (None, l1) \<Rightarrow> Some ([], tb, l1)
      | (Some f, l1) \<Rightarrow>
          (case writes of
             [] \<Rightarrow> None
           | nw # ws \<Rightarrow>
               if unat (ef_len f) > ETH_FRAME_MAX_DATA then None
               else let tb1 = tb\<lparr>tb_port := eth_port_tx_complete (tb_port tb)\<rparr>;
                        tb2 = (if nw > 0 then tb1\<lparr>tb_shm_to_tap := tb_shm_to_tap tb1 + 1, tb_did_work := True\<rparr>
                               else tb1)
                    in map_option (\<lambda>(outs, r). (take (unat (ef_len f)) (ef_data f) # outs, r))
                         (tap_drain ws tb2 l1)))"

declare tap_drain.simps [simp del]

text \<open>\<open>read\<close> returned the bytes \<open>buf\<close> (at most \<open>ETH_FRAME_MAX_DATA\<close>), or nothing.\<close>

definition tap_inject :: "bytes option \<Rightarrow> u64 \<Rightarrow> tap_state \<Rightarrow> eth_link \<Rightarrow> rc \<times> tap_state \<times> eth_link" where
  "tap_inject got now tb l =
     (case got of
        None \<Rightarrow> (0, tb, l)
      | Some buf \<Rightarrow>
          if buf = [] then (0, tb, l)
          else (case eth_port_send (tb_port tb) (frame_of_bytes buf (int (length buf))) now l of
              (r, port1, _, l1) \<Rightarrow>
                let tb1 = tb\<lparr>tb_port := port1\<rparr>
                in if r = 0 then (r, tb1\<lparr>tb_tap_to_shm := tb_tap_to_shm tb1 + 1, tb_did_work := True\<rparr>, l1)
                   else (r, tb1, l1)))"

definition tap_iteration :: "int list \<Rightarrow> bytes option \<Rightarrow> u64 \<Rightarrow> tap_state \<Rightarrow> eth_link
    \<Rightarrow> (bytes list \<times> rc \<times> tap_state \<times> eth_link) option" where
  "tap_iteration writes got now tb l =
     (case tap_drain writes (tb\<lparr>tb_did_work := False\<rparr>) l of
        None \<Rightarrow> None
      | Some (outs, tb1, l1) \<Rightarrow>
          (case tap_inject got now tb1 l1 of (r, tb2, l2) \<Rightarrow> Some (outs, r, tb2, l2)))"

text \<open>The drain loop ends after one write per queued frame, and writes exactly the queued frames.\<close>

lemma tap_drain_all:
  assumes "eth_link_inv l" and "length (eth_items (eth_shm_rx_ring l (ep_role (tb_port tb)))) \<le> length writes"
    and "\<forall>f\<in>set (eth_items (eth_shm_rx_ring l (ep_role (tb_port tb)))). unat (ef_len f) \<le> ETH_FRAME_MAX_DATA"
  shows "\<exists>tb' l'. tap_drain writes tb l =
      Some (map (\<lambda>f. take (unat (ef_len f)) (ef_data f)) (eth_items (eth_shm_rx_ring l (ep_role (tb_port tb)))), tb', l')
    \<and> eth_items (eth_shm_rx_ring l' (ep_role (tb_port tb))) = []
    \<and> eth_shm_tx_ring l' (ep_role (tb_port tb)) = eth_shm_tx_ring l (ep_role (tb_port tb)) \<and> eth_link_inv l'"
  using assms
proof (induction writes arbitrary: tb l)
  case Nil
  obtain res l1 where tr: "eth_port_try_recv (tb_port tb) l = (res, l1)" by fastforce
  note t = try_recv [OF Nil.prems(1) tr]
  have "res = None" using t(2) Nil.prems(2) by simp
  then show ?case using t Nil.prems(2) tr by (subst tap_drain.simps) auto
next
  case (Cons nw ws)
  obtain res l1 where tr: "eth_port_try_recv (tb_port tb) l = (res, l1)" by fastforce
  note t = try_recv [OF Cons.prems(1) tr]
  show ?case
  proof (cases res)
    case None
    then show ?thesis using t tr by (subst tap_drain.simps) auto
  next
    case (Some f)
    let ?tb1 = "tb\<lparr>tb_port := eth_port_tx_complete (tb_port tb)\<rparr>"
    let ?tb2 = "if nw > 0 then ?tb1\<lparr>tb_shm_to_tap := tb_shm_to_tap ?tb1 + 1, tb_did_work := True\<rparr> else ?tb1"
    have role: "ep_role (tb_port ?tb2) = ep_role (tb_port tb)" by (simp add: eth_port_tx_complete_def)
    have f: "unat (ef_len f) \<le> ETH_FRAME_MAX_DATA" using t(1) Some Cons.prems(3) by simp
    obtain tb' l' where "tap_drain ws ?tb2 l1 =
      Some (map (\<lambda>f. take (unat (ef_len f)) (ef_data f)) (eth_items (eth_shm_rx_ring l1 (ep_role (tb_port tb)))), tb', l')"
      and rest: "eth_items (eth_shm_rx_ring l' (ep_role (tb_port tb))) = []"
      "eth_shm_tx_ring l' (ep_role (tb_port tb)) = eth_shm_tx_ring l1 (ep_role (tb_port tb))" "eth_link_inv l'"
      using Cons.IH [of l1 ?tb2, unfolded role] t(1,4) Some Cons.prems(2,3) by auto
    then show ?thesis
      using t(1,3) tr Some f by (subst tap_drain.simps) (auto simp: Let_def)
  qed
qed

subsection \<open>Properties\<close>

text \<open>One pass of the bridge's drain loop ends as soon as the ring is empty, writes the payload of every
  queued frame to the TAP device in order, and leaves the transmit direction untouched.\<close>

lemma tap_drain_forwards_all:
  assumes "eth_link_inv l" and "length (eth_items (eth_shm_rx_ring l (ep_role (tb_port tb)))) \<le> length writes"
    and "\<forall>f\<in>set (eth_items (eth_shm_rx_ring l (ep_role (tb_port tb)))). unat (ef_len f) \<le> ETH_FRAME_MAX_DATA"
  shows "\<exists>tb' l'. tap_drain writes tb l =
      Some (map (\<lambda>f. take (unat (ef_len f)) (ef_data f)) (eth_items (eth_shm_rx_ring l (ep_role (tb_port tb)))), tb', l')
    \<and> eth_items (eth_shm_rx_ring l' (ep_role (tb_port tb))) = []
    \<and> eth_shm_tx_ring l' (ep_role (tb_port tb)) = eth_shm_tx_ring l (ep_role (tb_port tb))"
  using tap_drain_all [OF assms] by blast

lemma tap_drain_forwards_all_witness:
  "\<exists>tb' l'. tap_drain [60] \<lparr>tb_port = open_port cfg_example ETH_ROLE_B, tb_shm_to_tap = 0, tb_tap_to_shm = 0,
       tb_did_work = False\<rparr> (link_with (frame_zero\<lparr>ef_len := 3\<rparr>)) = Some ([[0, 0, 0]], tb', l')"
proof -
  let ?tb = "\<lparr>tb_port = open_port cfg_example ETH_ROLE_B, tb_shm_to_tap = 0, tb_tap_to_shm = 0, tb_did_work = False\<rparr>"
  have "wf_frame (frame_zero\<lparr>ef_len := 3\<rparr>)" by (simp add: wf_frame_def frame_zero_def)
  note l = link_with [OF this]
  have role: "ep_role (tb_port ?tb) = ETH_ROLE_B" by (simp add: open_port_def)
  have "take 3 (ef_data frame_zero) = [0, 0, 0]"
    by (simp add: frame_zero_def code_consts numeral_3_eq_3 take_replicate)
  then show ?thesis
    using tap_drain_forwards_all [OF l(2), of ?tb "[60]", unfolded role l(1)] by (auto simp: code_consts)
qed

end
