(* ===== verification/Sockets.thy ===== *)
theory Sockets
  imports Prelude
begin

section \<open>Stream sockets\<close>

text \<open>
  A connected stream socket seen by the code: the bytes still to arrive, the bytes sent, and the
  answers the kernel will give to the next \<open>recv\<close>, \<open>send\<close> and \<open>poll\<close> calls, in order.  A transfer
  answer moves at most the requested bytes, so any way of cutting the stream into pieces is a
  schedule.  When a schedule is used up, calls transfer all they can; a \<open>recv\<close> with nothing left to
  arrive returns 0, as after the peer has closed.
\<close>

datatype io_answer =
    Xfer nat        \<comment> \<open>transfer up to this many bytes\<close>
  | Intr            \<comment> \<open>-1 with \<open>EINTR\<close>\<close>
  | Again           \<comment> \<open>-1 with \<open>EAGAIN\<close>\<close>
  | Io_Err          \<comment> \<open>-1 with another \<open>errno\<close>\<close>

datatype poll_answer = Poll_Ready | Poll_Timeout | Poll_Intr | Poll_Err | Poll_Hup

record sock =
  sk_in :: bytes
  sk_out :: bytes
  sk_rx :: "io_answer list"
  sk_tx :: "io_answer list"
  sk_polls :: "poll_answer list"

datatype io_result = Bytes bytes | R_Intr | R_Again | R_Err

definition sk_recv :: "nat \<Rightarrow> sock \<Rightarrow> io_result \<times> sock" where
  "sk_recv n s =
     (case sk_rx s of
        [] \<Rightarrow> (Bytes (take n (sk_in s)), s\<lparr>sk_in := drop n (sk_in s)\<rparr>)
      | Xfer k # es \<Rightarrow> (let m = min (max 1 k) n
          in (Bytes (take m (sk_in s)), s\<lparr>sk_in := drop m (sk_in s), sk_rx := es\<rparr>))
      | Intr # es \<Rightarrow> (R_Intr, s\<lparr>sk_rx := es\<rparr>)
      | Again # es \<Rightarrow> (R_Again, s\<lparr>sk_rx := es\<rparr>)
      | Io_Err # es \<Rightarrow> (R_Err, s\<lparr>sk_rx := es\<rparr>))"

text \<open>\<open>recv\<close> with \<open>MSG_PEEK\<close>: the bytes stay.\<close>

definition sk_peek :: "nat \<Rightarrow> sock \<Rightarrow> bytes" where
  "sk_peek n s = take n (sk_in s)"

text \<open>\<open>send\<close> answers with the bytes it took.\<close>

definition sk_send :: "bytes \<Rightarrow> sock \<Rightarrow> io_result \<times> sock" where
  "sk_send bs s =
     (case sk_tx s of
        [] \<Rightarrow> (Bytes bs, s\<lparr>sk_out := sk_out s @ bs\<rparr>)
      | Xfer k # es \<Rightarrow> (Bytes (take k bs), s\<lparr>sk_out := sk_out s @ take k bs, sk_tx := es\<rparr>)
      | Intr # es \<Rightarrow> (R_Intr, s\<lparr>sk_tx := es\<rparr>)
      | Again # es \<Rightarrow> (R_Again, s\<lparr>sk_tx := es\<rparr>)
      | Io_Err # es \<Rightarrow> (R_Err, s\<lparr>sk_tx := es\<rparr>))"

definition sk_poll :: "sock \<Rightarrow> poll_answer \<times> sock" where
  "sk_poll s = (case sk_polls s of [] \<Rightarrow> (if sk_in s = [] then Poll_Timeout else Poll_Ready, s)
     | p # ps \<Rightarrow> (p, s\<lparr>sk_polls := ps\<rparr>))"

definition fresh_sock :: "bytes \<Rightarrow> sock" where
  "fresh_sock arriving = \<lparr>sk_in = arriving, sk_out = [], sk_rx = [], sk_tx = [], sk_polls = []\<rparr>"

text \<open>Schedules of a healthy connection: transfers of any size, and interruptions by signals.\<close>

fun benign :: "io_answer \<Rightarrow> bool" where
  "benign (Xfer k) \<longleftrightarrow> 0 < k"
| "benign Intr \<longleftrightarrow> True"
| "benign _ \<longleftrightarrow> False"

definition healthy :: "sock \<Rightarrow> bool" where
  "healthy s \<longleftrightarrow> list_all benign (sk_rx s) \<and> list_all benign (sk_tx s)"

lemma healthy_fresh [simp]: "healthy (fresh_sock bs)"
  by (simp add: healthy_def fresh_sock_def)

subsection \<open>The retry loops of transport\_tcp.c\<close>

lemma sk_send_smaller:
  assumes "bs \<noteq> []" and "sk_send bs s = (r, s')"
  shows "r = Bytes ys \<Longrightarrow> ys \<noteq> [] \<Longrightarrow> length (sk_tx s') + length (drop (length ys) bs) < length (sk_tx s) + length bs"
    and "r = R_Intr \<Longrightarrow> length (sk_tx s') < length (sk_tx s)"
  using assms by (auto simp: sk_send_def split: list.splits io_answer.splits)

lemma sk_recv_smaller:
  assumes "0 < n" and "sk_recv n s = (r, s')"
  shows "r = Bytes ys \<Longrightarrow> ys \<noteq> [] \<Longrightarrow> length (sk_rx s') + (n - length ys) < length (sk_rx s) + n"
    and "r = R_Intr \<Longrightarrow> length (sk_rx s') < length (sk_rx s)"
  using assms by (auto simp: sk_recv_def Let_def split: list.splits io_answer.splits)

function tcp_send_all :: "bytes \<Rightarrow> sock \<Rightarrow> rc \<times> sock" where
  "tcp_send_all bs s =
     (if bs = [] then (0, s)
      else (case sk_send bs s of
          (Bytes ys, s1) \<Rightarrow> if ys = [] then (-1, s1) else tcp_send_all (drop (length ys) bs) s1
        | (R_Intr, s1) \<Rightarrow> tcp_send_all bs s1
        | (R_Again, s1) \<Rightarrow> (-1, s1)
        | (R_Err, s1) \<Rightarrow> (-1, s1)))"
  by pat_completeness auto
termination
  by (relation "measure (\<lambda>(bs, s). length (sk_tx s) + length bs)")
    (use sk_send_smaller in \<open>force simp: eq_commute\<close>)+

function tcp_recv_all :: "nat \<Rightarrow> sock \<Rightarrow> bytes option \<times> sock" where
  "tcp_recv_all n s =
     (if n = 0 then (Some [], s)
      else (case sk_recv n s of
          (Bytes ys, s1) \<Rightarrow> if ys = [] then (None, s1)
             else (case tcp_recv_all (n - length ys) s1 of (r, s2) \<Rightarrow> (map_option (\<lambda>zs. ys @ zs) r, s2))
        | (R_Intr, s1) \<Rightarrow> tcp_recv_all n s1
        | (R_Again, s1) \<Rightarrow> (None, s1)
        | (R_Err, s1) \<Rightarrow> (None, s1)))"
  by pat_completeness auto
termination
  by (relation "measure (\<lambda>(n, s). length (sk_rx s) + n)")
    (use sk_recv_smaller in \<open>force simp: eq_commute\<close>)+

declare tcp_send_all.simps [simp del] tcp_recv_all.simps [simp del]

text \<open>On a healthy connection the loops hide the schedule.\<close>

lemma tcp_send_all_ok:
  "healthy s \<Longrightarrow> \<exists>es. tcp_send_all bs s = (0, s\<lparr>sk_out := sk_out s @ bs, sk_tx := es\<rparr>) \<and> list_all benign es"
proof (induction bs s rule: tcp_send_all.induct)
  case (1 bs s)
  show ?case
  proof (cases "bs = []")
    case True
    then show ?thesis using 1 by (subst tcp_send_all.simps) (auto simp: healthy_def intro!: exI [of _ "sk_tx s"])
  next
    case False
    obtain r s1 where send: "sk_send bs s = (r, s1)" by fastforce
    consider (none) "sk_tx s = []" | (xfer) k es where "sk_tx s = Xfer k # es" "0 < k" "list_all benign es"
      | (intr) es where "sk_tx s = Intr # es" "list_all benign es"
      using 1(3) by (cases "sk_tx s"; cases "hd (sk_tx s)") (auto simp: healthy_def)
    then show ?thesis
    proof cases
      case none
      then show ?thesis using False send 1(3)
        by (subst tcp_send_all.simps)
          (auto simp: sk_send_def tcp_send_all.simps [of "[]"] healthy_def intro!: exI [of _ "[]"])
    next
      case (xfer k es)
      let ?s1 = "s\<lparr>sk_out := sk_out s @ take k bs, sk_tx := es\<rparr>"
      have s: "sk_send bs s = (Bytes (take k bs), ?s1)" using xfer by (simp add: sk_send_def)
      have ne: "take k bs \<noteq> []" using False xfer by simp
      have h: "healthy ?s1" using 1(3) xfer by (simp add: healthy_def)
      obtain es' where "tcp_send_all (drop (length (take k bs)) bs) ?s1 =
          (0, ?s1\<lparr>sk_out := sk_out ?s1 @ drop (length (take k bs)) bs, sk_tx := es'\<rparr>)" "list_all benign es'"
        using 1(1) [OF False s [symmetric] refl ne h] by blast
      then show ?thesis using False s ne
        by (subst tcp_send_all.simps) (auto simp: min_def split: if_splits)
    next
      case (intr es)
      let ?s1 = "s\<lparr>sk_tx := es\<rparr>"
      have s: "sk_send bs s = (R_Intr, ?s1)" using intr by (simp add: sk_send_def)
      have "healthy ?s1" using 1(3) intr by (simp add: healthy_def)
      with 1(2) [OF False s [symmetric] refl] show ?thesis using False s by (subst tcp_send_all.simps) auto
    qed
  qed
qed

lemma tcp_recv_all_ok:
  "healthy s \<Longrightarrow> n \<le> length (sk_in s) \<Longrightarrow>
     \<exists>es. tcp_recv_all n s = (Some (take n (sk_in s)), s\<lparr>sk_in := drop n (sk_in s), sk_rx := es\<rparr>) \<and> list_all benign es"
proof (induction n s rule: tcp_recv_all.induct)
  case (1 n s)
  show ?case
  proof (cases "n = 0")
    case True
    then show ?thesis using 1 by (subst tcp_recv_all.simps) (auto simp: healthy_def intro!: exI [of _ "sk_rx s"])
  next
    case False
    consider (none) "sk_rx s = []" | (xfer) k es where "sk_rx s = Xfer k # es" "0 < k" "list_all benign es"
      | (intr) es where "sk_rx s = Intr # es" "list_all benign es"
      using 1(3) by (cases "sk_rx s"; cases "hd (sk_rx s)") (auto simp: healthy_def)
    then show ?thesis
    proof cases
      case none
      then show ?thesis using False 1(3,4)
        by (subst tcp_recv_all.simps)
          (auto simp: sk_recv_def tcp_recv_all.simps [of 0] healthy_def intro!: exI [of _ "[]"])
    next
      case (xfer k es)
      let ?m = "min k n"
      let ?s1 = "s\<lparr>sk_in := drop ?m (sk_in s), sk_rx := es\<rparr>"
      have s: "sk_recv n s = (Bytes (take ?m (sk_in s)), ?s1)" using xfer by (simp add: sk_recv_def Let_def max_def)
      have len: "length (take ?m (sk_in s)) = ?m" and ne: "take ?m (sk_in s) \<noteq> []" using 1(4) False xfer by auto
      have h: "healthy ?s1" "n - length (take ?m (sk_in s)) \<le> length (sk_in ?s1)"
        using 1(3,4) xfer len by (auto simp: healthy_def)
      obtain es' where "tcp_recv_all (n - length (take ?m (sk_in s))) ?s1 =
          (Some (take (n - ?m) (sk_in ?s1)), ?s1\<lparr>sk_in := drop (n - ?m) (sk_in ?s1), sk_rx := es'\<rparr>)" "list_all benign es'"
        using 1(1) [OF False s [symmetric] refl ne h] len by auto
      moreover have "take ?m xs @ take (n - ?m) (drop ?m xs) = take n xs" "drop (n - ?m) (drop ?m xs) = drop n xs"
        for xs :: bytes by (simp_all add: min_def flip: take_add)
      ultimately show ?thesis using False s ne by (subst tcp_recv_all.simps) auto
    next
      case (intr es)
      let ?s1 = "s\<lparr>sk_rx := es\<rparr>"
      have s: "sk_recv n s = (R_Intr, ?s1)" using intr by (simp add: sk_recv_def)
      have "healthy ?s1" "n \<le> length (sk_in ?s1)" using 1(3,4) intr by (simp_all add: healthy_def)
      with 1(2) [OF False s [symmetric] refl] show ?thesis using False s by (subst tcp_recv_all.simps) auto
    qed
  qed
qed

text \<open>Whatever the schedule, success means that exactly the requested bytes were moved.\<close>

lemma tcp_send_all_sound: "tcp_send_all bs s = (0, s') \<Longrightarrow> sk_out s' = sk_out s @ bs"
proof (induction bs s arbitrary: s' rule: tcp_send_all.induct)
  case (1 bs s)
  obtain r s1 where send: "sk_send bs s = (r, s1)" by fastforce
  have r: "r = Bytes ys \<Longrightarrow> sk_out s1 = sk_out s @ ys \<and> ys @ drop (length ys) bs = bs" for ys
    using send by (auto simp: sk_send_def min_def split: list.splits io_answer.splits)
  have i: "r = R_Intr \<Longrightarrow> sk_out s1 = sk_out s"
    using send by (auto simp: sk_send_def split: list.splits io_answer.splits)
  show ?case
    using 1(3) send r i 1(1) [OF _ send [symmetric]] 1(2) [OF _ send [symmetric]]
    by (subst (asm) tcp_send_all.simps) (cases r; auto split: if_splits)
qed

lemma tcp_recv_all_sound:
  "tcp_recv_all n s = (Some bs, s') \<Longrightarrow>
     n \<le> length (sk_in s) \<and> bs = take n (sk_in s) \<and> sk_in s' = drop n (sk_in s) \<and> sk_out s' = sk_out s"
proof (induction n s arbitrary: bs s' rule: tcp_recv_all.induct)
  case (1 n s)
  obtain r s1 where recv: "sk_recv n s = (r, s1)" by fastforce
  have r: "\<exists>m\<le>n. ys = take m (sk_in s) \<and> sk_in s1 = drop m (sk_in s) \<and> sk_out s1 = sk_out s" if "r = Bytes ys" for ys
  proof (cases "sk_rx s")
    case Nil
    then show ?thesis using recv that by (auto simp: sk_recv_def)
  next
    case (Cons e es)
    then show ?thesis using recv that
      by (cases e) (auto simp: sk_recv_def Let_def intro!: exI [of _ "min (max 1 k) n" for k] min.cobounded2)
  qed
  have i: "r = R_Intr \<Longrightarrow> sk_in s1 = sk_in s \<and> sk_out s1 = sk_out s"
    using recv by (auto simp: sk_recv_def Let_def split: list.splits io_answer.splits)
  show ?case
  proof (cases "n = 0")
    case True
    then show ?thesis using 1(3) by (subst (asm) tcp_recv_all.simps) simp
  next
    case False
    show ?thesis
    proof (cases r)
      case (Bytes ys)
      obtain m where m: "m \<le> n" "ys = take m (sk_in s)" "sk_in s1 = drop m (sk_in s)" "sk_out s1 = sk_out s"
        using r [OF Bytes] by blast
      obtain zs where ne: "ys \<noteq> []" and rest: "tcp_recv_all (n - length ys) s1 = (Some zs, s')" and bs: "bs = ys @ zs"
        using 1(3) False recv Bytes
        by (subst (asm) tcp_recv_all.simps) (auto split: if_splits prod.splits)
      have ih: "n - length ys \<le> length (sk_in s1) \<and> zs = take (n - length ys) (sk_in s1)
          \<and> sk_in s' = drop (n - length ys) (sk_in s1) \<and> sk_out s' = sk_out s1"
        using 1(1) [OF False recv [symmetric] Bytes ne rest] .
      show ?thesis
      proof (cases "m \<le> length (sk_in s)")
        case True
        then have "length ys = m" using m by simp
        then show ?thesis using ih m bs True by (simp add: take_add [symmetric] le_diff_conv)
      next
        case False
        then have "sk_in s1 = []" "length ys = length (sk_in s)" using m by simp_all
        then show ?thesis using ih m bs False by simp
      qed
    next
      case R_Intr
      have "tcp_recv_all n s1 = (Some bs, s')"
        using 1(3) False recv R_Intr by (subst (asm) tcp_recv_all.simps) simp
      then show ?thesis using 1(2) [OF False recv [symmetric] R_Intr] i [OF R_Intr] by simp
    qed (use 1(3) False recv in \<open>subst (asm) tcp_recv_all.simps, simp\<close>)+
  qed
qed

end
