(* ===== verification/Sock_Sync.thy ===== *)
theory Sock_Sync
  imports Sockets Cosim_Types
begin

section \<open>Control channel over a Unix socket: sock\_sync.c\<close>

text \<open>
  Sync messages over a stream socket.  A message is moved by one system call, so a transfer that is
  cut short is an error here, unlike in transport\_tcp.c.  The accept and connect loops are driven by
  the answers of the kernel.
\<close>

definition sock_sync_send :: "sync_msg \<Rightarrow> sock \<Rightarrow> rc \<times> sock" where
  "sock_sync_send msg s =
     (case sk_send (enc_sync msg) s of
        (Bytes bs, s1) \<Rightarrow> (if length bs = 8 then 0 else -1, s1)
      | (_, s1) \<Rightarrow> (-1, s1))"

definition sock_sync_recv :: "sock \<Rightarrow> sync_msg recvd \<times> sock" where
  "sock_sync_recv s =
     (case sk_recv 8 s of
        (Bytes bs, s1) \<Rightarrow> (if length bs = 8 then Got (dec_sync bs) else Failed, s1)
      | (_, s1) \<Rightarrow> (Failed, s1))"

text \<open>The spin loop: \<open>elapsed\<close> and \<open>limit\<close> in microseconds.  A non-blocking \<open>recv\<close> on a used-up
  schedule with nothing arrived answers \<open>EAGAIN\<close>.\<close>

definition sk_recv_nb :: "nat \<Rightarrow> sock \<Rightarrow> io_result \<times> sock" where
  "sk_recv_nb n s = (if sk_rx s = [] \<and> sk_in s = [] then (R_Again, s) else sk_recv n s)"

function recv_timed_loop :: "int \<Rightarrow> int \<Rightarrow> int \<Rightarrow> sock \<Rightarrow> sync_msg recvd \<times> sock" where
  "recv_timed_loop spin limit elapsed s =
     (case sk_recv_nb 8 s of
        (Bytes bs, s1) \<Rightarrow> (if length bs = 8 then Got (dec_sync bs) else Failed, s1)
      | (R_Again, s1) \<Rightarrow>
          if elapsed \<ge> limit then (Nothing, s1)
          else if spin > 0 then recv_timed_loop spin limit (elapsed + spin) s1
          else (Nothing, s1)
      | (_, s1) \<Rightarrow> (Failed, s1))"
  by pat_completeness auto
termination
  by (relation "measure (\<lambda>(spin, limit, elapsed, s). nat (limit - elapsed))") auto

declare recv_timed_loop.simps [simp del]

definition sock_sync_recv_timed :: "int \<Rightarrow> sock \<Rightarrow> sync_msg recvd \<times> sock" where
  "sock_sync_recv_timed timeout_ms s =
     recv_timed_loop (if timeout_ms = 0 then 0 else 500) (timeout_ms * 1000) 0 s"

subsection \<open>Listening and connecting\<close>

text \<open>Each \<open>accept\<close> of the polling loop answers with a descriptor or an error number.\<close>

datatype accept_answer = Acc_Fd int | Acc_Again | Acc_Intr | Acc_Err

definition COSIM_DEFAULT_CONNECT_TIMEOUT :: int where
  [code_consts]: "COSIM_DEFAULT_CONNECT_TIMEOUT = 180"

definition accept_timeout_ms :: "int option \<Rightarrow> int" where
  "accept_timeout_ms env = (case env of
       None \<Rightarrow> COSIM_DEFAULT_CONNECT_TIMEOUT
     | Some val \<Rightarrow> if val > 0 then val else COSIM_DEFAULT_CONNECT_TIMEOUT) * 1000"

text \<open>\<^theory_text>\<open>None\<close>: the answers are used up and the loop has not returned.\<close>

fun accept_loop :: "int \<Rightarrow> int \<Rightarrow> accept_answer list \<Rightarrow> int option" where
  "accept_loop timeout_ms elapsed_ms [] = None"
| "accept_loop timeout_ms elapsed_ms (Acc_Fd fd # as) = Some fd"
| "accept_loop timeout_ms elapsed_ms (Acc_Again # as) =
     (if elapsed_ms \<ge> timeout_ms then Some (-1) else accept_loop timeout_ms (elapsed_ms + 500) as)"
| "accept_loop timeout_ms elapsed_ms (Acc_Intr # as) = Some (-1)"
| "accept_loop timeout_ms elapsed_ms (Acc_Err # as) = Some (-1)"

definition sock_sync_accept :: "int option \<Rightarrow> accept_answer list \<Rightarrow> int option" where
  "sock_sync_accept env as = accept_loop (accept_timeout_ms env) 0 as"

text \<open>\<open>socket\<close>, \<open>bind\<close>, \<open>listen\<close> and \<open>connect\<close> each succeed or fail; the descriptor is the kernel's.\<close>

definition sock_sync_listen :: "int \<Rightarrow> bool \<Rightarrow> bool \<Rightarrow> int" where
  "sock_sync_listen fd bind_ok listen_ok =
     (if fd < 0 then -1 else if \<not> bind_ok then -1 else if \<not> listen_ok then -1 else fd)"

definition sock_sync_connect :: "int \<Rightarrow> bool \<Rightarrow> int" where
  "sock_sync_connect fd connect_ok = (if fd < 0 then -1 else if \<not> connect_ok then -1 else fd)"

subsection \<open>The loops end\<close>

lemma accept_loop_returns:
  "nat ((timeout_ms - elapsed_ms + 499) div 500) < length as \<Longrightarrow> \<exists>r. accept_loop timeout_ms elapsed_ms as = Some r"
proof (induction timeout_ms elapsed_ms as rule: accept_loop.induct)
  case (3 timeout_ms elapsed_ms as)
  show ?case
  proof (cases "elapsed_ms \<ge> timeout_ms")
    case False
    have "(timeout_ms - elapsed_ms + 499) div 500 = (timeout_ms - (elapsed_ms + 500) + 499) div 500 + 1" by simp
    then have "nat ((timeout_ms - (elapsed_ms + 500) + 499) div 500) < length as"
      using 3(2) False by (auto simp: nat_less_iff)
    then show ?thesis using 3(1) False by simp
  qed simp
qed simp_all

lemma recv_timed_finds:
  assumes "sk_rx s = replicate k Again" and "8 \<le> length (sk_in s)" and "0 < spin" and "elapsed + int k * spin \<le> limit"
  shows "recv_timed_loop spin limit elapsed s =
    (Got (dec_sync (take 8 (sk_in s))), s\<lparr>sk_in := drop 8 (sk_in s), sk_rx := []\<rparr>)"
  using assms
proof (induction k arbitrary: elapsed s)
  case 0
  then show ?case
    by (subst recv_timed_loop.simps) (auto simp: sk_recv_nb_def sk_recv_def min_def)
next
  case (Suc k)
  have le: "elapsed + spin + int k * spin \<le> limit" using Suc.prems(4) by (simp add: algebra_simps)
  then have "\<not> elapsed \<ge> limit" using Suc.prems(3) by (smt (verit) mult_nonneg_nonneg of_nat_0_le_iff)
  moreover have "sk_recv_nb 8 s = (R_Again, s\<lparr>sk_rx := replicate k Again\<rparr>)"
    using Suc.prems(1) by (simp add: sk_recv_nb_def sk_recv_def)
  ultimately show ?case
    using Suc.IH [of "s\<lparr>sk_rx := replicate k Again\<rparr>" "elapsed + spin"] Suc.prems le
    by (subst recv_timed_loop.simps) simp
qed

subsection \<open>Properties\<close>

text \<open>Waiting for the simulator to connect ends: after one retry per half second of the timeout at the
  latest, \<open>sock_sync_accept\<close> has returned a descriptor or given up, whatever \<open>accept\<close> answers.\<close>

lemma accept_gives_up:
  assumes "accept_timeout_ms env + 500 \<le> 500 * int (length as)"
  shows "\<exists>fd. sock_sync_accept env as = Some fd"
  unfolding sock_sync_accept_def
proof (rule accept_loop_returns)
  have "0 < accept_timeout_ms env" by (auto simp: accept_timeout_ms_def code_consts split: option.splits)
  then have "as \<noteq> []" using assms by auto
  moreover have "(accept_timeout_ms env + 499) div 500 < int (length as)" using assms by linarith
  ultimately show "nat ((accept_timeout_ms env - 0 + 499) div 500) < length as"
    by (cases "0 \<le> (accept_timeout_ms env + 499) div 500") (simp_all add: nat_less_iff)
qed

lemma accept_gives_up_witness:
  "\<exists>fd. sock_sync_accept (Some 1) (replicate 3 Acc_Again) = Some fd"
  by (rule accept_gives_up) (simp add: accept_timeout_ms_def)

text \<open>A timed receive finds a message that arrives within the timeout: with \<open>k\<close> empty polls before it
  and \<open>k\<close> half-milliseconds within the limit, it returns the message and consumes exactly its 8 bytes.\<close>

lemma recv_timed_finds_message:
  assumes "sk_rx s = replicate k Again" and "sk_in s = enc_sync m @ rest" and "0 < timeout_ms"
    and "int k \<le> 2 * timeout_ms"
  shows "sock_sync_recv_timed timeout_ms s = (Got m, s\<lparr>sk_in := rest, sk_rx := []\<rparr>)"
  using recv_timed_finds [OF assms(1), of 500 0 "timeout_ms * 1000"] assms
  by (simp add: sock_sync_recv_timed_def)

lemma recv_timed_finds_message_witness:
  "sock_sync_recv_timed 10 ((fresh_sock (enc_sync (sync_of SYNC_MSG_SHUTDOWN 5)))\<lparr>sk_rx := [Again, Again]\<rparr>)
   = (Got (sync_of SYNC_MSG_SHUTDOWN 5), fresh_sock [])"
  using recv_timed_finds_message [of "(fresh_sock (enc_sync (sync_of SYNC_MSG_SHUTDOWN 5)))\<lparr>sk_rx := [Again, Again]\<rparr>" 2
      "sync_of SYNC_MSG_SHUTDOWN 5" "[]" 10]
  by (simp add: fresh_sock_def numeral_2_eq_2)

end
