(* ===== verification/Shm_Layout.thy ===== *)
theory Shm_Layout
  imports Ring_Buffer Cosim_Topology Eth_Shm
begin

section \<open>The shared-memory object: shm\_layout.c\<close>

text \<open>
  One 16 MB object: a control page, five rings and the DMA data area.  The object is a record with
  one field per region; the offsets and sizes are the C macros, and the layout lemmas show that the
  regions tile the object.
\<close>

definition COSIM_SHM_TOTAL_SIZE :: nat where
  [code_consts]: "COSIM_SHM_TOTAL_SIZE = 16 * 1024 * 1024"

definition COSIM_SHM_CTRL_OFFSET :: nat where [code_consts]: "COSIM_SHM_CTRL_OFFSET = 0"
definition COSIM_SHM_CTRL_SIZE :: nat where [code_consts]: "COSIM_SHM_CTRL_SIZE = 0x1000"
definition COSIM_SHM_REQ_OFFSET :: nat where [code_consts]: "COSIM_SHM_REQ_OFFSET = 0x1000"
definition COSIM_SHM_REQ_SIZE :: nat where [code_consts]: "COSIM_SHM_REQ_SIZE = 0x100000"
definition COSIM_SHM_CPL_OFFSET :: nat where [code_consts]: "COSIM_SHM_CPL_OFFSET = 0x101000"
definition COSIM_SHM_CPL_SIZE :: nat where [code_consts]: "COSIM_SHM_CPL_SIZE = 0x100000"
definition COSIM_SHM_DMA_REQ_OFFSET :: nat where [code_consts]: "COSIM_SHM_DMA_REQ_OFFSET = 0x201000"
definition COSIM_SHM_DMA_REQ_SIZE :: nat where [code_consts]: "COSIM_SHM_DMA_REQ_SIZE = 0x40000"
definition COSIM_SHM_DMA_CPL_OFFSET :: nat where [code_consts]: "COSIM_SHM_DMA_CPL_OFFSET = 0x241000"
definition COSIM_SHM_DMA_CPL_SIZE :: nat where [code_consts]: "COSIM_SHM_DMA_CPL_SIZE = 0x40000"
definition COSIM_SHM_MSI_OFFSET :: nat where [code_consts]: "COSIM_SHM_MSI_OFFSET = 0x281000"
definition COSIM_SHM_MSI_SIZE :: nat where [code_consts]: "COSIM_SHM_MSI_SIZE = 0x10000"
definition COSIM_SHM_DMA_BUF_OFFSET :: nat where [code_consts]: "COSIM_SHM_DMA_BUF_OFFSET = 0x291000"

definition dma_buf_size :: nat where
  [code_consts]: "dma_buf_size = COSIM_SHM_TOTAL_SIZE - COSIM_SHM_DMA_BUF_OFFSET"

definition COSIM_SHM_MAGIC :: u32 where [code_consts]: "COSIM_SHM_MAGIC = 0xDEADBEEF"
definition COSIM_PROTOCOL_VER :: u32 where [code_consts]: "COSIM_PROTOCOL_VER = 1"
definition COSIM_IRQ_SLOTS :: nat where [code_consts]: "COSIM_IRQ_SLOTS = 8"

text \<open>The control block, with the topology response that the SHM transport keeps behind it.\<close>

record cosim_ctrl =
  cc_magic :: u32
  cc_version :: u32
  cc_mode :: u32
  cc_qemu_ready :: u32
  cc_vcs_ready :: u32
  cc_sim_time_ns :: u64
  cc_irq_status :: "u32 list"
  cc_mode_switch_pending :: u32
  cc_target_mode :: u32
  cc_precise_cycles_pending :: u64
  cc_topology :: bytes

definition sizeof_cosim_ctrl :: nat where [code_consts]: "sizeof_cosim_ctrl = 104"
definition sizeof_topology_resp :: nat where [code_consts]: "sizeof_topology_resp = 900"

record cosim_shm =
  sh_ctrl :: cosim_ctrl
  sh_req_ring :: ring_buf
  sh_cpl_ring :: ring_buf
  sh_dma_req_ring :: ring_buf
  sh_dma_cpl_ring :: ring_buf
  sh_msi_ring :: ring_buf
  sh_dma_buf :: bytes

definition tlp_size :: u32 where [code_consts]: "tlp_size = 112"
definition cpl_size :: u32 where [code_consts]: "cpl_size = 84"
definition dma_req_size :: u32 where [code_consts]: "dma_req_size = 32"
definition dma_cpl_size :: u32 where [code_consts]: "dma_cpl_size = 16"
definition msi_size :: u32 where [code_consts]: "msi_size = 16"

text \<open>A region after \<open>memset\<close> and \<open>ring_buf_init\<close> (whose result the code ignores).\<close>

definition shm_ring :: "nat \<Rightarrow> u32 \<Rightarrow> ring_buf" where
  "shm_ring region element_size =
     (case ring_buf_init (replicate region 0) (of_nat region) element_size of
        Some rb \<Rightarrow> rb
      | None \<Rightarrow> \<lparr>rb_head = 0, rb_tail = 0, rb_capacity = 0, rb_element_size = 0,
                 rb_data = replicate (region - 16) 0\<rparr>)"

definition cosim_shm_init :: cosim_shm where
  "cosim_shm_init =
     \<lparr>sh_ctrl = \<lparr>cc_magic = COSIM_SHM_MAGIC, cc_version = COSIM_PROTOCOL_VER,
        cc_mode = mode_code COSIM_MODE_FAST, cc_qemu_ready = 0, cc_vcs_ready = 0, cc_sim_time_ns = 0,
        cc_irq_status = replicate COSIM_IRQ_SLOTS 0, cc_mode_switch_pending = 0,
        cc_target_mode = mode_code COSIM_MODE_FAST, cc_precise_cycles_pending = 0,
        cc_topology = replicate sizeof_topology_resp 0\<rparr>,
      sh_req_ring = shm_ring COSIM_SHM_REQ_SIZE tlp_size,
      sh_cpl_ring = shm_ring COSIM_SHM_CPL_SIZE cpl_size,
      sh_dma_req_ring = shm_ring COSIM_SHM_DMA_REQ_SIZE dma_req_size,
      sh_dma_cpl_ring = shm_ring COSIM_SHM_DMA_CPL_SIZE dma_cpl_size,
      sh_msi_ring = shm_ring COSIM_SHM_MSI_SIZE msi_size,
      sh_dma_buf = replicate dma_buf_size 0\<rparr>"

definition cosim_shm_create :: "os_answers \<Rightarrow> rc \<times> cosim_shm option" where
  "cosim_shm_create os =
     (if os_open_fails os then (-1, None)
      else if os_truncate_fails os then (-1, None)
      else if os_mmap_fails os then (-1, None)
      else (0, Some cosim_shm_init))"

text \<open>Opening gives the object found under the name, and what each \<open>ring_buf_attach\<close> answered; the
  code does not look at those answers.\<close>

definition attach_rings :: "cosim_shm \<Rightarrow> ring_buf option list" where
  "attach_rings shm =
     [ring_buf_attach (sh_req_ring shm) (of_nat COSIM_SHM_REQ_SIZE) tlp_size,
      ring_buf_attach (sh_cpl_ring shm) (of_nat COSIM_SHM_CPL_SIZE) cpl_size,
      ring_buf_attach (sh_dma_req_ring shm) (of_nat COSIM_SHM_DMA_REQ_SIZE) dma_req_size,
      ring_buf_attach (sh_dma_cpl_ring shm) (of_nat COSIM_SHM_DMA_CPL_SIZE) dma_cpl_size,
      ring_buf_attach (sh_msi_ring shm) (of_nat COSIM_SHM_MSI_SIZE) msi_size]"

definition cosim_shm_open :: "os_answers \<Rightarrow> cosim_shm option \<Rightarrow> rc \<times> ring_buf option list" where
  "cosim_shm_open os obj =
     (case obj of
        None \<Rightarrow> (-1, [])
      | Some shm \<Rightarrow>
          if os_open_fails os \<or> os_mmap_fails os then (-1, [])
          else if cc_magic (sh_ctrl shm) \<noteq> COSIM_SHM_MAGIC then (-1, [])
          else (0, attach_rings shm))"

text \<open>A handle is its mapping and descriptor; destroying it also removes the name.\<close>

record shm_handle =
  hd_mapped :: bool
  hd_fd :: int

definition cosim_shm_close :: "shm_handle \<Rightarrow> shm_handle" where
  "cosim_shm_close h = (let h1 = h\<lparr>hd_mapped := False\<rparr>
     in if hd_fd h1 \<ge> 0 then h1\<lparr>hd_fd := -1\<rparr> else h1)"

definition cosim_shm_destroy :: "shm_handle \<Rightarrow> cosim_shm option \<Rightarrow> shm_handle \<times> cosim_shm option" where
  "cosim_shm_destroy h obj = (cosim_shm_close h, None)"

subsection \<open>Layout\<close>

definition shm_regions :: "(nat \<times> nat) list" where
  "shm_regions = [(COSIM_SHM_CTRL_OFFSET, COSIM_SHM_CTRL_SIZE), (COSIM_SHM_REQ_OFFSET, COSIM_SHM_REQ_SIZE),
     (COSIM_SHM_CPL_OFFSET, COSIM_SHM_CPL_SIZE), (COSIM_SHM_DMA_REQ_OFFSET, COSIM_SHM_DMA_REQ_SIZE),
     (COSIM_SHM_DMA_CPL_OFFSET, COSIM_SHM_DMA_CPL_SIZE), (COSIM_SHM_MSI_OFFSET, COSIM_SHM_MSI_SIZE),
     (COSIM_SHM_DMA_BUF_OFFSET, dma_buf_size)]"

fun tiles :: "nat \<Rightarrow> (nat \<times> nat) list \<Rightarrow> nat \<Rightarrow> bool" where
  "tiles start [] n \<longleftrightarrow> start = n"
| "tiles start ((off, len) # rs) n \<longleftrightarrow> off = start \<and> tiles (off + len) rs n"

lemma shm_regions_tile: "tiles 0 shm_regions COSIM_SHM_TOTAL_SIZE"
  by (simp add: shm_regions_def code_consts)

lemma ctrl_page_fits: "sizeof_cosim_ctrl + sizeof_topology_resp \<le> COSIM_SHM_CTRL_SIZE"
  by (simp add: code_consts)

lemma shm_ring_init:
  assumes "32 < region" "region < 2 ^ 32" "0 < unat e" "2 * unat e + 16 \<le> region"
  shows "ring_buf_init (replicate region 0) (of_nat region) e = Some (shm_ring region e)"
    and "ring_of e (shm_ring region e)" and "ring_items (shm_ring region e) = []"
    and "ring_cap (shm_ring region e) = (region - 16) div unat e - 1"
    and "ring_buf_attach (shm_ring region e) (of_nat region) e = Some (shm_ring region e)"
proof -
  have r: "unat (of_nat region :: u32) = region" using assms(2) by (simp add: unat_of_nat)
  have "2 \<le> (region - 16) div unat e"
    using assms(3,4) by (simp add: Suc_le_eq less_eq_div_iff_mult_less_eq)
  moreover have "unat (ring_capacity_of (of_nat region) e) = (region - 16) div unat e"
    using assms(1) r by (simp add: ring_capacity_of_def RING_HDR_SIZE_def word_le_nat_alt unat_div unat_sub)
  moreover have "e \<noteq> 0" using assms(3) by auto
  ultimately obtain rb where rb: "ring_buf_init (replicate region 0) (of_nat region) e = Some rb"
    by (auto simp: ring_buf_init_def Let_def word_less_nat_alt)
  then show i: "ring_buf_init (replicate region 0) (of_nat region) e = Some (shm_ring region e)"
    by (simp add: shm_ring_def)
  show "ring_of e (shm_ring region e)" "ring_items (shm_ring region e) = []"
    "ring_cap (shm_ring region e) = (region - 16) div unat e - 1"
    using ring_buf_init_ok [OF i] r by simp_all
  show "ring_buf_attach (shm_ring region e) (of_nat region) e = Some (shm_ring region e)"
    by (rule ring_attach_after_init(2) [OF i])
qed

text \<open>All five rings are empty queues for elements of the right size.\<close>

definition shm_inv :: "cosim_shm \<Rightarrow> bool" where
  "shm_inv shm \<longleftrightarrow> ring_of tlp_size (sh_req_ring shm) \<and> ring_of cpl_size (sh_cpl_ring shm)
     \<and> ring_of dma_req_size (sh_dma_req_ring shm) \<and> ring_of dma_cpl_size (sh_dma_cpl_ring shm)
     \<and> ring_of msi_size (sh_msi_ring shm) \<and> length (sh_dma_buf shm) = dma_buf_size
     \<and> length (cc_topology (sh_ctrl shm)) = sizeof_topology_resp"

lemma shm_init_rings:
  "sh_req_ring cosim_shm_init = shm_ring 0x100000 112" "sh_cpl_ring cosim_shm_init = shm_ring 0x100000 84"
  "sh_dma_req_ring cosim_shm_init = shm_ring 0x40000 32" "sh_dma_cpl_ring cosim_shm_init = shm_ring 0x40000 16"
  "sh_msi_ring cosim_shm_init = shm_ring 0x10000 16"
  by (simp_all add: cosim_shm_init_def code_consts)

lemma shm_inv_init: "shm_inv cosim_shm_init"
proof -
  have "ring_of 112 (shm_ring 0x100000 112)" "ring_of 84 (shm_ring 0x100000 84)" "ring_of 32 (shm_ring 0x40000 32)"
    "ring_of 16 (shm_ring 0x40000 16)" "ring_of 16 (shm_ring 0x10000 16)"
    by (rule shm_ring_init; simp)+
  moreover have "length (sh_dma_buf cosim_shm_init) = dma_buf_size"
    "length (cc_topology (sh_ctrl cosim_shm_init)) = sizeof_topology_resp"
    by (simp_all only: cosim_shm_init_def cosim_shm.simps cosim_ctrl.simps length_replicate)
  ultimately show ?thesis
    unfolding shm_inv_def shm_init_rings tlp_size_def cpl_size_def dma_req_size_def dma_cpl_size_def msi_size_def
    by blast
qed

lemma shm_init_items [simp]:
  "ring_items (sh_req_ring cosim_shm_init) = []" "ring_items (sh_cpl_ring cosim_shm_init) = []"
  "ring_items (sh_dma_req_ring cosim_shm_init) = []" "ring_items (sh_dma_cpl_ring cosim_shm_init) = []"
  "ring_items (sh_msi_ring cosim_shm_init) = []"
  unfolding shm_init_rings by (rule shm_ring_init; simp)+

lemma shm_init_caps:
  "ring_cap (sh_req_ring cosim_shm_init) = 9361" "ring_cap (sh_cpl_ring cosim_shm_init) = 12481"
  "ring_cap (sh_dma_req_ring cosim_shm_init) = 8190" "ring_cap (sh_dma_cpl_ring cosim_shm_init) = 16382"
  "ring_cap (sh_msi_ring cosim_shm_init) = 4094"
proof -
  have "ring_cap (shm_ring 0x100000 112) = (0x100000 - 16) div unat (112 :: u32) - 1"
    "ring_cap (shm_ring 0x100000 84) = (0x100000 - 16) div unat (84 :: u32) - 1"
    "ring_cap (shm_ring 0x40000 32) = (0x40000 - 16) div unat (32 :: u32) - 1"
    "ring_cap (shm_ring 0x40000 16) = (0x40000 - 16) div unat (16 :: u32) - 1"
    "ring_cap (shm_ring 0x10000 16) = (0x10000 - 16) div unat (16 :: u32) - 1"
    by (rule shm_ring_init; simp)+
  then show "ring_cap (sh_req_ring cosim_shm_init) = 9361" "ring_cap (sh_cpl_ring cosim_shm_init) = 12481"
    "ring_cap (sh_dma_req_ring cosim_shm_init) = 8190" "ring_cap (sh_dma_cpl_ring cosim_shm_init) = 16382"
    "ring_cap (sh_msi_ring cosim_shm_init) = 4094"
    unfolding shm_init_rings by simp_all
qed

lemma attach_rings_init:
  "attach_rings cosim_shm_init = map Some [sh_req_ring cosim_shm_init, sh_cpl_ring cosim_shm_init,
     sh_dma_req_ring cosim_shm_init, sh_dma_cpl_ring cosim_shm_init, sh_msi_ring cosim_shm_init]"
proof -
  have "ring_buf_attach (shm_ring 0x100000 112) (of_nat 0x100000) 112 = Some (shm_ring 0x100000 112)"
    "ring_buf_attach (shm_ring 0x100000 84) (of_nat 0x100000) 84 = Some (shm_ring 0x100000 84)"
    "ring_buf_attach (shm_ring 0x40000 32) (of_nat 0x40000) 32 = Some (shm_ring 0x40000 32)"
    "ring_buf_attach (shm_ring 0x40000 16) (of_nat 0x40000) 16 = Some (shm_ring 0x40000 16)"
    "ring_buf_attach (shm_ring 0x10000 16) (of_nat 0x10000) 16 = Some (shm_ring 0x10000 16)"
    by (rule shm_ring_init(5); simp)+
  then show ?thesis
    unfolding attach_rings_def shm_init_rings COSIM_SHM_REQ_SIZE_def COSIM_SHM_CPL_SIZE_def
      COSIM_SHM_DMA_REQ_SIZE_def COSIM_SHM_DMA_CPL_SIZE_def COSIM_SHM_MSI_SIZE_def
      tlp_size_def cpl_size_def dma_req_size_def dma_cpl_size_def msi_size_def by simp
qed

subsection \<open>Properties\<close>

text \<open>The regions of the shared object are consecutive from offset 0 and end exactly at its size, the control
  block and the topology response fit the control page, and an opener attaches all five rings of a freshly
  created object and finds them as the creator left them.\<close>

lemma shm_create_open:
  assumes "cosim_shm_create os = (0, Some shm)" and "\<not> os_open_fails os'" and "\<not> os_mmap_fails os'"
  shows "cosim_shm_open os' (Some shm) = (0, map Some [sh_req_ring shm, sh_cpl_ring shm, sh_dma_req_ring shm,
      sh_dma_cpl_ring shm, sh_msi_ring shm])
    \<and> shm_inv shm \<and> tiles 0 shm_regions COSIM_SHM_TOTAL_SIZE
    \<and> sizeof_cosim_ctrl + sizeof_topology_resp \<le> COSIM_SHM_CTRL_SIZE"
proof -
  have shm: "shm = cosim_shm_init" using assms(1) by (simp add: cosim_shm_create_def split: if_splits)
  have "cc_magic (sh_ctrl shm) = COSIM_SHM_MAGIC" by (simp add: shm cosim_shm_init_def)
  then show ?thesis
    using assms(2,3) attach_rings_init shm_inv_init shm_regions_tile ctrl_page_fits
    unfolding cosim_shm_open_def shm by simp
qed

lemma shm_create_open_witness:
  "fst (cosim_shm_open \<lparr>os_fd = 4, os_open_fails = False, os_truncate_fails = False, os_mmap_fails = False\<rparr>
     (snd (cosim_shm_create \<lparr>os_fd = 3, os_open_fails = False, os_truncate_fails = False, os_mmap_fails = False\<rparr>))) = 0"
  using shm_create_open [of "\<lparr>os_fd = 3, os_open_fails = False, os_truncate_fails = False, os_mmap_fails = False\<rparr>" cosim_shm_init
      "\<lparr>os_fd = 4, os_open_fails = False, os_truncate_fails = False, os_mmap_fails = False\<rparr>"]
  by (simp add: cosim_shm_create_def)

text \<open>Opening ignores what attaching the rings answered: an object whose request ring was created for
  elements of another size is opened with return code 0 although that ring is not attached.\<close>

lemma shm_open_ignores_attach:
  assumes "rb_element_size (sh_req_ring shm) \<noteq> tlp_size" and "cc_magic (sh_ctrl shm) = COSIM_SHM_MAGIC"
    and "\<not> os_open_fails os" and "\<not> os_mmap_fails os"
  shows "fst (cosim_shm_open os (Some shm)) = 0 \<and> snd (cosim_shm_open os (Some shm)) ! 0 = None"
  using assms by (simp add: cosim_shm_open_def attach_rings_def ring_buf_attach_def Let_def)

lemma shm_open_ignores_attach_witness:
  "snd (cosim_shm_open \<lparr>os_fd = 3, os_open_fails = False, os_truncate_fails = False, os_mmap_fails = False\<rparr>
     (Some (cosim_shm_init\<lparr>sh_req_ring := (sh_req_ring cosim_shm_init)\<lparr>rb_element_size := 96\<rparr>\<rparr>))) ! 0 = None"
proof -
  let ?s = "cosim_shm_init\<lparr>sh_req_ring := (sh_req_ring cosim_shm_init)\<lparr>rb_element_size := 96\<rparr>\<rparr>"
  have "rb_element_size (sh_req_ring ?s) \<noteq> tlp_size" "cc_magic (sh_ctrl ?s) = COSIM_SHM_MAGIC"
    by (simp_all add: tlp_size_def cosim_shm_init_def)
  from shm_open_ignores_attach [OF this] show ?thesis by simp
qed

end
