(* ===== verification/Transport.thy ===== *)
theory Transport
  imports Shm_Layout Sock_Sync
begin

section \<open>The transport interface: cosim\_transport.h\<close>

text \<open>
  The function table of \<open>struct cosim_transport\<close> as a record of functions over the private state
  of an implementation (\<open>priv\<close>).  A function that fills an out parameter returns a value of type
  \<open>recvd\<close>: the value with return code 0, no data with 1, failure with -1.
\<close>

record dma_data =
  dd_tag :: u32
  dd_direction :: u32
  dd_host_addr :: u64
  dd_bytes :: bytes

record 'p transport =
  tr_send_sync :: "sync_msg \<Rightarrow> 'p \<Rightarrow> rc \<times> 'p"
  tr_recv_sync :: "'p \<Rightarrow> sync_msg recvd \<times> 'p"
  tr_recv_sync_timed :: "int \<Rightarrow> 'p \<Rightarrow> sync_msg recvd \<times> 'p"
  tr_send_tlp :: "tlp_entry \<Rightarrow> 'p \<Rightarrow> rc \<times> 'p"
  tr_recv_tlp :: "'p \<Rightarrow> tlp_entry recvd \<times> 'p"
  tr_send_cpl :: "cpl_entry \<Rightarrow> 'p \<Rightarrow> rc \<times> 'p"
  tr_recv_cpl :: "'p \<Rightarrow> cpl_entry recvd \<times> 'p"
  tr_send_dma_req :: "dma_req \<Rightarrow> 'p \<Rightarrow> rc \<times> 'p"
  tr_recv_dma_req :: "'p \<Rightarrow> dma_req recvd \<times> 'p"
  tr_send_dma_cpl :: "dma_cpl \<Rightarrow> 'p \<Rightarrow> rc \<times> 'p"
  tr_recv_dma_cpl :: "'p \<Rightarrow> dma_cpl recvd \<times> 'p"
  tr_send_dma_data :: "u32 \<Rightarrow> u32 \<Rightarrow> u64 \<Rightarrow> bytes \<Rightarrow> 'p \<Rightarrow> rc \<times> 'p"
  tr_recv_dma_data :: "'p \<Rightarrow> dma_data recvd \<times> 'p"
  tr_recv_dma_req_nb :: "'p \<Rightarrow> dma_req recvd \<times> 'p"
  tr_recv_msi_nb :: "'p \<Rightarrow> msi_event recvd \<times> 'p"
  tr_send_msi :: "msi_event \<Rightarrow> 'p \<Rightarrow> rc \<times> 'p"
  tr_recv_msi :: "'p \<Rightarrow> msi_event recvd \<times> 'p"
  tr_send_eth :: "eth_frame \<Rightarrow> 'p \<Rightarrow> rc \<times> 'p"
  tr_recv_eth :: "u64 \<Rightarrow> 'p \<Rightarrow> eth_frame recvd \<times> 'p"
  tr_send_topology :: "topology_resp \<Rightarrow> 'p \<Rightarrow> rc \<times> 'p"
  tr_recv_topology :: "'p \<Rightarrow> topology_resp recvd \<times> 'p"
  tr_send_vf_event :: "vf_event \<Rightarrow> 'p \<Rightarrow> rc \<times> 'p"
  tr_recv_vf_event :: "'p \<Rightarrow> rc \<times> 'p"
  tr_peer_ready :: "'p \<Rightarrow> bool"
  tr_set_ready :: "'p \<Rightarrow> 'p"
  tr_has_shm :: bool                       \<comment> \<open>\<open>get_shm_base\<close> returns non-null\<close>
  tr_dma_buf_size :: "'p \<Rightarrow> nat"          \<comment> \<open>size of the buffer \<open>get_dma_buf\<close> returns; 0 for none\<close>

section \<open>The shared-memory transport: transport\_shm.c\<close>

text \<open>
  \<open>ts_shm\<close> is the shared object: two endpoints on one object are two records with the same
  \<open>ts_shm\<close>.  The control channel is the socket \<open>ts_client\<close>.
\<close>

record transport_shm_priv =
  ts_shm :: cosim_shm
  ts_eth :: "eth_link option"       \<comment> \<open>\<^theory_text>\<open>None\<close>: \<open>eth_initialized\<close> is 0\<close>
  ts_client :: sock
  ts_is_server :: bool

definition shm_send_sync :: "sync_msg \<Rightarrow> transport_shm_priv \<Rightarrow> rc \<times> transport_shm_priv" where
  "shm_send_sync msg p = (case sock_sync_send msg (ts_client p) of (r, s) \<Rightarrow> (r, p\<lparr>ts_client := s\<rparr>))"

definition shm_recv_sync :: "transport_shm_priv \<Rightarrow> sync_msg recvd \<times> transport_shm_priv" where
  "shm_recv_sync p = (case sock_sync_recv (ts_client p) of (r, s) \<Rightarrow> (r, p\<lparr>ts_client := s\<rparr>))"

definition shm_recv_sync_timed :: "int \<Rightarrow> transport_shm_priv \<Rightarrow> sync_msg recvd \<times> transport_shm_priv" where
  "shm_recv_sync_timed timeout_ms p =
     (case sock_sync_recv_timed timeout_ms (ts_client p) of (r, s) \<Rightarrow> (r, p\<lparr>ts_client := s\<rparr>))"

text \<open>Sending and receiving through one of the rings, with the encoding of its elements.\<close>

definition ring_send :: "(cosim_shm \<Rightarrow> ring_buf) \<Rightarrow> (ring_buf \<Rightarrow> cosim_shm \<Rightarrow> cosim_shm) \<Rightarrow> bytes
    \<Rightarrow> transport_shm_priv \<Rightarrow> rc \<times> transport_shm_priv" where
  "ring_send gt st bs p = (case ring_buf_enqueue (gt (ts_shm p)) bs of
     (r, rb) \<Rightarrow> (r, p\<lparr>ts_shm := st rb (ts_shm p)\<rparr>))"

definition ring_recv :: "(cosim_shm \<Rightarrow> ring_buf) \<Rightarrow> (ring_buf \<Rightarrow> cosim_shm \<Rightarrow> cosim_shm) \<Rightarrow> (bytes \<Rightarrow> 'a)
    \<Rightarrow> 'a recvd \<Rightarrow> transport_shm_priv \<Rightarrow> 'a recvd \<times> transport_shm_priv" where
  "ring_recv gt st dec none p = (case ring_buf_dequeue (gt (ts_shm p)) of
     (None, rb) \<Rightarrow> (none, p\<lparr>ts_shm := st rb (ts_shm p)\<rparr>)
   | (Some bs, rb) \<Rightarrow> (Got (dec bs), p\<lparr>ts_shm := st rb (ts_shm p)\<rparr>))"

definition set_req_ring :: "ring_buf \<Rightarrow> cosim_shm \<Rightarrow> cosim_shm" where "set_req_ring r s = s\<lparr>sh_req_ring := r\<rparr>"
definition set_cpl_ring :: "ring_buf \<Rightarrow> cosim_shm \<Rightarrow> cosim_shm" where "set_cpl_ring r s = s\<lparr>sh_cpl_ring := r\<rparr>"
definition set_dma_req_ring :: "ring_buf \<Rightarrow> cosim_shm \<Rightarrow> cosim_shm" where "set_dma_req_ring r s = s\<lparr>sh_dma_req_ring := r\<rparr>"
definition set_dma_cpl_ring :: "ring_buf \<Rightarrow> cosim_shm \<Rightarrow> cosim_shm" where "set_dma_cpl_ring r s = s\<lparr>sh_dma_cpl_ring := r\<rparr>"
definition set_msi_ring :: "ring_buf \<Rightarrow> cosim_shm \<Rightarrow> cosim_shm" where "set_msi_ring r s = s\<lparr>sh_msi_ring := r\<rparr>"

definition shm_send_tlp :: "tlp_entry \<Rightarrow> transport_shm_priv \<Rightarrow> rc \<times> transport_shm_priv" where
  "shm_send_tlp t = ring_send sh_req_ring set_req_ring (enc_tlp t)"

definition shm_recv_tlp :: "transport_shm_priv \<Rightarrow> tlp_entry recvd \<times> transport_shm_priv" where
  "shm_recv_tlp = ring_recv sh_req_ring set_req_ring dec_tlp Failed"

definition shm_send_cpl :: "cpl_entry \<Rightarrow> transport_shm_priv \<Rightarrow> rc \<times> transport_shm_priv" where
  "shm_send_cpl c = ring_send sh_cpl_ring set_cpl_ring (enc_cpl c)"

definition shm_recv_cpl :: "transport_shm_priv \<Rightarrow> cpl_entry recvd \<times> transport_shm_priv" where
  "shm_recv_cpl = ring_recv sh_cpl_ring set_cpl_ring dec_cpl Failed"

definition shm_send_dma_req :: "dma_req \<Rightarrow> transport_shm_priv \<Rightarrow> rc \<times> transport_shm_priv" where
  "shm_send_dma_req r = ring_send sh_dma_req_ring set_dma_req_ring (enc_dma_req r)"

definition shm_recv_dma_req :: "transport_shm_priv \<Rightarrow> dma_req recvd \<times> transport_shm_priv" where
  "shm_recv_dma_req = ring_recv sh_dma_req_ring set_dma_req_ring dec_dma_req Failed"

definition shm_send_dma_cpl :: "dma_cpl \<Rightarrow> transport_shm_priv \<Rightarrow> rc \<times> transport_shm_priv" where
  "shm_send_dma_cpl c = ring_send sh_dma_cpl_ring set_dma_cpl_ring (enc_dma_cpl c)"

definition shm_recv_dma_cpl :: "transport_shm_priv \<Rightarrow> dma_cpl recvd \<times> transport_shm_priv" where
  "shm_recv_dma_cpl = ring_recv sh_dma_cpl_ring set_dma_cpl_ring dec_dma_cpl Failed"

definition shm_send_msi :: "msi_event \<Rightarrow> transport_shm_priv \<Rightarrow> rc \<times> transport_shm_priv" where
  "shm_send_msi e = ring_send sh_msi_ring set_msi_ring (enc_msi e)"

definition shm_recv_msi :: "transport_shm_priv \<Rightarrow> msi_event recvd \<times> transport_shm_priv" where
  "shm_recv_msi = ring_recv sh_msi_ring set_msi_ring dec_msi Failed"

definition shm_send_dma_data :: "u32 \<Rightarrow> u32 \<Rightarrow> u64 \<Rightarrow> bytes \<Rightarrow> transport_shm_priv \<Rightarrow> rc \<times> transport_shm_priv" where
  "shm_send_dma_data tag direction host_addr data p = (-1, p)"

definition shm_recv_dma_data :: "transport_shm_priv \<Rightarrow> dma_data recvd \<times> transport_shm_priv" where
  "shm_recv_dma_data p = (Failed, p)"

definition shm_recv_dma_req_nb :: "transport_shm_priv \<Rightarrow> dma_req recvd \<times> transport_shm_priv" where
  "shm_recv_dma_req_nb = ring_recv sh_dma_req_ring set_dma_req_ring dec_dma_req Nothing"

definition shm_recv_msi_nb :: "transport_shm_priv \<Rightarrow> msi_event recvd \<times> transport_shm_priv" where
  "shm_recv_msi_nb = ring_recv sh_msi_ring set_msi_ring dec_msi Nothing"

definition shm_send_eth :: "eth_frame \<Rightarrow> transport_shm_priv \<Rightarrow> rc \<times> transport_shm_priv" where
  "shm_send_eth frame p = (case ts_eth p of
     None \<Rightarrow> (-1, p)
   | Some l \<Rightarrow> (case eth_shm_enqueue (eth_shm_tx_ring l ETH_ROLE_A) frame of
       (r, ring) \<Rightarrow> (r, p\<lparr>ts_eth := Some (set_tx_ring ETH_ROLE_A ring l)\<rparr>)))"

definition shm_recv_eth :: "u64 \<Rightarrow> transport_shm_priv \<Rightarrow> eth_frame recvd \<times> transport_shm_priv" where
  "shm_recv_eth timeout_ns p = (case ts_eth p of
     None \<Rightarrow> (Failed, p)
   | Some l \<Rightarrow> (case eth_shm_dequeue (eth_shm_rx_ring l ETH_ROLE_A) of
       (None, ring) \<Rightarrow> (Failed, p)
     | (Some f, ring) \<Rightarrow> (Got f, p\<lparr>ts_eth := Some (set_rx_ring ETH_ROLE_A ring l)\<rparr>)))"

text \<open>The topology response lies behind the control block.\<close>

definition shm_send_topology :: "topology_resp \<Rightarrow> transport_shm_priv \<Rightarrow> rc \<times> transport_shm_priv" where
  "shm_send_topology topo p = (0, p\<lparr>ts_shm := (ts_shm p)\<lparr>sh_ctrl := (sh_ctrl (ts_shm p))\<lparr>cc_topology :=
     blit 0 (enc_topology topo) (cc_topology (sh_ctrl (ts_shm p)))\<rparr>\<rparr>\<rparr>)"

definition shm_recv_topology :: "transport_shm_priv \<Rightarrow> topology_resp recvd \<times> transport_shm_priv" where
  "shm_recv_topology p = (Got (dec_topology (cc_topology (sh_ctrl (ts_shm p)))), p)"

definition shm_send_vf_event :: "vf_event \<Rightarrow> transport_shm_priv \<Rightarrow> rc \<times> transport_shm_priv" where
  "shm_send_vf_event ev p = (0, p)"

text \<open>Returns 0 and leaves the caller's event as it was.\<close>

definition shm_recv_vf_event :: "transport_shm_priv \<Rightarrow> rc \<times> transport_shm_priv" where
  "shm_recv_vf_event p = (0, p)"

definition shm_peer_ready :: "transport_shm_priv \<Rightarrow> bool" where
  "shm_peer_ready p = (if ts_is_server p then cc_vcs_ready (sh_ctrl (ts_shm p)) \<noteq> 0
     else cc_qemu_ready (sh_ctrl (ts_shm p)) \<noteq> 0)"

definition shm_set_ready :: "transport_shm_priv \<Rightarrow> transport_shm_priv" where
  "shm_set_ready p = p\<lparr>ts_shm := (ts_shm p)\<lparr>sh_ctrl :=
     (if ts_is_server p then (sh_ctrl (ts_shm p))\<lparr>cc_qemu_ready := 1\<rparr>
      else (sh_ctrl (ts_shm p))\<lparr>cc_vcs_ready := 1\<rparr>)\<rparr>\<rparr>"

definition shm_get_dma_buf_size :: "transport_shm_priv \<Rightarrow> nat" where
  "shm_get_dma_buf_size p = length (sh_dma_buf (ts_shm p))"

definition shm_transport :: "transport_shm_priv transport" where
  "shm_transport = \<lparr>tr_send_sync = shm_send_sync, tr_recv_sync = shm_recv_sync,
     tr_recv_sync_timed = shm_recv_sync_timed, tr_send_tlp = shm_send_tlp, tr_recv_tlp = shm_recv_tlp,
     tr_send_cpl = shm_send_cpl, tr_recv_cpl = shm_recv_cpl, tr_send_dma_req = shm_send_dma_req,
     tr_recv_dma_req = shm_recv_dma_req, tr_send_dma_cpl = shm_send_dma_cpl,
     tr_recv_dma_cpl = shm_recv_dma_cpl, tr_send_dma_data = shm_send_dma_data,
     tr_recv_dma_data = shm_recv_dma_data, tr_recv_dma_req_nb = shm_recv_dma_req_nb,
     tr_recv_msi_nb = shm_recv_msi_nb, tr_send_msi = shm_send_msi, tr_recv_msi = shm_recv_msi,
     tr_send_eth = shm_send_eth, tr_recv_eth = shm_recv_eth, tr_send_topology = shm_send_topology,
     tr_recv_topology = shm_recv_topology, tr_send_vf_event = shm_send_vf_event,
     tr_recv_vf_event = shm_recv_vf_event, tr_peer_ready = shm_peer_ready, tr_set_ready = shm_set_ready,
     tr_has_shm = True, tr_dma_buf_size = shm_get_dma_buf_size\<rparr>"

text \<open>\<open>transport_shm_create\<close>: the server creates the object and listens; the client opens it.\<close>

definition transport_shm_create :: "bool \<Rightarrow> os_answers \<Rightarrow> int \<Rightarrow> cosim_shm option \<Rightarrow> sock
    \<Rightarrow> transport_shm_priv option \<times> cosim_shm option" where
  "transport_shm_create is_server os listen_fd obj client =
     (if is_server
      then (case cosim_shm_create os of
          (r, Some shm) \<Rightarrow> if listen_fd < 0 then (None, None)
             else (Some \<lparr>ts_shm = shm, ts_eth = None, ts_client = client, ts_is_server = True\<rparr>, Some shm)
        | (r, None) \<Rightarrow> (None, None))
      else (case (cosim_shm_open os obj, obj) of
          ((r, _), Some shm) \<Rightarrow> if r < 0 then (None, obj)
             else (Some \<lparr>ts_shm = shm, ts_eth = None, ts_client = client, ts_is_server = False\<rparr>, obj)
        | (_, None) \<Rightarrow> (None, obj)))"

text \<open>Closing releases all of the private state; what stays is the object under the name, which the server removes.\<close>

definition shm_close :: "transport_shm_priv \<Rightarrow> cosim_shm option \<Rightarrow> cosim_shm option" where
  "shm_close p obj = (if ts_is_server p then None else obj)"

text \<open>A server leaves no object behind, whether its creation failed or it was closed; a client never changes what is there.\<close>

lemma shm_object_released:
  "transport_shm_create True os listen_fd obj client = (res, obj1) \<Longrightarrow> (case res of None \<Rightarrow> obj1 | Some p \<Rightarrow> shm_close p obj1) = None"
  "transport_shm_create False os listen_fd obj client = (res, obj1) \<Longrightarrow> obj1 = obj \<and> (case res of None \<Rightarrow> obj1 | Some p \<Rightarrow> shm_close p obj1) = obj"
  by (auto simp: transport_shm_create_def shm_close_def split: prod.splits option.splits if_splits)

subsection \<open>Rings of messages\<close>

text \<open>A ring of one message type in the shared object, through the encoding of the messages, is a
  bounded queue of messages.\<close>

primrec recvd_opt :: "'a recvd \<Rightarrow> 'a option" where
  "recvd_opt (Got x) = Some x"
| "recvd_opt Nothing = None"
| "recvd_opt Failed = None"

locale ring_channel =
  fixes gt :: "cosim_shm \<Rightarrow> ring_buf" and st :: "ring_buf \<Rightarrow> cosim_shm \<Rightarrow> cosim_shm"
    and enc :: "'a \<Rightarrow> bytes" and dec :: "bytes \<Rightarrow> 'a" and wf :: "'a \<Rightarrow> bool" and esz :: u32
    and none :: "'a recvd"
  assumes get_set: "gt (st r s) = r" and set_get: "st (gt s) s = s"
    and enc_len: "wf x \<Longrightarrow> length (enc x) = unat esz" and dec_enc: "wf x \<Longrightarrow> dec (enc x) = x"
    and none_none: "recvd_opt none = None"
begin

definition chan_send :: "transport_shm_priv \<Rightarrow> 'a \<Rightarrow> rc \<times> transport_shm_priv" where
  "chan_send p x = ring_send gt st (enc x) p"

definition chan_recv :: "transport_shm_priv \<Rightarrow> 'a option \<times> transport_shm_priv" where
  "chan_recv p = (case ring_recv gt st dec none p of (r, p1) \<Rightarrow> (recvd_opt r, p1))"

definition chan_items :: "transport_shm_priv \<Rightarrow> 'a list" where
  "chan_items p = map dec (ring_items (gt (ts_shm p)))"

definition chan_inv :: "transport_shm_priv \<Rightarrow> bool" where
  "chan_inv p \<longleftrightarrow> ring_of esz (gt (ts_shm p))"

definition chan_cap :: "transport_shm_priv \<Rightarrow> nat" where
  "chan_cap p = ring_cap (gt (ts_shm p))"

lemma ok_enc: "wf x \<Longrightarrow> ring_ok esz (enc x)"
  by (simp add: ring_ok_def enc_len)

lemma send_eq: "chan_send p x =
    (fst (ring_buf_enqueue (gt (ts_shm p)) (enc x)),
     p\<lparr>ts_shm := st (snd (ring_buf_enqueue (gt (ts_shm p)) (enc x))) (ts_shm p)\<rparr>)"
  by (simp add: chan_send_def ring_send_def split: prod.splits)

lemma recv_eq: "chan_recv p =
    (map_option dec (fst (ring_buf_dequeue (gt (ts_shm p)))),
     p\<lparr>ts_shm := st (snd (ring_buf_dequeue (gt (ts_shm p)))) (ts_shm p)\<rparr>)"
  by (simp add: chan_recv_def ring_recv_def none_none split: prod.splits option.splits)

sublocale bounded_fifo chan_send chan_recv chan_items chan_inv chan_cap wf
proof
  fix p :: transport_shm_priv and x xs
  let ?r = "gt (ts_shm p)"
  assume inv: "chan_inv p"
  then have r: "ring_of esz ?r" by (simp add: chan_inv_def)
  show "length (chan_items p) \<le> chan_cap p"
    using rb.bounded [OF r] by (simp add: chan_items_def chan_cap_def)
  show "chan_inv (snd (chan_recv p)) \<and> chan_cap (snd (chan_recv p)) = chan_cap p"
    using rb.deq_inv [OF r] by (simp add: recv_eq chan_inv_def chan_cap_def get_set)
  show "chan_recv p = (None, p)" if "chan_items p = []"
    using rb.deq_none [OF r] that by (simp add: recv_eq chan_items_def set_get)
  show "fst (chan_recv p) = Some x \<and> chan_items (snd (chan_recv p)) = xs" if "chan_items p = x # xs"
    using rb.deq_some [OF r] that by (auto simp: recv_eq chan_items_def get_set)
  assume wf: "wf x"
  show "chan_inv (snd (chan_send p x)) \<and> chan_cap (snd (chan_send p x)) = chan_cap p"
    using rb.enq_inv [OF r ok_enc [OF wf]] by (simp add: send_eq chan_inv_def chan_cap_def get_set)
  show "fst (chan_send p x) = 0 \<and> chan_items (snd (chan_send p x)) = chan_items p @ [x]"
    if "length (chan_items p) < chan_cap p"
    using rb.enq_room [OF r ok_enc [OF wf]] that wf
    by (simp add: send_eq chan_items_def chan_cap_def get_set dec_enc)
  show "chan_send p x = (-1, p)" if "\<not> length (chan_items p) < chan_cap p"
    using rb.enq_full [OF r ok_enc [OF wf]] that by (simp add: send_eq chan_items_def chan_cap_def set_get)
qed

end

interpretation tlp_chan: ring_channel sh_req_ring set_req_ring enc_tlp dec_tlp wf_tlp tlp_size Failed
  by unfold_locales (simp_all add: set_req_ring_def tlp_size_def)

interpretation cpl_chan: ring_channel sh_cpl_ring set_cpl_ring enc_cpl dec_cpl wf_cpl cpl_size Failed
  by unfold_locales (simp_all add: set_cpl_ring_def cpl_size_def)

interpretation dma_req_chan: ring_channel sh_dma_req_ring set_dma_req_ring enc_dma_req dec_dma_req "\<lambda>_. True"
    dma_req_size Nothing
  by unfold_locales (simp_all add: set_dma_req_ring_def dma_req_size_def)

interpretation dma_cpl_chan: ring_channel sh_dma_cpl_ring set_dma_cpl_ring enc_dma_cpl dec_dma_cpl "\<lambda>_. True"
    dma_cpl_size Failed
  by unfold_locales (simp_all add: set_dma_cpl_ring_def dma_cpl_size_def)

interpretation msi_chan: ring_channel sh_msi_ring set_msi_ring enc_msi dec_msi "\<lambda>_. True" msi_size Nothing
  by unfold_locales (simp_all add: set_msi_ring_def msi_size_def)

lemma tlp_chan_ops: "tlp_chan.chan_send p t = shm_send_tlp t p" "tlp_chan.chan_recv p = map_prod recvd_opt id (shm_recv_tlp p)"
  by (simp_all add: tlp_chan.chan_send_def tlp_chan.chan_recv_def shm_send_tlp_def shm_recv_tlp_def map_prod_def
      split: prod.splits)

subsection \<open>Properties\<close>

text \<open>C14: Over the shared-memory transport the two sides see one bounded queue of TLPs: starting from a fresh object,
  any interleaving of sends and receives delivers the TLPs accepted, in order and unchanged, and refuses one
  only when 9361 are waiting.\<close>

theorem shm_tlp_queue:
  assumes "ts_shm p = cosim_shm_init" and "fifo_ops_ok wf_tlp ops"
    and "fifo_run (\<lambda>p t. shm_send_tlp t p) (\<lambda>p. map_prod recvd_opt id (shm_recv_tlp p)) p ops = (ins, outs, p')"
  shows "fifo_run (spec_put 9361) spec_take [] ops = (ins, outs, tlp_chan.chan_items p')
    \<and> ins = outs @ tlp_chan.chan_items p'"
proof -
  have inv: "tlp_chan.chan_inv p"
    using shm_inv_init by (simp add: tlp_chan.chan_inv_def assms(1) shm_inv_def)
  have ring: "sh_req_ring (ts_shm p) = shm_ring 0x100000 112"
    unfolding assms(1) by (rule shm_init_rings(1))
  have "ring_items (shm_ring 0x100000 112) = []" "ring_cap (shm_ring 0x100000 112) = (0x100000 - 16) div unat (112 :: u32) - 1"
    by (rule shm_ring_init; simp)+
  then have items: "tlp_chan.chan_items p = []" and cap: "tlp_chan.chan_cap p = 9361"
    by (simp_all add: tlp_chan.chan_items_def tlp_chan.chan_cap_def ring)
  have ops: "(\<lambda>p t. shm_send_tlp t p) = tlp_chan.chan_send" "(\<lambda>p. map_prod recvd_opt id (shm_recv_tlp p)) = tlp_chan.chan_recv"
    by (auto simp: fun_eq_iff tlp_chan_ops)
  note run = assms(3) [unfolded ops]
  show ?thesis
    using tlp_chan.run_refines [OF inv assms(2)] tlp_chan.run_conserves [OF inv assms(2) run] items cap run by simp
qed

theorem shm_tlp_queue_witness:
  "\<exists>p'. fifo_run (\<lambda>p t. shm_send_tlp t p) (\<lambda>p. map_prod recvd_opt id (shm_recv_tlp p))
     \<lparr>ts_shm = cosim_shm_init, ts_eth = None, ts_client = fresh_sock [], ts_is_server = True\<rparr>
     [Take, Put tlp_zero, Put (tlp_zero\<lparr>t_tag := 3\<rparr>), Take]
   = ([tlp_zero, tlp_zero\<lparr>t_tag := 3\<rparr>], [tlp_zero], p')"
proof -
  let ?p = "\<lparr>ts_shm = cosim_shm_init, ts_eth = None, ts_client = fresh_sock [], ts_is_server = True\<rparr>"
  let ?ops = "[Take, Put tlp_zero, Put (tlp_zero\<lparr>t_tag := 3\<rparr>), Take]"
  obtain ins outs p' where run: "fifo_run (\<lambda>p t. shm_send_tlp t p) (\<lambda>p. map_prod recvd_opt id (shm_recv_tlp p)) ?p ?ops = (ins, outs, p')"
    using prod_cases3 by blast
  have "fifo_ops_ok wf_tlp ?ops" by (simp add: wf_tlp_def tlp_zero_def code_consts)
  from shm_tlp_queue [OF _ this run]
  have "fifo_run (spec_put 9361) spec_take [] ?ops = (ins, outs, tlp_chan.chan_items p')" by simp
  moreover have "fifo_run (spec_put 9361) spec_take [] ?ops
      = ([tlp_zero, tlp_zero\<lparr>t_tag := 3\<rparr>], [tlp_zero], [tlp_zero\<lparr>t_tag := 3\<rparr>])"
    by (simp add: spec_put_def spec_take_def)
  ultimately show ?thesis using run by auto
qed

end
