(* ===== verification/Transport_Tcp.thy ===== *)
theory Transport_Tcp
  imports Transport
begin

section \<open>The TCP transport: transport\_tcp.h, transport\_tcp.c\<close>

text \<open>
  Up to three stream connections.  Every message is an 8-byte header and its payload; the DMA, MSI
  and Ethernet messages use the auxiliary connection when there is one, else the data connection.
  The kernel's answers to \<open>listen\<close>, \<open>accept\<close> and \<open>connect\<close> are arguments of the creation functions.
\<close>

definition TCP_HANDSHAKE_MAGIC :: u32 where [code_consts]: "TCP_HANDSHAKE_MAGIC = 0x434F5349"
definition TCP_HANDSHAKE_VERSION :: u32 where [code_consts]: "TCP_HANDSHAKE_VERSION = 2"
definition TCP_HANDSHAKE_V1 :: u32 where [code_consts]: "TCP_HANDSHAKE_V1 = 1"
definition TCP_HANDSHAKE_V2 :: u32 where [code_consts]: "TCP_HANDSHAKE_V2 = 2"
definition TCP_DEFAULT_PORT_BASE :: int where [code_consts]: "TCP_DEFAULT_PORT_BASE = 9100"

datatype tcp_msg_type =
    TCP_MSG_HANDSHAKE | TCP_MSG_SYNC | TCP_MSG_TLP | TCP_MSG_CPL | TCP_MSG_DMA_REQ | TCP_MSG_DMA_CPL
  | TCP_MSG_MSI | TCP_MSG_ETH_FRAME | TCP_MSG_DMA_DATA | TCP_MSG_QUERY_TOPOLOGY | TCP_MSG_TOPOLOGY_RESP
  | TCP_MSG_VF_EVENT

primrec msg_code :: "tcp_msg_type \<Rightarrow> u32" where
  "msg_code TCP_MSG_HANDSHAKE = 0x00"
| "msg_code TCP_MSG_SYNC = 0x01"
| "msg_code TCP_MSG_TLP = 0x02"
| "msg_code TCP_MSG_CPL = 0x03"
| "msg_code TCP_MSG_DMA_REQ = 0x04"
| "msg_code TCP_MSG_DMA_CPL = 0x05"
| "msg_code TCP_MSG_MSI = 0x06"
| "msg_code TCP_MSG_ETH_FRAME = 0x07"
| "msg_code TCP_MSG_DMA_DATA = 0x08"
| "msg_code TCP_MSG_QUERY_TOPOLOGY = 0x10"
| "msg_code TCP_MSG_TOPOLOGY_RESP = 0x11"
| "msg_code TCP_MSG_VF_EVENT = 0x12"

lemma msg_code_eq [simp]: "msg_code a = msg_code b \<longleftrightarrow> a = b"
  by (cases a; cases b) simp_all

record tcp_msg_hdr =
  h_msg_type :: u32
  h_payload_len :: u32

definition enc_hdr :: "tcp_msg_hdr \<Rightarrow> bytes" where
  [codec_simps]: "enc_hdr h = le_bytes 4 (h_msg_type h) @ le_bytes 4 (h_payload_len h)"

definition dec_hdr :: "bytes \<Rightarrow> tcp_msg_hdr" where
  [codec_simps]: "dec_hdr bs = \<lparr>h_msg_type = le_word (field 0 4 bs), h_payload_len = le_word (field 4 4 bs)\<rparr>"

record tcp_handshake =
  hs_magic :: u32
  hs_version :: u32
  hs_conn_count :: u32
  hs_pad :: u32

definition enc_handshake :: "tcp_handshake \<Rightarrow> bytes" where
  [codec_simps]: "enc_handshake h = le_bytes 4 (hs_magic h) @ le_bytes 4 (hs_version h)
     @ le_bytes 4 (hs_conn_count h) @ le_bytes 4 (hs_pad h)"

definition dec_handshake :: "bytes \<Rightarrow> tcp_handshake" where
  [codec_simps]: "dec_handshake bs = \<lparr>hs_magic = le_word (field 0 4 bs), hs_version = le_word (field 4 4 bs),
     hs_conn_count = le_word (field 8 4 bs), hs_pad = le_word (field 12 4 bs)\<rparr>"

record tcp_dma_data_hdr =
  dh_tag :: u32
  dh_direction :: u32
  dh_host_addr :: u64
  dh_len :: u32
  dh_pad :: u32

definition enc_dma_hdr :: "tcp_dma_data_hdr \<Rightarrow> bytes" where
  [codec_simps]: "enc_dma_hdr h = le_bytes 4 (dh_tag h) @ le_bytes 4 (dh_direction h) @ le_bytes 8 (dh_host_addr h)
     @ le_bytes 4 (dh_len h) @ le_bytes 4 (dh_pad h)"

definition dec_dma_hdr :: "bytes \<Rightarrow> tcp_dma_data_hdr" where
  [codec_simps]: "dec_dma_hdr bs = \<lparr>dh_tag = le_word (field 0 4 bs), dh_direction = le_word (field 4 4 bs),
     dh_host_addr = le_word (field 8 8 bs), dh_len = le_word (field 16 4 bs), dh_pad = le_word (field 20 4 bs)\<rparr>"

lemma tcp_codecs [simp]:
  "length (enc_hdr h) = 8" "dec_hdr (enc_hdr h) = h"
  "length (enc_handshake s) = 16" "dec_handshake (enc_handshake s) = s"
  "length (enc_dma_hdr d) = 24" "dec_dma_hdr (enc_dma_hdr d) = d"
  by (simp_all add: codec_simps)

subsection \<open>Messages on one connection\<close>

definition tcp_recv_timed :: "nat \<Rightarrow> sock \<Rightarrow> bytes recvd \<times> sock" where
  "tcp_recv_timed n s =
     (case sk_poll s of
        (Poll_Err, s1) \<Rightarrow> (Failed, s1)
      | (Poll_Intr, s1) \<Rightarrow> (Nothing, s1)
      | (Poll_Timeout, s1) \<Rightarrow> (Nothing, s1)
      | (Poll_Hup, s1) \<Rightarrow> (Failed, s1)
      | (Poll_Ready, s1) \<Rightarrow>
          (case tcp_recv_all n s1 of (Some bs, s2) \<Rightarrow> (Got bs, s2) | (None, s2) \<Rightarrow> (Failed, s2)))"

definition tcp_send_msg :: "tcp_msg_type \<Rightarrow> bytes \<Rightarrow> sock \<Rightarrow> rc \<times> sock" where
  "tcp_send_msg ty payload s =
     (let hdr = \<lparr>h_msg_type = msg_code ty, h_payload_len = of_nat (length payload)\<rparr>
      in case tcp_send_all (enc_hdr hdr) s of
          (r, s1) \<Rightarrow> if r < 0 then (-1, s1)
            else if payload \<noteq> [] then (case tcp_send_all payload s1 of
                (r2, s2) \<Rightarrow> if r2 < 0 then (-1, s2) else (0, s2))
            else (0, s1))"

definition tcp_recv_hdr :: "sock \<Rightarrow> tcp_msg_hdr option \<times> sock" where
  "tcp_recv_hdr s = (case tcp_recv_all 8 s of (r, s1) \<Rightarrow> (map_option dec_hdr r, s1))"

text \<open>The common body of the receive functions: header, type test, an optional test of the payload
  length, and the payload into a struct of \<open>n\<close> bytes.\<close>

definition tcp_recv_body :: "nat \<Rightarrow> (bytes \<Rightarrow> 'a) \<Rightarrow> sock \<Rightarrow> 'a recvd \<times> sock" where
  "tcp_recv_body n dec s =
     (case tcp_recv_all n s of (Some bs, s1) \<Rightarrow> (Got (dec bs), s1) | (None, s1) \<Rightarrow> (Failed, s1))"

definition tcp_recv_msg :: "tcp_msg_type \<Rightarrow> bool \<Rightarrow> nat \<Rightarrow> (bytes \<Rightarrow> 'a) \<Rightarrow> sock \<Rightarrow> 'a recvd \<times> sock" where
  "tcp_recv_msg ty check_len n dec s =
     (case tcp_recv_hdr s of
        (None, s1) \<Rightarrow> (Failed, s1)
      | (Some hdr, s1) \<Rightarrow>
          if h_msg_type hdr \<noteq> msg_code ty then (Failed, s1)
          else if check_len \<and> h_payload_len hdr \<noteq> of_nat n then (Failed, s1)
          else tcp_recv_body n dec s1)"

text \<open>The type of the next message, when a whole header has arrived; nothing is consumed.\<close>

definition tcp_peek_aux_msg_type :: "sock \<Rightarrow> u32 option \<times> sock" where
  "tcp_peek_aux_msg_type s =
     (case sk_poll s of
        (Poll_Ready, s1) \<Rightarrow>
          (let bs = sk_peek 8 s1
           in if length bs < 8 then (None, s1) else (Some (h_msg_type (dec_hdr bs)), s1))
      | (_, s1) \<Rightarrow> (None, s1))"

text \<open>Discarding \<open>n\<close> bytes in chunks of at most 4096.\<close>

function tcp_drain :: "nat \<Rightarrow> sock \<Rightarrow> rc \<times> sock" where
  "tcp_drain n s =
     (if n = 0 then (0, s)
      else (case tcp_recv_all (min n 4096) s of
          (None, s1) \<Rightarrow> (-1, s1)
        | (Some bs, s1) \<Rightarrow> tcp_drain (n - min n 4096) s1))"
  by pat_completeness auto
termination by (relation "measure fst") auto

declare tcp_drain.simps [simp del]

definition tcp_skip_aux_msg :: "sock \<Rightarrow> rc \<times> sock" where
  "tcp_skip_aux_msg s =
     (case tcp_recv_hdr s of
        (None, s1) \<Rightarrow> (-1, s1)
      | (Some hdr, s1) \<Rightarrow> tcp_drain (unat (h_payload_len hdr)) s1)"

definition tcp_recv_nb :: "tcp_msg_type \<Rightarrow> nat \<Rightarrow> (bytes \<Rightarrow> 'a) \<Rightarrow> sock \<Rightarrow> 'a recvd \<times> sock" where
  "tcp_recv_nb ty n dec s =
     (case tcp_peek_aux_msg_type s of
        (None, s1) \<Rightarrow> (Nothing, s1)
      | (Some t, s1) \<Rightarrow>
          if t \<noteq> msg_code ty then (Nothing, s1)
          else (case tcp_recv_hdr s1 of
              (None, s2) \<Rightarrow> (Failed, s2)
            | (Some _, s2) \<Rightarrow> tcp_recv_body n dec s2))"

definition sock_send_dma_data :: "u32 \<Rightarrow> u32 \<Rightarrow> u64 \<Rightarrow> bytes \<Rightarrow> sock \<Rightarrow> rc \<times> sock" where
  "sock_send_dma_data tag direction host_addr data s =
     (let len = of_nat (length data) :: u32;
          dhdr = \<lparr>dh_tag = tag, dh_direction = direction, dh_host_addr = host_addr, dh_len = len, dh_pad = 0\<rparr>;
          hdr = \<lparr>h_msg_type = msg_code TCP_MSG_DMA_DATA, h_payload_len = 24 + len\<rparr>
      in case tcp_send_all (enc_hdr hdr) s of
          (r1, s1) \<Rightarrow> if r1 < 0 then (-1, s1)
            else (case tcp_send_all (enc_dma_hdr dhdr) s1 of
                (r2, s2) \<Rightarrow> if r2 < 0 then (-1, s2)
                  else if data \<noteq> [] then (case tcp_send_all data s2 of
                      (r3, s3) \<Rightarrow> if r3 < 0 then (-1, s3) else (0, s3))
                  else (0, s2)))"

definition sock_recv_dma_data :: "sock \<Rightarrow> dma_data recvd \<times> sock" where
  "sock_recv_dma_data s =
     (case tcp_recv_hdr s of
        (None, s1) \<Rightarrow> (Failed, s1)
      | (Some hdr, s1) \<Rightarrow>
          if h_msg_type hdr \<noteq> msg_code TCP_MSG_DMA_DATA then (Failed, s1)
          else if h_payload_len hdr < 24 then (Failed, s1)
          else (case tcp_recv_all 24 s1 of
              (None, s2) \<Rightarrow> (Failed, s2)
            | (Some db, s2) \<Rightarrow>
                let dhdr = dec_dma_hdr db
                in if h_payload_len hdr \<noteq> 24 + dh_len dhdr then (Failed, s2)
                   else tcp_recv_body (unat (dh_len dhdr)) (\<lambda>bs. \<lparr>dd_tag = dh_tag dhdr,
                     dd_direction = dh_direction dhdr, dd_host_addr = dh_host_addr dhdr, dd_bytes = bs\<rparr>) s2))"

definition sock_send_eth :: "eth_frame \<Rightarrow> sock \<Rightarrow> rc \<times> sock" where
  "sock_send_eth frame s =
     (let hdr = \<lparr>h_msg_type = msg_code TCP_MSG_ETH_FRAME, h_payload_len = 16 + ucast (ef_len frame)\<rparr>
      in case tcp_send_all (enc_hdr hdr) s of
          (r1, s1) \<Rightarrow> if r1 < 0 then (-1, s1)
            else (case tcp_send_all (take 16 (enc_frame frame)) s1 of
                (r2, s2) \<Rightarrow> if r2 < 0 then (-1, s2)
                  else if ef_len frame > 0
                  then (case tcp_send_all (take (unat (ef_len frame)) (ef_data frame)) s2 of
                      (r3, s3) \<Rightarrow> if r3 < 0 then (-1, s3) else (0, s3))
                  else (0, s2)))"

definition sock_recv_eth :: "sock \<Rightarrow> eth_frame recvd \<times> sock" where
  "sock_recv_eth s =
     (case tcp_recv_timed 8 s of
        (Failed, s1) \<Rightarrow> (Failed, s1)
      | (Nothing, s1) \<Rightarrow> (Nothing, s1)
      | (Got hb, s1) \<Rightarrow>
          if h_msg_type (dec_hdr hb) \<noteq> msg_code TCP_MSG_ETH_FRAME then (Failed, s1)
          else (case tcp_recv_all 16 s1 of
              (None, s2) \<Rightarrow> (Failed, s2)
            | (Some fb, s2) \<Rightarrow>
                let frame = dec_frame (fb @ replicate ETH_FRAME_MAX_DATA 0)
                in if ef_len frame > 0 \<and> unat (ef_len frame) \<le> ETH_FRAME_MAX_DATA
                   then tcp_recv_body (unat (ef_len frame))
                     (\<lambda>bs. frame\<lparr>ef_data := blit 0 bs (ef_data frame)\<rparr>) s2
                   else (Got frame, s2)))"

subsection \<open>The endpoint\<close>

text \<open>\<open>tp_aux\<close> is \<^theory_text>\<open>None\<close> while \<open>aux_fd\<close> is -1.\<close>

record transport_tcp_priv =
  tp_ctrl :: sock
  tp_data :: sock
  tp_aux :: "sock option"
  tp_aux_listening :: bool
  tp_is_server :: bool
  tp_peer_is_ready :: bool
  tp_self_is_ready :: bool
  tp_negotiated_version :: u32

definition on_ctrl :: "(sock \<Rightarrow> 'a \<times> sock) \<Rightarrow> transport_tcp_priv \<Rightarrow> 'a \<times> transport_tcp_priv" where
  "on_ctrl f p = (case f (tp_ctrl p) of (r, s) \<Rightarrow> (r, p\<lparr>tp_ctrl := s\<rparr>))"

definition on_data :: "(sock \<Rightarrow> 'a \<times> sock) \<Rightarrow> transport_tcp_priv \<Rightarrow> 'a \<times> transport_tcp_priv" where
  "on_data f p = (case f (tp_data p) of (r, s) \<Rightarrow> (r, p\<lparr>tp_data := s\<rparr>))"

text \<open>\<open>aux_or_data_fd\<close>: the auxiliary connection, or the data connection.\<close>

definition aux_or_data :: "transport_tcp_priv \<Rightarrow> sock" where
  "aux_or_data p = (case tp_aux p of Some s \<Rightarrow> s | None \<Rightarrow> tp_data p)"

definition on_aux :: "(sock \<Rightarrow> 'a \<times> sock) \<Rightarrow> transport_tcp_priv \<Rightarrow> 'a \<times> transport_tcp_priv" where
  "on_aux f p = (case f (aux_or_data p) of
     (r, s) \<Rightarrow> (r, if tp_aux p = None then p\<lparr>tp_data := s\<rparr> else p\<lparr>tp_aux := Some s\<rparr>))"

type_synonym 'a tcp_op = "transport_tcp_priv \<Rightarrow> 'a \<times> transport_tcp_priv"

definition tcp_send_sync :: "sync_msg \<Rightarrow> rc tcp_op" where
  "tcp_send_sync m = on_ctrl (tcp_send_msg TCP_MSG_SYNC (enc_sync m))"

definition tcp_recv_sync :: "sync_msg recvd tcp_op" where
  "tcp_recv_sync = on_ctrl (tcp_recv_msg TCP_MSG_SYNC True 8 dec_sync)"

definition tcp_recv_sync_timed :: "int \<Rightarrow> sync_msg recvd tcp_op" where
  "tcp_recv_sync_timed timeout_ms = on_ctrl (\<lambda>s.
     (case tcp_recv_timed 8 s of
        (Failed, s1) \<Rightarrow> (Failed, s1)
      | (Nothing, s1) \<Rightarrow> (Nothing, s1)
      | (Got hb, s1) \<Rightarrow>
          if h_msg_type (dec_hdr hb) \<noteq> msg_code TCP_MSG_SYNC \<or> h_payload_len (dec_hdr hb) \<noteq> 8
          then (Failed, s1) else tcp_recv_body 8 dec_sync s1))"

definition tcp_send_tlp :: "tlp_entry \<Rightarrow> rc tcp_op" where
  "tcp_send_tlp t = on_data (tcp_send_msg TCP_MSG_TLP (enc_tlp t))"

definition tcp_recv_tlp :: "tlp_entry recvd tcp_op" where
  "tcp_recv_tlp = on_data (tcp_recv_msg TCP_MSG_TLP False 112 dec_tlp)"

definition tcp_send_cpl :: "cpl_entry \<Rightarrow> rc tcp_op" where
  "tcp_send_cpl c = on_data (tcp_send_msg TCP_MSG_CPL (enc_cpl c))"

definition tcp_recv_cpl :: "cpl_entry recvd tcp_op" where
  "tcp_recv_cpl = on_data (tcp_recv_msg TCP_MSG_CPL False 84 dec_cpl)"

definition tcp_send_dma_req :: "dma_req \<Rightarrow> rc tcp_op" where
  "tcp_send_dma_req r = on_aux (tcp_send_msg TCP_MSG_DMA_REQ (enc_dma_req r))"

definition tcp_recv_dma_req :: "dma_req recvd tcp_op" where
  "tcp_recv_dma_req = on_aux (tcp_recv_msg TCP_MSG_DMA_REQ False 32 dec_dma_req)"

definition tcp_recv_dma_req_nb :: "dma_req recvd tcp_op" where
  "tcp_recv_dma_req_nb = on_aux (tcp_recv_nb TCP_MSG_DMA_REQ 32 dec_dma_req)"

definition tcp_send_dma_cpl :: "dma_cpl \<Rightarrow> rc tcp_op" where
  "tcp_send_dma_cpl c = on_aux (tcp_send_msg TCP_MSG_DMA_CPL (enc_dma_cpl c))"

definition tcp_recv_dma_cpl :: "dma_cpl recvd tcp_op" where
  "tcp_recv_dma_cpl = on_aux (tcp_recv_msg TCP_MSG_DMA_CPL False 16 dec_dma_cpl)"

definition tcp_send_dma_data :: "u32 \<Rightarrow> u32 \<Rightarrow> u64 \<Rightarrow> bytes \<Rightarrow> rc tcp_op" where
  "tcp_send_dma_data tag direction host_addr data = on_aux (sock_send_dma_data tag direction host_addr data)"

definition tcp_recv_dma_data :: "dma_data recvd tcp_op" where
  "tcp_recv_dma_data = on_aux sock_recv_dma_data"

definition tcp_send_msi :: "msi_event \<Rightarrow> rc tcp_op" where
  "tcp_send_msi e = on_aux (tcp_send_msg TCP_MSG_MSI (enc_msi e))"

definition tcp_recv_msi :: "msi_event recvd tcp_op" where
  "tcp_recv_msi = on_aux (tcp_recv_msg TCP_MSG_MSI False 16 dec_msi)"

definition tcp_recv_msi_nb :: "msi_event recvd tcp_op" where
  "tcp_recv_msi_nb = on_aux (tcp_recv_nb TCP_MSG_MSI 16 dec_msi)"

definition tcp_send_eth :: "eth_frame \<Rightarrow> rc tcp_op" where
  "tcp_send_eth f = on_aux (sock_send_eth f)"

definition tcp_recv_eth :: "u64 \<Rightarrow> eth_frame recvd tcp_op" where
  "tcp_recv_eth timeout_ns = on_aux sock_recv_eth"

definition tcp_send_topology :: "topology_resp \<Rightarrow> rc tcp_op" where
  "tcp_send_topology t = on_ctrl (tcp_send_msg TCP_MSG_TOPOLOGY_RESP (enc_topology t))"

definition tcp_recv_topology :: "topology_resp recvd tcp_op" where
  "tcp_recv_topology = on_ctrl (tcp_recv_msg TCP_MSG_TOPOLOGY_RESP True 900 dec_topology)"

definition tcp_send_vf_event :: "vf_event \<Rightarrow> rc tcp_op" where
  "tcp_send_vf_event e = on_ctrl (tcp_send_msg TCP_MSG_VF_EVENT (enc_vf_event e))"

definition tcp_recv_vf_event :: "vf_event recvd tcp_op" where
  "tcp_recv_vf_event = on_ctrl (tcp_recv_msg TCP_MSG_VF_EVENT True 4 dec_vf_event)"

definition tcp_peer_ready :: "transport_tcp_priv \<Rightarrow> bool" where
  "tcp_peer_ready p = tp_peer_is_ready p"

definition tcp_set_ready :: "transport_tcp_priv \<Rightarrow> transport_tcp_priv" where
  "tcp_set_ready p = p\<lparr>tp_self_is_ready := True\<rparr>"

definition tcp_transport :: "transport_tcp_priv transport" where
  "tcp_transport = \<lparr>tr_send_sync = tcp_send_sync, tr_recv_sync = tcp_recv_sync,
     tr_recv_sync_timed = tcp_recv_sync_timed, tr_send_tlp = tcp_send_tlp, tr_recv_tlp = tcp_recv_tlp,
     tr_send_cpl = tcp_send_cpl, tr_recv_cpl = tcp_recv_cpl, tr_send_dma_req = tcp_send_dma_req,
     tr_recv_dma_req = tcp_recv_dma_req, tr_send_dma_cpl = tcp_send_dma_cpl,
     tr_recv_dma_cpl = tcp_recv_dma_cpl, tr_send_dma_data = tcp_send_dma_data,
     tr_recv_dma_data = tcp_recv_dma_data, tr_recv_dma_req_nb = tcp_recv_dma_req_nb,
     tr_recv_msi_nb = tcp_recv_msi_nb, tr_send_msi = tcp_send_msi, tr_recv_msi = tcp_recv_msi,
     tr_send_eth = tcp_send_eth, tr_recv_eth = tcp_recv_eth, tr_send_topology = tcp_send_topology,
     tr_recv_topology = tcp_recv_topology, tr_send_vf_event = tcp_send_vf_event,
     tr_recv_vf_event = (\<lambda>p. map_prod recvd_rc id (tcp_recv_vf_event p)), tr_peer_ready = tcp_peer_ready,
     tr_set_ready = tcp_set_ready, tr_has_shm = False, tr_dma_buf_size = (\<lambda>_. 0)\<rparr>"

subsection \<open>Handshake\<close>

text \<open>The body of a handshake message: 8 bytes from a version 1 peer, 16 from a version 2 peer.\<close>

definition recv_handshake :: "sock \<Rightarrow> tcp_handshake option \<times> sock" where
  "recv_handshake s =
     (case tcp_recv_hdr s of
        (None, s1) \<Rightarrow> (None, s1)
      | (Some hdr, s1) \<Rightarrow>
          if h_msg_type hdr \<noteq> msg_code TCP_MSG_HANDSHAKE then (None, s1)
          else if h_payload_len hdr = 8
          then (case tcp_recv_all 8 s1 of (r, s2) \<Rightarrow>
            (map_option (\<lambda>bs. (dec_handshake (bs @ replicate 8 0))\<lparr>hs_conn_count := 2\<rparr>) r, s2))
          else if h_payload_len hdr = 16
          then (case tcp_recv_all 16 s1 of (r, s2) \<Rightarrow> (map_option dec_handshake r, s2))
          else (None, s1))"

definition close_aux :: "transport_tcp_priv \<Rightarrow> transport_tcp_priv" where
  "close_aux p = p\<lparr>tp_aux := None, tp_aux_listening := False\<rparr>"

text \<open>The server's offer, and what it does with the client's answer.\<close>

definition server_offer :: "transport_tcp_priv \<Rightarrow> tcp_handshake" where
  "server_offer p = \<lparr>hs_magic = TCP_HANDSHAKE_MAGIC, hs_version = TCP_HANDSHAKE_VERSION,
     hs_conn_count = (if tp_aux p \<noteq> None then 3 else 2), hs_pad = 0\<rparr>"

definition server_accept_ack :: "tcp_handshake \<Rightarrow> transport_tcp_priv \<Rightarrow> rc \<times> transport_tcp_priv" where
  "server_accept_ack ack p =
     (if hs_magic ack \<noteq> TCP_HANDSHAKE_MAGIC then (-1, p)
      else let p1 = p\<lparr>tp_negotiated_version := hs_version ack\<rparr>;
               p2 = (if (hs_version ack < TCP_HANDSHAKE_V2 \<or> hs_conn_count ack < 3) \<and> tp_aux p1 \<noteq> None
                     then close_aux p1 else p1)
           in (0, p2\<lparr>tp_peer_is_ready := True\<rparr>))"

definition tcp_do_handshake_server :: "transport_tcp_priv \<Rightarrow> rc \<times> transport_tcp_priv" where
  "tcp_do_handshake_server p =
     (case on_ctrl (tcp_send_msg TCP_MSG_HANDSHAKE (enc_handshake (server_offer p))) p of
        (r, p1) \<Rightarrow> if r < 0 then (-1, p1)
          else (case on_ctrl recv_handshake p1 of
              (None, p2) \<Rightarrow> (-1, p2)
            | (Some ack, p2) \<Rightarrow> server_accept_ack ack p2))"

definition client_ack :: "tcp_handshake \<Rightarrow> transport_tcp_priv \<Rightarrow> tcp_handshake" where
  "client_ack hs p =
     (let agreed = (if hs_version hs < TCP_HANDSHAKE_VERSION then hs_version hs else TCP_HANDSHAKE_VERSION)
      in \<lparr>hs_magic = TCP_HANDSHAKE_MAGIC, hs_version = agreed,
          hs_conn_count = (if tp_aux p \<noteq> None \<and> agreed \<ge> TCP_HANDSHAKE_V2 \<and> hs_conn_count hs \<ge> 3 then 3 else 2),
          hs_pad = 0\<rparr>)"

definition client_accept :: "tcp_handshake \<Rightarrow> transport_tcp_priv \<Rightarrow> rc \<times> transport_tcp_priv" where
  "client_accept hs p =
     (let ack = client_ack hs p;
          p1 = p\<lparr>tp_negotiated_version := hs_version ack\<rparr>
      in case on_ctrl (tcp_send_msg TCP_MSG_HANDSHAKE (enc_handshake ack)) p1 of
          (r, p2) \<Rightarrow> if r < 0 then (-1, p2)
            else let p3 = (if (hs_version ack < TCP_HANDSHAKE_V2 \<or> hs_conn_count hs < 3) \<and> tp_aux p2 \<noteq> None
                           then p2\<lparr>tp_aux := None\<rparr> else p2)
                 in (0, p3\<lparr>tp_peer_is_ready := True\<rparr>))"

definition tcp_do_handshake_client :: "transport_tcp_priv \<Rightarrow> rc \<times> transport_tcp_priv" where
  "tcp_do_handshake_client p =
     (case on_ctrl recv_handshake p of
        (None, p1) \<Rightarrow> (-1, p1)
      | (Some hs, p1) \<Rightarrow>
          if hs_magic hs \<noteq> TCP_HANDSHAKE_MAGIC then (-1, p1) else client_accept hs p1)"

subsection \<open>Creation\<close>

datatype tcp_accept = Ta_Timeout | Ta_Intr | Ta_Poll_Err | Ta_Fd int

fun tcp_accept_poll :: "tcp_accept list \<Rightarrow> int option" where
  "tcp_accept_poll [] = None"
| "tcp_accept_poll (Ta_Fd fd # as) = Some (if fd < 0 then -1 else fd)"
| "tcp_accept_poll (Ta_Timeout # as) = tcp_accept_poll as"
| "tcp_accept_poll (Ta_Intr # as) = Some (-1)"
| "tcp_accept_poll (Ta_Poll_Err # as) = Some (-1)"

text \<open>One round of the connect loop: \<open>connect\<close> answers, and after a refusal a new \<open>socket\<close> is made.\<close>

datatype tcp_connect = Tc_Ok int | Tc_Refused bool | Tc_Err

fun connect_rounds :: "nat \<Rightarrow> tcp_connect list \<Rightarrow> int option" where
  "connect_rounds 0 cs = Some (-1)"
| "connect_rounds (Suc n) [] = None"
| "connect_rounds (Suc n) (Tc_Ok fd # cs) = Some fd"
| "connect_rounds (Suc n) (Tc_Err # cs) = Some (-1)"
| "connect_rounds (Suc n) (Tc_Refused new_ok # cs) = (if new_ok then connect_rounds n cs else Some (-1))"

definition tcp_connect_host :: "bool \<Rightarrow> bool \<Rightarrow> tcp_connect list \<Rightarrow> int option" where
  "tcp_connect_host socket_ok addr_ok cs =
     (if \<not> socket_ok then Some (-1) else if \<not> addr_ok then Some (-1) else connect_rounds 30 cs)"

definition tcp_connect_host_once :: "bool \<Rightarrow> bool \<Rightarrow> tcp_connect \<Rightarrow> int" where
  "tcp_connect_host_once socket_ok addr_ok c =
     (if \<not> socket_ok then -1 else if \<not> addr_ok then -1 else (case c of Tc_Ok fd \<Rightarrow> fd | _ \<Rightarrow> -1))"

text \<open>\<open>ctrl\<close>, \<open>data\<close> and \<open>aux\<close> port of an instance.\<close>

definition tcp_ports :: "int \<Rightarrow> int \<Rightarrow> int \<times> int \<times> int" where
  "tcp_ports port_base instance_id =
     (let base = (if port_base > 0 then port_base else TCP_DEFAULT_PORT_BASE)
      in (base + instance_id * 3, base + instance_id * 3 + 1, base + instance_id * 3 + 2))"

definition priv_init :: "bool \<Rightarrow> sock \<Rightarrow> sock \<Rightarrow> sock option \<Rightarrow> transport_tcp_priv" where
  "priv_init is_server ctrl data aux = \<lparr>tp_ctrl = ctrl, tp_data = data, tp_aux = aux,
     tp_aux_listening = is_server, tp_is_server = is_server, tp_peer_is_ready = False,
     tp_self_is_ready = False, tp_negotiated_version = TCP_HANDSHAKE_V1\<rparr>"

text \<open>The server: three listening ports, two accepted connections, the third if it arrives in time.
  \<^theory_text>\<open>None\<close>: still waiting; \<^theory_text>\<open>Some None\<close>: creation failed.\<close>

definition tcp_create_server :: "bool list \<Rightarrow> tcp_accept list \<Rightarrow> tcp_accept list \<Rightarrow> bool
    \<Rightarrow> sock \<Rightarrow> sock \<Rightarrow> sock \<Rightarrow> transport_tcp_priv option option" where
  "tcp_create_server listens_ok acc_ctrl acc_data aux_arrives ctrl data aux =
     (if \<not> list_all id listens_ok then Some None
      else (case tcp_accept_poll acc_ctrl of
          None \<Rightarrow> None
        | Some c \<Rightarrow> if c < 0 then Some None
            else (case tcp_accept_poll acc_data of
                None \<Rightarrow> None
              | Some d \<Rightarrow> if d < 0 then Some None
                  else (case tcp_do_handshake_server (priv_init True ctrl data (if aux_arrives then Some aux else None)) of
                      (r, p) \<Rightarrow> Some (if r < 0 then None else Some p)))))"

definition tcp_create_client :: "tcp_connect list \<Rightarrow> tcp_connect list \<Rightarrow> tcp_connect
    \<Rightarrow> sock \<Rightarrow> sock \<Rightarrow> sock \<Rightarrow> transport_tcp_priv option option" where
  "tcp_create_client con_ctrl con_data con_aux ctrl data aux =
     (case tcp_connect_host True True con_ctrl of
        None \<Rightarrow> None
      | Some c \<Rightarrow> if c < 0 then Some None
          else (case tcp_connect_host True True con_data of
              None \<Rightarrow> None
            | Some d \<Rightarrow> if d < 0 then Some None
                else (case tcp_do_handshake_client (priv_init False ctrl data
                        (if tcp_connect_host_once True True con_aux \<ge> 0 then Some aux else None)) of
                    (r, p) \<Rightarrow> Some (if r < 0 then None else Some p))))"

end
