(* ===== verification/Tcp_Streams.thy ===== *)
theory Tcp_Streams
  imports Transport_Tcp
begin

section \<open>What the TCP transport delivers\<close>

text \<open>
  A message put on a healthy connection by one end is what the other end reads, however the kernel
  cuts the stream: stated once as a contract between a send and a receive function, and proved for
  every message kind of transport\_tcp.c.
\<close>

definition msg_bytes :: "tcp_msg_type \<Rightarrow> bytes \<Rightarrow> bytes" where
  "msg_bytes ty payload = enc_hdr \<lparr>h_msg_type = msg_code ty, h_payload_len = of_nat (length payload)\<rparr> @ payload"

lemma length_msg_bytes [simp]: "length (msg_bytes ty payload) = 8 + length payload"
  by (simp add: msg_bytes_def)

subsection \<open>The primitives on a healthy connection\<close>

text \<open>\<open>sends m f\<close>: on a healthy socket \<open>f\<close> succeeds and appends exactly \<open>m\<close>.  \<open>reads m f x\<close>: with \<open>m\<close> at
  the head of the stream, \<open>f\<close> consumes exactly \<open>m\<close> and gives \<open>x\<close>.\<close>

definition sends :: "bytes \<Rightarrow> (sock \<Rightarrow> rc \<times> sock) \<Rightarrow> bool" where
  "sends m f \<longleftrightarrow> (\<forall>s. healthy s \<longrightarrow> (\<exists>s'. f s = (0, s') \<and> sk_out s' = sk_out s @ m \<and> sk_in s' = sk_in s \<and> healthy s'))"

definition reads :: "bytes \<Rightarrow> (sock \<Rightarrow> 'a \<times> sock) \<Rightarrow> 'a \<Rightarrow> bool" where
  "reads m f x \<longleftrightarrow> (\<forall>s rest. healthy s \<and> sk_in s = m @ rest \<longrightarrow>
     (\<exists>s'. f s = (x, s') \<and> sk_in s' = rest \<and> sk_out s' = sk_out s \<and> healthy s'))"

lemma sends_all: "sends m (tcp_send_all m)"
  unfolding sends_def
proof (intro allI impI)
  fix s :: sock assume h: "healthy s"
  from tcp_send_all_ok [OF h, of m] obtain es
    where "tcp_send_all m s = (0, s\<lparr>sk_out := sk_out s @ m, sk_tx := es\<rparr>)" "list_all benign es" by blast
  then show "\<exists>s'. tcp_send_all m s = (0, s') \<and> sk_out s' = sk_out s @ m \<and> sk_in s' = sk_in s \<and> healthy s'"
    using h by (simp add: healthy_def)
qed

lemma reads_all: "length m = n \<Longrightarrow> reads m (tcp_recv_all n) (Some m)"
  unfolding reads_def
proof (intro allI impI)
  fix s :: sock and rest assume len: "length m = n" and h: "healthy s \<and> sk_in s = m @ rest"
  then have "n \<le> length (sk_in s)" by simp
  with tcp_recv_all_ok [of s n] h obtain es
    where "tcp_recv_all n s = (Some (take n (sk_in s)), s\<lparr>sk_in := drop n (sk_in s), sk_rx := es\<rparr>)" "list_all benign es"
    by blast
  then show "\<exists>s'. tcp_recv_all n s = (Some m, s') \<and> sk_in s' = rest \<and> sk_out s' = sk_out s \<and> healthy s'"
    using h len by (simp add: healthy_def)
qed

text \<open>Composition: one primitive after another, as the case chains of the code do.\<close>

lemma sends_seq:
  assumes "sends m f" and "sends n g"
    and "\<And>s s1. f s = (0, s1) \<Longrightarrow> h s = g s1"
  shows "sends (m @ n) h"
  unfolding sends_def
proof (intro allI impI)
  fix s :: sock assume "healthy s"
  with assms(1) obtain s1 where s1: "f s = (0, s1)" "sk_out s1 = sk_out s @ m" "sk_in s1 = sk_in s" "healthy s1"
    unfolding sends_def by blast
  with assms(2) obtain s2 where "g s1 = (0, s2)" "sk_out s2 = sk_out s1 @ n" "sk_in s2 = sk_in s1" "healthy s2"
    unfolding sends_def by blast
  then show "\<exists>s'. h s = (0, s') \<and> sk_out s' = sk_out s @ m @ n \<and> sk_in s' = sk_in s \<and> healthy s'"
    using s1 assms(3) [OF s1(1)] by simp
qed

lemma reads_seq:
  assumes "reads m f x" and "reads n g y" and "\<And>s s1. f s = (x, s1) \<Longrightarrow> h s = g s1"
  shows "reads (m @ n) h y"
  unfolding reads_def
proof (intro allI impI)
  fix s :: sock and rest assume a: "healthy s \<and> sk_in s = (m @ n) @ rest"
  then have "healthy s \<and> sk_in s = m @ (n @ rest)" by simp
  with assms(1) obtain s1 where s1: "f s = (x, s1)" "sk_in s1 = n @ rest" "sk_out s1 = sk_out s" "healthy s1"
    unfolding reads_def by blast
  with assms(2) obtain s2 where "g s1 = (y, s2)" "sk_in s2 = rest" "sk_out s2 = sk_out s1" "healthy s2"
    unfolding reads_def by blast
  then show "\<exists>s'. h s = (y, s') \<and> sk_in s' = rest \<and> sk_out s' = sk_out s \<and> healthy s'"
    using s1 assms(3) [OF s1(1)] by simp
qed

lemma sends_wrap: "sends m f \<Longrightarrow> (\<And>s s1. f s = (0, s1) \<Longrightarrow> h s = (0, s1)) \<Longrightarrow> sends m h"
  unfolding sends_def by metis

lemma reads_wrap: "reads m f x \<Longrightarrow> (\<And>s s1. f s = (x, s1) \<Longrightarrow> h s = (y, s1)) \<Longrightarrow> reads m h y"
  unfolding reads_def by metis

lemma sends_msg: "sends (msg_bytes ty payload) (tcp_send_msg ty payload)"
proof (cases "payload = []")
  case True
  show ?thesis
    by (rule sends_wrap [OF sends_all]) (simp add: tcp_send_msg_def msg_bytes_def True)
next
  case False
  show ?thesis unfolding msg_bytes_def
    by (rule sends_seq [OF sends_all sends_wrap [OF sends_all, of _ "\<lambda>s. case tcp_send_all payload s of
        (r2, s2) \<Rightarrow> if r2 < 0 then (-1, s2) else (0, s2)"]]) (simp_all add: tcp_send_msg_def False)
qed

lemma reads_hdr: "reads (enc_hdr h) tcp_recv_hdr (Some h)"
  by (rule reads_wrap [OF reads_all [of _ 8]]) (simp_all add: tcp_recv_hdr_def)

lemma reads_body: "length m = n \<Longrightarrow> reads m (tcp_recv_body n dec) (Got (dec m))"
  by (rule reads_wrap [OF reads_all [of m n]]) (simp_all add: tcp_recv_body_def)

lemma reads_msg:
  assumes "length payload = n"
  shows "reads (msg_bytes ty payload) (tcp_recv_msg ty check n dec) (Got (dec payload))"
  unfolding msg_bytes_def
  by (rule reads_seq [OF reads_hdr reads_body [OF assms]]) (simp add: tcp_recv_msg_def assms)

lemma reads_msg_dec:
  "length payload = n \<Longrightarrow> dec payload = x \<Longrightarrow> reads (msg_bytes ty payload) (tcp_recv_msg ty check n dec) (Got x)"
  using reads_msg by metis

lemma reads_drain: "length m = n \<Longrightarrow> reads m (tcp_drain n) 0"
proof (induction n arbitrary: m rule: less_induct)
  case (less n)
  show ?case
  proof (cases "n = 0")
    case True
    then show ?thesis using less.prems by (simp add: reads_def tcp_drain.simps [of 0])
  next
    case False
    let ?k = "min n 4096"
    have len: "length (take ?k m) = ?k" "length (drop ?k m) = n - ?k" using less.prems by simp_all
    have "reads (drop ?k m) (tcp_drain (n - ?k)) 0" by (rule less.IH [OF _ len(2)]) (use False in simp)
    from reads_seq [OF reads_all [OF len(1)] this, of "tcp_drain n"]
    have "reads (take ?k m @ drop ?k m) (tcp_drain n) 0"
      using False by (simp add: tcp_drain.simps [of n])
    then show ?thesis by simp
  qed
qed

lemma reads_skip:
  assumes "length payload < 2 ^ 32"
  shows "reads (msg_bytes ty payload) tcp_skip_aux_msg 0"
  unfolding msg_bytes_def
  by (rule reads_seq [OF reads_hdr reads_drain [OF refl]]) (use assms in \<open>simp add: tcp_skip_aux_msg_def unat_of_nat\<close>)

text \<open>DMA data and Ethernet frames.\<close>

definition dma_data_bytes :: "dma_data \<Rightarrow> bytes" where
  "dma_data_bytes d = enc_hdr \<lparr>h_msg_type = msg_code TCP_MSG_DMA_DATA, h_payload_len = 24 + of_nat (length (dd_bytes d))\<rparr>
     @ enc_dma_hdr \<lparr>dh_tag = dd_tag d, dh_direction = dd_direction d, dh_host_addr = dd_host_addr d,
         dh_len = of_nat (length (dd_bytes d)), dh_pad = 0\<rparr> @ dd_bytes d"

lemma sends_tail:
  "sends data (\<lambda>s. if data \<noteq> [] then (case tcp_send_all data s of (r, s1) \<Rightarrow> if r < 0 then (-1, s1) else (0, s1))
     else (0, s))"
proof (cases "data = []")
  case False
  then show ?thesis by (intro sends_wrap [OF sends_all]) simp
qed (simp add: sends_def)

lemma sends_dma_data:
  "sends (dma_data_bytes d) (sock_send_dma_data (dd_tag d) (dd_direction d) (dd_host_addr d) (dd_bytes d))"
  unfolding dma_data_bytes_def
  by (rule sends_seq [OF sends_all sends_seq [OF sends_all sends_tail, of _
      "\<lambda>s1. case tcp_send_all (enc_dma_hdr \<lparr>dh_tag = dd_tag d, dh_direction = dd_direction d,
         dh_host_addr = dd_host_addr d, dh_len = of_nat (length (dd_bytes d)), dh_pad = 0\<rparr>) s1 of
         (r2, s2) \<Rightarrow> if r2 < 0 then (-1, s2) else if dd_bytes d \<noteq> []
           then (case tcp_send_all (dd_bytes d) s2 of (r3, s3) \<Rightarrow> if r3 < 0 then (-1, s3) else (0, s3)) else (0, s2)"]])
    (simp_all add: sock_send_dma_data_def Let_def)

lemma reads_dma_data:
  assumes "length (dd_bytes d) + 24 < 2 ^ 32"
  shows "reads (dma_data_bytes d) sock_recv_dma_data (Got d)"
proof -
  let ?n = "length (dd_bytes d)" and ?len = "of_nat (length (dd_bytes d)) :: u32"
  let ?h = "\<lparr>h_msg_type = msg_code TCP_MSG_DMA_DATA, h_payload_len = 24 + ?len\<rparr>"
  let ?dh = "\<lparr>dh_tag = dd_tag d, dh_direction = dd_direction d, dh_host_addr = dd_host_addr d, dh_len = ?len, dh_pad = 0\<rparr>"
  have n: "unat ?len = ?n" using assms by (simp add: unat_of_nat)
  have "unat (24 + ?len) = 24 + ?n"
    using assms n unat_add_no_wrap [of 24 ?len] by simp
  then have big: "\<not> 24 + ?len < 24" by (simp add: word_less_nat_alt)
  have body: "reads (dd_bytes d) (tcp_recv_body ?n (\<lambda>bs. \<lparr>dd_tag = dd_tag d, dd_direction = dd_direction d,
      dd_host_addr = dd_host_addr d, dd_bytes = bs\<rparr>)) (Got d)"
    using reads_body [of "dd_bytes d" ?n "\<lambda>bs. \<lparr>dd_tag = dd_tag d, dd_direction = dd_direction d,
      dd_host_addr = dd_host_addr d, dd_bytes = bs\<rparr>"] by (cases d) simp
  let ?g = "\<lambda>s1. case tcp_recv_all 24 s1 of (None, s2) \<Rightarrow> (Failed, s2) | (Some db, s2) \<Rightarrow>
      let dhdr = dec_dma_hdr db in if h_payload_len ?h \<noteq> 24 + dh_len dhdr then (Failed, s2)
      else tcp_recv_body (unat (dh_len dhdr)) (\<lambda>bs. \<lparr>dd_tag = dh_tag dhdr, dd_direction = dh_direction dhdr,
        dd_host_addr = dh_host_addr dhdr, dd_bytes = bs\<rparr>) s2"
  have "reads (enc_dma_hdr ?dh @ dd_bytes d) ?g (Got d)"
    by (rule reads_seq [OF reads_all [of _ 24] body]) (simp_all add: n)
  then show ?thesis unfolding dma_data_bytes_def
    by (rule reads_seq [OF reads_hdr]) (simp add: sock_recv_dma_data_def big Let_def cong: option.case_cong prod.case_cong)
qed

definition eth_frame_bytes :: "eth_frame \<Rightarrow> bytes" where
  "eth_frame_bytes f = enc_hdr \<lparr>h_msg_type = msg_code TCP_MSG_ETH_FRAME, h_payload_len = 16 + ucast (ef_len f)\<rparr>
     @ take 16 (enc_frame f) @ take (unat (ef_len f)) (ef_data f)"

lemma sends_eth: "wf_frame f \<Longrightarrow> sends (eth_frame_bytes f) (sock_send_eth f)"
proof -
  assume wf: "wf_frame f"
  have tail: "sends (take (unat (ef_len f)) (ef_data f)) (\<lambda>s2. if ef_len f > 0
      then (case tcp_send_all (take (unat (ef_len f)) (ef_data f)) s2 of (r3, s3) \<Rightarrow> if r3 < 0 then (-1, s3) else (0, s3))
      else (0, s2))"
  proof (cases "ef_len f = 0")
    case True
    then show ?thesis by (simp add: sends_def)
  next
    case False
    then have "ef_len f > 0" by (simp add: word_gt_0)
    then show ?thesis by (intro sends_wrap [OF sends_all]) simp
  qed
  show ?thesis unfolding eth_frame_bytes_def
    by (rule sends_seq [OF sends_all sends_seq [OF sends_all tail, of _
      "\<lambda>s1. case tcp_send_all (take 16 (enc_frame f)) s1 of (r2, s2) \<Rightarrow> if r2 < 0 then (-1, s2)
         else if ef_len f > 0
         then (case tcp_send_all (take (unat (ef_len f)) (ef_data f)) s2 of (r3, s3) \<Rightarrow> if r3 < 0 then (-1, s3) else (0, s3))
         else (0, s2)"]]) (simp_all add: sock_send_eth_def Let_def)
qed

text \<open>The receiver sees the frame with the bytes behind its length cleared.\<close>

definition frame_trim :: "eth_frame \<Rightarrow> eth_frame" where
  "frame_trim f = f\<lparr>ef_data := take (unat (ef_len f)) (ef_data f) @ replicate (ETH_FRAME_MAX_DATA - unat (ef_len f)) 0\<rparr>"

lemma dec_frame_header:
  "dec_frame (take 16 (enc_frame f) @ replicate ETH_FRAME_MAX_DATA 0) = f\<lparr>ef_data := replicate ETH_FRAME_MAX_DATA 0\<rparr>"
  by (simp add: codec_simps)

lemma reads_recv_timed:
  assumes "reads m (tcp_recv_all n) (Some m)" and "healthy s" and "sk_in s = m @ rest" and "m \<noteq> []" and "sk_polls s = []"
  shows "\<exists>s'. tcp_recv_timed n s = (Got m, s') \<and> sk_in s' = rest \<and> sk_out s' = sk_out s \<and> healthy s'"
proof -
  have "sk_poll s = (Poll_Ready, s)" using assms(3,4,5) by (simp add: sk_poll_def)
  then show ?thesis using assms(1,2,3) by (fastforce simp: reads_def tcp_recv_timed_def)
qed

lemma recv_eth_rest:
  assumes "wf_frame f" and "unat (ef_len f) \<le> ETH_FRAME_MAX_DATA"
  shows "reads (take 16 (enc_frame f) @ take (unat (ef_len f)) (ef_data f))
    (\<lambda>s1. case tcp_recv_all 16 s1 of (None, s2) \<Rightarrow> (Failed, s2)
     | (Some fb, s2) \<Rightarrow> let frame = dec_frame (fb @ replicate ETH_FRAME_MAX_DATA 0)
         in if ef_len frame > 0 \<and> unat (ef_len frame) \<le> ETH_FRAME_MAX_DATA
            then tcp_recv_body (unat (ef_len frame)) (\<lambda>bs. frame\<lparr>ef_data := blit 0 bs (ef_data frame)\<rparr>) s2
            else (Got frame, s2)) (Got (frame_trim f))"
proof -
  let ?n = "unat (ef_len f)"
  have len: "length (take 16 (enc_frame f)) = 16" "length (take ?n (ef_data f)) = ?n"
    using assms by (simp_all add: wf_frame_def)
  let ?g = "f\<lparr>ef_data := replicate ETH_FRAME_MAX_DATA 0\<rparr>"
  have trim: "?g\<lparr>ef_data := blit 0 (take ?n (ef_data f)) (ef_data ?g)\<rparr> = frame_trim f"
    using assms by (simp add: frame_trim_def wf_frame_def)
  have body: "reads (take ?n (ef_data f)) (\<lambda>s2. if ef_len f > 0
      then tcp_recv_body ?n (\<lambda>bs. ?g\<lparr>ef_data := blit 0 bs (ef_data ?g)\<rparr>) s2 else (Got ?g, s2)) (Got (frame_trim f))"
  proof (cases "ef_len f = 0")
    case True
    then show ?thesis by (simp add: reads_def frame_trim_def)
  next
    case False
    then have pos: "ef_len f > 0" by (simp add: word_gt_0)
    have "reads (take ?n (ef_data f)) (tcp_recv_body ?n (\<lambda>bs. ?g\<lparr>ef_data := blit 0 bs (ef_data ?g)\<rparr>)) (Got (frame_trim f))"
      using reads_body [OF len(2), of "\<lambda>bs. ?g\<lparr>ef_data := blit 0 bs (ef_data ?g)\<rparr>"] unfolding trim .
    then show ?thesis using pos by simp
  qed
  show ?thesis
    by (rule reads_seq [OF reads_all [OF len(1)] body])
      (simp add: dec_frame_header assms(2) Let_def del: enc_frame_def split: if_splits)
qed

lemma reads_eth:
  assumes "wf_frame f" and "unat (ef_len f) \<le> ETH_FRAME_MAX_DATA" and "healthy s"
    and "sk_in s = eth_frame_bytes f @ rest" and "sk_polls s = []"
  shows "\<exists>s'. sock_recv_eth s = (Got (frame_trim f), s') \<and> sk_in s' = rest \<and> healthy s'"
proof -
  let ?h = "enc_hdr \<lparr>h_msg_type = msg_code TCP_MSG_ETH_FRAME, h_payload_len = 16 + ucast (ef_len f)\<rparr>"
  let ?tl = "take 16 (enc_frame f) @ take (unat (ef_len f)) (ef_data f)"
  have in_s: "sk_in s = ?h @ ?tl @ rest" using assms(4) by (simp add: eth_frame_bytes_def)
  have "?h \<noteq> []" using tcp_codecs(1) by (metis length_0_conv zero_neq_numeral)
  with reads_recv_timed [OF reads_all assms(3) in_s _ assms(5), of 8]
  obtain s1 where s1: "tcp_recv_timed 8 s = (Got ?h, s1)" "sk_in s1 = ?tl @ rest" "healthy s1" by auto
  then show ?thesis
    using recv_eth_rest [OF assms(1,2)] unfolding reads_def
    by (fastforce simp: sock_recv_eth_def)
qed

subsection \<open>The contract, and its instances\<close>

locale message_stream =
  fixes send :: "'a \<Rightarrow> sock \<Rightarrow> rc \<times> sock" and recv :: "sock \<Rightarrow> 'a recvd \<times> sock"
    and image :: "'a \<Rightarrow> bytes" and wf :: "'a \<Rightarrow> bool"
  assumes send_image: "wf x \<Longrightarrow> sends (image x) (send x)"
    and recv_image: "wf x \<Longrightarrow> reads (image x) recv (Got x)"

fun send_list :: "('a \<Rightarrow> 's \<Rightarrow> rc \<times> 's) \<Rightarrow> 'a list \<Rightarrow> 's \<Rightarrow> rc \<times> 's" where
  "send_list send [] s = (0, s)"
| "send_list send (x # xs) s = (case send x s of (r, s1) \<Rightarrow> if r < 0 then (r, s1) else send_list send xs s1)"

fun recv_list :: "('s \<Rightarrow> 'a recvd \<times> 's) \<Rightarrow> nat \<Rightarrow> 's \<Rightarrow> 'a list \<times> 's" where
  "recv_list recv 0 s = ([], s)"
| "recv_list recv (Suc n) s = (case recv s of
     (Got x, s1) \<Rightarrow> (case recv_list recv n s1 of (xs, s2) \<Rightarrow> (x # xs, s2))
   | (_, s1) \<Rightarrow> ([], s1))"

context message_stream
begin

lemma send_list_image: "list_all wf xs \<Longrightarrow> sends (concat (map image xs)) (send_list send xs)"
proof (induction xs)
  case Nil
  then show ?case by (simp add: sends_def)
next
  case (Cons x xs)
  then have "sends (image x) (send x)" "sends (concat (map image xs)) (send_list send xs)"
    using send_image by simp_all
  then show ?case by (auto intro: sends_seq)
qed

lemma recv_list_image: "list_all wf xs \<Longrightarrow> reads (concat (map image xs)) (recv_list recv (length xs)) xs"
proof (induction xs)
  case Nil
  then show ?case by (simp add: reads_def)
next
  case (Cons x xs)
  have "reads (image x) recv (Got x)" using Cons.prems recv_image by simp
  moreover have "reads (concat (map image xs)) (\<lambda>s. case recv_list recv (length xs) s of (ys, s2) \<Rightarrow> (x # ys, s2)) (x # xs)"
    using Cons by (auto intro: reads_wrap [where f = "recv_list recv (length xs)"])
  ultimately have "reads (image x @ concat (map image xs)) (recv_list recv (Suc (length xs))) (x # xs)"
    by (rule reads_seq) simp
  then show ?case by (simp del: recv_list.simps)
qed

text \<open>Any number of messages arrive as sent, in order, and the stream behind them is untouched.\<close>

lemma stream_in_order:
  assumes "list_all wf xs" and "healthy a" and "sk_out a = []" and "healthy b"
    and "send_list send xs a = (r, a')" and "sk_in b = sk_out a' @ rest"
  shows "r = 0 \<and> (\<exists>b'. recv_list recv (length xs) b = (xs, b') \<and> sk_in b' = rest)"
proof -
  have "r = 0 \<and> sk_out a' = concat (map image xs)"
    using send_list_image [OF assms(1)] assms(2,3,5) unfolding sends_def by fastforce
  then show ?thesis
    using recv_list_image [OF assms(1)] assms(4,6) unfolding reads_def by fastforce
qed

text \<open>The messages \<open>xs\<close> are the next to arrive on a healthy connection.\<close>

definition awaits :: "'a list \<Rightarrow> sock \<Rightarrow> bool" where
  "awaits xs s \<longleftrightarrow> healthy s \<and> list_all wf xs \<and> (\<exists>rest. sk_in s = concat (map image xs) @ rest)"

lemma recv_awaits: "awaits (x # xs) s \<Longrightarrow> \<exists>s'. recv s = (Got x, s') \<and> awaits xs s'"
  using recv_image [of x] by (fastforce simp: awaits_def reads_def)

lemma awaits_fresh: "list_all wf xs \<Longrightarrow> awaits xs (fresh_sock (concat (map image xs)))"
  by (simp add: awaits_def) (simp add: fresh_sock_def)

end

interpretation sync_stream: message_stream "\<lambda>m. tcp_send_msg TCP_MSG_SYNC (enc_sync m)"
    "tcp_recv_msg TCP_MSG_SYNC True 8 dec_sync" "\<lambda>m. msg_bytes TCP_MSG_SYNC (enc_sync m)" "\<lambda>_. True"
  by unfold_locales (auto intro!: sends_msg reads_msg_dec)

interpretation tlp_stream: message_stream "\<lambda>m. tcp_send_msg TCP_MSG_TLP (enc_tlp m)"
    "tcp_recv_msg TCP_MSG_TLP False 112 dec_tlp" "\<lambda>m. msg_bytes TCP_MSG_TLP (enc_tlp m)" wf_tlp
  by unfold_locales (auto intro!: sends_msg reads_msg_dec)

interpretation cpl_stream: message_stream "\<lambda>m. tcp_send_msg TCP_MSG_CPL (enc_cpl m)"
    "tcp_recv_msg TCP_MSG_CPL False 84 dec_cpl" "\<lambda>m. msg_bytes TCP_MSG_CPL (enc_cpl m)" wf_cpl
  by unfold_locales (auto intro!: sends_msg reads_msg_dec)

interpretation dma_req_stream: message_stream "\<lambda>m. tcp_send_msg TCP_MSG_DMA_REQ (enc_dma_req m)"
    "tcp_recv_msg TCP_MSG_DMA_REQ False 32 dec_dma_req" "\<lambda>m. msg_bytes TCP_MSG_DMA_REQ (enc_dma_req m)" "\<lambda>_. True"
  by unfold_locales (auto intro!: sends_msg reads_msg_dec)

interpretation dma_cpl_stream: message_stream "\<lambda>m. tcp_send_msg TCP_MSG_DMA_CPL (enc_dma_cpl m)"
    "tcp_recv_msg TCP_MSG_DMA_CPL False 16 dec_dma_cpl" "\<lambda>m. msg_bytes TCP_MSG_DMA_CPL (enc_dma_cpl m)" "\<lambda>_. True"
  by unfold_locales (auto intro!: sends_msg reads_msg_dec)

interpretation msi_stream: message_stream "\<lambda>m. tcp_send_msg TCP_MSG_MSI (enc_msi m)"
    "tcp_recv_msg TCP_MSG_MSI False 16 dec_msi" "\<lambda>m. msg_bytes TCP_MSG_MSI (enc_msi m)" "\<lambda>_. True"
  by unfold_locales (auto intro!: sends_msg reads_msg_dec)

interpretation topology_stream: message_stream "\<lambda>m. tcp_send_msg TCP_MSG_TOPOLOGY_RESP (enc_topology m)"
    "tcp_recv_msg TCP_MSG_TOPOLOGY_RESP True 900 dec_topology"
    "\<lambda>m. msg_bytes TCP_MSG_TOPOLOGY_RESP (enc_topology m)" wf_topology
  by unfold_locales (auto intro!: sends_msg reads_msg_dec)

interpretation dma_data_stream: message_stream
    "\<lambda>d. sock_send_dma_data (dd_tag d) (dd_direction d) (dd_host_addr d) (dd_bytes d)" sock_recv_dma_data
    dma_data_bytes "\<lambda>d. length (dd_bytes d) + 24 < 2 ^ 32"
  by unfold_locales (use sends_dma_data reads_dma_data in simp_all)

subsection \<open>Handshake\<close>

lemma tcp_recv_all_out: "sk_out (snd (tcp_recv_all n s)) = sk_out s"
proof (induction n s rule: tcp_recv_all.induct)
  case (1 n s)
  obtain r s1 where recv: "sk_recv n s = (r, s1)" by fastforce
  have o1: "sk_out s1 = sk_out s"
    using recv by (auto simp: sk_recv_def Let_def split: list.splits io_answer.splits)
  show ?case
    using 1 [OF _ recv [symmetric]] recv o1
    by (subst tcp_recv_all.simps) (cases r; auto split: prod.splits)
qed

lemma tcp_recv_all_polls: "sk_polls (snd (tcp_recv_all n s)) = sk_polls s"
proof (induction n s rule: tcp_recv_all.induct)
  case (1 n s)
  obtain r s1 where recv: "sk_recv n s = (r, s1)" by fastforce
  have o1: "sk_polls s1 = sk_polls s"
    using recv by (auto simp: sk_recv_def Let_def split: list.splits io_answer.splits)
  show ?case
    using 1 [OF _ recv [symmetric]] recv o1
    by (subst tcp_recv_all.simps) (cases r; auto split: prod.splits)
qed

lemma recv_hdr_body_polls:
  "sk_polls (snd (tcp_recv_hdr s)) = sk_polls s" "sk_polls (snd (tcp_recv_body n dec s)) = sk_polls s"
  using tcp_recv_all_polls [of 8 s] tcp_recv_all_polls [of n s]
  by (auto simp: tcp_recv_hdr_def tcp_recv_body_def split: prod.splits option.splits)

lemma recv_handshake_out: "sk_out (snd (recv_handshake s)) = sk_out s"
  using tcp_recv_all_out [of 8 s] tcp_recv_all_out [of 8 "snd (tcp_recv_all 8 s)"]
    tcp_recv_all_out [of 16 "snd (tcp_recv_all 8 s)"]
  by (auto simp: recv_handshake_def tcp_recv_hdr_def split: prod.splits option.splits)

lemma reads_handshake: "reads (msg_bytes TCP_MSG_HANDSHAKE (enc_handshake h)) recv_handshake (Some h)"
  unfolding msg_bytes_def
  by (rule reads_seq [OF reads_hdr reads_wrap [OF reads_all [of _ 16]]])
    (simp_all add: recv_handshake_def)

lemma on_ctrl_sends:
  assumes "sends m f" and "healthy (tp_ctrl p)"
  shows "\<exists>s. on_ctrl f p = (0, p\<lparr>tp_ctrl := s\<rparr>) \<and> sk_out s = sk_out (tp_ctrl p) @ m \<and> sk_in s = sk_in (tp_ctrl p) \<and> healthy s"
  using assms unfolding sends_def on_ctrl_def by fastforce

lemma on_ctrl_reads:
  assumes "reads m f x" and "healthy (tp_ctrl p)" and "sk_in (tp_ctrl p) = m @ rest"
  shows "\<exists>s. on_ctrl f p = (x, p\<lparr>tp_ctrl := s\<rparr>) \<and> sk_in s = rest \<and> sk_out s = sk_out (tp_ctrl p) \<and> healthy s"
  using assms unfolding reads_def on_ctrl_def by fastforce

text \<open>The server offers before it listens, so its output starts with the offer whatever it then reads.\<close>

lemma server_out:
  assumes "healthy (tp_ctrl p)" and "tcp_do_handshake_server p = (r, p')"
  shows "sk_out (tp_ctrl p') = sk_out (tp_ctrl p) @ msg_bytes TCP_MSG_HANDSHAKE (enc_handshake (server_offer p))"
proof -
  from on_ctrl_sends [OF sends_msg assms(1)] obtain s
    where s: "on_ctrl (tcp_send_msg TCP_MSG_HANDSHAKE (enc_handshake (server_offer p))) p = (0, p\<lparr>tp_ctrl := s\<rparr>)"
      "sk_out s = sk_out (tp_ctrl p) @ msg_bytes TCP_MSG_HANDSHAKE (enc_handshake (server_offer p))" by blast
  obtain ack s2 where rec: "recv_handshake s = (ack, s2)" by fastforce
  have "sk_out s2 = sk_out s" using recv_handshake_out [of s] rec by simp
  then show ?thesis
    using assms(2) s rec
    by (auto simp: tcp_do_handshake_server_def on_ctrl_def server_accept_ack_def close_aux_def Let_def
        split: option.splits if_splits)
qed

lemma handshake_agrees:
  assumes h: "healthy (tp_ctrl srv)" "healthy (tp_ctrl cli)"
    and o: "sk_out (tp_ctrl srv) = []" "sk_out (tp_ctrl cli) = []"
    and runs: "tcp_do_handshake_server srv = (rs, srv')" "tcp_do_handshake_client cli = (rcl, cli')"
    and wires: "sk_in (tp_ctrl cli) = sk_out (tp_ctrl srv')" "sk_in (tp_ctrl srv) = sk_out (tp_ctrl cli')"
  shows "rs = 0 \<and> rcl = 0 \<and> tp_negotiated_version srv' = tp_negotiated_version cli'
    \<and> (tp_aux srv' \<noteq> None \<longleftrightarrow> tp_aux srv \<noteq> None \<and> tp_aux cli \<noteq> None)
    \<and> (tp_aux cli' \<noteq> None \<longleftrightarrow> tp_aux srv \<noteq> None \<and> tp_aux cli \<noteq> None)
    \<and> tp_peer_is_ready srv' \<and> tp_peer_is_ready cli'"
proof -
  let ?offer = "server_offer srv" and ?ack = "client_ack (server_offer srv) cli"
  have magic: "hs_magic ?offer = TCP_HANDSHAKE_MAGIC" "hs_magic ?ack = TCP_HANDSHAKE_MAGIC"
    "hs_version ?offer = 2" "hs_version ?ack = 2"
    by (simp_all add: server_offer_def client_ack_def Let_def code_consts)
  have count: "hs_conn_count ?offer < 3 \<longleftrightarrow> tp_aux srv = None"
      "hs_conn_count ?ack < 3 \<longleftrightarrow> tp_aux srv = None \<or> tp_aux cli = None"
    by (auto simp: server_offer_def client_ack_def Let_def code_consts)
  have "sk_in (tp_ctrl cli) = msg_bytes TCP_MSG_HANDSHAKE (enc_handshake ?offer) @ []"
    using server_out [OF h(1) runs(1)] o wires by simp
  from on_ctrl_reads [OF reads_handshake h(2) this] obtain c1
    where c1: "on_ctrl recv_handshake cli = (Some ?offer, cli\<lparr>tp_ctrl := c1\<rparr>)" "sk_out c1 = []" "healthy c1"
    using o(2) by auto
  let ?cli1 = "cli\<lparr>tp_ctrl := c1\<rparr>"
  have ack1: "client_ack ?offer ?cli1 = ?ack" by (simp add: client_ack_def)
  let ?cli2 = "?cli1\<lparr>tp_negotiated_version := hs_version ?ack\<rparr>"
  from on_ctrl_sends [OF sends_msg, of ?cli2 TCP_MSG_HANDSHAKE "enc_handshake ?ack"] obtain c2
    where c2: "on_ctrl (tcp_send_msg TCP_MSG_HANDSHAKE (enc_handshake ?ack)) ?cli2 = (0, ?cli2\<lparr>tp_ctrl := c2\<rparr>)"
      "sk_out c2 = msg_bytes TCP_MSG_HANDSHAKE (enc_handshake ?ack)"
    using c1 by auto
  have cli': "rcl = 0" "tp_negotiated_version cli' = 2" "tp_peer_is_ready cli'" "tp_ctrl cli' = c2"
      "tp_aux cli' = (if tp_aux srv = None then None else tp_aux cli)"
    using runs(2) c1(1) c2(1) magic count ack1
    by (auto simp: tcp_do_handshake_client_def client_accept_def Let_def code_consts)
  from on_ctrl_sends [OF sends_msg h(1)] obtain s1
    where s1: "on_ctrl (tcp_send_msg TCP_MSG_HANDSHAKE (enc_handshake ?offer)) srv = (0, srv\<lparr>tp_ctrl := s1\<rparr>)"
      "sk_in s1 = sk_in (tp_ctrl srv)" "healthy s1" by blast
  have "sk_in (tp_ctrl (srv\<lparr>tp_ctrl := s1\<rparr>)) = msg_bytes TCP_MSG_HANDSHAKE (enc_handshake ?ack) @ []"
    using s1(2) wires(2) cli'(4) c2(2) by simp
  from on_ctrl_reads [OF reads_handshake _ this] obtain s2
    where s2: "on_ctrl recv_handshake (srv\<lparr>tp_ctrl := s1\<rparr>) = (Some ?ack, srv\<lparr>tp_ctrl := s2\<rparr>)"
    using s1(3) by auto
  have "rs = 0" "tp_negotiated_version srv' = 2" "tp_peer_is_ready srv'"
      "tp_aux srv' = (if tp_aux srv = None \<or> tp_aux cli = None then None else tp_aux srv)"
    using runs(1) s1(1) s2 magic count
    by (auto simp: tcp_do_handshake_server_def server_accept_ack_def close_aux_def Let_def code_consts)
  then show ?thesis using cli' by auto
qed

subsection \<open>Endpoints\<close>

lemma on_data_send_list: "send_list (\<lambda>x. on_data (f x)) xs p = on_data (send_list f xs) p"
  by (induction xs arbitrary: p) (auto simp: on_data_def split: prod.splits)

lemma on_data_recv_list: "recv_list (on_data f) n p = on_data (recv_list f n) p"
  by (induction n arbitrary: p) (auto simp: on_data_def split: prod.splits recvd.splits)

lemma aux_or_data_upd: "aux_or_data (if tp_aux p = None then p\<lparr>tp_data := s\<rparr> else p\<lparr>tp_aux := Some s\<rparr>) = s"
  by (simp add: aux_or_data_def)

text \<open>A non-blocking receive that reports no data has consumed nothing; one that delivers has consumed a
  whole message of its type.\<close>

lemma peek_keeps: "tcp_peek_aux_msg_type s = (t, s1) \<Longrightarrow> sk_in s1 = sk_in s \<and> (t \<noteq> None \<longrightarrow>
    8 \<le> length (sk_in s) \<and> t = Some (h_msg_type (dec_hdr (take 8 (sk_in s)))))"
  by (auto simp: tcp_peek_aux_msg_type_def sk_poll_def sk_peek_def Let_def
      split: prod.splits poll_answer.splits list.splits if_splits)

lemma recv_nb_keeps:
  "tcp_recv_nb ty n dec s = (Nothing, s') \<Longrightarrow> sk_in s' = sk_in s"
  using peek_keeps [of s]
  by (auto simp: tcp_recv_nb_def tcp_recv_body_def split: prod.splits option.splits if_splits)

lemma recv_nb_got:
  assumes "tcp_recv_nb ty n dec s = (Got x, s')"
  shows "h_msg_type (dec_hdr (take 8 (sk_in s))) = msg_code ty \<and> x = dec (take n (drop 8 (sk_in s)))
    \<and> sk_in s' = drop (8 + n) (sk_in s) \<and> 8 + n \<le> length (sk_in s)"
proof -
  obtain t s1 where peek: "tcp_peek_aux_msg_type s = (Some t, s1)" "t = msg_code ty"
    using assms by (auto simp: tcp_recv_nb_def split: prod.splits option.splits if_splits)
  obtain hd s2 where hdr: "tcp_recv_hdr s1 = (Some hd, s2)" and body: "tcp_recv_body n dec s2 = (Got x, s')"
    using assms peek by (auto simp: tcp_recv_nb_def split: prod.splits option.splits)
  obtain hb where hb: "tcp_recv_all 8 s1 = (Some hb, s2)" using hdr by (auto simp: tcp_recv_hdr_def split: prod.splits)
  obtain bs where bs: "tcp_recv_all n s2 = (Some bs, s')" "x = dec bs"
    using body by (auto simp: tcp_recv_body_def split: prod.splits option.splits)
  show ?thesis
    using peek_keeps [OF peek(1)] peek(2) tcp_recv_all_sound [OF hb] tcp_recv_all_sound [OF bs(1)] bs(2)
    by (auto simp: add.commute)
qed

subsection \<open>Properties\<close>

text \<open>C15: TLPs sent through the TCP transport arrive at the peer in order and unchanged, for every way the
  kernels of both hosts cut and interrupt the transfers; the bytes behind them stay in the stream.\<close>

theorem tcp_tlps_in_order:
  assumes "list_all wf_tlp xs" and "healthy (tp_data a)" and "sk_out (tp_data a) = []" and "healthy (tp_data b)"
    and "send_list tcp_send_tlp xs a = (r, a')" and "sk_in (tp_data b) = sk_out (tp_data a') @ rest"
  shows "r = 0 \<and> (\<exists>b'. recv_list tcp_recv_tlp (length xs) b = (xs, b') \<and> sk_in (tp_data b') = rest)"
proof -
  obtain s where s: "send_list (\<lambda>t. tcp_send_msg TCP_MSG_TLP (enc_tlp t)) xs (tp_data a) = (r, s)" "tp_data a' = s"
    using assms(5) unfolding tcp_send_tlp_def on_data_send_list by (auto simp: on_data_def split: prod.splits)
  from tlp_stream.stream_in_order [OF assms(1-4) s(1)] assms(6) s(2) obtain b1
    where "r = 0" "recv_list (tcp_recv_msg TCP_MSG_TLP False 112 dec_tlp) (length xs) (tp_data b) = (xs, b1)" "sk_in b1 = rest"
    by blast
  then show ?thesis unfolding tcp_recv_tlp_def on_data_recv_list by (simp add: on_data_def)
qed

definition tcp_example :: "bytes \<Rightarrow> transport_tcp_priv" where
  "tcp_example arriving = (priv_init False (fresh_sock []) ((fresh_sock arriving)\<lparr>sk_rx := [Xfer 3, Intr, Xfer 1]\<rparr>) None)"

theorem tcp_tlps_in_order_witness:
  "\<exists>r a' b'. send_list tcp_send_tlp [tlp_zero\<lparr>t_tag := 7\<rparr>] (tcp_example []) = (r, a') \<and> r = 0
    \<and> recv_list tcp_recv_tlp 1 (tcp_example (sk_out (tp_data a'))) = ([tlp_zero\<lparr>t_tag := 7\<rparr>], b')"
proof -
  obtain r a' where s: "send_list tcp_send_tlp [tlp_zero\<lparr>t_tag := 7\<rparr>] (tcp_example []) = (r, a')" by fastforce
  have "list_all wf_tlp [tlp_zero\<lparr>t_tag := 7\<rparr>]" by (simp add: wf_tlp_def tlp_zero_def code_consts)
  moreover have "healthy (tp_data (tcp_example bs))" "sk_out (tp_data (tcp_example bs)) = []"
      "sk_in (tp_data (tcp_example bs)) = bs" for bs
    by (simp_all add: tcp_example_def priv_init_def fresh_sock_def healthy_def)
  ultimately show ?thesis
    using tcp_tlps_in_order [OF _ _ _ _ s, of "tcp_example (sk_out (tp_data a'))" "[]"] s by auto
qed

text \<open>C28: DMA data of any length below \<open>2 ^ 32 - 24\<close> crosses the auxiliary connection with its tag,
  direction and host address.\<close>

theorem tcp_dma_data_roundtrip:
  assumes "length data + 24 < 2 ^ 32" and "healthy (aux_or_data a)" and "healthy (aux_or_data b)"
    and "sk_out (aux_or_data a) = []" and "tcp_send_dma_data tag direction host_addr data a = (r, a')"
    and "sk_in (aux_or_data b) = sk_out (aux_or_data a') @ rest"
  shows "r = 0 \<and> (\<exists>b'. tcp_recv_dma_data b =
      (Got \<lparr>dd_tag = tag, dd_direction = direction, dd_host_addr = host_addr, dd_bytes = data\<rparr>, b')
    \<and> sk_in (aux_or_data b') = rest)"
proof -
  let ?d = "\<lparr>dd_tag = tag, dd_direction = direction, dd_host_addr = host_addr, dd_bytes = data\<rparr>"
  obtain s where s: "sock_send_dma_data tag direction host_addr data (aux_or_data a) = (r, s)" "aux_or_data a' = s"
    using assms(5) aux_or_data_upd [of a] by (auto simp: tcp_send_dma_data_def on_aux_def split: prod.splits)
  have "r = 0" "sk_out s = dma_data_bytes ?d"
    using sends_dma_data [of ?d] s(1) assms(2,4) unfolding sends_def by fastforce+
  moreover from this obtain s' where "sock_recv_dma_data (aux_or_data b) = (Got ?d, s')" "sk_in s' = rest"
    using reads_dma_data [of ?d] assms(1,3,6) s(2) unfolding reads_def by fastforce
  ultimately show ?thesis using aux_or_data_upd [of b] by (simp add: tcp_recv_dma_data_def on_aux_def)
qed

theorem tcp_dma_data_roundtrip_witness:
  "\<exists>r a' b'. tcp_send_dma_data 5 0 0x1000 [1, 2, 3] (tcp_example []) = (r, a') \<and> tcp_recv_dma_data (tcp_example (sk_out (aux_or_data a')))
    = (Got \<lparr>dd_tag = 5, dd_direction = 0, dd_host_addr = 0x1000, dd_bytes = [1, 2, 3]\<rparr>, b')"
proof -
  obtain r a' where s: "tcp_send_dma_data 5 0 0x1000 [1, 2, 3] (tcp_example []) = (r, a')" by fastforce
  have "healthy (aux_or_data (tcp_example bs))" "sk_out (aux_or_data (tcp_example bs)) = []"
      "sk_in (aux_or_data (tcp_example bs)) = bs" for bs
    by (simp_all add: tcp_example_def priv_init_def fresh_sock_def healthy_def aux_or_data_def)
  then show ?thesis
    using tcp_dma_data_roundtrip [OF _ _ _ _ s, of "tcp_example (sk_out (aux_or_data a'))" "[]"] s by auto
qed

text \<open>C16: Server and client leave the handshake in agreement: the same protocol version, and both keep the
  auxiliary connection exactly when both had one, whatever the accept race decided.\<close>

theorem tcp_handshake_agrees:
  assumes "healthy (tp_ctrl srv)" "healthy (tp_ctrl cli)"
    and "sk_out (tp_ctrl srv) = []" "sk_out (tp_ctrl cli) = []"
    and "tcp_do_handshake_server srv = (rs, srv')" "tcp_do_handshake_client cli = (rcl, cli')"
    and "sk_in (tp_ctrl cli) = sk_out (tp_ctrl srv')" "sk_in (tp_ctrl srv) = sk_out (tp_ctrl cli')"
  shows "rs = 0 \<and> rcl = 0 \<and> tp_negotiated_version srv' = tp_negotiated_version cli'
    \<and> (tp_aux srv' \<noteq> None \<longleftrightarrow> tp_aux srv \<noteq> None \<and> tp_aux cli \<noteq> None)
    \<and> (tp_aux cli' \<noteq> None \<longleftrightarrow> tp_aux srv \<noteq> None \<and> tp_aux cli \<noteq> None)"
  using handshake_agrees [OF assms] by blast

definition hs_bytes :: "u32 \<Rightarrow> bytes" where
  "hs_bytes count = msg_bytes TCP_MSG_HANDSHAKE
     (enc_handshake \<lparr>hs_magic = TCP_HANDSHAKE_MAGIC, hs_version = 2, hs_conn_count = count, hs_pad = 0\<rparr>)"

text \<open>The server lost the race for the auxiliary connection; the client has one.\<close>

definition hs_server :: transport_tcp_priv where
  "hs_server = priv_init True (fresh_sock (hs_bytes 2)) (fresh_sock []) None"

definition hs_client :: transport_tcp_priv where
  "hs_client = priv_init False (fresh_sock (hs_bytes 2)) (fresh_sock []) (Some (fresh_sock []))"

lemma hs_server_out:
  assumes "tcp_do_handshake_server hs_server = (r, p)"
  shows "sk_out (tp_ctrl p) = hs_bytes 2"
  using server_out [OF _ assms]
  by (simp add: hs_server_def priv_init_def fresh_sock_def healthy_def server_offer_def hs_bytes_def code_consts)

lemma hs_client_out:
  assumes "tcp_do_handshake_client hs_client = (r, p)"
  shows "sk_out (tp_ctrl p) = hs_bytes 2"
proof -
  let ?hs = "\<lparr>hs_magic = TCP_HANDSHAKE_MAGIC, hs_version = 2, hs_conn_count = 2, hs_pad = 0\<rparr>"
  have ctrl: "healthy (tp_ctrl hs_client)" "sk_out (tp_ctrl hs_client) = []"
    "sk_in (tp_ctrl hs_client) = msg_bytes TCP_MSG_HANDSHAKE (enc_handshake ?hs) @ []"
    by (simp_all add: hs_client_def priv_init_def fresh_sock_def healthy_def hs_bytes_def)
  from on_ctrl_reads [OF reads_handshake ctrl(1,3)] obtain c1 where
    c1: "on_ctrl recv_handshake hs_client = (Some ?hs, hs_client\<lparr>tp_ctrl := c1\<rparr>)" "sk_out c1 = []" "healthy c1"
    using ctrl(2) by auto
  have ack: "client_ack ?hs (hs_client\<lparr>tp_ctrl := c1\<rparr>) = ?hs" by (simp add: client_ack_def Let_def code_consts)
  from on_ctrl_sends [OF sends_msg, of "hs_client\<lparr>tp_ctrl := c1, tp_negotiated_version := 2\<rparr>" TCP_MSG_HANDSHAKE "enc_handshake ?hs"]
  show ?thesis using assms c1 ack
    by (auto simp: tcp_do_handshake_client_def client_accept_def Let_def hs_bytes_def)
qed

theorem tcp_handshake_agrees_witness:
  "\<exists>srv' cli'. tcp_do_handshake_server hs_server = (0, srv') \<and> tcp_do_handshake_client hs_client = (0, cli')
    \<and> tp_aux srv' = None \<and> tp_aux cli' = None \<and> tp_negotiated_version srv' = tp_negotiated_version cli'"
proof -
  obtain rs srv' where s: "tcp_do_handshake_server hs_server = (rs, srv')" by fastforce
  obtain rcl cli' where c: "tcp_do_handshake_client hs_client = (rcl, cli')" by fastforce
  have "healthy (tp_ctrl hs_server)" "healthy (tp_ctrl hs_client)" "sk_out (tp_ctrl hs_server) = []"
    "sk_out (tp_ctrl hs_client) = []" "sk_in (tp_ctrl hs_client) = hs_bytes 2" "sk_in (tp_ctrl hs_server) = hs_bytes 2"
    "tp_aux hs_server = None"
    by (simp_all add: hs_server_def hs_client_def priv_init_def fresh_sock_def healthy_def)
  then show ?thesis
    using tcp_handshake_agrees [OF _ _ _ _ s c] hs_server_out [OF s] hs_client_out [OF c] s c by simp
qed

text \<open>The poller's non-blocking receive of DMA requests leaves every other message to its own receiver:
  without a request it consumes no byte, and it consumes exactly one request otherwise.\<close>

lemma tcp_dma_req_nb_exact:
  assumes "tcp_recv_dma_req_nb p = (res, p')" and "res \<noteq> Failed"
  shows "(case res of
      Nothing \<Rightarrow> sk_in (aux_or_data p') = sk_in (aux_or_data p)
    | Got req \<Rightarrow> h_msg_type (dec_hdr (take 8 (sk_in (aux_or_data p)))) = msg_code TCP_MSG_DMA_REQ
        \<and> req = dec_dma_req (take 32 (drop 8 (sk_in (aux_or_data p))))
        \<and> sk_in (aux_or_data p') = drop 40 (sk_in (aux_or_data p))
    | Failed \<Rightarrow> False)"
proof -
  obtain s where s: "tcp_recv_nb TCP_MSG_DMA_REQ 32 dec_dma_req (aux_or_data p) = (res, s)" "aux_or_data p' = s"
    using assms(1) aux_or_data_upd [of p] by (auto simp: tcp_recv_dma_req_nb_def on_aux_def split: prod.splits)
  show ?thesis
    using recv_nb_keeps [of TCP_MSG_DMA_REQ 32 dec_dma_req "aux_or_data p" s]
      recv_nb_got [of TCP_MSG_DMA_REQ 32 dec_dma_req "aux_or_data p" _ s] s assms(2)
    by (cases res) auto
qed

definition msi_example :: msi_event where
  "msi_example = dec_msi [0, 1, 3, 0, 0, 0, 0, 0, 0, 0, 0, 0, 0, 0, 0, 0]"

lemma tcp_dma_req_nb_exact_witness:
  "\<exists>res p'. tcp_recv_dma_req_nb (tcp_example (msg_bytes TCP_MSG_MSI (enc_msi msi_example))) = (res, p')
    \<and> sk_in (aux_or_data p') = msg_bytes TCP_MSG_MSI (enc_msi msi_example)"
proof -
  let ?p = "tcp_example (msg_bytes TCP_MSG_MSI (enc_msi msi_example))"
  obtain res p' where run: "tcp_recv_dma_req_nb ?p = (res, p')" by fastforce
  have aux: "aux_or_data ?p = (fresh_sock (msg_bytes TCP_MSG_MSI (enc_msi msi_example)))\<lparr>sk_rx := [Xfer 3, Intr, Xfer 1]\<rparr>"
    by (simp add: tcp_example_def priv_init_def aux_or_data_def)
  have "tcp_peek_aux_msg_type (aux_or_data ?p) = (Some (msg_code TCP_MSG_MSI), aux_or_data ?p)"
    unfolding aux by (simp add: tcp_peek_aux_msg_type_def sk_poll_def fresh_sock_def sk_peek_def msg_bytes_def)
      (simp add: enc_hdr_def le_bytes.simps eval_nat_numeral)
  then have res: "res = Nothing"
    using run by (auto simp: tcp_recv_dma_req_nb_def on_aux_def tcp_recv_nb_def split: prod.splits)
  from tcp_dma_req_nb_exact [OF run] run aux show ?thesis by (simp add: res fresh_sock_def)
qed

end
