(* ===== verification/Trace_Log.thy ===== *)
theory Trace_Log
  imports Cosim_Types
begin

section \<open>Transaction trace: trace\_log.c\<close>

text \<open>
  The trace file as the characters written to it.  A CSV trace is a header and one row per event; a
  JSON trace is an array with one object per event.  The \<open>printf\<close> conversions used by the code are
  the functions \<open>pr_dec\<close> (%u, %lu), \<open>pr_hex\<close> (%lX) and \<open>pr_hex0\<close> (%04X, %02X).
\<close>

definition newline :: string where "newline = [CHR 0x0A]"

definition dquote :: string where "dquote = [CHR 0x22]"

definition hex_digit :: "nat \<Rightarrow> char" where
  "hex_digit d = (if d < 10 then char_of (48 + d) else char_of (55 + d))"

fun pr_digits :: "nat \<Rightarrow> nat \<Rightarrow> string" where
  "pr_digits base n = (if base < 2 \<or> n < base then [hex_digit n] else pr_digits base (n div base) @ [hex_digit (n mod base)])"

declare pr_digits.simps [simp del]

definition pr_dec :: "nat \<Rightarrow> string" where "pr_dec n = pr_digits 10 n"

definition pr_hex :: "nat \<Rightarrow> string" where "pr_hex n = pr_digits 16 n"

definition pr_hex0 :: "nat \<Rightarrow> nat \<Rightarrow> string" where
  "pr_hex0 w n = replicate (w - length (pr_hex n)) (CHR ''0'') @ pr_hex n"

datatype trace_fmt = TRACE_FMT_CSV | TRACE_FMT_JSON

record trace_log =
  tl_open :: bool
  tl_fmt :: trace_fmt
  tl_first_record :: bool
  tl_out :: string

definition tlp_type_str :: "u8 \<Rightarrow> string" where
  "tlp_type_str t =
     (if t = tlp_code TLP_MWR then ''MWr'' else if t = tlp_code TLP_MRD then ''MRd''
      else if t = tlp_code TLP_CFGWR0 then ''CfgWr'' else if t = tlp_code TLP_CFGRD0 then ''CfgRd''
      else if t = tlp_code TLP_CPL then ''Cpl'' else ''Unknown'')"

definition write_hex :: "bytes \<Rightarrow> string" where
  "write_hex data = concat (map (\<lambda>b. pr_hex0 2 (unat b)) data)"

text \<open>A quoted JSON member name or string.\<close>

definition quoted :: "string \<Rightarrow> string" where "quoted s = dquote @ s @ dquote"

definition csv_header :: string where
  "csv_header = ''timestamp,kind,type,tag,addr,len,requester_id,target_bdf,data'' @ newline"

definition trace_log_open :: "bool \<Rightarrow> trace_fmt \<Rightarrow> rc \<times> trace_log" where
  "trace_log_open fopen_ok fmt =
     (if \<not> fopen_ok then (-1, \<lparr>tl_open = False, tl_fmt = fmt, tl_first_record = True, tl_out = []\<rparr>)
      else (0, \<lparr>tl_open = True, tl_fmt = fmt, tl_first_record = True,
                tl_out = (case fmt of TRACE_FMT_CSV \<Rightarrow> csv_header | TRACE_FMT_JSON \<Rightarrow> ''['' @ newline)\<rparr>))"

definition json_sep :: "trace_log \<Rightarrow> trace_log" where
  "json_sep log = (if tl_first_record log then log else log\<lparr>tl_out := tl_out log @ '','' @ newline\<rparr>)\<lparr>tl_first_record := False\<rparr>"

definition tlp_row :: "tlp_entry \<Rightarrow> string" where
  "tlp_row t = pr_dec (unat (t_timestamp t)) @ '',tlp,'' @ tlp_type_str (t_type t) @ '','' @ pr_dec (unat (t_tag t))
     @ '',0x'' @ pr_hex (unat (t_addr t)) @ '','' @ pr_dec (unat (t_len t)) @ '',0x'' @ pr_hex0 4 (unat (t_requester_id t))
     @ '',0x'' @ pr_hex0 4 (unat (t_target_bdf t)) @ '',''
     @ write_hex (take (if t_len t > 64 then 64 else unat (t_len t)) (t_data t)) @ newline"

definition tlp_object :: "tlp_entry \<Rightarrow> string" where
  "tlp_object t = ''  {'' @ quoted ''timestamp'' @ '':'' @ pr_dec (unat (t_timestamp t)) @ '','' @ quoted ''kind'' @ '':'' @ quoted ''tlp''
     @ '','' @ quoted ''type'' @ '':'' @ quoted (tlp_type_str (t_type t)) @ '','' @ quoted ''tag'' @ '':'' @ pr_dec (unat (t_tag t))
     @ '','' @ quoted ''addr'' @ '':'' @ quoted (''0x'' @ pr_hex (unat (t_addr t))) @ '','' @ quoted ''len'' @ '':'' @ pr_dec (unat (t_len t))
     @ '','' @ quoted ''requester_id'' @ '':'' @ quoted (''0x'' @ pr_hex0 4 (unat (t_requester_id t)))
     @ '','' @ quoted ''target_bdf'' @ '':'' @ quoted (''0x'' @ pr_hex0 4 (unat (t_target_bdf t)))
     @ '','' @ quoted ''data'' @ '':'' @ quoted (write_hex (take (if t_len t > 64 then 64 else unat (t_len t)) (t_data t))) @ ''}''"

definition cpl_row :: "cpl_entry \<Rightarrow> string" where
  "cpl_row c = pr_dec (unat (c_timestamp c)) @ '',cpl,'' @ tlp_type_str (c_type c) @ '','' @ pr_dec (unat (c_tag c))
     @ '',,'' @ pr_dec (unat (c_len c)) @ '',0x'' @ pr_hex0 4 (unat (c_requester_id c))
     @ '',0x'' @ pr_hex0 4 (unat (c_completer_id c)) @ '',''
     @ write_hex (take (if c_len c > 64 then 64 else unat (c_len c)) (c_data c)) @ newline"

definition cpl_object :: "cpl_entry \<Rightarrow> string" where
  "cpl_object c = ''  {'' @ quoted ''timestamp'' @ '':'' @ pr_dec (unat (c_timestamp c)) @ '','' @ quoted ''kind'' @ '':'' @ quoted ''cpl''
     @ '','' @ quoted ''type'' @ '':'' @ quoted (tlp_type_str (c_type c)) @ '','' @ quoted ''tag'' @ '':'' @ pr_dec (unat (c_tag c))
     @ '','' @ quoted ''len'' @ '':'' @ pr_dec (unat (c_len c))
     @ '','' @ quoted ''requester_id'' @ '':'' @ quoted (''0x'' @ pr_hex0 4 (unat (c_requester_id c)))
     @ '','' @ quoted ''completer_id'' @ '':'' @ quoted (''0x'' @ pr_hex0 4 (unat (c_completer_id c)))
     @ '','' @ quoted ''data'' @ '':'' @ quoted (write_hex (take (if c_len c > 64 then 64 else unat (c_len c)) (c_data c))) @ ''}''"

definition dma_dir_str :: "dma_req \<Rightarrow> string" where
  "dma_dir_str r = (if r_direction r = DMA_DIR_WRITE then ''write'' else ''read'')"

definition dma_row :: "dma_req \<Rightarrow> string" where
  "dma_row r = pr_dec (unat (r_timestamp r)) @ '',dma,'' @ dma_dir_str r @ '','' @ pr_dec (unat (r_tag r))
     @ '',0x'' @ pr_hex (unat (r_host_addr r)) @ '','' @ pr_dec (unat (r_len r)) @ '',0x'' @ pr_hex0 4 (unat (r_requester_id r)) @ newline"

definition dma_object :: "dma_req \<Rightarrow> string" where
  "dma_object r = ''  {'' @ quoted ''timestamp'' @ '':'' @ pr_dec (unat (r_timestamp r)) @ '','' @ quoted ''kind'' @ '':'' @ quoted ''dma''
     @ '','' @ quoted ''dir'' @ '':'' @ quoted (dma_dir_str r) @ '','' @ quoted ''tag'' @ '':'' @ pr_dec (unat (r_tag r))
     @ '','' @ quoted ''host_addr'' @ '':'' @ quoted (''0x'' @ pr_hex (unat (r_host_addr r))) @ '','' @ quoted ''len'' @ '':'' @ pr_dec (unat (r_len r))
     @ '','' @ quoted ''requester_id'' @ '':'' @ quoted (''0x'' @ pr_hex0 4 (unat (r_requester_id r))) @ ''}''"

definition msi_row :: "msi_event \<Rightarrow> string" where
  "msi_row m = pr_dec (unat (m_timestamp m)) @ '',msi,,,,,0x'' @ pr_hex0 4 (unat (m_requester_id m)) @ '',''
     @ pr_dec (unat (m_vector m)) @ newline"

definition msi_object :: "msi_event \<Rightarrow> string" where
  "msi_object m = ''  {'' @ quoted ''timestamp'' @ '':'' @ pr_dec (unat (m_timestamp m)) @ '','' @ quoted ''kind'' @ '':'' @ quoted ''msi''
     @ '','' @ quoted ''requester_id'' @ '':'' @ quoted (''0x'' @ pr_hex0 4 (unat (m_requester_id m)))
     @ '','' @ quoted ''vector'' @ '':'' @ pr_dec (unat (m_vector m)) @ ''}''"

definition trace_append :: "string \<Rightarrow> string \<Rightarrow> trace_log \<Rightarrow> trace_log" where
  "trace_append row object log = (case tl_fmt log of
       TRACE_FMT_CSV \<Rightarrow> log\<lparr>tl_out := tl_out log @ row\<rparr>
     | TRACE_FMT_JSON \<Rightarrow> (let log1 = json_sep log in log1\<lparr>tl_out := tl_out log1 @ object\<rparr>))"

definition trace_log_tlp :: "tlp_entry \<Rightarrow> trace_log \<Rightarrow> trace_log" where
  "trace_log_tlp t = trace_append (tlp_row t) (tlp_object t)"

definition trace_log_cpl :: "cpl_entry \<Rightarrow> trace_log \<Rightarrow> trace_log" where
  "trace_log_cpl c = trace_append (cpl_row c) (cpl_object c)"

definition trace_log_dma :: "dma_req \<Rightarrow> trace_log \<Rightarrow> trace_log" where
  "trace_log_dma r = trace_append (dma_row r) (dma_object r)"

definition trace_log_msi :: "msi_event \<Rightarrow> trace_log \<Rightarrow> trace_log" where
  "trace_log_msi m = trace_append (msi_row m) (msi_object m)"

definition trace_log_close :: "trace_log \<Rightarrow> trace_log" where
  "trace_log_close log = (if \<not> tl_open log then log
     else (case tl_fmt log of TRACE_FMT_JSON \<Rightarrow> log\<lparr>tl_out := tl_out log @ newline @ '']'' @ newline\<rparr> | TRACE_FMT_CSV \<Rightarrow> log)\<lparr>tl_open := False\<rparr>)"

subsection \<open>Fields of a CSV row\<close>

definition commas :: "string \<Rightarrow> nat" where
  "commas s = length (filter (\<lambda>c. c = CHR '','') s)"

lemma commas_append [simp]: "commas (a @ b) = commas a + commas b"
  by (simp add: commas_def)

lemma commas_Cons [simp]: "commas (c # s) = (if c = CHR '','' then 1 else 0) + commas s"
  by (simp add: commas_def)

lemma commas_Nil [simp]: "commas [] = 0"
  by (simp add: commas_def)

lemma char_of_comma: "n < 256 \<Longrightarrow> char_of n = CHR '','' \<longleftrightarrow> n = (44 :: nat)"
proof -
  assume n: "n < 256"
  have "char_of n = CHR '','' \<longleftrightarrow> of_char (char_of n) = (of_char (CHR '','') :: nat)" by (simp only: of_char_eq_iff)
  also have "\<dots> \<longleftrightarrow> n = 44" using n by (simp add: of_char_of)
  finally show ?thesis .
qed

lemma hex_digit_no_comma: "d < 16 \<Longrightarrow> hex_digit d \<noteq> CHR '',''"
  by (simp add: hex_digit_def char_of_comma)

lemma digits_no_comma: "2 \<le> base \<Longrightarrow> base \<le> 16 \<Longrightarrow> commas (pr_digits base n) = 0"
proof (induction base n rule: pr_digits.induct)
  case (1 base n)
  then have "hex_digit (n mod base) \<noteq> CHR '',''" "n < base \<Longrightarrow> hex_digit n \<noteq> CHR '',''"
    by (auto intro!: hex_digit_no_comma simp: order_less_le_trans [OF mod_less_divisor])
  then show ?case using 1 by (subst pr_digits.simps) auto
qed

lemma replicate_0_no_comma: "commas (replicate k (CHR ''0'')) = 0"
  by (induction k) simp_all

lemma number_no_comma [simp]: "commas (pr_dec n) = 0" "commas (pr_hex n) = 0" "commas (pr_hex0 w n) = 0"
  by (simp_all add: pr_dec_def pr_hex_def pr_hex0_def digits_no_comma replicate_0_no_comma)

lemma write_hex_no_comma [simp]: "commas (write_hex bs) = 0"
  by (induction bs) (simp_all add: write_hex_def)

lemma text_no_comma [simp]: "commas (tlp_type_str t) = 0" "commas (dma_dir_str r) = 0" "commas newline = 0"
  by (simp_all add: tlp_type_str_def dma_dir_str_def newline_def)

lemma row_commas:
  "commas csv_header = 8" "commas (tlp_row t) = 8" "commas (cpl_row c) = 8" "commas (dma_row r) = 6"
  "commas (msi_row m) = 7"
  by (simp_all add: csv_header_def tlp_row_def cpl_row_def dma_row_def msi_row_def)

subsection \<open>The JSON array\<close>

text \<open>Events, and their rows and objects.\<close>

datatype trace_event = Ev_Tlp tlp_entry | Ev_Cpl cpl_entry | Ev_Dma dma_req | Ev_Msi msi_event

primrec log_event :: "trace_event \<Rightarrow> trace_log \<Rightarrow> trace_log" where
  "log_event (Ev_Tlp t) = trace_log_tlp t"
| "log_event (Ev_Cpl c) = trace_log_cpl c"
| "log_event (Ev_Dma r) = trace_log_dma r"
| "log_event (Ev_Msi m) = trace_log_msi m"

primrec event_object :: "trace_event \<Rightarrow> string" where
  "event_object (Ev_Tlp t) = tlp_object t"
| "event_object (Ev_Cpl c) = cpl_object c"
| "event_object (Ev_Dma r) = dma_object r"
| "event_object (Ev_Msi m) = msi_object m"

primrec event_row :: "trace_event \<Rightarrow> string" where
  "event_row (Ev_Tlp t) = tlp_row t"
| "event_row (Ev_Cpl c) = cpl_row c"
| "event_row (Ev_Dma r) = dma_row r"
| "event_row (Ev_Msi m) = msi_row m"

fun joined :: "string \<Rightarrow> string list \<Rightarrow> string" where
  "joined sep [] = []"
| "joined sep [x] = x"
| "joined sep (x # y # ys) = x @ sep @ joined sep (y # ys)"

lemma log_event_append: "log_event e log = trace_append (event_row e) (event_object e) log"
  by (cases e) (simp_all add: trace_log_tlp_def trace_log_cpl_def trace_log_dma_def trace_log_msi_def)

definition log_all :: "trace_event list \<Rightarrow> trace_log \<Rightarrow> trace_log" where
  "log_all es log = foldl (\<lambda>l e. log_event e l) log es"

lemma log_all_csv:
  "tl_fmt log = TRACE_FMT_CSV \<Longrightarrow> log_all es log = log\<lparr>tl_out := tl_out log @ concat (map event_row es)\<rparr>"
  by (induction es arbitrary: log) (auto simp: log_all_def log_event_append trace_append_def)

lemma log_all_json_more:
  "tl_fmt log = TRACE_FMT_JSON \<Longrightarrow> \<not> tl_first_record log \<Longrightarrow>
     log_all es log = log\<lparr>tl_out := tl_out log @ concat (map (\<lambda>e. '','' @ newline @ event_object e) es)\<rparr>"
  by (induction es arbitrary: log) (auto simp: log_all_def log_event_append trace_append_def json_sep_def Let_def)

lemma joined_Cons: "joined sep (x # xs) = x @ concat (map (\<lambda>y. sep @ y) xs)"
  by (induction xs arbitrary: x) auto

lemma log_all_json:
  assumes "tl_fmt log = TRACE_FMT_JSON" and "tl_first_record log"
  shows "tl_out (log_all es log) = tl_out log @ joined ('','' @ newline) (map event_object es)"
proof (cases es)
  case Nil
  then show ?thesis by (simp add: log_all_def)
next
  case (Cons e rest)
  let ?l = "log\<lparr>tl_first_record := False, tl_out := tl_out log @ event_object e\<rparr>"
  have "log_all es log = log_all rest ?l"
    using assms by (simp add: Cons log_all_def log_event_append trace_append_def json_sep_def Let_def)
  then show ?thesis
    using log_all_json_more [of ?l rest] assms by (simp add: Cons joined_Cons comp_def)
qed

lemma log_all_open: "tl_open (log_all es log) = tl_open log" "tl_fmt (log_all es log) = tl_fmt log"
  by (induction es arbitrary: log)
    (auto simp: log_all_def log_event_append trace_append_def json_sep_def Let_def split: trace_fmt.splits)

subsection \<open>Properties\<close>

text \<open>A closed JSON trace is one array: the opening bracket, the objects of the logged events in order,
  separated by commas and with none at the end, and the closing bracket.\<close>

lemma trace_json_array:
  assumes "trace_log_open ok TRACE_FMT_JSON = (0, log)"
  shows "tl_out (trace_log_close (log_all es log)) =
    ''['' @ newline @ joined ('','' @ newline) (map event_object es) @ newline @ '']'' @ newline"
proof -
  have log: "tl_fmt log = TRACE_FMT_JSON" "tl_first_record log" "tl_open log" "tl_out log = ''['' @ newline"
    using assms by (auto simp: trace_log_open_def split: if_splits)
  then show ?thesis
    using log_all_json [OF log(1,2), of es] log_all_open [of es log] by (simp add: trace_log_close_def)
qed

lemma trace_json_array_witness:
  "tl_out (trace_log_close (log_all [Ev_Tlp tlp_zero, Ev_Cpl cpl_zero] (snd (trace_log_open True TRACE_FMT_JSON)))) =
    ''['' @ newline @ tlp_object tlp_zero @ '','' @ newline @ cpl_object cpl_zero @ newline @ '']'' @ newline"
proof -
  have "trace_log_open True TRACE_FMT_JSON = (0, snd (trace_log_open True TRACE_FMT_JSON))"
    by (simp add: trace_log_open_def)
  from trace_json_array [OF this, of "[Ev_Tlp tlp_zero, Ev_Cpl cpl_zero]"] show ?thesis by simp
qed

text \<open>TLP and completion rows of a CSV trace have the nine fields of the header; DMA rows have seven and MSI
  rows eight, so their last values are not in the columns the header names.\<close>

lemma trace_csv_fields:
  "commas csv_header + 1 = 9
   \<and> commas (event_row e) + 1 = (case e of Ev_Tlp _ \<Rightarrow> 9 | Ev_Cpl _ \<Rightarrow> 9 | Ev_Dma _ \<Rightarrow> 7 | Ev_Msi _ \<Rightarrow> 8)"
  by (cases e) (simp_all add: row_commas)

end
