(* ===== verification/Bridge_Qemu.thy ===== *)
theory Bridge_Qemu
  imports Tcp_Streams Trace_Log
begin

section \<open>The QEMU side of the bridge: bridge\_qemu.c\<close>

text \<open>
  A bridge context either has a transport (the function table \<open>ops\<close> and its private state) or, when
  \<open>bc_transport\<close> is \<^theory_text>\<open>None\<close>, works directly on the shared object and the control socket.  Every
  operation takes \<open>ops\<close> and the context and returns the context updated; the functions that run under
  \<open>tlp_mutex\<close> are single steps.  A function with an out parameter returns it.
\<close>

record 'p bridge_ctx =
  bc_shm :: cosim_shm
  bc_listen_fd :: int
  bc_client :: "sock option"       \<comment> \<open>\<^theory_text>\<open>None\<close>: \<open>client_fd\<close> is -1\<close>
  bc_shm_name :: string
  bc_sock_path :: string
  bc_next_tag :: u16
  bc_tag_mask :: u16
  bc_trace :: trace_log
  bc_trace_enabled :: bool
  bc_transport :: "'p option"

definition trace_closed :: trace_log where
  "trace_closed = \<lparr>tl_open = False, tl_fmt = TRACE_FMT_CSV, tl_first_record = False, tl_out = []\<rparr>"

definition bridge_ctx_new :: "cosim_shm \<Rightarrow> 'p option \<Rightarrow> 'p bridge_ctx" where
  "bridge_ctx_new shm tr = \<lparr>bc_shm = shm, bc_listen_fd = -1, bc_client = None, bc_shm_name = [], bc_sock_path = [],
     bc_next_tag = 0, bc_tag_mask = 0x03FF, bc_trace = trace_closed, bc_trace_enabled = False, bc_transport = tr\<rparr>"

text \<open>The shared object is published under its name: the second component is the object that the name
  refers to afterwards.\<close>

definition bridge_init :: "string \<Rightarrow> string \<Rightarrow> os_answers \<Rightarrow> int \<Rightarrow> 'p bridge_ctx option \<times> cosim_shm option" where
  "bridge_init shm_name sock_path os listen_fd =
     (case cosim_shm_create os of
        (r, None) \<Rightarrow> (None, None)
      | (r, Some shm) \<Rightarrow>
          if r < 0 then (None, None)
          else if listen_fd < 0 then (None, None)
          else let shm1 = shm\<lparr>sh_ctrl := (sh_ctrl shm)\<lparr>cc_qemu_ready := 1\<rparr>\<rparr>
            in (Some ((bridge_ctx_new shm1 None)\<lparr>bc_shm_name := take 255 shm_name,
                  bc_sock_path := take 255 sock_path, bc_listen_fd := listen_fd\<rparr>), Some shm1))"

definition bridge_connect :: "int option \<Rightarrow> accept_answer list \<Rightarrow> sock \<Rightarrow> 'p bridge_ctx \<Rightarrow> (rc \<times> 'p bridge_ctx) option" where
  "bridge_connect env answers client ctx = (case sock_sync_accept env answers of
     None \<Rightarrow> None
   | Some fd \<Rightarrow> Some (if fd \<ge> 0 then (0, ctx\<lparr>bc_client := Some client\<rparr>) else (-1, ctx\<lparr>bc_client := None\<rparr>)))"

definition bridge_init_ex :: "'p transport \<Rightarrow> bool \<Rightarrow> string \<Rightarrow> string \<Rightarrow> os_answers \<Rightarrow> int \<Rightarrow> cosim_shm \<Rightarrow> 'p option
    \<Rightarrow> 'p bridge_ctx option" where
  "bridge_init_ex ops use_shm shm_name sock_path os listen_fd no_shm created =
     (if use_shm
      then map_option (\<lambda>c. c\<lparr>bc_transport := None\<rparr>) (fst (bridge_init shm_name sock_path os listen_fd))
      else (case created of
          None \<Rightarrow> None
        | Some p \<Rightarrow> Some (bridge_ctx_new no_shm (Some (tr_set_ready ops p)))))"

definition bridge_connect_ex :: "'p transport \<Rightarrow> int option \<Rightarrow> accept_answer list \<Rightarrow> sock \<Rightarrow> 'p bridge_ctx
    \<Rightarrow> (rc \<times> 'p bridge_ctx) option" where
  "bridge_connect_ex ops env answers client ctx = (case bc_transport ctx of
     None \<Rightarrow> bridge_connect env answers client ctx
   | Some p \<Rightarrow> Some (if tr_peer_ready ops p then 0 else -1, ctx))"

subsection \<open>Using the transport or the shared object\<close>

text \<open>Running an operation of the transport on its private state.\<close>

definition via :: "('p \<Rightarrow> 'a \<times> 'p) \<Rightarrow> 'p \<Rightarrow> 'p bridge_ctx \<Rightarrow> 'a \<times> 'p bridge_ctx" where
  "via f p ctx = (case f p of (r, p1) \<Rightarrow> (r, ctx\<lparr>bc_transport := Some p1\<rparr>))"

text \<open>\<open>sock_sync_send\<close> and \<open>sock_sync_recv\<close> on \<open>client_fd\<close>; on descriptor -1 they fail.\<close>

definition client_send :: "sync_msg \<Rightarrow> 'p bridge_ctx \<Rightarrow> rc \<times> 'p bridge_ctx" where
  "client_send m ctx = (case bc_client ctx of
     None \<Rightarrow> (-1, ctx)
   | Some s \<Rightarrow> (case sock_sync_send m s of (r, s1) \<Rightarrow> (r, ctx\<lparr>bc_client := Some s1\<rparr>)))"

definition client_recv :: "'p bridge_ctx \<Rightarrow> sync_msg recvd \<times> 'p bridge_ctx" where
  "client_recv ctx = (case bc_client ctx of
     None \<Rightarrow> (Failed, ctx)
   | Some s \<Rightarrow> (case sock_sync_recv s of (r, s1) \<Rightarrow> (r, ctx\<lparr>bc_client := Some s1\<rparr>)))"

text \<open>The sync message of an operation: through the transport or the socket.\<close>

definition bc_send_sync :: "'p transport \<Rightarrow> sync_msg \<Rightarrow> 'p bridge_ctx \<Rightarrow> rc \<times> 'p bridge_ctx" where
  "bc_send_sync ops m ctx = (case bc_transport ctx of
     Some p \<Rightarrow> via (tr_send_sync ops m) p ctx | None \<Rightarrow> client_send m ctx)"

definition bc_recv_sync :: "'p transport \<Rightarrow> 'p bridge_ctx \<Rightarrow> sync_msg recvd \<times> 'p bridge_ctx" where
  "bc_recv_sync ops ctx = (case bc_transport ctx of
     Some p \<Rightarrow> via (tr_recv_sync ops) p ctx | None \<Rightarrow> client_recv ctx)"

definition shm_enqueue :: "(cosim_shm \<Rightarrow> ring_buf) \<Rightarrow> (ring_buf \<Rightarrow> cosim_shm \<Rightarrow> cosim_shm) \<Rightarrow> bytes
    \<Rightarrow> 'p bridge_ctx \<Rightarrow> rc \<times> 'p bridge_ctx" where
  "shm_enqueue gt st bs ctx = (case ring_buf_enqueue (gt (bc_shm ctx)) bs of
     (r, rb) \<Rightarrow> (r, ctx\<lparr>bc_shm := st rb (bc_shm ctx)\<rparr>))"

definition shm_dequeue :: "(cosim_shm \<Rightarrow> ring_buf) \<Rightarrow> (ring_buf \<Rightarrow> cosim_shm \<Rightarrow> cosim_shm) \<Rightarrow> (bytes \<Rightarrow> 'a)
    \<Rightarrow> 'p bridge_ctx \<Rightarrow> 'a recvd \<times> 'p bridge_ctx" where
  "shm_dequeue gt st dec ctx = (case ring_buf_dequeue (gt (bc_shm ctx)) of
     (None, rb) \<Rightarrow> (Failed, ctx\<lparr>bc_shm := st rb (bc_shm ctx)\<rparr>)
   | (Some bs, rb) \<Rightarrow> (Got (dec bs), ctx\<lparr>bc_shm := st rb (bc_shm ctx)\<rparr>))"

subsection \<open>TLPs and completions\<close>

definition trace_if :: "(trace_log \<Rightarrow> trace_log) \<Rightarrow> 'p bridge_ctx \<Rightarrow> 'p bridge_ctx" where
  "trace_if f ctx = (if bc_trace_enabled ctx then ctx\<lparr>bc_trace := f (bc_trace ctx)\<rparr> else ctx)"

definition bridge_send_tlp :: "'p transport \<Rightarrow> tlp_entry \<Rightarrow> 'p bridge_ctx \<Rightarrow> rc \<times> tlp_entry \<times> 'p bridge_ctx" where
  "bridge_send_tlp ops req ctx =
     (let req1 = req\<lparr>t_tag := bc_next_tag ctx AND bc_tag_mask ctx\<rparr>;
          ctx1 = trace_if (trace_log_tlp req1) (ctx\<lparr>bc_next_tag := (bc_next_tag ctx + 1) AND bc_tag_mask ctx\<rparr>);
          sent = (case bc_transport ctx1 of
              Some p \<Rightarrow> via (tr_send_tlp ops req1) p ctx1
            | None \<Rightarrow> shm_enqueue sh_req_ring set_req_ring (enc_tlp req1) ctx1)
      in case sent of
          (r, ctx2) \<Rightarrow> if r < 0 then (-1, req1, ctx2)
            else (case bc_send_sync ops (sync_of SYNC_MSG_TLP_READY 0) ctx2 of (r2, ctx3) \<Rightarrow> (r2, req1, ctx3)))"

definition bc_recv_cpl :: "'p transport \<Rightarrow> 'p bridge_ctx \<Rightarrow> cpl_entry recvd \<times> 'p bridge_ctx" where
  "bc_recv_cpl ops ctx = (case bc_transport ctx of
     Some p \<Rightarrow> via (tr_recv_cpl ops) p ctx | None \<Rightarrow> shm_dequeue sh_cpl_ring set_cpl_ring dec_cpl ctx)"

text \<open>One completion: the notification on the control channel, then the completion itself.  The receive
  functions of the transports return 0 or -1 here; a result 1 would leave the caller's completion as it was.\<close>

definition recv_completion :: "'p transport \<Rightarrow> cpl_entry \<Rightarrow> 'p bridge_ctx \<Rightarrow> rc \<times> cpl_entry \<times> 'p bridge_ctx" where
  "recv_completion ops cpl ctx =
     (case bc_recv_sync ops ctx of
        (Got msg, ctx1) \<Rightarrow>
          if sm_type msg \<noteq> sync_code SYNC_MSG_CPL_READY then (-1, cpl, ctx1)
          else (case bc_recv_cpl ops ctx1 of
              (Got c, ctx2) \<Rightarrow> (0, c, ctx2)
            | (Nothing, ctx2) \<Rightarrow> (0, cpl, ctx2)
            | (Failed, ctx2) \<Rightarrow> (-1, cpl, ctx2))
      | (_, ctx1) \<Rightarrow> (-1, cpl, ctx1))"

fun wait_loop :: "'p transport \<Rightarrow> nat \<Rightarrow> u16 \<Rightarrow> cpl_entry \<Rightarrow> 'p bridge_ctx \<Rightarrow> rc \<times> cpl_entry \<times> 'p bridge_ctx" where
  "wait_loop ops 0 tag cpl ctx = (-1, cpl, ctx)"
| "wait_loop ops (Suc guard) tag cpl ctx =
     (case recv_completion ops cpl ctx of
        (r, cpl1, ctx1) \<Rightarrow> if r < 0 then (-1, cpl1, ctx1)
          else let ctx2 = trace_if (trace_log_cpl cpl1) ctx1
            in if c_tag cpl1 = tag then (0, cpl1, ctx2) else wait_loop ops guard tag cpl1 ctx2)"

definition bridge_wait_completion :: "'p transport \<Rightarrow> u16 \<Rightarrow> cpl_entry \<Rightarrow> 'p bridge_ctx \<Rightarrow> rc \<times> cpl_entry \<times> 'p bridge_ctx" where
  "bridge_wait_completion ops = wait_loop ops 256"

definition bridge_send_tlp_and_wait :: "'p transport \<Rightarrow> tlp_entry \<Rightarrow> cpl_entry \<Rightarrow> 'p bridge_ctx
    \<Rightarrow> rc \<times> tlp_entry \<times> cpl_entry \<times> 'p bridge_ctx" where
  "bridge_send_tlp_and_wait ops req cpl ctx =
     (case bridge_send_tlp ops req ctx of
        (r, req1, ctx1) \<Rightarrow> if r < 0 then (r, req1, cpl, ctx1)
          else (case bridge_wait_completion ops (t_tag req1) cpl ctx1 of (r2, cpl1, ctx2) \<Rightarrow> (r2, req1, cpl1, ctx2)))"

definition bridge_send_tlp_fire :: "'p transport \<Rightarrow> tlp_entry \<Rightarrow> 'p bridge_ctx \<Rightarrow> rc \<times> tlp_entry \<times> 'p bridge_ctx" where
  "bridge_send_tlp_fire ops req ctx = bridge_send_tlp ops req ctx"

definition bridge_send_tlp_bdf :: "'p transport \<Rightarrow> tlp_entry \<Rightarrow> u16 \<Rightarrow> u16 \<Rightarrow> 'p bridge_ctx
    \<Rightarrow> rc \<times> tlp_entry \<times> 'p bridge_ctx" where
  "bridge_send_tlp_bdf ops req requester_id target_bdf ctx =
     bridge_send_tlp ops (req\<lparr>t_requester_id := requester_id, t_target_bdf := target_bdf\<rparr>) ctx"

definition bridge_send_tlp_and_wait_bdf :: "'p transport \<Rightarrow> tlp_entry \<Rightarrow> cpl_entry \<Rightarrow> u16 \<Rightarrow> u16 \<Rightarrow> 'p bridge_ctx
    \<Rightarrow> rc \<times> tlp_entry \<times> cpl_entry \<times> 'p bridge_ctx" where
  "bridge_send_tlp_and_wait_bdf ops req cpl requester_id target_bdf ctx =
     bridge_send_tlp_and_wait ops (req\<lparr>t_requester_id := requester_id, t_target_bdf := target_bdf\<rparr>) cpl ctx"

subsection \<open>DMA completions, clock, mode, topology, VF events\<close>

definition bridge_complete_dma :: "'p transport \<Rightarrow> u32 \<Rightarrow> u32 \<Rightarrow> 'p bridge_ctx \<Rightarrow> rc \<times> 'p bridge_ctx" where
  "bridge_complete_dma ops tag status ctx =
     (let cpl = \<lparr>d_tag = tag, d_status = status, d_timestamp = 0\<rparr>
      in case (case bc_transport ctx of
            Some p \<Rightarrow> via (tr_send_dma_cpl ops cpl) p ctx
          | None \<Rightarrow> shm_enqueue sh_dma_cpl_ring set_dma_cpl_ring (enc_dma_cpl cpl) ctx) of
          (r, ctx1) \<Rightarrow> if r < 0 then (-1, ctx1) else bc_send_sync ops (sync_of SYNC_MSG_DMA_CPL tag) ctx1)"

definition bridge_complete_dma_with_data :: "'p transport \<Rightarrow> u32 \<Rightarrow> u32 \<Rightarrow> u32 \<Rightarrow> u64 \<Rightarrow> bytes \<Rightarrow> 'p bridge_ctx
    \<Rightarrow> rc \<times> 'p bridge_ctx" where
  "bridge_complete_dma_with_data ops tag status direction host_addr data ctx =
     (case bc_transport ctx of
        Some p \<Rightarrow> (case via (tr_send_dma_data ops tag direction host_addr data) p ctx of
            (r, ctx1) \<Rightarrow> if r < 0 then (-1, ctx1) else bridge_complete_dma ops tag status ctx1)
      | None \<Rightarrow> bridge_complete_dma ops tag status ctx)"

definition bridge_enable_trace :: "bool \<Rightarrow> trace_fmt \<Rightarrow> 'p bridge_ctx \<Rightarrow> rc \<times> 'p bridge_ctx" where
  "bridge_enable_trace fopen_ok fmt ctx =
     (if bc_trace_enabled ctx then (0, ctx)
      else (case trace_log_open fopen_ok fmt of
          (r, log) \<Rightarrow> if r < 0 then (-1, ctx\<lparr>bc_trace := log\<rparr>)
            else (0, ctx\<lparr>bc_trace := log, bc_trace_enabled := True\<rparr>)))"

definition bridge_disable_trace :: "'p bridge_ctx \<Rightarrow> 'p bridge_ctx" where
  "bridge_disable_trace ctx = (if bc_trace_enabled ctx
     then ctx\<lparr>bc_trace := trace_log_close (bc_trace ctx), bc_trace_enabled := False\<rparr> else ctx)"

definition upd_ctrl :: "(cosim_ctrl \<Rightarrow> cosim_ctrl) \<Rightarrow> 'p bridge_ctx \<Rightarrow> 'p bridge_ctx" where
  "upd_ctrl f ctx = ctx\<lparr>bc_shm := (bc_shm ctx)\<lparr>sh_ctrl := f (sh_ctrl (bc_shm ctx))\<rparr>\<rparr>"

definition bridge_request_mode_switch :: "cosim_mode \<Rightarrow> 'p bridge_ctx \<Rightarrow> rc \<times> 'p bridge_ctx" where
  "bridge_request_mode_switch target_mode ctx =
     (if bc_transport ctx \<noteq> None then (-1, ctx)
      else client_send (sync_of SYNC_MSG_MODE_SWITCH (mode_code target_mode))
        (upd_ctrl (\<lambda>c. c\<lparr>cc_target_mode := mode_code target_mode, cc_mode_switch_pending := 1\<rparr>) ctx))"

definition bridge_get_mode :: "'p bridge_ctx \<Rightarrow> u32" where
  "bridge_get_mode ctx = (if bc_transport ctx \<noteq> None then mode_code COSIM_MODE_FAST else cc_mode (sh_ctrl (bc_shm ctx)))"

definition bridge_advance_clock :: "u64 \<Rightarrow> 'p bridge_ctx \<Rightarrow> rc \<times> 'p bridge_ctx" where
  "bridge_advance_clock cycles ctx =
     (if bc_transport ctx \<noteq> None then (-1, ctx)
      else if cc_mode (sh_ctrl (bc_shm ctx)) \<noteq> mode_code COSIM_MODE_PRECISE then (-1, ctx)
      else (case client_send (sync_of SYNC_MSG_CLOCK_STEP (ucast cycles)) ctx of
          (r, ctx1) \<Rightarrow> if r < 0 then (-1, ctx1)
            else (case client_recv ctx1 of
                (Got ack, ctx2) \<Rightarrow> (if sm_type ack \<noteq> sync_code SYNC_MSG_CLOCK_ACK then -1 else 0, ctx2)
              | (_, ctx2) \<Rightarrow> (-1, ctx2))))"

text \<open>What \<open>bridge_destroy\<close> leaves: the context closed, and the object under the name, removed in the
  shared-memory mode.\<close>

definition bridge_destroy :: "'p transport \<Rightarrow> cosim_shm option \<Rightarrow> 'p bridge_ctx \<Rightarrow> 'p bridge_ctx \<times> cosim_shm option" where
  "bridge_destroy ops obj ctx =
     (let ctx1 = (case bc_transport ctx of
            Some p \<Rightarrow> snd (via (tr_send_sync ops (sync_of SYNC_MSG_SHUTDOWN 0)) p ctx)
          | None \<Rightarrow> snd (client_send (sync_of SYNC_MSG_SHUTDOWN 0) ctx));
          ctx2 = bridge_disable_trace ctx1
      in (ctx2, if bc_transport ctx2 = None then None else obj))"

definition bridge_query_topology :: "'p transport \<Rightarrow> 'p bridge_ctx \<Rightarrow> topology_resp recvd \<times> 'p bridge_ctx" where
  "bridge_query_topology ops ctx =
     (case bc_send_sync ops (sync_of SYNC_MSG_QUERY_TOPOLOGY 0) ctx of
        (r, ctx1) \<Rightarrow> if r < 0 then (Failed, ctx1)
          else (case bc_recv_sync ops ctx1 of
              (Got resp, ctx2) \<Rightarrow>
                if sm_type resp \<noteq> sync_code SYNC_MSG_TOPOLOGY_RESP then (Failed, ctx2)
                else (case bc_transport ctx2 of
                    Some p \<Rightarrow> via (tr_recv_topology ops) p ctx2
                  | None \<Rightarrow> (Got (dec_topology (cc_topology (sh_ctrl (bc_shm ctx2)))), ctx2))
            | (_, ctx2) \<Rightarrow> (Failed, ctx2)))"

definition bridge_send_vf_event :: "'p transport \<Rightarrow> vf_event \<Rightarrow> 'p bridge_ctx \<Rightarrow> rc \<times> 'p bridge_ctx" where
  "bridge_send_vf_event ops ev ctx = bc_send_sync ops \<lparr>sm_type = sync_code SYNC_MSG_VF_EVENT, sm_payload = vf_event_payload ev\<rparr> ctx"

subsection \<open>Tags\<close>

text \<open>Sending a list of requests: the requests as sent, tags assigned.\<close>

fun bridge_send_tlps :: "'p transport \<Rightarrow> tlp_entry list \<Rightarrow> 'p bridge_ctx \<Rightarrow> tlp_entry list \<times> 'p bridge_ctx" where
  "bridge_send_tlps ops [] ctx = ([], ctx)"
| "bridge_send_tlps ops (req # reqs) ctx =
     (case bridge_send_tlp ops req ctx of
        (r, req1, ctx1) \<Rightarrow> (case bridge_send_tlps ops reqs ctx1 of (sent, ctx2) \<Rightarrow> (req1 # sent, ctx2)))"

lemma send_tlp_tag:
  assumes "bridge_send_tlp ops req ctx = (r, req1, ctx1)"
  shows "req1 = req\<lparr>t_tag := bc_next_tag ctx AND bc_tag_mask ctx\<rparr>"
    and "bc_next_tag ctx1 = (bc_next_tag ctx + 1) AND bc_tag_mask ctx" and "bc_tag_mask ctx1 = bc_tag_mask ctx"
  using assms
  by (auto simp: bridge_send_tlp_def Let_def via_def shm_enqueue_def bc_send_sync_def client_send_def trace_if_def
      split: option.splits prod.splits if_splits)

lemma tag_step: "unat ((t + 1) AND 0x03FF :: u16) = (unat t + 1) mod 1024"
proof -
  have "unat ((t + 1) AND 0x03FF :: u16) = unat (t + 1) mod 1024"
    by (simp add: and_mask_literals take_bit_eq_mod unat_mod)
  also have "\<dots> = (unat t + 1) mod 65536 mod 1024" by (simp add: unat_word_ariths)
  also have "\<dots> = (unat t + 1) mod 1024" by (rule mod_mod_cancel) simp
  finally show ?thesis .
qed

lemma tag_now: "unat (t AND 0x03FF :: u16) = unat t mod 1024"
  by (simp add: and_mask_literals take_bit_eq_mod unat_mod)

lemma distinct_mod_upt:
  assumes "n \<le> m"
  shows "distinct (map (\<lambda>i. (a + i) mod m) [0..<n])"
proof -
  have "i = j" if "i \<le> j" "j < n" "(a + i) mod m = (a + j) mod m" for i j
  proof -
    have "m dvd (a + j) - (a + i)" using that by (metis add_le_cancel_left mod_eq_dvd_iff_nat)
    then have "m dvd j - i" by simp
    then show ?thesis using that assms by (auto dest!: dvd_imp_le)
  qed
  then show ?thesis by (auto simp: distinct_map inj_on_def) (metis nat_le_linear)
qed

lemma send_tlps_tags:
  assumes "bc_tag_mask ctx = 0x03FF"
  shows "map (unat \<circ> t_tag) (fst (bridge_send_tlps ops reqs ctx)) =
    map (\<lambda>i. (unat (bc_next_tag ctx) + i) mod 1024) [0..<length reqs]"
  using assms
proof (induction reqs arbitrary: ctx)
  case Nil
  then show ?case by simp
next
  case (Cons req reqs)
  obtain r req1 ctx1 where s: "bridge_send_tlp ops req ctx = (r, req1, ctx1)" by (cases "bridge_send_tlp ops req ctx") auto
  note st = send_tlp_tag [OF s]
  have "map (unat \<circ> t_tag) (fst (bridge_send_tlps ops reqs ctx1)) =
      map (\<lambda>i. (unat (bc_next_tag ctx) + 1 + i) mod 1024) [0..<length reqs]"
    using Cons.IH [of ctx1] st Cons.prems by (simp add: tag_step mod_add_left_eq comp_def)
  also have "\<dots> = map (\<lambda>i. (unat (bc_next_tag ctx) + i) mod 1024) [1..<Suc (length reqs)]"
    by (simp add: map_Suc_upt [symmetric] comp_def del: upt_Suc)
  finally show ?case
    using s st Cons.prems by (simp add: tag_now upt_conv_Cons comp_def case_prod_beta del: upt_Suc)
qed

subsection \<open>Waiting for a completion\<close>

lemma wait_tag: "wait_loop ops n tag cpl ctx = (0, c, ctx') \<Longrightarrow> c_tag c = tag"
  by (induction ops n tag cpl ctx rule: wait_loop.induct) (auto simp: Let_def split: prod.splits if_splits)

text \<open>What the waiter relies on: the context's source of notifications and of completions delivers them
  in order.  \<open>inbox ctx ms cs\<close>: the messages \<open>ms\<close> and the completions \<open>cs\<close> will be received.\<close>

locale completion_source =
  fixes ops :: "'p transport" and inbox :: "'p bridge_ctx \<Rightarrow> sync_msg list \<Rightarrow> cpl_entry list \<Rightarrow> bool"
  assumes next_sync: "inbox ctx (m # ms) cs \<Longrightarrow> \<exists>ctx'. bc_recv_sync ops ctx = (Got m, ctx') \<and> inbox ctx' ms cs"
    and next_cpl: "inbox ctx ms (c # cs) \<Longrightarrow> \<exists>ctx'. bc_recv_cpl ops ctx = (Got c, ctx') \<and> inbox ctx' ms cs"
    and inbox_trace: "inbox ctx ms cs \<Longrightarrow> inbox (trace_if f ctx) ms cs"
begin

lemma next_completion:
  assumes "inbox ctx (m # ms) (c # cs)" and "sm_type m = sync_code SYNC_MSG_CPL_READY"
  shows "\<exists>ctx'. recv_completion ops cpl ctx = (0, c, ctx') \<and> inbox ctx' ms cs"
proof -
  obtain ctx1 where "bc_recv_sync ops ctx = (Got m, ctx1)" "inbox ctx1 ms (c # cs)" using next_sync assms(1) by blast
  moreover then obtain ctx2 where "bc_recv_cpl ops ctx1 = (Got c, ctx2)" "inbox ctx2 ms cs" using next_cpl by blast
  ultimately show ?thesis using assms(2) by (simp add: recv_completion_def)
qed

lemma wait_skips_stale:
  assumes "inbox ctx (ms @ ms') (stale @ c # cs')" and "length ms = Suc (length stale)"
    and "\<forall>m\<in>set ms. sm_type m = sync_code SYNC_MSG_CPL_READY" and "\<forall>s\<in>set stale. c_tag s \<noteq> tag"
    and "c_tag c = tag" and "length stale < n"
  shows "\<exists>ctx'. wait_loop ops n tag cpl ctx = (0, c, ctx') \<and> inbox ctx' ms' cs'"
  using assms
proof (induction stale arbitrary: ms n cpl ctx)
  case Nil
  then obtain m where m: "ms = [m]" by (auto simp: length_Suc_conv)
  with Nil obtain ctx1 where "recv_completion ops cpl ctx = (0, c, ctx1)" "inbox ctx1 ms' cs'"
    using next_completion [of ctx m ms' c cs' cpl] by auto
  moreover obtain k where "n = Suc k" using Nil.prems(6) by (cases n) auto
  ultimately show ?case using Nil inbox_trace by (simp add: Let_def)
next
  case (Cons s stale)
  then obtain m ms1 where m: "ms = m # ms1" "length ms1 = Suc (length stale)" by (auto simp: length_Suc_conv)
  then obtain ctx1 where r: "recv_completion ops cpl ctx = (0, s, ctx1)" "inbox ctx1 (ms1 @ ms') (stale @ c # cs')"
    using next_completion [of ctx m "ms1 @ ms'" s "stale @ c # cs'" cpl] Cons.prems by auto
  obtain k where k: "n = Suc k" using Cons.prems(6) by (cases n) auto
  let ?ctx2 = "trace_if (trace_log_cpl s) ctx1"
  have "\<exists>ctx'. wait_loop ops k tag s ?ctx2 = (0, c, ctx') \<and> inbox ctx' ms' cs'"
    by (rule Cons.IH [OF inbox_trace [OF r(2)] m(2)]) (use Cons.prems m k in auto)
  then show ?case using r k Cons.prems by (simp add: Let_def)
qed

lemma wait_completion_finds:
  assumes "inbox ctx (ms @ ms') (stale @ c # cs')" and "length ms = Suc (length stale)"
    and "\<forall>m\<in>set ms. sm_type m = sync_code SYNC_MSG_CPL_READY" and "\<forall>s\<in>set stale. c_tag s \<noteq> tag"
    and "c_tag c = tag" and "length stale < 256"
  shows "\<exists>ctx'. bridge_wait_completion ops tag cpl ctx = (0, c, ctx') \<and> inbox ctx' ms' cs'"
  unfolding bridge_wait_completion_def using wait_skips_stale [OF assms] .

end

text \<open>The source over TCP: notifications on the control connection, completions on the data connection.\<close>

definition tcp_inbox :: "transport_tcp_priv bridge_ctx \<Rightarrow> sync_msg list \<Rightarrow> cpl_entry list \<Rightarrow> bool" where
  "tcp_inbox ctx ms cs \<longleftrightarrow> (\<exists>p. bc_transport ctx = Some p \<and> sync_stream.awaits ms (tp_ctrl p) \<and> cpl_stream.awaits cs (tp_data p))"

interpretation tcp_source: completion_source tcp_transport tcp_inbox
proof
  fix ctx :: "transport_tcp_priv bridge_ctx" and m ms c cs f
  show "\<exists>ctx'. bc_recv_sync tcp_transport ctx = (Got m, ctx') \<and> tcp_inbox ctx' ms cs" if "tcp_inbox ctx (m # ms) cs"
  proof -
    from that obtain p where "bc_transport ctx = Some p" "sync_stream.awaits (m # ms) (tp_ctrl p)" "cpl_stream.awaits cs (tp_data p)"
      by (auto simp: tcp_inbox_def)
    moreover from sync_stream.recv_awaits [OF this(2)] obtain s
      where "tcp_recv_msg TCP_MSG_SYNC True 8 dec_sync (tp_ctrl p) = (Got m, s)" "sync_stream.awaits ms s" by blast
    ultimately show ?thesis
      by (simp add: bc_recv_sync_def via_def tcp_transport_def tcp_recv_sync_def on_ctrl_def tcp_inbox_def)
  qed
  show "\<exists>ctx'. bc_recv_cpl tcp_transport ctx = (Got c, ctx') \<and> tcp_inbox ctx' ms cs" if "tcp_inbox ctx ms (c # cs)"
  proof -
    from that obtain p where "bc_transport ctx = Some p" "sync_stream.awaits ms (tp_ctrl p)" "cpl_stream.awaits (c # cs) (tp_data p)"
      by (auto simp: tcp_inbox_def)
    moreover from cpl_stream.recv_awaits [OF this(3)] obtain s
      where "tcp_recv_msg TCP_MSG_CPL False 84 dec_cpl (tp_data p) = (Got c, s)" "cpl_stream.awaits cs s" by blast
    ultimately show ?thesis
      by (simp add: bc_recv_cpl_def via_def tcp_transport_def tcp_recv_cpl_def on_data_def tcp_inbox_def)
  qed
  show "tcp_inbox (trace_if f ctx) ms cs" if "tcp_inbox ctx ms cs"
    using that by (simp add: tcp_inbox_def trace_if_def)
qed

text \<open>The source over shared memory, without a transport: notifications on the client socket, completions in
  the completion ring.\<close>

definition shm_inbox :: "'p bridge_ctx \<Rightarrow> sync_msg list \<Rightarrow> cpl_entry list \<Rightarrow> bool" where
  "shm_inbox ctx ms cs \<longleftrightarrow> bc_transport ctx = None
     \<and> (\<exists>s rest. bc_client ctx = Some s \<and> sk_rx s = [] \<and> sk_in s = concat (map enc_sync ms) @ rest)
     \<and> ring_of cpl_size (sh_cpl_ring (bc_shm ctx)) \<and> list_all wf_cpl cs
     \<and> (\<exists>more. ring_items (sh_cpl_ring (bc_shm ctx)) = map enc_cpl cs @ more)"

lemma sock_sync_recv_next:
  "sk_rx s = [] \<Longrightarrow> sk_in s = enc_sync m @ rest \<Longrightarrow> sock_sync_recv s = (Got m, s\<lparr>sk_in := rest\<rparr>)"
  by (simp add: sock_sync_recv_def sk_recv_def)

interpretation shm_source: completion_source ops shm_inbox for ops :: "'p transport"
proof
  fix ctx :: "'p bridge_ctx" and m ms c cs f
  show "\<exists>ctx'. bc_recv_sync ops ctx = (Got m, ctx') \<and> shm_inbox ctx' ms cs" if "shm_inbox ctx (m # ms) cs"
    using that by (auto simp: shm_inbox_def bc_recv_sync_def client_recv_def sock_sync_recv_next)
  show "\<exists>ctx'. bc_recv_cpl ops ctx = (Got c, ctx') \<and> shm_inbox ctx' ms cs" if "shm_inbox ctx ms (c # cs)"
  proof -
    let ?rb = "sh_cpl_ring (bc_shm ctx)"
    from that obtain more where r: "ring_of cpl_size ?rb" and wf: "wf_cpl c" and i: "ring_items ?rb = enc_cpl c # map enc_cpl cs @ more"
      by (auto simp: shm_inbox_def)
    have "fst (ring_buf_dequeue ?rb) = Some (enc_cpl c)" "ring_items (snd (ring_buf_dequeue ?rb)) = map enc_cpl cs @ more"
      "ring_of cpl_size (snd (ring_buf_dequeue ?rb))"
      using rb.deq_some [OF r i] rb.deq_inv [OF r] by auto
    then show ?thesis using that wf
      by (auto simp: shm_inbox_def bc_recv_cpl_def shm_dequeue_def set_cpl_ring_def split: prod.splits)
  qed
  show "shm_inbox (trace_if f ctx) ms cs" if "shm_inbox ctx ms cs"
    using that by (simp add: shm_inbox_def trace_if_def)
qed

subsection \<open>The two shared-memory paths\<close>

text \<open>The context that works on the shared object and socket of its transport directly.\<close>

definition legacy :: "transport_shm_priv bridge_ctx \<Rightarrow> transport_shm_priv bridge_ctx" where
  "legacy ctx = (case bc_transport ctx of None \<Rightarrow> ctx
     | Some p \<Rightarrow> ctx\<lparr>bc_transport := None, bc_shm := ts_shm p, bc_client := Some (ts_client p)\<rparr>)"

lemma legacy_fields [simp]:
  "bc_transport (legacy ctx) = None" "bc_next_tag (legacy ctx) = bc_next_tag ctx"
  "bc_tag_mask (legacy ctx) = bc_tag_mask ctx" "trace_if f (legacy ctx) = legacy (trace_if f ctx)"
  "legacy (ctx\<lparr>bc_next_tag := t\<rparr>) = (legacy ctx)\<lparr>bc_next_tag := t\<rparr>"
  by (simp_all add: legacy_def trace_if_def split: option.splits)

lemma trace_if_transport [simp]: "bc_transport (trace_if f ctx) = bc_transport ctx"
  by (simp add: trace_if_def)

lemma legacy_steps:
  assumes "bc_transport ctx = Some p"
  shows "bc_send_sync ops m (legacy ctx) = map_prod id legacy (bc_send_sync shm_transport m ctx)"
    and "bc_recv_sync ops (legacy ctx) = map_prod id legacy (bc_recv_sync shm_transport ctx)"
    and "bc_recv_cpl ops (legacy ctx) = map_prod id legacy (bc_recv_cpl shm_transport ctx)"
    and "shm_enqueue sh_req_ring set_req_ring (enc_tlp t) (legacy ctx) = map_prod id legacy (via (tr_send_tlp shm_transport t) p ctx)"
    and "shm_enqueue sh_dma_cpl_ring set_dma_cpl_ring (enc_dma_cpl d) (legacy ctx)
      = map_prod id legacy (via (tr_send_dma_cpl shm_transport d) p ctx)"
  using assms
  by (auto simp: legacy_def bc_send_sync_def bc_recv_sync_def bc_recv_cpl_def via_def client_send_def client_recv_def
      shm_transport_def shm_send_sync_def shm_recv_sync_def shm_recv_cpl_def shm_send_tlp_def shm_send_dma_cpl_def
      ring_recv_def ring_send_def shm_enqueue_def shm_dequeue_def set_req_ring_def set_cpl_ring_def set_dma_cpl_ring_def
      split: prod.splits option.splits)

lemma keeps_transport:
  "bc_transport (snd (via f p ctx)) \<noteq> None"
  "bc_transport ctx \<noteq> None \<Longrightarrow> bc_transport (snd (bc_send_sync ops m ctx)) \<noteq> None"
  "bc_transport ctx \<noteq> None \<Longrightarrow> bc_transport (snd (bc_recv_sync ops ctx)) \<noteq> None"
  "bc_transport ctx \<noteq> None \<Longrightarrow> bc_transport (snd (bc_recv_cpl ops ctx)) \<noteq> None"
  by (auto simp: via_def bc_send_sync_def bc_recv_sync_def bc_recv_cpl_def split: prod.splits)

definition map_ctx :: "('p bridge_ctx \<Rightarrow> 'p bridge_ctx) \<Rightarrow> 'a \<times> 'b \<times> 'p bridge_ctx \<Rightarrow> 'a \<times> 'b \<times> 'p bridge_ctx" where
  "map_ctx f r = (case r of (a, b, ctx) \<Rightarrow> (a, b, f ctx))"

lemma legacy_send_tlp:
  assumes "bc_transport ctx = Some p"
  shows "bridge_send_tlp ops req (legacy ctx) = map_ctx legacy (bridge_send_tlp shm_transport req ctx)"
proof -
  let ?req = "req\<lparr>t_tag := bc_next_tag ctx AND bc_tag_mask ctx\<rparr>"
  let ?ctx = "trace_if (trace_log_tlp ?req) (ctx\<lparr>bc_next_tag := (bc_next_tag ctx + 1) AND bc_tag_mask ctx\<rparr>)"
  have tr: "bc_transport ?ctx = Some p" using assms by simp
  obtain r ctx2 where v: "via (tr_send_tlp shm_transport ?req) p ?ctx = (r, ctx2)" by fastforce
  with keeps_transport(1) [of "tr_send_tlp shm_transport ?req" p ?ctx] obtain p2 where p2: "bc_transport ctx2 = Some p2" by auto
  have e: "shm_enqueue sh_req_ring set_req_ring (enc_tlp ?req) (legacy ?ctx) = (r, legacy ctx2)"
    using legacy_steps(4) [OF tr, of ?req] v by simp
  show ?thesis
    using assms tr v e legacy_steps(1) [OF p2]
    by (simp add: bridge_send_tlp_def Let_def map_ctx_def del: legacy_fields(5) flip: legacy_fields(4,5) split: prod.splits)
qed

lemma legacy_recv_completion:
  assumes "bc_transport ctx = Some p"
  shows "recv_completion ops cpl (legacy ctx) = map_ctx legacy (recv_completion shm_transport cpl ctx)"
proof -
  obtain m ctx1 where m: "bc_recv_sync shm_transport ctx = (m, ctx1)" by fastforce
  with keeps_transport(3) [of ctx shm_transport] assms obtain p1 where p1: "bc_transport ctx1 = Some p1" by auto
  show ?thesis
    using legacy_steps(2) [OF assms, of ops] legacy_steps(3) [OF p1, of ops] m
    by (auto simp: recv_completion_def map_ctx_def split: recvd.splits prod.splits)
qed

lemma recv_completion_transport:
  "bc_transport ctx \<noteq> None \<Longrightarrow> recv_completion ops cpl ctx = (r, c, ctx') \<Longrightarrow> bc_transport ctx' \<noteq> None"
  using keeps_transport(3) [of ctx ops] keeps_transport(4) [of "snd (bc_recv_sync ops ctx)" ops]
  by (auto simp: recv_completion_def split: recvd.splits prod.splits if_splits)

lemma legacy_wait:
  "bc_transport ctx \<noteq> None \<Longrightarrow> wait_loop ops n tag cpl (legacy ctx) = map_ctx legacy (wait_loop shm_transport n tag cpl ctx)"
proof (induction n arbitrary: cpl ctx)
  case 0
  then show ?case by (simp add: map_ctx_def)
next
  case (Suc n)
  obtain r c ctx1 where r: "recv_completion shm_transport cpl ctx = (r, c, ctx1)" using prod_cases3 by blast
  from Suc.prems obtain p where "bc_transport ctx = Some p" by auto
  from legacy_recv_completion [OF this, of ops cpl] r
  have l: "recv_completion ops cpl (legacy ctx) = (r, c, legacy ctx1)" by (simp add: map_ctx_def)
  have "bc_transport (trace_if (trace_log_cpl c) ctx1) \<noteq> None"
    using recv_completion_transport [OF Suc.prems r] by simp
  with Suc.IH [OF this] show ?case using r l by (simp add: Let_def map_ctx_def)
qed

lemma send_tlp_transport:
  "bc_transport ctx \<noteq> None \<Longrightarrow> bridge_send_tlp ops req ctx = (r, req1, ctx') \<Longrightarrow> bc_transport ctx' \<noteq> None"
  by (auto simp: bridge_send_tlp_def Let_def bc_send_sync_def via_def split: option.splits prod.splits if_splits)

lemma legacy_complete_dma:
  assumes "bc_transport ctx = Some p"
  shows "bridge_complete_dma ops tag status (legacy ctx) = map_prod id legacy (bridge_complete_dma shm_transport tag status ctx)"
proof -
  let ?cpl = "\<lparr>d_tag = tag, d_status = status, d_timestamp = 0\<rparr>"
  obtain r ctx1 where v: "via (tr_send_dma_cpl shm_transport ?cpl) p ctx = (r, ctx1)" by fastforce
  with keeps_transport(1) [of "tr_send_dma_cpl shm_transport ?cpl" p ctx] obtain p1 where "bc_transport ctx1 = Some p1" by auto
  from legacy_steps(1) [OF this] show ?thesis
    using assms v legacy_steps(5) [OF assms, of ?cpl] by (simp add: bridge_complete_dma_def Let_def)
qed

text \<open>A request over TCP: the TLP leaves on the data connection and its notification on the control connection,
  and neither touches what is waiting to be received.\<close>

lemma on_data_sends:
  assumes "sends m f" and "healthy (tp_data p)"
  shows "\<exists>s. on_data f p = (0, p\<lparr>tp_data := s\<rparr>) \<and> sk_out s = sk_out (tp_data p) @ m \<and> sk_in s = sk_in (tp_data p) \<and> healthy s"
  using assms unfolding sends_def on_data_def by fastforce

lemma tcp_send_tlp_done:
  assumes "tcp_inbox ctx ms cs" and "bc_transport ctx = Some p"
  shows "\<exists>ctx1 p1. bridge_send_tlp tcp_transport req ctx = (0, req\<lparr>t_tag := bc_next_tag ctx AND bc_tag_mask ctx\<rparr>, ctx1)
    \<and> tcp_inbox ctx1 ms cs \<and> bc_transport ctx1 = Some p1
    \<and> sk_out (tp_data p1) = sk_out (tp_data p)
        @ msg_bytes TCP_MSG_TLP (enc_tlp (req\<lparr>t_tag := bc_next_tag ctx AND bc_tag_mask ctx\<rparr>))
    \<and> sk_out (tp_ctrl p1) = sk_out (tp_ctrl p) @ msg_bytes TCP_MSG_SYNC (enc_sync (sync_of SYNC_MSG_TLP_READY 0))"
proof -
  let ?req = "req\<lparr>t_tag := bc_next_tag ctx AND bc_tag_mask ctx\<rparr>"
  have aw: "sync_stream.awaits ms (tp_ctrl p)" "cpl_stream.awaits cs (tp_data p)" using assms by (auto simp: tcp_inbox_def)
  then have h: "healthy (tp_ctrl p)" "healthy (tp_data p)"
    by (simp_all add: sync_stream.awaits_def cpl_stream.awaits_def)
  from on_data_sends [OF sends_msg h(2), of TCP_MSG_TLP "enc_tlp ?req"] obtain d
    where d: "tcp_send_tlp ?req p = (0, p\<lparr>tp_data := d\<rparr>)"
      "sk_out d = sk_out (tp_data p) @ msg_bytes TCP_MSG_TLP (enc_tlp ?req)" "sk_in d = sk_in (tp_data p)" "healthy d"
    by (auto simp: tcp_send_tlp_def)
  from on_ctrl_sends [OF sends_msg, of "p\<lparr>tp_data := d\<rparr>" TCP_MSG_SYNC "enc_sync (sync_of SYNC_MSG_TLP_READY 0)"] h(1)
  obtain c where c: "tcp_send_sync (sync_of SYNC_MSG_TLP_READY 0) (p\<lparr>tp_data := d\<rparr>) = (0, p\<lparr>tp_data := d, tp_ctrl := c\<rparr>)"
      "sk_out c = sk_out (tp_ctrl p) @ msg_bytes TCP_MSG_SYNC (enc_sync (sync_of SYNC_MSG_TLP_READY 0))"
      "sk_in c = sk_in (tp_ctrl p)" "healthy c"
    by (auto simp: tcp_send_sync_def)
  have "sync_stream.awaits ms c" "cpl_stream.awaits cs d"
    using aw c d by (simp_all add: sync_stream.awaits_def cpl_stream.awaits_def)
  then show ?thesis
    using assms(2) c d
    by (simp add: bridge_send_tlp_def Let_def trace_if_def via_def bc_send_sync_def tcp_transport_def tcp_inbox_def)
qed

lemma tcp_send_and_wait:
  assumes "tcp_inbox ctx (replicate (Suc (length stale)) (sync_of SYNC_MSG_CPL_READY 0) @ ms) (stale @ c # cs)"
    and "bc_transport ctx = Some p" and "c_tag c = bc_next_tag ctx AND bc_tag_mask ctx"
    and "\<forall>s\<in>set stale. c_tag s \<noteq> c_tag c" and "length stale < 256"
  shows "\<exists>ctx'. bridge_send_tlp_and_wait tcp_transport req cpl ctx = (0, req\<lparr>t_tag := c_tag c\<rparr>, c, ctx') \<and> tcp_inbox ctx' ms cs"
proof -
  from tcp_send_tlp_done [OF assms(1,2), of req] obtain ctx1
    where s: "bridge_send_tlp tcp_transport req ctx = (0, req\<lparr>t_tag := c_tag c\<rparr>, ctx1)"
      "tcp_inbox ctx1 (replicate (Suc (length stale)) (sync_of SYNC_MSG_CPL_READY 0) @ ms) (stale @ c # cs)"
    unfolding assms(3) [symmetric] by blast
  obtain ctx' where "bridge_wait_completion tcp_transport (c_tag c) cpl ctx1 = (0, c, ctx')" "tcp_inbox ctx' ms cs"
    using tcp_source.wait_completion_finds [OF s(2) _ _ assms(4) refl assms(5), of cpl] by auto
  then show ?thesis using s(1) by (simp add: bridge_send_tlp_and_wait_def)
qed

text \<open>DMA read data over TCP: the data and the completion leave on the auxiliary connection, in this order,
  and the notification on the control connection.\<close>

lemma on_aux_sends:
  assumes "sends m f" and "tp_aux p = Some a" and "healthy a"
  shows "\<exists>a'. on_aux f p = (0, p\<lparr>tp_aux := Some a'\<rparr>) \<and> sk_out a' = sk_out a @ m \<and> healthy a'"
  using assms unfolding sends_def on_aux_def aux_or_data_def by fastforce

subsection \<open>Properties\<close>

text \<open>C31: The tags of consecutive requests are consecutive modulo 1024, so up to 1024 outstanding requests have
  different tags, whether or not the sends succeed.\<close>

theorem tlp_tags_unique:
  assumes "bc_tag_mask ctx = 0x03FF" and "length reqs \<le> 1024"
  shows "distinct (map t_tag (fst (bridge_send_tlps ops reqs ctx)))
    \<and> map (unat \<circ> t_tag) (fst (bridge_send_tlps ops reqs ctx))
      = map (\<lambda>i. (unat (bc_next_tag ctx) + i) mod 1024) [0..<length reqs]"
proof -
  note tags = send_tlps_tags [OF assms(1), of ops reqs]
  have "distinct (map (unat \<circ> t_tag) (fst (bridge_send_tlps ops reqs ctx)))"
    unfolding tags by (rule distinct_mod_upt [OF assms(2)])
  then have "distinct (map unat (map t_tag (fst (bridge_send_tlps ops reqs ctx))))" by simp
  then show ?thesis using tags by (simp only: distinct_map)
qed

theorem tlp_tags_unique_witness:
  "map (unat \<circ> t_tag) (fst (bridge_send_tlps shm_transport [tlp_zero, tlp_zero, tlp_zero]
      ((bridge_ctx_new cosim_shm_init None)\<lparr>bc_next_tag := 1022\<rparr>))) = [1022, 1023, 0]"
  using tlp_tags_unique [of "(bridge_ctx_new cosim_shm_init None)\<lparr>bc_next_tag := 1022\<rparr>" "[tlp_zero, tlp_zero, tlp_zero]" shm_transport]
  by (simp add: bridge_ctx_new_def upt_rec)

text \<open>A context with a completion of another request and then one with tag 5 on the way.\<close>

definition tcp_ctx_example :: "transport_tcp_priv bridge_ctx" where
  "tcp_ctx_example = bridge_ctx_new cosim_shm_init (Some (priv_init True
     (fresh_sock (concat (map (\<lambda>m. msg_bytes TCP_MSG_SYNC (enc_sync m)) [sync_of SYNC_MSG_CPL_READY 0, sync_of SYNC_MSG_CPL_READY 0])))
     (fresh_sock (concat (map (\<lambda>m. msg_bytes TCP_MSG_CPL (enc_cpl m)) [cpl_zero, cpl_zero\<lparr>c_tag := 5\<rparr>]))) None))"

lemma tcp_ctx_example_inbox:
  "tcp_inbox tcp_ctx_example (replicate (Suc (length [cpl_zero])) (sync_of SYNC_MSG_CPL_READY 0) @ [])
     ([cpl_zero] @ cpl_zero\<lparr>c_tag := 5\<rparr> # [])"
proof -
  have wf: "list_all wf_cpl [cpl_zero, cpl_zero\<lparr>c_tag := 5\<rparr>]" by (simp add: wf_cpl_def cpl_zero_def)
  then show ?thesis
    unfolding tcp_inbox_def tcp_ctx_example_def bridge_ctx_new_def priv_init_def
    using cpl_stream.awaits_fresh [OF wf] sync_stream.awaits_fresh [of "[sync_of SYNC_MSG_CPL_READY 0, sync_of SYNC_MSG_CPL_READY 0]"]
    by simp
qed



text \<open>C4: Over TCP, a request whose completion is on the way behind fewer than 256 stale completions of
  fire-and-forget requests returns with its own completion; exactly the stale ones and it are consumed.\<close>

theorem tcp_request_completed:
  assumes "tcp_inbox ctx (replicate (Suc (length stale)) (sync_of SYNC_MSG_CPL_READY 0) @ ms) (stale @ c # cs)"
    and "bc_transport ctx = Some p" and "c_tag c = bc_next_tag ctx AND bc_tag_mask ctx"
    and "\<forall>s\<in>set stale. c_tag s \<noteq> c_tag c" and "length stale < 256"
  shows "\<exists>ctx'. bridge_send_tlp_and_wait tcp_transport req cpl ctx = (0, req\<lparr>t_tag := c_tag c\<rparr>, c, ctx') \<and> tcp_inbox ctx' ms cs"
  by (rule tcp_send_and_wait [OF assms])

theorem tcp_request_completed_witness:
  "\<exists>ctx'. bridge_send_tlp_and_wait tcp_transport tlp_zero cpl_zero (tcp_ctx_example\<lparr>bc_next_tag := 5\<rparr>)
    = (0, tlp_zero\<lparr>t_tag := 5\<rparr>, cpl_zero\<lparr>c_tag := 5\<rparr>, ctx')"
proof -
  have mask: "bc_tag_mask tcp_ctx_example = 0x03FF" by (simp add: tcp_ctx_example_def bridge_ctx_new_def)
  obtain p where p: "bc_transport (tcp_ctx_example\<lparr>bc_next_tag := 5\<rparr>) = Some p"
    by (simp add: tcp_ctx_example_def bridge_ctx_new_def)
  have "tcp_inbox (tcp_ctx_example\<lparr>bc_next_tag := 5\<rparr>)
      (replicate (Suc (length [cpl_zero])) (sync_of SYNC_MSG_CPL_READY 0) @ []) ([cpl_zero] @ cpl_zero\<lparr>c_tag := 5\<rparr> # [])"
    using tcp_ctx_example_inbox by (simp add: tcp_inbox_def)
  from tcp_request_completed [OF this p, of tlp_zero cpl_zero] show ?thesis
    by (auto simp: mask cpl_zero_def)
qed

text \<open>In shared memory, without a transport, a waiter finds its completion behind up to 255 stale ones, and
  the ring and the socket lose exactly what was consumed.\<close>

lemma shm_wait_skips_stale:
  fixes ctx :: "'p bridge_ctx"
  assumes "shm_inbox ctx (replicate (Suc (length stale)) (sync_of SYNC_MSG_CPL_READY 0) @ ms) (stale @ c # cs)"
    and "\<forall>s\<in>set stale. c_tag s \<noteq> c_tag c" and "length stale < 256"
  shows "\<exists>ctx'. bridge_wait_completion ops (c_tag c) cpl ctx = (0, c, ctx') \<and> shm_inbox ctx' ms cs"
  by (rule shm_source.wait_completion_finds [OF assms(1) _ _ assms(2) refl assms(3)]) simp_all

definition shm_ctx_example :: "transport_shm_priv bridge_ctx" where
  "shm_ctx_example = bridge_ctx_new (set_cpl_ring (snd (ring_buf_enqueue (sh_cpl_ring cosim_shm_init)
     (enc_cpl (cpl_zero\<lparr>c_tag := 7\<rparr>)))) cosim_shm_init) None
     \<lparr>bc_client := Some (fresh_sock (enc_sync (sync_of SYNC_MSG_CPL_READY 0)))\<rparr>"

lemma shm_wait_skips_stale_witness:
  "\<exists>ctx'. bridge_wait_completion shm_transport 7 cpl_zero shm_ctx_example = (0, cpl_zero\<lparr>c_tag := 7\<rparr>, ctx')"
proof -
  let ?c = "cpl_zero\<lparr>c_tag := 7\<rparr>" and ?p = "\<lparr>ts_shm = cosim_shm_init, ts_eth = None, ts_client = fresh_sock [], ts_is_server = True\<rparr>"
  have wf: "wf_cpl ?c" by (simp add: wf_cpl_def cpl_zero_def)
  have r: "ring_of cpl_size (sh_cpl_ring cosim_shm_init)" using shm_inv_init by (simp add: shm_inv_def)
  have ring: "sh_cpl_ring cosim_shm_init = shm_ring 0x100000 84" by (rule shm_init_rings(2))
  have items: "ring_items (sh_cpl_ring cosim_shm_init) = []" "ring_cap (sh_cpl_ring cosim_shm_init) = (0x100000 - 16) div unat (84 :: u32) - 1"
    unfolding ring by (rule shm_ring_init; simp)+
  have ok: "ring_ok cpl_size (enc_cpl ?c)" using wf by (simp add: ring_ok_def cpl_size_def)
  have "ring_of cpl_size (snd (ring_buf_enqueue (sh_cpl_ring cosim_shm_init) (enc_cpl ?c)))"
    "ring_items (snd (ring_buf_enqueue (sh_cpl_ring cosim_shm_init) (enc_cpl ?c))) = [enc_cpl ?c]"
    using rb.enq_inv [OF r ok] rb.enq_room [OF r ok] items by simp_all
  then have "shm_inbox shm_ctx_example [sync_of SYNC_MSG_CPL_READY 0] [?c]"
    using wf by (simp add: shm_inbox_def shm_ctx_example_def bridge_ctx_new_def fresh_sock_def set_cpl_ring_def)
  then show ?thesis
    using shm_wait_skips_stale [of shm_ctx_example "[]" "[]" ?c "[]" shm_transport cpl_zero] by auto
qed

text \<open>C33: A bridge context working on the shared object and socket directly and one using the shared-memory
  transport on the same object behave alike: the same results and the same effects for requests,
  completions and DMA completions.\<close>

theorem shm_paths_agree:
  assumes "bc_transport ctx = Some p"
  shows "bridge_send_tlp ops req (legacy ctx) = map_ctx legacy (bridge_send_tlp shm_transport req ctx)
    \<and> bridge_wait_completion ops tag cpl (legacy ctx) = map_ctx legacy (bridge_wait_completion shm_transport tag cpl ctx)
    \<and> bridge_complete_dma ops dtag status (legacy ctx) = map_prod id legacy (bridge_complete_dma shm_transport dtag status ctx)"
  using legacy_send_tlp [OF assms] legacy_wait [of ctx ops 256] legacy_complete_dma [OF assms] assms
  by (simp add: bridge_wait_completion_def)

theorem shm_paths_agree_witness:
  "fst (bridge_complete_dma shm_transport 9 0 (legacy (bridge_ctx_new cosim_shm_init (Some
      \<lparr>ts_shm = cosim_shm_init, ts_eth = None, ts_client = fresh_sock [], ts_is_server = True\<rparr>))))
   = fst (bridge_complete_dma shm_transport 9 0 (bridge_ctx_new cosim_shm_init (Some
      \<lparr>ts_shm = cosim_shm_init, ts_eth = None, ts_client = fresh_sock [], ts_is_server = True\<rparr>)))"
  using shm_paths_agree [of "bridge_ctx_new cosim_shm_init (Some
      \<lparr>ts_shm = cosim_shm_init, ts_eth = None, ts_client = fresh_sock [], ts_is_server = True\<rparr>)"]
  by (simp add: bridge_ctx_new_def)

text \<open>Completing a DMA read over TCP with an auxiliary connection puts the data message and then the
  completion on that connection, and notifies on the control connection with the same tag.\<close>

lemma dma_read_completed:
  assumes "bc_transport ctx = Some p" and "tp_aux p = Some a" and "healthy a" and "healthy (tp_ctrl p)"
  shows "\<exists>ctx' p' a'. bridge_complete_dma_with_data tcp_transport tag status direction host_addr data ctx = (0, ctx')
    \<and> bc_transport ctx' = Some p' \<and> tp_aux p' = Some a'
    \<and> sk_out a' = sk_out a
        @ dma_data_bytes \<lparr>dd_tag = tag, dd_direction = direction, dd_host_addr = host_addr, dd_bytes = data\<rparr>
        @ msg_bytes TCP_MSG_DMA_CPL (enc_dma_cpl \<lparr>d_tag = tag, d_status = status, d_timestamp = 0\<rparr>)
    \<and> sk_out (tp_ctrl p') = sk_out (tp_ctrl p) @ msg_bytes TCP_MSG_SYNC (enc_sync (sync_of SYNC_MSG_DMA_CPL tag))"
proof -
  let ?d = "\<lparr>dd_tag = tag, dd_direction = direction, dd_host_addr = host_addr, dd_bytes = data\<rparr>"
  let ?c = "\<lparr>d_tag = tag, d_status = status, d_timestamp = 0\<rparr>"
  have "sends (dma_data_bytes ?d) (sock_send_dma_data tag direction host_addr data)"
    using sends_dma_data [of ?d] by simp
  from on_aux_sends [OF this assms(2,3)] obtain a1
    where s1: "tcp_send_dma_data tag direction host_addr data p = (0, p\<lparr>tp_aux := Some a1\<rparr>)"
      "sk_out a1 = sk_out a @ dma_data_bytes ?d" "healthy a1" by (auto simp: tcp_send_dma_data_def)
  from on_aux_sends [OF sends_msg, of "p\<lparr>tp_aux := Some a1\<rparr>" a1 TCP_MSG_DMA_CPL "enc_dma_cpl ?c"] s1(3) obtain a2
    where s2: "tcp_send_dma_cpl ?c (p\<lparr>tp_aux := Some a1\<rparr>) = (0, p\<lparr>tp_aux := Some a2\<rparr>)"
      "sk_out a2 = sk_out a1 @ msg_bytes TCP_MSG_DMA_CPL (enc_dma_cpl ?c)" by (auto simp: tcp_send_dma_cpl_def)
  from on_ctrl_sends [OF sends_msg, of "p\<lparr>tp_aux := Some a2\<rparr>" TCP_MSG_SYNC "enc_sync (sync_of SYNC_MSG_DMA_CPL tag)"] assms(4)
  obtain s where "tcp_send_sync (sync_of SYNC_MSG_DMA_CPL tag) (p\<lparr>tp_aux := Some a2\<rparr>) = (0, p\<lparr>tp_aux := Some a2, tp_ctrl := s\<rparr>)"
    "sk_out s = sk_out (tp_ctrl p) @ msg_bytes TCP_MSG_SYNC (enc_sync (sync_of SYNC_MSG_DMA_CPL tag))"
    by (auto simp: tcp_send_sync_def)
  then show ?thesis
    using assms(1) s1 s2
    by (simp add: bridge_complete_dma_with_data_def bridge_complete_dma_def Let_def via_def bc_send_sync_def tcp_transport_def)
qed

lemma dma_read_completed_witness:
  "\<exists>ctx' p'. bridge_complete_dma_with_data tcp_transport 3 0 DMA_DIR_READ 0x1000 [1, 2, 3]
      (bridge_ctx_new cosim_shm_init (Some (priv_init True (fresh_sock []) (fresh_sock []) (Some (fresh_sock []))))) = (0, ctx')
    \<and> bc_transport ctx' = Some p'
    \<and> sk_out (tp_ctrl p') = msg_bytes TCP_MSG_SYNC (enc_sync (sync_of SYNC_MSG_DMA_CPL 3))"
proof -
  let ?p = "priv_init True (fresh_sock []) (fresh_sock []) (Some (fresh_sock []))"
  have p: "bc_transport (bridge_ctx_new cosim_shm_init (Some ?p)) = Some ?p" "tp_aux ?p = Some (fresh_sock [])"
    "healthy (tp_ctrl ?p)" "sk_out (tp_ctrl ?p) = []"
    by (simp_all add: bridge_ctx_new_def priv_init_def) (simp add: fresh_sock_def)
  from dma_read_completed [OF p(1,2) healthy_fresh p(3), where tag = 3 and status = 0 and direction = DMA_DIR_READ
      and host_addr = "0x1000" and data = "[1, 2, 3]"]
  show ?thesis unfolding p(4) append_Nil by blast
qed

end
