(* ===== verification/Irq_Poller.thy ===== *)
theory Irq_Poller
  imports Tcp_Streams
begin

section \<open>The interrupt and DMA poller of the QEMU side: irq\_poller.c\<close>

text \<open>
  The poller thread reads DMA requests and MSI events and hands them to callbacks.  Its state is a
  pair: the private state of the transport (or the shared object), and the state \<open>'u\<close> of the user
  that the callbacks work on.  A callback may use the transport too, as the devices do to answer.
  One pass of the outer loop is one application of \<open>poller_pass\<close>.
\<close>

record 's irq_poller =
  ip_dma_cb :: "(dma_req \<Rightarrow> 's \<Rightarrow> 's) option"
  ip_msi_cb :: "(u32 \<Rightarrow> 's \<Rightarrow> 's) option"
  ip_msi_cb_ex :: "(u16 \<Rightarrow> u16 \<Rightarrow> 's \<Rightarrow> 's) option"

definition irq_poller_start :: "(dma_req \<Rightarrow> 's \<Rightarrow> 's) option \<Rightarrow> (u32 \<Rightarrow> 's \<Rightarrow> 's) option \<Rightarrow> 's irq_poller" where
  "irq_poller_start dma_cb msi_cb = \<lparr>ip_dma_cb = dma_cb, ip_msi_cb = msi_cb, ip_msi_cb_ex = None\<rparr>"

definition irq_poller_start_v2 :: "(dma_req \<Rightarrow> 's \<Rightarrow> 's) option \<Rightarrow> (u16 \<Rightarrow> u16 \<Rightarrow> 's \<Rightarrow> 's) option \<Rightarrow> 's irq_poller" where
  "irq_poller_start_v2 dma_cb msi_cb_ex = \<lparr>ip_dma_cb = dma_cb, ip_msi_cb = None, ip_msi_cb_ex = msi_cb_ex\<rparr>"

definition call_dma :: "'s irq_poller \<Rightarrow> dma_req \<Rightarrow> 's \<Rightarrow> 's" where
  "call_dma pl req s = (case ip_dma_cb pl of Some cb \<Rightarrow> cb req s | None \<Rightarrow> s)"

definition call_msi :: "'s irq_poller \<Rightarrow> msi_event \<Rightarrow> 's \<Rightarrow> 's" where
  "call_msi pl ev s = (case ip_msi_cb_ex pl of
     Some cb \<Rightarrow> cb (m_requester_id ev) (m_vector ev) s
   | None \<Rightarrow> (case ip_msi_cb pl of Some cb \<Rightarrow> cb (ucast (m_vector ev)) s | None \<Rightarrow> s))"

subsection \<open>Through a transport\<close>

text \<open>The rounds of one pass: did it work, and the state.\<close>

fun poll_rounds :: "'p transport \<Rightarrow> ('p \<times> 'u) irq_poller \<Rightarrow> nat \<Rightarrow> bool \<Rightarrow> 'p \<times> 'u \<Rightarrow> bool \<times> 'p \<times> 'u" where
  "poll_rounds ops pl 0 did_work s = (did_work, s)"
| "poll_rounds ops pl (Suc rounds) did_work (p, u) =
     (case tr_recv_dma_req_nb ops p of
        (Got req, p1) \<Rightarrow> poll_rounds ops pl rounds True (call_dma pl req (p1, u))
      | (_, p1) \<Rightarrow> (case tr_recv_msi_nb ops p1 of
            (Got ev, p2) \<Rightarrow> poll_rounds ops pl rounds True (call_msi pl ev (p2, u))
          | (_, p2) \<Rightarrow> (did_work, p2, u)))"

definition poller_pass :: "'p transport \<Rightarrow> ('p \<times> 'u) irq_poller \<Rightarrow> 'p \<times> 'u \<Rightarrow> bool \<times> 'p \<times> 'u" where
  "poller_pass ops pl s = poll_rounds ops pl 64 False s"

text \<open>The thread: \<open>n\<close> passes, after which \<open>stop\<close> is read as set.\<close>

fun poller_thread :: "'p transport \<Rightarrow> ('p \<times> 'u) irq_poller \<Rightarrow> nat \<Rightarrow> 'p \<times> 'u \<Rightarrow> 'p \<times> 'u" where
  "poller_thread ops pl 0 s = s"
| "poller_thread ops pl (Suc n) s = poller_thread ops pl n (snd (poller_pass ops pl s))"

subsection \<open>In shared memory\<close>

text \<open>Emptying a ring; \<^theory_text>\<open>None\<close> would mean that the callbacks fill it forever.\<close>

partial_function (option) drain_ring ::
  "(cosim_shm \<Rightarrow> ring_buf) \<Rightarrow> (ring_buf \<Rightarrow> cosim_shm \<Rightarrow> cosim_shm) \<Rightarrow> (bytes \<Rightarrow> cosim_shm \<times> 'u \<Rightarrow> cosim_shm \<times> 'u)
    \<Rightarrow> bool \<Rightarrow> cosim_shm \<times> 'u \<Rightarrow> (bool \<times> cosim_shm \<times> 'u) option" where
  [code]: "drain_ring gt st call did_work s =
     (case ring_buf_dequeue (gt (fst s)) of
        (None, rb) \<Rightarrow> Some (did_work, st rb (fst s), snd s)
      | (Some bs, rb) \<Rightarrow> drain_ring gt st call True (call bs (st rb (fst s), snd s)))"

definition poller_pass_shm :: "(cosim_shm \<times> 'u) irq_poller \<Rightarrow> cosim_shm \<times> 'u \<Rightarrow> (bool \<times> cosim_shm \<times> 'u) option" where
  "poller_pass_shm pl s =
     Option.bind (drain_ring sh_dma_req_ring set_dma_req_ring (\<lambda>bs. call_dma pl (dec_dma_req bs)) False s)
       (\<lambda>(w, s1). drain_ring sh_msi_ring set_msi_ring (\<lambda>bs. call_msi pl (dec_msi bs)) w s1)"

subsection \<open>Events in order\<close>

datatype irq_event = Irq_Dma dma_req | Irq_Msi msi_event

primrec call_event :: "'s irq_poller \<Rightarrow> irq_event \<Rightarrow> 's \<Rightarrow> 's" where
  "call_event pl (Irq_Dma r) = call_dma pl r"
| "call_event pl (Irq_Msi e) = call_msi pl e"

text \<open>A transport on which a sequence of events is waiting.\<close>

locale event_source =
  fixes ops :: "'p transport" and waiting :: "'p \<Rightarrow> irq_event list \<Rightarrow> bool"
  assumes next_dma: "waiting p (Irq_Dma r # es) \<Longrightarrow> \<exists>p'. tr_recv_dma_req_nb ops p = (Got r, p') \<and> waiting p' es"
    and not_dma: "waiting p (Irq_Msi e # es) \<Longrightarrow> \<exists>p'. tr_recv_dma_req_nb ops p = (Nothing, p') \<and> waiting p' (Irq_Msi e # es)"
    and next_msi: "waiting p (Irq_Msi e # es) \<Longrightarrow> \<exists>p'. tr_recv_msi_nb ops p = (Got e, p') \<and> waiting p' es"
    and no_dma: "waiting p [] \<Longrightarrow> \<exists>p'. tr_recv_dma_req_nb ops p = (Nothing, p') \<and> waiting p' []"
    and no_msi: "waiting p [] \<Longrightarrow> \<exists>p'. tr_recv_msi_nb ops p = (Nothing, p') \<and> waiting p' []"
begin

text \<open>Callbacks that answer through the transport but do not disturb what is waiting, and whose effect on
  the user state is \<open>h\<close>.\<close>

definition well_behaved :: "('p \<times> 'u) irq_poller \<Rightarrow> (irq_event \<Rightarrow> 'u \<Rightarrow> 'u) \<Rightarrow> bool" where
  "well_behaved pl h \<longleftrightarrow> (\<forall>e p u es. waiting p es \<longrightarrow>
     waiting (fst (call_event pl e (p, u))) es \<and> snd (call_event pl e (p, u)) = h e u)"

lemma rounds_dispatch:
  assumes "well_behaved pl h" and "waiting p es"
  shows "\<exists>p' w'. poll_rounds ops pl n w (p, u) = (w', p', foldl (\<lambda>u e. h e u) u (take n es)) \<and> waiting p' (drop n es)"
  using assms(2)
proof (induction es arbitrary: n w p u)
  case Nil
  obtain p1 where "tr_recv_dma_req_nb ops p = (Nothing, p1)" "waiting p1 []" using no_dma Nil by blast
  moreover then obtain p2 where "tr_recv_msi_nb ops p1 = (Nothing, p2)" "waiting p2 []" using no_msi by blast
  ultimately show ?case using Nil by (cases n) auto
next
  case (Cons e es)
  show ?case
  proof (cases n)
    case 0
    then show ?thesis using Cons.prems by auto
  next
    case (Suc k)
    have step: "\<exists>p1. poll_rounds ops pl n w (p, u) = poll_rounds ops pl k True (call_event pl e (p1, u)) \<and> waiting p1 es"
    proof (cases e)
      case (Irq_Dma r)
      then show ?thesis using next_dma Cons.prems(1) Suc by fastforce
    next
      case (Irq_Msi m)
      obtain p1 where "tr_recv_dma_req_nb ops p = (Nothing, p1)" "waiting p1 (Irq_Msi m # es)"
        using not_dma Cons.prems(1) Irq_Msi by blast
      moreover then obtain p2 where "tr_recv_msi_nb ops p1 = (Got m, p2)" "waiting p2 es" using next_msi by blast
      ultimately show ?thesis using Irq_Msi Suc by auto
    qed
    then obtain p1 where p1: "poll_rounds ops pl n w (p, u) = poll_rounds ops pl k True (call_event pl e (p1, u))"
      "waiting p1 es" by blast
    have "waiting (fst (call_event pl e (p1, u))) es" "snd (call_event pl e (p1, u)) = h e u"
      using assms(1) p1(2) by (simp_all add: well_behaved_def)
    then show ?thesis
      using Cons.IH [of "fst (call_event pl e (p1, u))" k True "h e u"] Suc p1(1)
      by (cases "call_event pl e (p1, u)") auto
  qed
qed

lemma thread_dispatches:
  assumes "well_behaved pl h" and "waiting p es"
  shows "\<exists>p'. poller_thread ops pl n (p, u) = (p', foldl (\<lambda>u e. h e u) u (take (64 * n) es)) \<and> waiting p' (drop (64 * n) es)"
  using assms(2)
proof (induction n arbitrary: p u es)
  case 0
  then show ?case by simp
next
  case (Suc n)
  from rounds_dispatch [OF assms(1) Suc.prems, of 64 False u] obtain p1 w
    where p1: "poller_pass ops pl (p, u) = (w, p1, foldl (\<lambda>u e. h e u) u (take 64 es))" "waiting p1 (drop 64 es)"
    unfolding poller_pass_def by blast
  from Suc.IH [OF p1(2), of "foldl (\<lambda>u e. h e u) u (take 64 es)"] p1(1)
  show ?case by (simp add: take_add foldl_append add.commute)
qed

end

subsection \<open>The TCP transport as a source of events\<close>

lemma peek_head:
  assumes "sk_polls s = []" and "sk_in s = msg_bytes ty payload @ rest"
  shows "tcp_peek_aux_msg_type s = (Some (msg_code ty), s)"
proof -
  let ?h = "\<lparr>h_msg_type = msg_code ty, h_payload_len = of_nat (length payload)\<rparr>"
  have "take 8 (sk_in s) = enc_hdr ?h" using assms(2) tcp_codecs(1) [of ?h] by (simp add: msg_bytes_def)
  moreover have "sk_in s \<noteq> []"
    unfolding assms(2) using length_msg_bytes [of ty payload] by (metis Nil_is_append_conv add_eq_0_iff_both_eq_0 list.size(3) zero_neq_numeral)
  moreover have "8 \<le> length (sk_in s)" using assms(2) by simp
  ultimately show ?thesis using assms(1) by (simp add: tcp_peek_aux_msg_type_def sk_poll_def sk_peek_def min_def)
qed

lemma nb_hit:
  assumes "sk_polls s = []" and "healthy s" and "sk_in s = msg_bytes ty payload @ rest" and "length payload = n"
  shows "\<exists>s'. tcp_recv_nb ty n dec s = (Got (dec payload), s') \<and> sk_in s' = rest \<and> healthy s' \<and> sk_polls s' = []"
proof -
  let ?h = "\<lparr>h_msg_type = msg_code ty, h_payload_len = of_nat (length payload)\<rparr>"
  have "sk_in s = enc_hdr ?h @ (payload @ rest)" using assms(3) by (simp add: msg_bytes_def)
  with reads_hdr [of ?h] assms(2) obtain s1
    where s1: "tcp_recv_hdr s = (Some ?h, s1)" "sk_in s1 = payload @ rest" "healthy s1" unfolding reads_def by blast
  with reads_body [OF assms(4), of dec] obtain s2
    where s2: "tcp_recv_body n dec s1 = (Got (dec payload), s2)" "sk_in s2 = rest" "healthy s2" unfolding reads_def by blast
  show ?thesis
    using s1 s2 peek_head [OF assms(1,3)] recv_hdr_body_polls(1) [of s] recv_hdr_body_polls(2) [of n dec s1] assms(1)
    by (simp add: tcp_recv_nb_def)
qed

lemma nb_miss:
  assumes "sk_polls s = []" and "sk_in s = msg_bytes ty payload @ rest" and "ty \<noteq> ty'"
  shows "tcp_recv_nb ty' n dec s = (Nothing, s)"
  using peek_head [OF assms(1,2)] assms(3) by (simp add: tcp_recv_nb_def)

lemma nb_empty: "sk_polls s = [] \<Longrightarrow> sk_in s = [] \<Longrightarrow> tcp_recv_nb ty n dec s = (Nothing, s)"
  by (simp add: tcp_recv_nb_def tcp_peek_aux_msg_type_def sk_poll_def)

primrec event_bytes :: "irq_event \<Rightarrow> bytes" where
  "event_bytes (Irq_Dma r) = msg_bytes TCP_MSG_DMA_REQ (enc_dma_req r)"
| "event_bytes (Irq_Msi e) = msg_bytes TCP_MSG_MSI (enc_msi e)"

definition tcp_waiting :: "transport_tcp_priv \<Rightarrow> irq_event list \<Rightarrow> bool" where
  "tcp_waiting p es \<longleftrightarrow> sk_polls (aux_or_data p) = [] \<and> healthy (aux_or_data p)
     \<and> sk_in (aux_or_data p) = concat (map event_bytes es)"

lemma on_aux_step: "f (aux_or_data p) = (r, s) \<Longrightarrow> \<exists>p'. on_aux f p = (r, p') \<and> aux_or_data p' = s"
  by (auto simp: on_aux_def aux_or_data_upd)

lemma tcp_nb_step:
  "tcp_recv_nb TCP_MSG_DMA_REQ 32 dec_dma_req (aux_or_data p) = (r, s) \<Longrightarrow>
     \<exists>p'. tr_recv_dma_req_nb tcp_transport p = (r, p') \<and> aux_or_data p' = s"
  "tcp_recv_nb TCP_MSG_MSI 16 dec_msi (aux_or_data p) = (r', s) \<Longrightarrow>
     \<exists>p'. tr_recv_msi_nb tcp_transport p = (r', p') \<and> aux_or_data p' = s"
  using on_aux_step by (fastforce simp: tcp_transport_def tcp_recv_dma_req_nb_def tcp_recv_msi_nb_def)+

interpretation tcp_events: event_source tcp_transport tcp_waiting
proof
  fix p :: transport_tcp_priv and r e es
  show "\<exists>p'. tr_recv_dma_req_nb tcp_transport p = (Got r, p') \<and> tcp_waiting p' es" if "tcp_waiting p (Irq_Dma r # es)"
    using that nb_hit [of "aux_or_data p" TCP_MSG_DMA_REQ "enc_dma_req r" _ 32 dec_dma_req]
    by (fastforce simp: tcp_waiting_def dest: tcp_nb_step(1))
  show "\<exists>p'. tr_recv_msi_nb tcp_transport p = (Got e, p') \<and> tcp_waiting p' es" if "tcp_waiting p (Irq_Msi e # es)"
    using that nb_hit [of "aux_or_data p" TCP_MSG_MSI "enc_msi e" _ 16 dec_msi]
    by (fastforce simp: tcp_waiting_def dest: tcp_nb_step(2))
  show "\<exists>p'. tr_recv_dma_req_nb tcp_transport p = (Nothing, p') \<and> tcp_waiting p' (Irq_Msi e # es)" if "tcp_waiting p (Irq_Msi e # es)"
    using that nb_miss [of "aux_or_data p" TCP_MSG_MSI "enc_msi e" _ TCP_MSG_DMA_REQ 32 dec_dma_req]
    by (fastforce simp: tcp_waiting_def dest: tcp_nb_step(1))
  show "\<exists>p'. tr_recv_dma_req_nb tcp_transport p = (Nothing, p') \<and> tcp_waiting p' []" if "tcp_waiting p []"
    using that nb_empty [of "aux_or_data p" TCP_MSG_DMA_REQ 32 dec_dma_req]
    by (fastforce simp: tcp_waiting_def dest: tcp_nb_step(1))
  show "\<exists>p'. tr_recv_msi_nb tcp_transport p = (Nothing, p') \<and> tcp_waiting p' []" if "tcp_waiting p []"
    using that nb_empty [of "aux_or_data p" TCP_MSG_MSI 16 dec_msi]
    by (fastforce simp: tcp_waiting_def dest: tcp_nb_step(2))
qed

subsection \<open>Emptying a ring\<close>

lemma drain_ring_all:
  assumes get_set: "\<And>r s. gt (st r s) = r"
    and keeps: "\<And>bs s u. gt (fst (call bs (s, u))) = gt s"
    and user: "\<And>bs s u. snd (call bs (s, u)) = h bs u"
    and other: "\<And>r s. other (st r s) = other s" "\<And>bs s u. other (fst (call bs (s, u))) = other s"
    and "ring_of e (gt shm)"
  shows "\<exists>shm'. drain_ring gt st call w (shm, u) = Some (w \<or> ring_items (gt shm) \<noteq> [], shm', foldl (\<lambda>u bs. h bs u) u (ring_items (gt shm)))
    \<and> ring_of e (gt shm') \<and> ring_items (gt shm') = [] \<and> other shm' = other shm"
  using assms(6)
proof (induction "ring_items (gt shm)" arbitrary: shm w u)
  case Nil
  then have "ring_buf_dequeue (gt shm) = (None, gt shm)" using rb.deq_none [OF Nil.prems] by simp
  with Nil show ?case by (subst drain_ring.simps) (auto simp: get_set other)
next
  case (Cons bs items)
  have items: "ring_items (gt shm) = bs # items" using Cons.hyps(2) by simp
  obtain rb1 where d: "ring_buf_dequeue (gt shm) = (Some bs, rb1)" "ring_items rb1 = items" "ring_of e rb1"
    using rb.deq_some [OF Cons.prems items] rb.deq_inv [OF Cons.prems] by (cases "ring_buf_dequeue (gt shm)") auto
  obtain shm1 u1 where c: "call bs (st rb1 shm, u) = (shm1, u1)" by fastforce
  have g: "gt shm1 = rb1" and u1: "u1 = h bs u" and o1: "other shm1 = other shm"
    using keeps [of bs "st rb1 shm" u] user [of bs "st rb1 shm" u] other(2) [of bs "st rb1 shm" u] c
    by (simp_all add: get_set other(1))
  have "\<exists>shm'. drain_ring gt st call True (shm1, u1) = Some (True \<or> ring_items (gt shm1) \<noteq> [], shm', foldl (\<lambda>u bs. h bs u) u1 (ring_items (gt shm1)))
      \<and> ring_of e (gt shm') \<and> ring_items (gt shm') = [] \<and> other shm' = other shm1"
    by (rule Cons.hyps(1)) (use g d in simp_all)
  moreover have "drain_ring gt st call w (shm, u) = drain_ring gt st call True (shm1, u1)"
    using d(1) c by (subst drain_ring.simps) simp
  ultimately show ?case using g d(2) u1 items o1 by simp
qed

subsection \<open>Properties\<close>

text \<open>C27: Over TCP the poller hands the DMA requests and MSI events that arrive on its connection to the
  callbacks in the order of arrival, up to 64 in each pass, provided the callbacks leave what is waiting
  alone; after enough passes all have been handled.\<close>

theorem poller_dispatches_in_order:
  assumes "tcp_events.well_behaved pl h" and "tcp_waiting p es"
  shows "\<exists>p'. poller_thread tcp_transport pl n (p, u) = (p', foldl (\<lambda>u e. h e u) u (take (64 * n) es))
    \<and> tcp_waiting p' (drop (64 * n) es)"
  by (rule tcp_events.thread_dispatches [OF assms])

definition record_poller :: "(transport_tcp_priv \<times> irq_event list) irq_poller" where
  "record_poller = \<lparr>ip_dma_cb = Some (\<lambda>r (p, u). (p, u @ [Irq_Dma r])), ip_msi_cb = None,
     ip_msi_cb_ex = Some (\<lambda>rid v (p, u). (p, u @ [Irq_Msi \<lparr>m_requester_id = rid, m_vector = v, m_pad0 = 0, m_timestamp = 0\<rparr>]))\<rparr>"

definition irq_events_example :: "irq_event list" where
  "irq_events_example = [Irq_Msi \<lparr>m_requester_id = 0x100, m_vector = 2, m_pad0 = 0, m_timestamp = 0\<rparr>,
     Irq_Dma (dec_dma_req (replicate 32 1))]"

theorem poller_dispatches_in_order_witness:
  "snd (poller_thread tcp_transport record_poller 1
     (priv_init True (fresh_sock []) (fresh_sock []) (Some (fresh_sock (concat (map event_bytes irq_events_example)))), []))
   = irq_events_example"
proof -
  let ?h = "\<lambda>e u. u @ [case e of Irq_Dma r \<Rightarrow> Irq_Dma r
    | Irq_Msi m \<Rightarrow> Irq_Msi \<lparr>m_requester_id = m_requester_id m, m_vector = m_vector m, m_pad0 = 0, m_timestamp = 0\<rparr>]"
  let ?p = "priv_init True (fresh_sock []) (fresh_sock []) (Some (fresh_sock (concat (map event_bytes irq_events_example))))"
  have wb: "tcp_events.well_behaved record_poller ?h"
    by (simp add: tcp_events.well_behaved_def record_poller_def call_dma_def call_msi_def split: irq_event.splits)
  have aux: "aux_or_data ?p = fresh_sock (concat (map event_bytes irq_events_example))"
    by (simp add: priv_init_def aux_or_data_def)
  have "tcp_waiting ?p irq_events_example"
    unfolding tcp_waiting_def aux using healthy_fresh by (simp add: fresh_sock_def)
  from poller_dispatches_in_order [OF wb this, of 1 "[]"] show ?thesis
    by (auto simp: irq_events_example_def)
qed

text \<open>C34: A message of any other type at the head of the connection stops the poller: no pass ever consumes it
  or calls a callback, whatever waits behind it.\<close>

theorem poller_blocked_by_other_message:
  assumes "ty \<noteq> TCP_MSG_DMA_REQ" and "ty \<noteq> TCP_MSG_MSI" and "sk_polls (aux_or_data p) = []"
    and "sk_in (aux_or_data p) = msg_bytes ty payload @ rest"
  shows "poller_thread tcp_transport pl n (p, u) = (p, u)"
proof (induction n)
  case (Suc n)
  have "tr_recv_dma_req_nb tcp_transport p = (Nothing, p)" "tr_recv_msi_nb tcp_transport p = (Nothing, p)"
    using nb_miss [OF assms(3,4,1), of 32 dec_dma_req] nb_miss [OF assms(3,4,2), of 16 dec_msi]
    by (simp_all add: tcp_transport_def tcp_recv_dma_req_nb_def tcp_recv_msi_nb_def on_aux_def aux_or_data_def split: option.splits)
  then have "poller_pass tcp_transport pl (p, u) = (False, p, u)"
    by (simp add: poller_pass_def numeral_eq_Suc)
  then show ?case using Suc by simp
qed simp

theorem poller_blocked_by_other_message_witness:
  "snd (poller_thread tcp_transport record_poller 1000 (priv_init True (fresh_sock []) (fresh_sock []) (Some (fresh_sock
     (msg_bytes TCP_MSG_DMA_CPL (enc_dma_cpl \<lparr>d_tag = 1, d_status = 0, d_timestamp = 0\<rparr>)
      @ concat (map event_bytes irq_events_example)))), [])) = []"
proof -
  let ?p = "priv_init True (fresh_sock []) (fresh_sock []) (Some (fresh_sock
     (msg_bytes TCP_MSG_DMA_CPL (enc_dma_cpl \<lparr>d_tag = 1, d_status = 0, d_timestamp = 0\<rparr>)
      @ concat (map event_bytes irq_events_example))))"
  have "sk_polls (aux_or_data ?p) = []" "sk_in (aux_or_data ?p) = msg_bytes TCP_MSG_DMA_CPL
      (enc_dma_cpl \<lparr>d_tag = 1, d_status = 0, d_timestamp = 0\<rparr>) @ concat (map event_bytes irq_events_example)"
    by (simp_all add: priv_init_def aux_or_data_def) (simp_all add: fresh_sock_def)
  from poller_blocked_by_other_message [OF _ _ this, of record_poller 1000 "[]"] show ?thesis by simp
qed

text \<open>C35: In shared memory one pass terminates and calls the callbacks for every request in the DMA ring and
  then for every event in the MSI ring, in order, and leaves both rings empty, provided the callbacks do not
  touch these two rings.\<close>

theorem poller_pass_shm_drains:
  assumes "ring_of dma_req_size (sh_dma_req_ring shm)" and "ring_of msi_size (sh_msi_ring shm)"
    and "\<And>e s u. sh_dma_req_ring (fst (call_event pl e (s, u))) = sh_dma_req_ring s
        \<and> sh_msi_ring (fst (call_event pl e (s, u))) = sh_msi_ring s \<and> snd (call_event pl e (s, u)) = h e u"
  shows "\<exists>w shm'. poller_pass_shm pl (shm, u) = Some (w, shm',
      foldl (\<lambda>u e. h e u) u (map (Irq_Dma \<circ> dec_dma_req) (ring_items (sh_dma_req_ring shm))
        @ map (Irq_Msi \<circ> dec_msi) (ring_items (sh_msi_ring shm))))
    \<and> ring_items (sh_dma_req_ring shm') = [] \<and> ring_items (sh_msi_ring shm') = []"
proof -
  have dma: "sh_dma_req_ring (fst (call_dma pl (dec_dma_req bs) (s, u))) = sh_dma_req_ring s"
    "sh_msi_ring (fst (call_dma pl (dec_dma_req bs) (s, u))) = sh_msi_ring s"
    "snd (call_dma pl (dec_dma_req bs) (s, u)) = h (Irq_Dma (dec_dma_req bs)) u" for bs s u
    using assms(3) [of "Irq_Dma (dec_dma_req bs)"] by simp_all
  have msi: "sh_dma_req_ring (fst (call_msi pl (dec_msi bs) (s, u))) = sh_dma_req_ring s"
    "sh_msi_ring (fst (call_msi pl (dec_msi bs) (s, u))) = sh_msi_ring s"
    "snd (call_msi pl (dec_msi bs) (s, u)) = h (Irq_Msi (dec_msi bs)) u" for bs s u
    using assms(3) [of "Irq_Msi (dec_msi bs)"] by simp_all
  let ?u1 = "foldl (\<lambda>u bs. h (Irq_Dma (dec_dma_req bs)) u) u (ring_items (sh_dma_req_ring shm))"
  obtain w1 shm1 where s1: "drain_ring sh_dma_req_ring set_dma_req_ring (\<lambda>bs. call_dma pl (dec_dma_req bs)) False (shm, u) = Some (w1, shm1, ?u1)"
    "ring_items (sh_dma_req_ring shm1) = []" "sh_msi_ring shm1 = sh_msi_ring shm"
    using drain_ring_all [where gt = sh_dma_req_ring and st = set_dma_req_ring and other = sh_msi_ring
        and call = "\<lambda>bs. call_dma pl (dec_dma_req bs)" and h = "\<lambda>bs u. h (Irq_Dma (dec_dma_req bs)) u" and w = False and u = u, OF _ dma(1) dma(3) _ dma(2) assms(1)]
    by (auto simp: set_dma_req_ring_def)
  obtain w2 shm2 where s2: "drain_ring sh_msi_ring set_msi_ring (\<lambda>bs. call_msi pl (dec_msi bs)) w1 (shm1, ?u1)
      = Some (w2, shm2, foldl (\<lambda>u bs. h (Irq_Msi (dec_msi bs)) u) ?u1 (ring_items (sh_msi_ring shm)))"
    "ring_items (sh_msi_ring shm2) = []" "sh_dma_req_ring shm2 = sh_dma_req_ring shm1"
    using drain_ring_all [where gt = sh_msi_ring and st = set_msi_ring and other = sh_dma_req_ring
        and call = "\<lambda>bs. call_msi pl (dec_msi bs)" and h = "\<lambda>bs u. h (Irq_Msi (dec_msi bs)) u" and shm = shm1, OF _ msi(2) msi(3) _ msi(1)]
      assms(2) s1(3)
    by (fastforce simp: set_msi_ring_def)
  show ?thesis
    using s1 s2 by (simp add: poller_pass_shm_def foldl_map)
qed

definition record_poller_shm :: "(cosim_shm \<times> irq_event list) irq_poller" where
  "record_poller_shm = \<lparr>ip_dma_cb = Some (\<lambda>r (s, u). (s, u @ [Irq_Dma r])), ip_msi_cb = None, ip_msi_cb_ex = None\<rparr>"

theorem poller_pass_shm_drains_witness:
  "\<exists>w shm'. poller_pass_shm record_poller_shm (set_dma_req_ring (snd (ring_buf_enqueue (sh_dma_req_ring cosim_shm_init)
      (enc_dma_req (dec_dma_req (replicate 32 1))))) cosim_shm_init, []) = Some (w, shm', [Irq_Dma (dec_dma_req (replicate 32 1))])"
proof -
  let ?r = "dec_dma_req (replicate 32 1)"
  let ?rb = "snd (ring_buf_enqueue (sh_dma_req_ring cosim_shm_init) (enc_dma_req ?r))"
  let ?h = "\<lambda>e u. case e of Irq_Dma r \<Rightarrow> u @ [Irq_Dma r] | Irq_Msi m \<Rightarrow> u"
  have r: "ring_of dma_req_size (sh_dma_req_ring cosim_shm_init)" "ring_of msi_size (sh_msi_ring cosim_shm_init)"
    using shm_inv_init by (simp_all add: shm_inv_def)
  have ring: "sh_dma_req_ring cosim_shm_init = shm_ring 0x40000 32" "sh_msi_ring cosim_shm_init = shm_ring 0x10000 16"
    by (rule shm_init_rings)+
  have items: "ring_items (sh_dma_req_ring cosim_shm_init) = []" "ring_items (sh_msi_ring cosim_shm_init) = []"
    "ring_cap (sh_dma_req_ring cosim_shm_init) = (0x40000 - 16) div unat (32 :: u32) - 1"
    unfolding ring by (rule shm_ring_init; simp)+
  have ok: "ring_ok dma_req_size (enc_dma_req ?r)" by (simp add: ring_ok_def dma_req_size_def)
  have "ring_of dma_req_size ?rb" "ring_items ?rb = [enc_dma_req ?r]"
    using rb.enq_inv [OF r(1) ok] rb.enq_room [OF r(1) ok] items by simp_all
  then have st: "ring_of dma_req_size (sh_dma_req_ring (set_dma_req_ring ?rb cosim_shm_init))"
      "ring_of msi_size (sh_msi_ring (set_dma_req_ring ?rb cosim_shm_init))"
      "ring_items (sh_dma_req_ring (set_dma_req_ring ?rb cosim_shm_init)) = [enc_dma_req ?r]"
      "ring_items (sh_msi_ring (set_dma_req_ring ?rb cosim_shm_init)) = []"
    using r(2) items(2) by (simp_all add: set_dma_req_ring_def)
  have "sh_dma_req_ring (fst (call_event record_poller_shm e (s, u))) = sh_dma_req_ring s
      \<and> sh_msi_ring (fst (call_event record_poller_shm e (s, u))) = sh_msi_ring s
      \<and> snd (call_event record_poller_shm e (s, u)) = ?h e u" for e s u
    by (cases e) (simp_all add: record_poller_shm_def call_dma_def call_msi_def)
  from poller_pass_shm_drains [OF st(1,2) this, of "[]"] st(3,4) show ?thesis by auto
qed

end
