(* ===== verification/Vcs_Rc.thy ===== *)
theory Vcs_Rc
  imports Tcp_Streams
begin

section \<open>The simulator side of the bridge, per root complex: bridge\_vcs.c\<close>

text \<open>
  Each root complex has a context with its transport, topology, and a cache of TLPs that arrived
  while it waited for something else.  Without a transport the context works on the shared object and
  the control socket, which are global in the code; they are the record \<open>shm_side\<close> here.
\<close>

definition TLP_CACHE_SIZE :: nat where [code_consts]: "TLP_CACHE_SIZE = 1024"

record 'p rc_ctx =
  rc_transport :: "'p option"
  rc_topology :: topology_resp
  rc_topology_ready :: bool
  rc_pending_tlp_ready :: int
  rc_vf_event_pending :: bool
  rc_vf_event :: vf_event
  rc_tlp_cache :: "tlp_entry list"
  rc_cache_head :: nat
  rc_cache_tail :: nat
  rc_poll_count :: int
  rc_last_entry :: tlp_entry
  rc_empty_streak :: int

definition rc_zero :: "'p rc_ctx" where
  "rc_zero = \<lparr>rc_transport = None, rc_topology = topology_zero, rc_topology_ready = False,
     rc_pending_tlp_ready = 0, rc_vf_event_pending = False, rc_vf_event = vf_event_zero,
     rc_tlp_cache = replicate TLP_CACHE_SIZE tlp_zero, rc_cache_head = 0, rc_cache_tail = 0, rc_poll_count = 0,
     rc_last_entry = tlp_zero, rc_empty_streak = 0\<rparr>"

record shm_side =
  ss_shm :: cosim_shm
  ss_sock :: "sock option"        \<comment> \<open>\<open>g_sock_fd\<close>; \<^theory_text>\<open>None\<close> for -1\<close>

subsection \<open>The TLP cache\<close>

definition tlp_cache_push_ctx :: "'p rc_ctx \<Rightarrow> tlp_entry \<Rightarrow> rc \<times> 'p rc_ctx" where
  "tlp_cache_push_ctx ctx e =
     (let nxt = (rc_cache_head ctx + 1) mod TLP_CACHE_SIZE
      in if nxt = rc_cache_tail ctx then (-1, ctx)
         else (0, ctx\<lparr>rc_tlp_cache := (rc_tlp_cache ctx)[rc_cache_head ctx := e], rc_cache_head := nxt\<rparr>))"

definition tlp_cache_pop_ctx :: "'p rc_ctx \<Rightarrow> tlp_entry option \<times> 'p rc_ctx" where
  "tlp_cache_pop_ctx ctx =
     (if rc_cache_head ctx = rc_cache_tail ctx then (None, ctx)
      else (Some (rc_tlp_cache ctx ! rc_cache_tail ctx),
            ctx\<lparr>rc_cache_tail := (rc_cache_tail ctx + 1) mod TLP_CACHE_SIZE\<rparr>))"

definition tlp_cache_count_ctx :: "'p rc_ctx \<Rightarrow> int" where
  "tlp_cache_count_ctx ctx =
     (int (rc_cache_head ctx) - int (rc_cache_tail ctx) + int TLP_CACHE_SIZE) mod int TLP_CACHE_SIZE"

definition cache_inv :: "'p rc_ctx \<Rightarrow> bool" where
  "cache_inv ctx \<longleftrightarrow> length (rc_tlp_cache ctx) = TLP_CACHE_SIZE \<and> rc_cache_head ctx < TLP_CACHE_SIZE
     \<and> rc_cache_tail ctx < TLP_CACHE_SIZE"

definition cache_items :: "'p rc_ctx \<Rightarrow> tlp_entry list" where
  "cache_items ctx = map (\<lambda>i. rc_tlp_cache ctx ! i) (ring_idx (rc_cache_tail ctx) (rc_cache_head ctx) TLP_CACHE_SIZE)"

interpretation tlp_cache: bounded_fifo tlp_cache_push_ctx tlp_cache_pop_ctx cache_items cache_inv
    "\<lambda>_. TLP_CACHE_SIZE - 1" "\<lambda>_. True"
proof
  fix ctx :: "'p rc_ctx" and e es
  let ?h = "rc_cache_head ctx" and ?t = "rc_cache_tail ctx"
  assume inv: "cache_inv ctx"
  then have h: "?h < TLP_CACHE_SIZE" and t: "?t < TLP_CACHE_SIZE" and len: "length (rc_tlp_cache ctx) = TLP_CACHE_SIZE"
    by (simp_all add: cache_inv_def)
  have n: "2 \<le> TLP_CACHE_SIZE" by (simp add: code_consts)
  have full: "Suc ?h mod TLP_CACHE_SIZE = ?t \<longleftrightarrow> length (cache_items ctx) = TLP_CACHE_SIZE - 1"
    using ring_full_iff [OF t h] n by (simp add: cache_items_def)
  show bound: "length (cache_items ctx) \<le> TLP_CACHE_SIZE - 1"
    using ring_count_le [OF t h] by (simp add: cache_items_def)
  show "tlp_cache_pop_ctx ctx = (None, ctx)" if "cache_items ctx = []"
    using that by (simp add: cache_items_def ring_idx_empty [OF t h] tlp_cache_pop_ctx_def)
  show "cache_inv (snd (tlp_cache_pop_ctx ctx)) \<and> TLP_CACHE_SIZE - 1 = TLP_CACHE_SIZE - 1"
    using inv n by (simp add: cache_inv_def tlp_cache_pop_ctx_def)
  show "fst (tlp_cache_pop_ctx ctx) = Some e \<and> cache_items (snd (tlp_cache_pop_ctx ctx)) = es"
    if "cache_items ctx = e # es"
  proof -
    have "?t \<noteq> ?h" using that ring_idx_empty [OF t h] by (auto simp: cache_items_def)
    then show ?thesis using that ring_idx_pop [OF t h] by (auto simp: cache_items_def tlp_cache_pop_ctx_def)
  qed
  show "cache_inv (snd (tlp_cache_push_ctx ctx e)) \<and> TLP_CACHE_SIZE - 1 = TLP_CACHE_SIZE - 1"
    using inv n by (simp add: cache_inv_def tlp_cache_push_ctx_def Let_def)
  show "tlp_cache_push_ctx ctx e = (-1, ctx)" if "\<not> length (cache_items ctx) < TLP_CACHE_SIZE - 1"
    using that full bound by (simp add: tlp_cache_push_ctx_def Let_def)
  show "fst (tlp_cache_push_ctx ctx e) = 0 \<and> cache_items (snd (tlp_cache_push_ctx ctx e)) = cache_items ctx @ [e]"
    if "length (cache_items ctx) < TLP_CACHE_SIZE - 1"
  proof -
    have nf: "Suc ?h mod TLP_CACHE_SIZE \<noteq> ?t" using that full by simp
    have "(rc_tlp_cache ctx)[?h := e] ! i = rc_tlp_cache ctx ! i" if "i \<in> set (ring_idx ?t ?h TLP_CACHE_SIZE)" for i
      using that ring_tail_not_live [OF t h] by (metis nth_list_update_neq)
    then show ?thesis
      using nf len h by (simp add: tlp_cache_push_ctx_def Let_def cache_items_def ring_idx_push [OF t h nf])
  qed
qed

subsection \<open>Topology\<close>

definition bridge_vcs_set_pf_topology ::
  "int \<Rightarrow> int \<Rightarrow> int \<Rightarrow> int \<Rightarrow> int \<Rightarrow> int \<Rightarrow> int \<Rightarrow> int \<Rightarrow> u64 list \<Rightarrow> u64 list \<Rightarrow> 'p rc_ctx \<Rightarrow> 'p rc_ctx" where
  "bridge_vcs_set_pf_topology pf_idx bdf num_vfs vf_device_id vendor_id device_id msix_vectors vf_msix_vectors
      pf_bars vf_bars ctx =
     (if pf_idx < 0 \<or> pf_idx \<ge> int COSIM_MAX_PFS then ctx
      else ctx\<lparr>rc_topology := (rc_topology ctx)\<lparr>tp_pfs := (tp_pfs (rc_topology ctx))[nat pf_idx :=
        \<lparr>pf_bdf = of_int bdf, pf_num_vfs = of_int num_vfs, pf_vf_device_id = of_int vf_device_id,
         pf_vendor_id = of_int vendor_id, pf_device_id = of_int device_id, pf_msix_vectors = of_int msix_vectors,
         pf_vf_msix_vectors = of_int vf_msix_vectors, pf_pad = 0, pf_bar_size = pf_bars, pf_vf_bar_size = vf_bars\<rparr>]\<rparr>\<rparr>)"

definition bridge_vcs_finalize_topology :: "int \<Rightarrow> int \<Rightarrow> 'p rc_ctx \<Rightarrow> 'p rc_ctx" where
  "bridge_vcs_finalize_topology num_pfs tag_width ctx = ctx\<lparr>rc_topology := (rc_topology ctx)\<lparr>tp_header :=
      \<lparr>th_num_pfs = of_int num_pfs, th_tag_width = of_int tag_width, th_pad = [0, 0]\<rparr>\<rparr>, rc_topology_ready := True\<rparr>"

text \<open>Running an operation of the transport of a context, and sending on the control socket.\<close>

definition rc_via :: "('p \<Rightarrow> 'a \<times> 'p) \<Rightarrow> 'p \<Rightarrow> 'p rc_ctx \<Rightarrow> 'a \<times> 'p rc_ctx" where
  "rc_via f p ctx = (case f p of (r, p1) \<Rightarrow> (r, ctx\<lparr>rc_transport := Some p1\<rparr>))"

definition side_send :: "sync_msg \<Rightarrow> shm_side \<Rightarrow> rc \<times> shm_side" where
  "side_send m g = (case ss_sock g of
     None \<Rightarrow> (-1, g)
   | Some s \<Rightarrow> (case sock_sync_send m s of (r, s1) \<Rightarrow> (r, g\<lparr>ss_sock := Some s1\<rparr>)))"

definition side_recv_timed :: "int \<Rightarrow> shm_side \<Rightarrow> sync_msg recvd \<times> shm_side" where
  "side_recv_timed timeout_ms g = (case ss_sock g of
     None \<Rightarrow> (Failed, g)
   | Some s \<Rightarrow> (case sock_sync_recv_timed timeout_ms s of (r, s1) \<Rightarrow> (r, g\<lparr>ss_sock := Some s1\<rparr>)))"

definition side_enqueue :: "(cosim_shm \<Rightarrow> ring_buf) \<Rightarrow> (ring_buf \<Rightarrow> cosim_shm \<Rightarrow> cosim_shm) \<Rightarrow> bytes
    \<Rightarrow> shm_side \<Rightarrow> rc \<times> shm_side" where
  "side_enqueue gt st bs g = (case ring_buf_enqueue (gt (ss_shm g)) bs of (r, rb) \<Rightarrow> (r, g\<lparr>ss_shm := st rb (ss_shm g)\<rparr>))"

definition side_dequeue :: "(cosim_shm \<Rightarrow> ring_buf) \<Rightarrow> (ring_buf \<Rightarrow> cosim_shm \<Rightarrow> cosim_shm)
    \<Rightarrow> shm_side \<Rightarrow> bytes option \<times> shm_side" where
  "side_dequeue gt st g = (case ring_buf_dequeue (gt (ss_shm g)) of (r, rb) \<Rightarrow> (r, g\<lparr>ss_shm := st rb (ss_shm g)\<rparr>))"

definition handle_topology_query_ctx :: "'p transport \<Rightarrow> 'p rc_ctx \<Rightarrow> shm_side \<Rightarrow> rc \<times> 'p rc_ctx \<times> shm_side" where
  "handle_topology_query_ctx ops ctx g =
     (if \<not> rc_topology_ready ctx then (-1, ctx, g)
      else (case rc_transport ctx of
          Some p \<Rightarrow> (case rc_via (tr_send_sync ops (sync_of SYNC_MSG_TOPOLOGY_RESP 0)) p ctx of
              (r, ctx1) \<Rightarrow> if r < 0 then (-1, ctx1, g)
                else (case rc_transport ctx1 of
                    None \<Rightarrow> (-1, ctx1, g)
                  | Some p1 \<Rightarrow> (case rc_via (tr_send_topology ops (rc_topology ctx1)) p1 ctx1 of
                      (r2, ctx2) \<Rightarrow> (if r2 < 0 then -1 else 0, ctx2, g))))
        | None \<Rightarrow>
            (let shm = ss_shm g;
                 ctrl = (sh_ctrl shm)\<lparr>cc_topology := blit 0 (enc_topology (rc_topology ctx)) (cc_topology (sh_ctrl shm))\<rparr>
             in case side_send (sync_of SYNC_MSG_TOPOLOGY_RESP 0) (g\<lparr>ss_shm := shm\<lparr>sh_ctrl := ctrl\<rparr>\<rparr>) of
                  (r, g1) \<Rightarrow> (r, ctx, g1))))"

subsection \<open>VF events\<close>

definition bridge_vcs_send_vf_event :: "'p transport \<Rightarrow> int \<Rightarrow> int \<Rightarrow> int \<Rightarrow> 'p rc_ctx \<Rightarrow> shm_side
    \<Rightarrow> rc \<times> 'p rc_ctx \<times> shm_side" where
  "bridge_vcs_send_vf_event ops event_type pf_index num_vfs ctx g =
     (let ev = \<lparr>v_event_type = of_int event_type, v_pf_index = of_int pf_index, v_num_vfs = of_int num_vfs\<rparr>
      in case rc_transport ctx of
          Some p \<Rightarrow> (case tr_send_vf_event ops ev p of
              (r, p1) \<Rightarrow> if r < 0 then (-1, ctx\<lparr>rc_transport := Some p1\<rparr>, g)
                else (case rc_via (tr_send_sync ops (sync_of SYNC_MSG_VF_EVENT 0)) p1 ctx of (r2, ctx2) \<Rightarrow> (r2, ctx2, g)))
        | None \<Rightarrow> (case side_send (sync_of SYNC_MSG_VF_EVENT
              (of_int event_type OR push_bit 8 (of_int pf_index) OR push_bit 16 (of_int num_vfs))) g of
              (r, g1) \<Rightarrow> (r, ctx, g1)))"

text \<open>The pending event of QEMU: handed out once.\<close>

definition bridge_vcs_poll_vf_event :: "'p rc_ctx \<Rightarrow> (int \<times> int \<times> int) option \<times> 'p rc_ctx" where
  "bridge_vcs_poll_vf_event ctx =
     (if \<not> rc_vf_event_pending ctx then (None, ctx)
      else (Some (uint (v_event_type (rc_vf_event ctx)), uint (v_pf_index (rc_vf_event ctx)), uint (v_num_vfs (rc_vf_event ctx))),
            ctx\<lparr>rc_vf_event_pending := False\<rparr>))"

definition note_vf_event :: "sync_msg \<Rightarrow> 'p rc_ctx \<Rightarrow> 'p rc_ctx" where
  "note_vf_event msg ctx = ctx\<lparr>rc_vf_event := vf_event_of_payload (sm_payload msg), rc_vf_event_pending := True\<rparr>"

subsection \<open>Polling for a TLP\<close>

text \<open>The out parameters of a poll; the array has 16 words or more.\<close>

record poll_out =
  po_type :: u8
  po_addr :: u64
  po_data :: "u32 list"
  po_len :: int
  po_tag :: int

definition return_entry :: "tlp_entry \<Rightarrow> poll_out \<Rightarrow> poll_out" where
  "return_entry e out =
     (let words = (unat (t_len e) + 3) div 4
      in out\<lparr>po_type := t_type e, po_addr := t_addr e, po_len := uint (t_len e), po_tag := uint (t_tag e),
           po_data := map (\<lambda>i. if i < words \<and> i < 16 then le_word (field (4 * i) 4 (t_data e)) else po_data out ! i)
             [0..<length (po_data out)]\<rparr>)"

text \<open>Phase 2: all messages that have arrived on the control channel.  \<^theory_text>\<open>None\<close>: they never end.
  The flag says that the poll ends with an error here.\<close>

partial_function (option) poll_drain :: "'p transport \<Rightarrow> 'p rc_ctx \<Rightarrow> shm_side \<Rightarrow> (bool \<times> 'p rc_ctx \<times> shm_side) option" where
  [code]: "poll_drain ops ctx g =
     (case rc_transport ctx of
        None \<Rightarrow> Some (True, ctx, g)
      | Some p \<Rightarrow> (case rc_via (tr_recv_sync_timed ops 0) p ctx of
          (Failed, ctx1) \<Rightarrow> Some (True, ctx1, g)
        | (Nothing, ctx1) \<Rightarrow> Some (False, ctx1, g)
        | (Got msg, ctx1) \<Rightarrow>
            if sm_type msg = sync_code SYNC_MSG_SHUTDOWN then Some (True, ctx1, g)
            else if sm_type msg = sync_code SYNC_MSG_QUERY_TOPOLOGY
            then (case handle_topology_query_ctx ops ctx1 g of (r, ctx2, g2) \<Rightarrow> poll_drain ops ctx2 g2)
            else if sm_type msg = sync_code SYNC_MSG_TLP_READY
            then (case rc_transport ctx1 of
                None \<Rightarrow> Some (True, ctx1, g)
              | Some p1 \<Rightarrow> (case rc_via (tr_recv_tlp ops) p1 ctx1 of
                    (Got e, ctx2) \<Rightarrow> poll_drain ops (snd (tlp_cache_push_ctx ctx2 e)) g
                  | (_, ctx2) \<Rightarrow> poll_drain ops ctx2 g))
            else if sm_type msg = sync_code SYNC_MSG_VF_EVENT then poll_drain ops (note_vf_event msg ctx1) g
            else poll_drain ops ctx1 g))"

definition found_entry :: "tlp_entry \<Rightarrow> poll_out \<Rightarrow> 'p rc_ctx \<Rightarrow> shm_side \<Rightarrow> rc \<times> poll_out \<times> 'p rc_ctx \<times> shm_side" where
  "found_entry e out ctx g = (0, return_entry e out, ctx\<lparr>rc_last_entry := e\<rparr>, g)"

text \<open>Phase 4: one wait whose timeout grows with the number of empty polls.\<close>

definition poll_timeout :: "int \<Rightarrow> int" where
  "poll_timeout streak = (if streak < 5 then 1 else if streak < 20 then 5 else 50)"

definition poll_wait :: "'p transport \<Rightarrow> poll_out \<Rightarrow> 'p \<Rightarrow> 'p rc_ctx \<Rightarrow> shm_side \<Rightarrow> rc \<times> poll_out \<times> 'p rc_ctx \<times> shm_side" where
  "poll_wait ops out p ctx g =
     (case rc_via (tr_recv_sync_timed ops (poll_timeout (rc_empty_streak ctx))) p ctx of
        (Failed, ctx1) \<Rightarrow> (-1, out, ctx1, g)
      | (Nothing, ctx1) \<Rightarrow> (1, out, ctx1\<lparr>rc_empty_streak := rc_empty_streak ctx1 + 1\<rparr>, g)
      | (Got msg, ctx0) \<Rightarrow>
          (let ctx1 = ctx0\<lparr>rc_empty_streak := 0\<rparr>
           in if sm_type msg = sync_code SYNC_MSG_SHUTDOWN then (-1, out, ctx1, g)
              else if sm_type msg = sync_code SYNC_MSG_QUERY_TOPOLOGY
              then (case handle_topology_query_ctx ops ctx1 g of (r, ctx2, g2) \<Rightarrow> (1, out, ctx2, g2))
              else if sm_type msg = sync_code SYNC_MSG_VF_EVENT then (1, out, note_vf_event msg ctx1, g)
              else if sm_type msg = sync_code SYNC_MSG_TLP_READY
              then (case rc_transport ctx1 of
                  None \<Rightarrow> (1, out, ctx1, g)
                | Some p1 \<Rightarrow> (case rc_via (tr_recv_tlp ops) p1 ctx1 of
                      (Got e, ctx2) \<Rightarrow> found_entry e out ctx2 g
                    | (_, ctx2) \<Rightarrow> (1, out, ctx2, g)))
              else (1, out, ctx1, g)))"

definition poll_transport :: "'p transport \<Rightarrow> poll_out \<Rightarrow> 'p rc_ctx \<Rightarrow> shm_side
    \<Rightarrow> (rc \<times> poll_out \<times> 'p rc_ctx \<times> shm_side) option" where
  "poll_transport ops out ctx g =
     (case tlp_cache_pop_ctx ctx of
        (Some e, ctx1) \<Rightarrow> Some (found_entry e out ctx1 g)
      | (None, ctx1) \<Rightarrow> (case poll_drain ops ctx1 g of
            None \<Rightarrow> None
          | Some (failed, ctx2, g2) \<Rightarrow> if failed then Some (-1, out, ctx2, g2)
              else (case tlp_cache_pop_ctx ctx2 of
                  (Some e, ctx3) \<Rightarrow> Some (found_entry e out ctx3 g2)
                | (None, ctx3) \<Rightarrow> (case rc_transport ctx3 of
                      None \<Rightarrow> Some (-1, out, ctx3, g2)
                    | Some p \<Rightarrow> Some (poll_wait ops out p ctx3 g2)))))"

text \<open>The shared-memory path: first the TLPs announced during DMA waits, then one look at the socket.\<close>

definition poll_socket :: "'p transport \<Rightarrow> poll_out \<Rightarrow> 'p rc_ctx \<Rightarrow> shm_side \<Rightarrow> rc \<times> poll_out \<times> 'p rc_ctx \<times> shm_side" where
  "poll_socket ops out ctx g =
     (case side_recv_timed 0 g of
        (Failed, g1) \<Rightarrow> (-1, out, ctx, g1)
      | (Nothing, g1) \<Rightarrow> (1, out, ctx, g1)
      | (Got msg, g1) \<Rightarrow>
          if sm_type msg = sync_code SYNC_MSG_QUERY_TOPOLOGY
          then (case handle_topology_query_ctx ops ctx g1 of (r, ctx2, g2) \<Rightarrow> (1, out, ctx2, g2))
          else if sm_type msg = sync_code SYNC_MSG_SHUTDOWN then (-1, out, ctx, g1)
          else if sm_type msg = sync_code SYNC_MSG_VF_EVENT then (1, out, note_vf_event msg ctx, g1)
          else if sm_type msg \<noteq> sync_code SYNC_MSG_TLP_READY then (1, out, ctx, g1)
          else (case side_dequeue sh_req_ring set_req_ring g1 of
              (None, g2) \<Rightarrow> (1, out, ctx, g2)
            | (Some bs, g2) \<Rightarrow> found_entry (dec_tlp bs) out ctx g2))"

definition poll_shm :: "'p transport \<Rightarrow> poll_out \<Rightarrow> 'p rc_ctx \<Rightarrow> shm_side \<Rightarrow> rc \<times> poll_out \<times> 'p rc_ctx \<times> shm_side" where
  "poll_shm ops out ctx g =
     (if rc_pending_tlp_ready ctx > 0
      then (case side_dequeue sh_req_ring set_req_ring g of
          (Some bs, g1) \<Rightarrow> found_entry (dec_tlp bs) out (ctx\<lparr>rc_pending_tlp_ready := rc_pending_tlp_ready ctx - 1\<rparr>) g1
        | (None, g1) \<Rightarrow> poll_socket ops out (ctx\<lparr>rc_pending_tlp_ready := 0\<rparr>) g1)
      else poll_socket ops out ctx g)"

definition poll_tlp_ctx :: "'p transport \<Rightarrow> poll_out \<Rightarrow> 'p rc_ctx \<Rightarrow> shm_side
    \<Rightarrow> (rc \<times> poll_out \<times> 'p rc_ctx \<times> shm_side) option" where
  "poll_tlp_ctx ops out ctx g =
     (let ctx1 = ctx\<lparr>rc_poll_count := rc_poll_count ctx + 1\<rparr>
      in case rc_transport ctx1 of
          Some p \<Rightarrow> poll_transport ops out ctx1 g
        | None \<Rightarrow> Some (poll_shm ops out ctx1 g))"

subsection \<open>Completions\<close>

definition cpl_words :: "int \<Rightarrow> nat" where
  "cpl_words len = nat (((if len < int COSIM_TLP_DATA_SIZE then len else int COSIM_TLP_DATA_SIZE) + 3) div 4)"

definition make_completion :: "int \<Rightarrow> u32 list \<Rightarrow> int \<Rightarrow> cpl_entry" where
  "make_completion tag data len = \<lparr>c_type = tlp_code TLP_CPL, c_status = 0, c_tag = of_int tag, c_requester_id = 0,
     c_completer_id = 0, c_len = of_int len,
     c_data = concat (map (le_bytes 4) (take (cpl_words len) data)) @ replicate (64 - 4 * cpl_words len) 0, c_timestamp = 0\<rparr>"

definition send_completion_ctx :: "'p transport \<Rightarrow> int \<Rightarrow> u32 list \<Rightarrow> int \<Rightarrow> 'p rc_ctx \<Rightarrow> shm_side
    \<Rightarrow> rc \<times> 'p rc_ctx \<times> shm_side" where
  "send_completion_ctx ops tag data len ctx g =
     (let cpl = make_completion tag data len
      in case rc_transport ctx of
          Some p \<Rightarrow> (case tr_send_cpl ops cpl p of
              (r, p1) \<Rightarrow> if r < 0 then (-1, ctx\<lparr>rc_transport := Some p1\<rparr>, g)
                else (case rc_via (tr_send_sync ops (sync_of SYNC_MSG_CPL_READY 0)) p1 ctx of (r2, ctx2) \<Rightarrow> (r2, ctx2, g)))
        | None \<Rightarrow> (case side_enqueue sh_cpl_ring set_cpl_ring (enc_cpl cpl) g of
              (r, g1) \<Rightarrow> if r < 0 then (-1, ctx, g1)
                else (case side_send (sync_of SYNC_MSG_CPL_READY 0) g1 of (r2, g2) \<Rightarrow> (r2, ctx, g2))))"

text \<open>Each operation of the legacy interface is that of context 0.\<close>

definition bridge_vcs_get_tlp_target_bdf :: "'p rc_ctx \<Rightarrow> int" where
  "bridge_vcs_get_tlp_target_bdf ctx = uint (t_target_bdf (rc_last_entry ctx))"

definition bridge_vcs_get_tlp_requester_id :: "'p rc_ctx \<Rightarrow> int" where
  "bridge_vcs_get_tlp_requester_id ctx = uint (t_requester_id (rc_last_entry ctx))"

record poll_ext =
  px_msg_code :: u8
  px_atomic_op_size :: u8
  px_vendor_id :: u16
  px_first_be :: u8
  px_last_be :: u8

definition bridge_vcs_poll_tlp_ext :: "'p transport \<Rightarrow> poll_out \<Rightarrow> poll_ext \<Rightarrow> 'p rc_ctx \<Rightarrow> shm_side
    \<Rightarrow> (rc \<times> poll_out \<times> poll_ext \<times> 'p rc_ctx \<times> shm_side) option" where
  "bridge_vcs_poll_tlp_ext ops out ext ctx g = (case poll_tlp_ctx ops out ctx g of
     None \<Rightarrow> None
   | Some (r, out1, ctx1, g1) \<Rightarrow> if r \<noteq> 0 then Some (r, out1, ext, ctx1, g1)
       else let e = rc_last_entry ctx1
         in Some (0, out1, \<lparr>px_msg_code = t_msg_code e, px_atomic_op_size = t_atomic_op_size e, px_vendor_id = t_vendor_id e,
              px_first_be = t_first_be e, px_last_be = t_last_be e\<rparr>, ctx1, g1))"

subsection \<open>Delivery of TLPs\<close>

text \<open>Up to \<open>n\<close> polls, ending at the first that has no TLP: the TLPs handed out.\<close>

fun poll_n :: "'p transport \<Rightarrow> nat \<Rightarrow> poll_out \<Rightarrow> 'p rc_ctx \<Rightarrow> shm_side \<Rightarrow> (tlp_entry list \<times> 'p rc_ctx \<times> shm_side) option" where
  "poll_n ops 0 out ctx g = Some ([], ctx, g)"
| "poll_n ops (Suc n) out ctx g = (case poll_tlp_ctx ops out ctx g of
     None \<Rightarrow> None
   | Some (r, out1, ctx1, g1) \<Rightarrow> if r \<noteq> 0 then Some ([], ctx1, g1)
       else (case poll_n ops n out1 ctx1 g1 of
           None \<Rightarrow> None
         | Some (es, ctx2, g2) \<Rightarrow> Some (rc_last_entry ctx1 # es, ctx2, g2)))"

text \<open>The VF event kept after a sequence of messages: the last one.\<close>

primrec vf_after :: "sync_msg list \<Rightarrow> bool \<times> vf_event \<Rightarrow> bool \<times> vf_event" where
  "vf_after [] x = x"
| "vf_after (m # ms) x = vf_after ms (if sm_type m = sync_code SYNC_MSG_VF_EVENT
     then (True, vf_event_of_payload (sm_payload m)) else x)"

text \<open>What a poll relies on: the transport's control channel delivers messages in order and reports when
  there are none; TLPs are delivered in order.\<close>

locale tlp_source =
  fixes ops :: "'p transport" and inbox :: "'p \<Rightarrow> sync_msg list \<Rightarrow> tlp_entry list \<Rightarrow> bool"
  assumes next_msg: "inbox p (m # ms) ts \<Longrightarrow> \<exists>p'. tr_recv_sync_timed ops timeout p = (Got m, p') \<and> inbox p' ms ts"
    and no_msg: "inbox p [] ts \<Longrightarrow> \<exists>p'. tr_recv_sync_timed ops timeout p = (Nothing, p') \<and> inbox p' [] ts"
    and next_tlp: "inbox p ms (t # ts) \<Longrightarrow> \<exists>p'. tr_recv_tlp ops p = (Got t, p') \<and> inbox p' ms ts"
begin

text \<open>\<open>announced ms ts\<close>: the control messages announce exactly the TLPs, among VF events.\<close>

fun announced :: "sync_msg list \<Rightarrow> tlp_entry list \<Rightarrow> bool" where
  "announced [] ts \<longleftrightarrow> ts = []"
| "announced (m # ms) ts \<longleftrightarrow>
     (sm_type m = sync_code SYNC_MSG_VF_EVENT \<and> announced ms ts)
     \<or> (sm_type m = sync_code SYNC_MSG_TLP_READY \<and> ts \<noteq> [] \<and> announced ms (tl ts))"

definition holds_tlps :: "'p rc_ctx \<Rightarrow> sync_msg list \<Rightarrow> tlp_entry list \<Rightarrow> bool" where
  "holds_tlps ctx ms ts \<longleftrightarrow> (\<exists>p. rc_transport ctx = Some p \<and> inbox p ms ts) \<and> announced ms ts \<and> cache_inv ctx"

lemma drain_caches:
  assumes "holds_tlps ctx ms ts" and "length (cache_items ctx) + length ts < TLP_CACHE_SIZE"
  shows "\<exists>ctx'. poll_drain ops ctx g = Some (False, ctx', g) \<and> holds_tlps ctx' [] []
    \<and> cache_items ctx' = cache_items ctx @ ts
    \<and> (rc_vf_event_pending ctx', rc_vf_event ctx') = vf_after ms (rc_vf_event_pending ctx, rc_vf_event ctx)
    \<and> rc_empty_streak ctx' = rc_empty_streak ctx"
  using assms
proof (induction ms arbitrary: ctx ts)
  case Nil
  then obtain p where p: "rc_transport ctx = Some p" "inbox p [] ts" and ts: "ts = []" and inv: "cache_inv ctx"
    by (auto simp: holds_tlps_def)
  obtain p' where "tr_recv_sync_timed ops 0 p = (Nothing, p')" "inbox p' [] ts" using no_msg p by blast
  then show ?case using p ts inv
    by (subst poll_drain.simps) (simp add: rc_via_def holds_tlps_def cache_inv_def cache_items_def)
next
  case (Cons m ms)
  then obtain p where p: "rc_transport ctx = Some p" "inbox p (m # ms) ts" and an: "announced (m # ms) ts" and inv: "cache_inv ctx"
    by (auto simp: holds_tlps_def)
  obtain p1 where p1: "tr_recv_sync_timed ops 0 p = (Got m, p1)" "inbox p1 ms ts" using next_msg p by blast
  let ?ctx1 = "ctx\<lparr>rc_transport := Some p1\<rparr>"
  from an consider (vf) "sm_type m = sync_code SYNC_MSG_VF_EVENT" "announced ms ts"
    | (tlp) t ts1 where "sm_type m = sync_code SYNC_MSG_TLP_READY" "ts = t # ts1" "announced ms ts1"
    by (cases ts) auto
  then show ?case
  proof cases
    case vf
    let ?ctx2 = "note_vf_event m ?ctx1"
    have "holds_tlps ?ctx2 ms ts" "cache_items ?ctx2 = cache_items ctx"
      using p1 vf inv by (simp_all add: holds_tlps_def note_vf_event_def cache_inv_def cache_items_def)
    with Cons.IH [of ?ctx2 ts] Cons.prems(2) show ?thesis
      using p p1 vf by (subst poll_drain.simps) (simp add: rc_via_def note_vf_event_def)
  next
    case tlp
    obtain p2 where p2: "tr_recv_tlp ops p1 = (Got t, p2)" "inbox p2 ms ts1" using next_tlp p1(2) tlp(2) by blast
    let ?ctx2 = "ctx\<lparr>rc_transport := Some p2\<rparr>"
    let ?ctx3 = "snd (tlp_cache_push_ctx ?ctx2 t)"
    have inv2: "cache_inv ?ctx2" and items2: "cache_items ?ctx2 = cache_items ctx"
      using inv by (simp_all add: cache_inv_def cache_items_def)
    have push: "cache_items ?ctx3 = cache_items ctx @ [t]" "cache_inv ?ctx3"
      using tlp_cache.enq_room [OF inv2, of t] tlp_cache.enq_inv [OF inv2, of t] Cons.prems(2) tlp(2) items2 by auto
    have "rc_transport ?ctx3 = Some p2" and same: "rc_vf_event_pending ?ctx3 = rc_vf_event_pending ctx"
        "rc_vf_event ?ctx3 = rc_vf_event ctx" "rc_empty_streak ?ctx3 = rc_empty_streak ctx"
      by (simp_all add: tlp_cache_push_ctx_def Let_def)
    then have "holds_tlps ?ctx3 ms ts1" using p2 push tlp(3) by (simp add: holds_tlps_def)
    with Cons.IH [of ?ctx3 ts1] Cons.prems(2) push(1) tlp(2)
    have "\<exists>ctx'. poll_drain ops ?ctx3 g = Some (False, ctx', g) \<and> holds_tlps ctx' [] []
        \<and> cache_items ctx' = cache_items ctx @ ts
        \<and> (rc_vf_event_pending ctx', rc_vf_event ctx') = vf_after (m # ms) (rc_vf_event_pending ctx, rc_vf_event ctx)
        \<and> rc_empty_streak ctx' = rc_empty_streak ctx"
      using tlp(1) same by simp
    moreover have "poll_drain ops ctx g = poll_drain ops ?ctx3 g"
      using p p1 p2 tlp by (subst poll_drain.simps) (simp add: rc_via_def)
    ultimately show ?thesis by simp
  qed
qed

lemma pop_keeps: "tlp_cache_pop_ctx ctx = (r, ctx1) \<Longrightarrow> holds_tlps ctx ms ts \<Longrightarrow> holds_tlps ctx1 ms ts"
  using tlp_cache.deq_inv [of ctx] by (auto simp: holds_tlps_def tlp_cache_pop_ctx_def cache_inv_def split: if_splits)

text \<open>A poll hands out the oldest TLP, cached or waiting.\<close>

lemma poll_delivers:
  assumes "holds_tlps ctx ms ts" and "cache_items ctx @ ts = t # rest" and "length rest < TLP_CACHE_SIZE - 1"
  shows "\<exists>ctx' ms' ts'. poll_tlp_ctx ops out ctx g = Some (0, return_entry t out, ctx', g)
    \<and> holds_tlps ctx' ms' ts' \<and> cache_items ctx' @ ts' = rest \<and> rc_last_entry ctx' = t"
proof -
  let ?ctx = "ctx\<lparr>rc_poll_count := rc_poll_count ctx + 1\<rparr>"
  have h: "holds_tlps ?ctx ms ts" and items: "cache_items ?ctx = cache_items ctx" and inv: "cache_inv ?ctx"
    using assms(1) by (simp_all add: holds_tlps_def cache_inv_def cache_items_def)
  from h obtain p where p: "rc_transport ?ctx = Some p" by (auto simp: holds_tlps_def)
  have small: "Suc (length rest) < TLP_CACHE_SIZE" using assms(3) by linarith
  have last: "holds_tlps (c\<lparr>rc_last_entry := e\<rparr>) m1 t1 \<longleftrightarrow> holds_tlps c m1 t1"
    "cache_items (c\<lparr>rc_last_entry := e\<rparr>) = cache_items c" for c :: "'p rc_ctx" and e m1 t1
    by (simp_all add: holds_tlps_def cache_inv_def cache_items_def)
  show ?thesis
  proof (cases "cache_items ctx")
    case (Cons c cs)
    then obtain ctx1 where "tlp_cache_pop_ctx ?ctx = (Some t, ctx1)" "cache_items ctx1 = cs"
      using tlp_cache.deq_some [OF inv, of c cs] items assms(2) by (cases "tlp_cache_pop_ctx ?ctx") auto
    then show ?thesis
      using p pop_keeps [OF _ h] Cons assms(2) last
      by (auto simp: poll_tlp_ctx_def Let_def poll_transport_def found_entry_def intro!: exI [of _ ms] exI [of _ ts])
  next
    case Nil
    then have pop: "tlp_cache_pop_ctx ?ctx = (None, ?ctx)" using tlp_cache.deq_none [OF inv] items by simp
    have ts: "ts = t # rest" using Nil assms(2) by simp
    obtain ctx2 where d: "poll_drain ops ?ctx g = Some (False, ctx2, g)" "holds_tlps ctx2 [] []" "cache_items ctx2 = t # rest"
      using drain_caches [OF h, of g] items Nil ts small by auto
    then obtain ctx3 where "tlp_cache_pop_ctx ctx2 = (Some t, ctx3)" "cache_items ctx3 = rest"
      using tlp_cache.deq_some [of ctx2 t rest] by (cases "tlp_cache_pop_ctx ctx2") (auto simp: holds_tlps_def)
    then show ?thesis
      using p pop d pop_keeps [OF _ d(2)] last
      by (auto simp: poll_tlp_ctx_def Let_def poll_transport_def found_entry_def intro!: exI [of _ "[]"])
  qed
qed

text \<open>VF events without TLPs: the poll finds none, and the last event is pending.\<close>

lemma poll_vf_only:
  assumes "holds_tlps ctx ms []" and "cache_items ctx = []"
  shows "\<exists>ctx'. poll_tlp_ctx ops out ctx g = Some (1, out, ctx', g) \<and> holds_tlps ctx' [] [] \<and> cache_items ctx' = []
    \<and> (rc_vf_event_pending ctx', rc_vf_event ctx') = vf_after ms (rc_vf_event_pending ctx, rc_vf_event ctx)"
proof -
  let ?ctx = "ctx\<lparr>rc_poll_count := rc_poll_count ctx + 1\<rparr>"
  have h: "holds_tlps ?ctx ms []" and inv: "cache_inv ?ctx" and items: "cache_items ?ctx = []"
    using assms by (simp_all add: holds_tlps_def cache_inv_def cache_items_def)
  have pop: "tlp_cache_pop_ctx ?ctx = (None, ?ctx)" using tlp_cache.deq_none [OF inv items] .
  from drain_caches [OF h, of g] items obtain ctx2
    where d: "poll_drain ops ?ctx g = Some (False, ctx2, g)" "holds_tlps ctx2 [] []" "cache_items ctx2 = []"
      "(rc_vf_event_pending ctx2, rc_vf_event ctx2) = vf_after ms (rc_vf_event_pending ctx, rc_vf_event ctx)"
    by (auto simp: code_consts)
  then obtain p where p: "rc_transport ctx2 = Some p" "inbox p [] []" and inv2: "cache_inv ctx2" by (auto simp: holds_tlps_def)
  obtain p2 where p2: "tr_recv_sync_timed ops (poll_timeout (rc_empty_streak ctx2)) p = (Nothing, p2)" "inbox p2 [] []"
    using no_msg p(2) by blast
  have tr: "rc_transport ctx \<noteq> None" using assms(1) by (auto simp: holds_tlps_def)
  have "poll_tlp_ctx ops out ctx g = Some (1, out, ctx2\<lparr>rc_transport := Some p2, rc_empty_streak := rc_empty_streak ctx2 + 1\<rparr>, g)"
    using tr pop d(1) p p2 tlp_cache.deq_none [OF inv2 d(3)]
    by (auto simp: poll_tlp_ctx_def Let_def poll_transport_def poll_wait_def rc_via_def)
  then show ?thesis
    using p2 d inv2 by (simp add: holds_tlps_def cache_inv_def cache_items_def)
qed

text \<open>Polling as often as there are TLPs hands out all of them.\<close>

lemma polls_deliver:
  assumes "holds_tlps ctx ms ts" and "cache_items ctx @ ts = es" and "length es < TLP_CACHE_SIZE"
  shows "\<exists>ctx' ms'. poll_n ops (length es) out ctx g = Some (es, ctx', g) \<and> holds_tlps ctx' ms' [] \<and> cache_items ctx' = []"
  using assms
proof (induction es arbitrary: ctx ms ts out)
  case Nil
  then show ?case by auto
next
  case (Cons t es)
  have "length es < TLP_CACHE_SIZE - 1" using Cons.prems(3) by simp
  from poll_delivers [OF Cons.prems(1,2) this, of out g] obtain ctx1 ms1 ts1
    where "poll_tlp_ctx ops out ctx g = Some (0, return_entry t out, ctx1, g)" "holds_tlps ctx1 ms1 ts1"
      "cache_items ctx1 @ ts1 = es" "rc_last_entry ctx1 = t" by blast
  with Cons.IH [of ctx1 ms1 ts1 "return_entry t out"] Cons.prems(3) show ?case by auto
qed

end

text \<open>The TCP transport is such a source.\<close>

definition tcp_tlp_inbox :: "transport_tcp_priv \<Rightarrow> sync_msg list \<Rightarrow> tlp_entry list \<Rightarrow> bool" where
  "tcp_tlp_inbox p ms ts \<longleftrightarrow> healthy (tp_ctrl p) \<and> sk_polls (tp_ctrl p) = []
     \<and> sk_in (tp_ctrl p) = concat (map (\<lambda>m. msg_bytes TCP_MSG_SYNC (enc_sync m)) ms) \<and> tlp_stream.awaits ts (tp_data p)"

lemma tcp_recv_sync_timed_msg:
  assumes "healthy s" and "sk_polls s = []" and "sk_in s = msg_bytes TCP_MSG_SYNC (enc_sync m) @ rest"
  shows "\<exists>s'. (case tcp_recv_timed 8 s of
        (Failed, s1) \<Rightarrow> (Failed, s1)
      | (Nothing, s1) \<Rightarrow> (Nothing, s1)
      | (Got hb, s1) \<Rightarrow>
          if h_msg_type (dec_hdr hb) \<noteq> msg_code TCP_MSG_SYNC \<or> h_payload_len (dec_hdr hb) \<noteq> 8
          then (Failed, s1) else tcp_recv_body 8 dec_sync s1) = (Got m, s') \<and> sk_in s' = rest \<and> healthy s' \<and> sk_polls s' = []"
proof -
  let ?h = "enc_hdr \<lparr>h_msg_type = msg_code TCP_MSG_SYNC, h_payload_len = 8\<rparr>"
  have i: "sk_in s = ?h @ (enc_sync m @ rest)" using assms(3) by (simp add: msg_bytes_def)
  have "?h \<noteq> []" using tcp_codecs(1) by (metis length_0_conv zero_neq_numeral)
  then have poll: "sk_poll s = (Poll_Ready, s)" using i assms(2) by (simp add: sk_poll_def)
  have "length ?h = 8" by simp
  from reads_all [OF this] assms(1) i obtain s1
    where s1: "tcp_recv_all 8 s = (Some ?h, s1)" "sk_in s1 = enc_sync m @ rest" "healthy s1" unfolding reads_def by blast
  have "reads (enc_sync m) (tcp_recv_body 8 dec_sync) (Got m)" using reads_body [of "enc_sync m" 8 dec_sync] by simp
  with s1 obtain s2 where s2: "tcp_recv_body 8 dec_sync s1 = (Got m, s2)" "sk_in s2 = rest" "healthy s2"
    unfolding reads_def by blast
  show ?thesis
    using poll s1 s2 tcp_recv_all_polls [of 8 s] recv_hdr_body_polls(2) [of 8 dec_sync s1] assms(2)
    by (simp add: tcp_recv_timed_def)
qed

interpretation tcp_tlps: tlp_source tcp_transport tcp_tlp_inbox
proof
  fix p :: transport_tcp_priv and m ms t ts timeout
  show "\<exists>p'. tr_recv_sync_timed tcp_transport timeout p = (Got m, p') \<and> tcp_tlp_inbox p' ms ts" if "tcp_tlp_inbox p (m # ms) ts"
    using that tcp_recv_sync_timed_msg [of "tp_ctrl p" m]
    by (fastforce simp: tcp_tlp_inbox_def tcp_transport_def tcp_recv_sync_timed_def on_ctrl_def)
  show "\<exists>p'. tr_recv_sync_timed tcp_transport timeout p = (Nothing, p') \<and> tcp_tlp_inbox p' [] ts" if "tcp_tlp_inbox p [] ts"
    using that by (simp add: tcp_tlp_inbox_def tcp_transport_def tcp_recv_sync_timed_def on_ctrl_def tcp_recv_timed_def sk_poll_def)
  show "\<exists>p'. tr_recv_tlp tcp_transport p = (Got t, p') \<and> tcp_tlp_inbox p' ms ts" if "tcp_tlp_inbox p ms (t # ts)"
    using that tlp_stream.recv_awaits [of t ts "tp_data p"]
    by (fastforce simp: tcp_tlp_inbox_def tcp_transport_def tcp_recv_tlp_def on_data_def)
qed

subsection \<open>A poll over TCP ends\<close>

lemma tcp_send_all_in: "sk_in (snd (tcp_send_all bs s)) = sk_in s"
proof (induction bs s rule: tcp_send_all.induct)
  case (1 bs s)
  obtain r s1 where send: "sk_send bs s = (r, s1)" by fastforce
  have i: "sk_in s1 = sk_in s"
    using send by (auto simp: sk_send_def split: list.splits io_answer.splits)
  show ?case
    using 1 [OF _ send [symmetric]] send i by (subst tcp_send_all.simps) (cases r; auto)
qed

lemma tcp_send_msg_in: "sk_in (snd (tcp_send_msg ty payload s)) = sk_in s"
  using tcp_send_all_in [of "enc_hdr \<lparr>h_msg_type = msg_code ty, h_payload_len = of_nat (length payload)\<rparr>" s]
    tcp_send_all_in [of payload "snd (tcp_send_all (enc_hdr \<lparr>h_msg_type = msg_code ty, h_payload_len = of_nat (length payload)\<rparr>) s)"]
  by (auto simp: tcp_send_msg_def Let_def split: prod.splits)

definition ctrl_pending :: "transport_tcp_priv rc_ctx \<Rightarrow> nat" where
  "ctrl_pending ctx = (case rc_transport ctx of None \<Rightarrow> 0 | Some p \<Rightarrow> length (sk_in (tp_ctrl p)))"

lemma recv_sync_timed_consumes:
  assumes "tcp_recv_sync_timed timeout p = (Got m, p')"
  shows "length (sk_in (tp_ctrl p')) < length (sk_in (tp_ctrl p))"
proof -
  obtain s1 hb s2 bs where r: "sk_poll (tp_ctrl p) = (Poll_Ready, s1)" "tcp_recv_all 8 s1 = (Some hb, s2)"
      "tcp_recv_all 8 s2 = (Some bs, tp_ctrl p')"
    using assms by (auto simp: tcp_recv_sync_timed_def on_ctrl_def tcp_recv_timed_def tcp_recv_body_def
        split: prod.splits recvd.splits poll_answer.splits option.splits if_splits)
  have "sk_in s1 = sk_in (tp_ctrl p)" using r(1) by (auto simp: sk_poll_def split: list.splits if_splits)
  then have "length (sk_in (tp_ctrl p')) = length (sk_in (tp_ctrl p)) - 16" "8 \<le> length (sk_in (tp_ctrl p))"
    using tcp_recv_all_sound [OF r(2)] tcp_recv_all_sound [OF r(3)] by simp_all
  then show ?thesis by linarith
qed

lemma topology_query_pending:
  "handle_topology_query_ctx tcp_transport ctx g = (r, ctx', g') \<Longrightarrow> ctrl_pending ctx' = ctrl_pending ctx"
  by (auto simp: handle_topology_query_ctx_def rc_via_def tcp_transport_def tcp_send_sync_def tcp_send_topology_def
      on_ctrl_def ctrl_pending_def Let_def split: if_splits option.splits prod.splits)
    (metis snd_conv tcp_send_msg_in)+

lemma drain_ends: "poll_drain tcp_transport ctx g \<noteq> None"
proof (induction "ctrl_pending ctx" arbitrary: ctx g rule: less_induct)
  case less
  show ?case
  proof (cases "rc_transport ctx")
    case None
    then show ?thesis by (subst poll_drain.simps) simp
  next
    case (Some p)
    obtain res p1 where r: "tcp_recv_sync_timed 0 p = (res, p1)" by fastforce
    let ?ctx1 = "ctx\<lparr>rc_transport := Some p1\<rparr>"
    have via: "rc_via (tr_recv_sync_timed tcp_transport 0) p ctx = (res, ?ctx1)"
      using r by (simp add: rc_via_def tcp_transport_def)
    show ?thesis
    proof (cases res)
      case (Got m)
      have dec: "ctrl_pending ?ctx1 < ctrl_pending ctx"
        using recv_sync_timed_consumes r Got Some by (auto simp: ctrl_pending_def)
      obtain q ctx2 g2 where top: "handle_topology_query_ctx tcp_transport ?ctx1 g = (q, ctx2, g2)" using prod_cases3 by blast
      then have ih_top: "poll_drain tcp_transport ctx2 g2 \<noteq> None"
        using less.hyps topology_query_pending dec by metis
      obtain res2 p2 where t: "tcp_recv_tlp p1 = (res2, p2)" by fastforce
      let ?ctx3 = "ctx\<lparr>rc_transport := Some p2\<rparr>"
      have same: "tp_ctrl p2 = tp_ctrl p1" using t by (auto simp: tcp_recv_tlp_def on_data_def split: prod.splits)
      have c3: "ctrl_pending ?ctx3 < ctrl_pending ctx" "ctrl_pending (snd (tlp_cache_push_ctx ?ctx3 e)) < ctrl_pending ctx" for e
        using dec same by (simp_all add: ctrl_pending_def tlp_cache_push_ctx_def Let_def)
      have noted: "ctrl_pending (note_vf_event m ?ctx1) < ctrl_pending ctx"
        using dec by (simp add: ctrl_pending_def note_vf_event_def)
      have tlp: "rc_via (tr_recv_tlp tcp_transport) p1 ?ctx1 = (res2, ?ctx3)"
        using t by (simp add: rc_via_def tcp_transport_def)
      show ?thesis
        using Some via Got top tlp ih_top less.hyps [OF dec] less.hyps [OF c3(1)] less.hyps [OF c3(2)] less.hyps [OF noted]
        by (subst poll_drain.simps) (cases res2; simp del: not_None_eq)
    qed (use Some via in \<open>subst poll_drain.simps, simp\<close>)+
  qed
qed

definition shm_side_example :: shm_side where
  "shm_side_example = \<lparr>ss_shm = cosim_shm_init, ss_sock = None\<rparr>"

definition poll_out_zero :: poll_out where
  "poll_out_zero = \<lparr>po_type = 0, po_addr = 0, po_data = replicate 16 0, po_len = 0, po_tag = 0\<rparr>"

lemma cache_inv_zero [simp]: "cache_inv rc_zero" "cache_items rc_zero = []"
  by (simp_all add: cache_inv_def rc_zero_def cache_items_def ring_idx_empty code_consts)

subsection \<open>Properties\<close>

text \<open>TLPs announced over TCP are handed to the simulator by successive polls in the order sent, none lost,
  also when VF events arrive between them, as long as fewer than 1024 are waiting; each poll returns type,
  address, length, tag and data words of its TLP.\<close>

lemma polls_in_order:
  assumes "rc_transport ctx = Some p" and "tcp_tlp_inbox p ms ts" and "tcp_tlps.announced ms ts"
    and "cache_inv ctx" and "cache_items ctx = []" and "length ts < 1024"
  shows "(\<exists>ctx'. poll_n tcp_transport (length ts) out ctx g = Some (ts, ctx', g) \<and> cache_items ctx' = [])
    \<and> (case ts of [] \<Rightarrow> True
        | t # _ \<Rightarrow> \<exists>ctx'. poll_tlp_ctx tcp_transport out ctx g = Some (0, return_entry t out, ctx', g))"
proof -
  have h: "tcp_tlps.holds_tlps ctx ms ts" using assms by (auto simp: tcp_tlps.holds_tlps_def)
  have "\<exists>ctx'. poll_n tcp_transport (length ts) out ctx g = Some (ts, ctx', g) \<and> cache_items ctx' = []"
    using tcp_tlps.polls_deliver [OF h, of ts out g] assms by (auto simp: code_consts)
  moreover have "\<exists>ctx'. poll_tlp_ctx tcp_transport out ctx g = Some (0, return_entry t out, ctx', g)" if "ts = t # ts'" for t ts'
    using tcp_tlps.poll_delivers [OF h, of t ts' out g] assms that by (auto simp: code_consts)
  ultimately show ?thesis by (auto split: list.splits)
qed

definition vcs_example :: "sync_msg list \<Rightarrow> tlp_entry list \<Rightarrow> transport_tcp_priv rc_ctx" where
  "vcs_example ms ts = rc_zero\<lparr>rc_transport := Some (priv_init False
     (fresh_sock (concat (map (\<lambda>m. msg_bytes TCP_MSG_SYNC (enc_sync m)) ms)))
     (fresh_sock (concat (map (\<lambda>m. msg_bytes TCP_MSG_TLP (enc_tlp m)) ts))) None)\<rparr>"

lemma vcs_example_inbox:
  assumes "list_all wf_tlp ts"
  shows "\<exists>p. rc_transport (vcs_example ms ts) = Some p \<and> tcp_tlp_inbox p ms ts"
    and "cache_inv (vcs_example ms ts)" and "cache_items (vcs_example ms ts) = []"
proof -
  show "\<exists>p. rc_transport (vcs_example ms ts) = Some p \<and> tcp_tlp_inbox p ms ts"
    using tlp_stream.awaits_fresh [OF assms] healthy_fresh
    by (simp add: vcs_example_def tcp_tlp_inbox_def priv_init_def) (simp add: fresh_sock_def)
  show "cache_inv (vcs_example ms ts)" "cache_items (vcs_example ms ts) = []"
    using cache_inv_zero by (simp_all add: vcs_example_def cache_inv_def cache_items_def)
qed

lemma polls_in_order_witness:
  "\<exists>ctx'. poll_n tcp_transport 2 poll_out_zero (vcs_example
      [sync_of SYNC_MSG_TLP_READY 0, sync_of SYNC_MSG_VF_EVENT 0, sync_of SYNC_MSG_TLP_READY 0]
      [tlp_zero, tlp_zero\<lparr>t_tag := 1\<rparr>]) shm_side_example = Some ([tlp_zero, tlp_zero\<lparr>t_tag := 1\<rparr>], ctx', shm_side_example)"
proof -
  let ?ms = "[sync_of SYNC_MSG_TLP_READY 0, sync_of SYNC_MSG_VF_EVENT 0, sync_of SYNC_MSG_TLP_READY 0]"
  let ?ts = "[tlp_zero, tlp_zero\<lparr>t_tag := 1\<rparr>]"
  have wf: "list_all wf_tlp ?ts" by (simp add: wf_tlp_def tlp_zero_def)
  obtain p where p: "rc_transport (vcs_example ?ms ?ts) = Some p" "tcp_tlp_inbox p ?ms ?ts"
    using vcs_example_inbox(1) [OF wf] by blast
  have "tcp_tlps.announced ?ms ?ts" by simp
  from polls_in_order [OF p this vcs_example_inbox(2,3) [OF wf], of poll_out_zero shm_side_example]
  show ?thesis by (auto simp: numeral_2_eq_2)
qed

text \<open>A poll over TCP returns whatever arrives on the connections and however the kernel cuts it: the loop that
  empties the control channel ends.\<close>

lemma poll_returns: "\<exists>r. poll_tlp_ctx tcp_transport out ctx g = Some r"
proof -
  have "poll_transport tcp_transport out c g \<noteq> None" for c
    using drain_ends
    by (simp add: poll_transport_def del: not_None_eq split: option.splits prod.splits)
  then have "poll_tlp_ctx tcp_transport out ctx g \<noteq> None"
    by (simp add: poll_tlp_ctx_def Let_def del: not_None_eq split: option.splits)
  then show ?thesis by blast
qed

text \<open>Of several VF events that arrive between two polls the simulator sees only the last; a single event is
  seen exactly once.\<close>

lemma vf_event_last_only:
  assumes "rc_transport ctx = Some p" and "tcp_tlp_inbox p (map (sync_of SYNC_MSG_VF_EVENT \<circ> vf_event_payload) evs) []"
    and "cache_inv ctx" and "cache_items ctx = []" and "evs \<noteq> []"
  shows "\<exists>ctx' ctx''. poll_tlp_ctx tcp_transport out ctx g = Some (1, out, ctx', g)
    \<and> bridge_vcs_poll_vf_event ctx' = (Some (uint (v_event_type (last evs)), uint (v_pf_index (last evs)), uint (v_num_vfs (last evs))), ctx'')
    \<and> fst (bridge_vcs_poll_vf_event ctx'') = None"
proof -
  let ?ms = "map (sync_of SYNC_MSG_VF_EVENT \<circ> vf_event_payload) evs"
  have an: "tcp_tlps.announced (map (sync_of SYNC_MSG_VF_EVENT \<circ> vf_event_payload) xs) []" for xs by (induction xs) simp_all
  have after: "xs \<noteq> [] \<Longrightarrow> vf_after (map (sync_of SYNC_MSG_VF_EVENT \<circ> vf_event_payload) xs) b = (True, last xs)" for xs b
    by (induction xs arbitrary: b) auto
  have "tcp_tlps.holds_tlps ctx ?ms []" using assms an by (auto simp: tcp_tlps.holds_tlps_def)
  from tcp_tlps.poll_vf_only [OF this assms(4), of out g] after [OF assms(5)] obtain ctx'
    where "poll_tlp_ctx tcp_transport out ctx g = Some (1, out, ctx', g)" "rc_vf_event_pending ctx'" "rc_vf_event ctx' = last evs"
    by auto
  then show ?thesis by (auto simp: bridge_vcs_poll_vf_event_def)
qed

lemma vf_event_last_only_witness:
  "\<exists>ctx'. poll_tlp_ctx tcp_transport poll_out_zero (vcs_example
       (map (sync_of SYNC_MSG_VF_EVENT \<circ> vf_event_payload)
         [\<lparr>v_event_type = VF_EVENT_ENABLE, v_pf_index = 0, v_num_vfs = 4\<rparr>, \<lparr>v_event_type = VF_EVENT_DISABLE, v_pf_index = 1, v_num_vfs = 2\<rparr>]) [])
       shm_side_example = Some (1, poll_out_zero, ctx', shm_side_example)
    \<and> fst (bridge_vcs_poll_vf_event ctx') = Some (1, 1, 2)"
proof -
  let ?evs = "[\<lparr>v_event_type = VF_EVENT_ENABLE, v_pf_index = 0, v_num_vfs = 4\<rparr>, \<lparr>v_event_type = VF_EVENT_DISABLE, v_pf_index = 1, v_num_vfs = 2\<rparr>]"
  let ?ms = "map (sync_of SYNC_MSG_VF_EVENT \<circ> vf_event_payload) ?evs"
  have wf: "list_all wf_tlp []" by simp
  obtain p where p: "rc_transport (vcs_example ?ms []) = Some p" "tcp_tlp_inbox p ?ms []"
    using vcs_example_inbox(1) [OF wf] by blast
  from vf_event_last_only [OF p vcs_example_inbox(2,3) [OF wf], of poll_out_zero shm_side_example]
  show ?thesis by (fastforce simp: VF_EVENT_DISABLE_def)
qed

end
