(* ===== verification/Vcs_Dma.thy ===== *)
theory Vcs_Dma
  imports Vcs_Rc Dma_Manager
begin

section \<open>DMA and interrupts from the simulator side: bridge\_vcs.c\<close>

text \<open>
  The global state of bridge\_vcs.c: the shared-memory side, whether it was initialised, the contexts
  of the root complexes, and the static variables of the DMA functions (a tag counter and a bump
  offset into the DMA buffer each).  A result \<^theory_text>\<open>None\<close> is a memory access outside a buffer.
\<close>

definition COSIM_MAX_RCS :: nat where [code_consts]: "COSIM_MAX_RCS = 4"

record dma_static =
  ds_tag :: u32
  ds_bump :: u32

record 'p vcs =
  vc_side :: shm_side
  vc_initialized :: bool
  vc_rc :: "'p rc_ctx list"
  vc_num_rc :: int
  vc_request :: dma_static       \<comment> \<open>\<open>bridge_vcs_dma_request\<close>\<close>
  vc_read_sync :: dma_static
  vc_write_sync :: dma_static
  vc_rd :: dma_static            \<comment> \<open>\<open>rd_tag\<close>, \<open>rd_bump\<close> of \<open>bridge_dma_read_bytes\<close>\<close>
  vc_wr :: dma_static

definition vcs_start :: "shm_side \<Rightarrow> 'p vcs" where
  "vcs_start side = \<lparr>vc_side = side, vc_initialized = False, vc_rc = replicate COSIM_MAX_RCS rc_zero, vc_num_rc = 1,
     vc_request = \<lparr>ds_tag = 1000, ds_bump = 0\<rparr>, vc_read_sync = \<lparr>ds_tag = 2000, ds_bump = 0\<rparr>,
     vc_write_sync = \<lparr>ds_tag = 3000, ds_bump = 0\<rparr>, vc_rd = \<lparr>ds_tag = 5000, ds_bump = 0\<rparr>,
     vc_wr = \<lparr>ds_tag = 6000, ds_bump = 0\<rparr>\<rparr>"

definition rc0 :: "'p vcs \<Rightarrow> 'p rc_ctx" where
  "rc0 v = vc_rc v ! 0"

definition set_rc0 :: "'p rc_ctx \<Rightarrow> 'p vcs \<Rightarrow> 'p vcs" where
  "set_rc0 ctx v = v\<lparr>vc_rc := (vc_rc v)[0 := ctx]\<rparr>"

text \<open>The next tag; the offset of \<open>len\<close> bytes in the DMA buffer, which starts over when it would run out.\<close>

definition take_tag :: "dma_static \<Rightarrow> u32 \<times> dma_static" where
  "take_tag st = (ds_tag st, st\<lparr>ds_tag := ds_tag st + 1\<rparr>)"

definition bump_alloc :: "u32 \<Rightarrow> u32 \<Rightarrow> dma_static \<Rightarrow> u32 \<times> dma_static" where
  "bump_alloc len buf_size st =
     (let aligned = (len + 63) AND NOT 63;
          offset = (if ds_bump st + aligned > buf_size then 0 else ds_bump st)
      in (offset, st\<lparr>ds_bump := offset + aligned\<rparr>))"

definition side_buf_size :: "shm_side \<Rightarrow> u32" where
  "side_buf_size g = of_nat (length (sh_dma_buf (ss_shm g)))"

text \<open>\<open>memcpy\<close> into and out of the DMA buffer.\<close>

definition buf_write :: "u32 \<Rightarrow> bytes \<Rightarrow> shm_side \<Rightarrow> shm_side option" where
  "buf_write offset bs g =
     (if unat offset + length bs > length (sh_dma_buf (ss_shm g)) then None
      else Some (g\<lparr>ss_shm := (ss_shm g)\<lparr>sh_dma_buf := blit (unat offset) bs (sh_dma_buf (ss_shm g))\<rparr>\<rparr>))"

definition buf_read :: "u32 \<Rightarrow> nat \<Rightarrow> shm_side \<Rightarrow> bytes option" where
  "buf_read offset n g =
     (if unat offset + n > length (sh_dma_buf (ss_shm g)) then None
      else Some (take n (drop (unat offset) (sh_dma_buf (ss_shm g)))))"

text \<open>The first \<open>len\<close> bytes of an array of words; the copy of a transfer into the caller's words, at most 16.\<close>

definition word_bytes :: "u32 list \<Rightarrow> nat \<Rightarrow> bytes option" where
  "word_bytes data n = (if n > 4 * length data then None else Some (take n (concat (map (le_bytes 4) data))))"

definition copy_words :: "nat \<Rightarrow> bytes \<Rightarrow> u32 list \<Rightarrow> u32 list" where
  "copy_words words src data =
     map (\<lambda>i. if i < words \<and> i < 16 then le_word (field (4 * i) 4 src) else data ! i) [0..<length data]"

definition make_dma_req :: "u32 \<Rightarrow> u32 \<Rightarrow> u64 \<Rightarrow> u32 \<Rightarrow> u32 \<Rightarrow> dma_req" where
  "make_dma_req tag direction host_addr len offset = \<lparr>r_requester_id = 0, r_pad_rid = 0, r_tag = tag,
     r_direction = direction, r_host_addr = host_addr, r_len = len, r_dma_offset = offset, r_timestamp = 0\<rparr>"

subsection \<open>Asynchronous requests and interrupts\<close>

definition dma_request_shm :: "u32 \<Rightarrow> u64 \<Rightarrow> u32 list \<Rightarrow> int \<Rightarrow> 'p vcs \<Rightarrow> ((rc \<times> u32) \<times> 'p vcs) option" where
  "dma_request_shm direction host_addr data len v =
     (case bump_alloc (of_int len) (side_buf_size (vc_side v)) (vc_request v) of
        (offset, st1) \<Rightarrow>
          Option.bind (if direction = DMA_DIR_WRITE
              then (if len < 0 then None
                    else Option.bind (word_bytes data (nat len)) (\<lambda>bs. buf_write offset bs (vc_side v)))
              else Some (vc_side v))
            (\<lambda>g1. case take_tag st1 of
               (tag, st2) \<Rightarrow> (case side_enqueue sh_dma_req_ring set_dma_req_ring
                      (enc_dma_req (make_dma_req tag direction host_addr (of_int len) offset)) g1 of
                   (r, g2) \<Rightarrow> Some ((if r < 0 then -1 else 0, tag), v\<lparr>vc_request := st2, vc_side := g2\<rparr>))))"

definition bridge_vcs_dma_request :: "'p transport \<Rightarrow> u32 \<Rightarrow> u64 \<Rightarrow> u32 list \<Rightarrow> int \<Rightarrow> 'p vcs
    \<Rightarrow> ((rc \<times> u32) \<times> 'p vcs) option" where
  "bridge_vcs_dma_request ops direction host_addr data len v =
     (case rc_transport (rc0 v) of
        None \<Rightarrow> dma_request_shm direction host_addr data len v
      | Some p \<Rightarrow> (case take_tag (vc_request v) of
          (tag, st1) \<Rightarrow>
            Option.bind (if direction = DMA_DIR_WRITE
                then Option.bind (word_bytes data (nat len))
                  (\<lambda>bs. Some (tr_send_dma_data ops tag DMA_DIR_WRITE host_addr bs p))
                else Some (0, p))
              (\<lambda>(r1, p1). if r1 < 0 then Some ((-1, tag), set_rc0 ((rc0 v)\<lparr>rc_transport := Some p1\<rparr>) (v\<lparr>vc_request := st1\<rparr>))
                 else (case tr_send_dma_req ops (make_dma_req tag direction host_addr (of_int len) 0) p1 of
                     (r2, p2) \<Rightarrow> Some ((if r2 < 0 then -1 else 0, tag),
                        set_rc0 ((rc0 v)\<lparr>rc_transport := Some p2\<rparr>) (v\<lparr>vc_request := st1\<rparr>))))))"

definition bridge_vcs_raise_msi :: "'p transport \<Rightarrow> int \<Rightarrow> 'p vcs \<Rightarrow> rc \<times> 'p vcs" where
  "bridge_vcs_raise_msi ops vector v =
     (let ev = \<lparr>m_requester_id = 0, m_vector = of_int vector, m_pad0 = 0, m_timestamp = 0\<rparr>
      in case rc_transport (rc0 v) of
          Some p \<Rightarrow> (case rc_via (tr_send_msi ops ev) p (rc0 v) of (r, ctx1) \<Rightarrow> (r, set_rc0 ctx1 v))
        | None \<Rightarrow> (case side_enqueue sh_msi_ring set_msi_ring (enc_msi ev) (vc_side v) of
            (r, g1) \<Rightarrow> (if r < 0 then -1 else 0, v\<lparr>vc_side := g1\<rparr>)))"

subsection \<open>Clock steps\<close>

definition side_recv :: "shm_side \<Rightarrow> sync_msg recvd \<times> shm_side" where
  "side_recv g = (case ss_sock g of
     None \<Rightarrow> (Failed, g)
   | Some s \<Rightarrow> (case sock_sync_recv s of (r, s1) \<Rightarrow> (r, g\<lparr>ss_sock := Some s1\<rparr>)))"

text \<open>The result, and \<open>cycles_out\<close> (\<^theory_text>\<open>None\<close>: not written).\<close>

definition bridge_vcs_wait_clock_step :: "'p vcs \<Rightarrow> (rc \<times> int option) \<times> 'p vcs" where
  "bridge_vcs_wait_clock_step v =
     (if rc_transport (rc0 v) \<noteq> None then ((-1, Some 0), v)
      else (case side_recv (vc_side v) of
          (Got msg, g1) \<Rightarrow> (if sm_type msg = sync_code SYNC_MSG_CLOCK_STEP then (0, Some (sint (sm_payload msg)))
             else (sint (sm_type msg), Some 0), v\<lparr>vc_side := g1\<rparr>)
        | (_, g1) \<Rightarrow> ((-1, None), v\<lparr>vc_side := g1\<rparr>)))"

definition bridge_vcs_clock_ack :: "int \<Rightarrow> 'p vcs \<Rightarrow> rc \<times> 'p vcs" where
  "bridge_vcs_clock_ack cycles v =
     (if rc_transport (rc0 v) \<noteq> None then (-1, v)
      else (case side_send (sync_of SYNC_MSG_CLOCK_ACK (of_int cycles)) (vc_side v) of (r, g1) \<Rightarrow> (r, v\<lparr>vc_side := g1\<rparr>)))"

subsection \<open>Waiting for a DMA completion\<close>

text \<open>What a function does with a completion notification: return a value, wait on, or access memory outside
  a buffer.\<close>

datatype 'r handled = Return 'r | Continue | Mem_Error

text \<open>Over a transport: TLPs that arrive meanwhile go to the cache of context 0.\<close>

fun dma_wait :: "'p transport \<Rightarrow> nat \<Rightarrow> 'r \<Rightarrow> ('p rc_ctx \<Rightarrow> 'r handled \<times> 'p rc_ctx) \<Rightarrow> 'p rc_ctx \<Rightarrow> ('r \<times> 'p rc_ctx) option" where
  "dma_wait ops 0 failed h ctx = Some (failed, ctx)"
| "dma_wait ops (Suc n) failed h ctx =
     (case rc_transport ctx of
        None \<Rightarrow> Some (failed, ctx)
      | Some p \<Rightarrow> (case rc_via (tr_recv_sync ops) p ctx of
          (Got msg, ctx1) \<Rightarrow>
            if sm_type msg = sync_code SYNC_MSG_SHUTDOWN then Some (failed, ctx1)
            else if sm_type msg = sync_code SYNC_MSG_TLP_READY
            then (case rc_transport ctx1 of
                None \<Rightarrow> Some (failed, ctx1)
              | Some p1 \<Rightarrow> (case rc_via (tr_recv_tlp ops) p1 ctx1 of
                    (Got e, ctx2) \<Rightarrow> dma_wait ops n failed h (snd (tlp_cache_push_ctx ctx2 e))
                  | (_, ctx2) \<Rightarrow> dma_wait ops n failed h ctx2))
            else if sm_type msg = sync_code SYNC_MSG_DMA_CPL
            then (case h ctx1 of
                (Return r, ctx2) \<Rightarrow> Some (r, ctx2)
              | (Continue, ctx2) \<Rightarrow> dma_wait ops n failed h ctx2
              | (Mem_Error, ctx2) \<Rightarrow> None)
            else dma_wait ops n failed h ctx1
        | (_, ctx1) \<Rightarrow> Some (failed, ctx1)))"

text \<open>In shared memory: \<open>TLP_READY\<close> messages are counted.\<close>

fun dma_wait_shm :: "nat \<Rightarrow> 'r \<Rightarrow> u32 \<Rightarrow> (shm_side \<Rightarrow> 'r option) \<Rightarrow> int \<Rightarrow> shm_side \<Rightarrow> ('r \<times> int \<times> shm_side) option" where
  "dma_wait_shm 0 failed tag fin pending g = Some (failed, pending, g)"
| "dma_wait_shm (Suc n) failed tag fin pending g =
     (case side_recv_timed 5000 g of
        (Failed, g1) \<Rightarrow> Some (failed, pending, g1)
      | (Nothing, g1) \<Rightarrow> dma_wait_shm n failed tag fin pending g1
      | (Got msg, g1) \<Rightarrow>
          if sm_type msg = sync_code SYNC_MSG_DMA_CPL
          then (case side_dequeue sh_dma_cpl_ring set_dma_cpl_ring g1 of
              (Some bs, g2) \<Rightarrow>
                if d_tag (dec_dma_cpl bs) = tag \<and> d_status (dec_dma_cpl bs) = 0
                then Option.bind (fin g2) (\<lambda>r. Some (r, pending, g2))
                else Some (failed, pending, g2)
            | (None, g2) \<Rightarrow> dma_wait_shm n failed tag fin pending g2)
          else if sm_type msg = sync_code SYNC_MSG_SHUTDOWN then Some (failed, pending, g1)
          else if sm_type msg = sync_code SYNC_MSG_TLP_READY then dma_wait_shm n failed tag fin (pending + 1) g1
          else dma_wait_shm n failed tag fin pending g1)"

definition handle_write_cpl :: "'p transport \<Rightarrow> u32 \<Rightarrow> 'p rc_ctx \<Rightarrow> rc handled \<times> 'p rc_ctx" where
  "handle_write_cpl ops tag ctx = (case rc_transport ctx of
     None \<Rightarrow> (Return (-1), ctx)
   | Some p \<Rightarrow> (case rc_via (tr_recv_dma_cpl ops) p ctx of
         (Got c, ctx1) \<Rightarrow> (Return (if d_tag c = tag \<and> d_status c = 0 then 0 else -1), ctx1)
       | (_, ctx1) \<Rightarrow> (Return (-1), ctx1)))"

subsection \<open>Synchronous transfers of words\<close>

text \<open>\<open>stack\<close> is what the local buffer \<open>tmp_buf\<close> of 64 bytes holds before the data is received.\<close>

definition handle_read_cpl :: "'p transport \<Rightarrow> u32 \<Rightarrow> bytes \<Rightarrow> int \<Rightarrow> u32 list \<Rightarrow> 'p rc_ctx \<Rightarrow> (rc \<times> u32 list) handled \<times> 'p rc_ctx" where
  "handle_read_cpl ops tag stack len data ctx = (case rc_transport ctx of
     None \<Rightarrow> (Return (-1, data), ctx)
   | Some p \<Rightarrow> (case rc_via (tr_recv_dma_cpl ops) p ctx of
         (Got c, ctx1) \<Rightarrow>
           if d_tag c \<noteq> tag \<or> d_status c \<noteq> 0 then (Return (-1, data), ctx1)
           else (case rc_transport ctx1 of
               None \<Rightarrow> (Return (-1, data), ctx1)
             | Some p1 \<Rightarrow> (case rc_via (tr_recv_dma_data ops) p1 ctx1 of
                   (Got d, ctx2) \<Rightarrow>
                     if length (dd_bytes d) > length stack then (Mem_Error, ctx2)
                     else (Return (0, copy_words (nat ((len + 3) div 4)) (blit 0 (dd_bytes d) stack) data), ctx2)
                 | (_, ctx2) \<Rightarrow> (Return (-1, data), ctx2)))
       | (_, ctx1) \<Rightarrow> (Return (-1, data), ctx1)))"

definition dma_read_sync_shm :: "u64 \<Rightarrow> u32 list \<Rightarrow> int \<Rightarrow> 'p vcs \<Rightarrow> ((rc \<times> u32 list) \<times> 'p vcs) option" where
  "dma_read_sync_shm host_addr data len v =
     (case bump_alloc (of_int len) (side_buf_size (vc_side v)) (vc_read_sync v) of
        (offset, st1) \<Rightarrow> (case take_tag st1 of
          (tag, st2) \<Rightarrow> (case side_enqueue sh_dma_req_ring set_dma_req_ring
                (enc_dma_req (make_dma_req tag DMA_DIR_READ host_addr (of_int len) offset)) (vc_side v) of
              (r, g1) \<Rightarrow>
                if r < 0 then Some ((-1, data), v\<lparr>vc_read_sync := st2, vc_side := g1\<rparr>)
                else (case dma_wait_shm 1000 (-1, data) tag
                    (\<lambda>g. map_option (\<lambda>src. (0, copy_words (nat ((len + 3) div 4)) src data))
                       (buf_read offset (min 64 (4 * nat ((len + 3) div 4))) g))
                    (rc_pending_tlp_ready (rc0 v)) g1 of
                    None \<Rightarrow> None
                  | Some (res, pending, g2) \<Rightarrow> Some (res, set_rc0 ((rc0 v)\<lparr>rc_pending_tlp_ready := pending\<rparr>)
                      (v\<lparr>vc_read_sync := st2, vc_side := g2\<rparr>))))))"

definition bridge_vcs_dma_read_sync :: "'p transport \<Rightarrow> bytes \<Rightarrow> u64 \<Rightarrow> u32 list \<Rightarrow> int \<Rightarrow> 'p vcs
    \<Rightarrow> ((rc \<times> u32 list) \<times> 'p vcs) option" where
  "bridge_vcs_dma_read_sync ops stack host_addr data len v =
     (if \<not> vc_initialized v \<or> len \<le> 0 then Some ((-1, data), v)
      else (case rc_transport (rc0 v) of
          None \<Rightarrow> dma_read_sync_shm host_addr data len v
        | Some p \<Rightarrow> (case take_tag (vc_read_sync v) of
            (tag, st1) \<Rightarrow> (case rc_via (tr_send_dma_req ops (make_dma_req tag DMA_DIR_READ host_addr (of_int len) 0)) p (rc0 v) of
                (r, ctx1) \<Rightarrow>
                  if r < 0 then Some ((-1, data), set_rc0 ctx1 (v\<lparr>vc_read_sync := st1\<rparr>))
                  else (case dma_wait ops 1000 (-1, data) (handle_read_cpl ops tag stack len data) ctx1 of
                      None \<Rightarrow> None
                    | Some (res, ctx2) \<Rightarrow> Some (res, set_rc0 ctx2 (v\<lparr>vc_read_sync := st1\<rparr>)))))))"

definition dma_write_sync_shm :: "u64 \<Rightarrow> u32 list \<Rightarrow> int \<Rightarrow> 'p vcs \<Rightarrow> (rc \<times> 'p vcs) option" where
  "dma_write_sync_shm host_addr data len v =
     (case bump_alloc (of_int len) (side_buf_size (vc_side v)) (vc_write_sync v) of
        (offset, st1) \<Rightarrow>
          Option.bind (word_bytes data (nat len)) (\<lambda>bs. Option.bind (buf_write offset bs (vc_side v)) (\<lambda>g0.
            case take_tag st1 of
              (tag, st2) \<Rightarrow> (case side_enqueue sh_dma_req_ring set_dma_req_ring
                    (enc_dma_req (make_dma_req tag DMA_DIR_WRITE host_addr (of_int len) offset)) g0 of
                  (r, g1) \<Rightarrow>
                    if r < 0 then Some (-1, v\<lparr>vc_write_sync := st2, vc_side := g1\<rparr>)
                    else (case dma_wait_shm 1000 (-1) tag (\<lambda>g. Some 0) (rc_pending_tlp_ready (rc0 v)) g1 of
                        None \<Rightarrow> None
                      | Some (res, pending, g2) \<Rightarrow> Some (res, set_rc0 ((rc0 v)\<lparr>rc_pending_tlp_ready := pending\<rparr>)
                          (v\<lparr>vc_write_sync := st2, vc_side := g2\<rparr>)))))))"

text \<open>The request is sent before its data.\<close>

definition send_write :: "'p transport \<Rightarrow> u32 \<Rightarrow> u64 \<Rightarrow> u32 \<Rightarrow> bytes \<Rightarrow> 'p \<Rightarrow> rc \<times> 'p" where
  "send_write ops tag host_addr len bs p =
     (case tr_send_dma_req ops (make_dma_req tag DMA_DIR_WRITE host_addr len 0) p of
        (r1, p1) \<Rightarrow> if r1 < 0 then (-1, p1)
          else (case tr_send_dma_data ops tag DMA_DIR_WRITE host_addr bs p1 of (r2, p2) \<Rightarrow> (if r2 < 0 then -1 else 0, p2)))"

definition bridge_vcs_dma_write_sync :: "'p transport \<Rightarrow> u64 \<Rightarrow> u32 list \<Rightarrow> int \<Rightarrow> 'p vcs \<Rightarrow> (rc \<times> 'p vcs) option" where
  "bridge_vcs_dma_write_sync ops host_addr data len v =
     (if \<not> vc_initialized v \<or> len \<le> 0 then Some (-1, v)
      else (case rc_transport (rc0 v) of
          None \<Rightarrow> dma_write_sync_shm host_addr data len v
        | Some p \<Rightarrow> (case take_tag (vc_write_sync v) of
            (tag, st1) \<Rightarrow> Option.bind (word_bytes data (nat len)) (\<lambda>bs.
              case rc_via (send_write ops tag host_addr (of_int len) bs) p (rc0 v) of
                (r, ctx1) \<Rightarrow>
                  if r < 0 then Some (-1, set_rc0 ctx1 (v\<lparr>vc_write_sync := st1\<rparr>))
                  else (case dma_wait ops 1000 (-1) (handle_write_cpl ops tag) ctx1 of
                      None \<Rightarrow> None
                    | Some (res, ctx2) \<Rightarrow> Some (res, set_rc0 ctx2 (v\<lparr>vc_write_sync := st1\<rparr>)))))))"

subsection \<open>Transfers of bytes\<close>

text \<open>The receive buffer of \<open>bridge_dma_read_bytes\<close> has 4096 bytes; a completion of an earlier request is
  dropped with its data.\<close>

definition handle_read_bytes :: "'p transport \<Rightarrow> u32 \<Rightarrow> u32 \<Rightarrow> bytes \<Rightarrow> 'p rc_ctx \<Rightarrow> (rc \<times> bytes) handled \<times> 'p rc_ctx" where
  "handle_read_bytes ops tag len buf ctx = (case rc_transport ctx of
     None \<Rightarrow> (Return (-1, buf), ctx)
   | Some p \<Rightarrow> (case rc_via (tr_recv_dma_data ops) p ctx of
         (Got d, ctx1) \<Rightarrow>
           if length (dd_bytes d) > 4096 then (Mem_Error, ctx1)
           else (case rc_transport ctx1 of
               None \<Rightarrow> (Return (-1, buf), ctx1)
             | Some p1 \<Rightarrow> (case rc_via (tr_recv_dma_cpl ops) p1 ctx1 of
                   (Got c, ctx2) \<Rightarrow>
                     if d_tag c \<noteq> tag \<or> d_status c \<noteq> 0 then (Continue, ctx2)
                     else (let n = min (length (dd_bytes d)) (unat len)
                       in if n > length buf then (Mem_Error, ctx2)
                          else (Return (0, blit 0 (take n (dd_bytes d)) buf), ctx2))
                 | (_, ctx2) \<Rightarrow> (Return (-1, buf), ctx2)))
       | (_, ctx1) \<Rightarrow> (Return (-1, buf), ctx1)))"

definition dma_read_bytes_shm :: "u64 \<Rightarrow> bytes \<Rightarrow> u32 \<Rightarrow> 'p vcs \<Rightarrow> ((rc \<times> bytes) \<times> 'p vcs) option" where
  "dma_read_bytes_shm host_addr buf len v =
     (case bump_alloc len (side_buf_size (vc_side v)) (vc_rd v) of
        (offset, st1) \<Rightarrow> (case take_tag st1 of
          (tag, st2) \<Rightarrow> (case side_enqueue sh_dma_req_ring set_dma_req_ring
                (enc_dma_req (make_dma_req tag DMA_DIR_READ host_addr len offset)) (vc_side v) of
              (r, g1) \<Rightarrow>
                if r < 0 then Some ((-1, buf), v\<lparr>vc_rd := st2, vc_side := g1\<rparr>)
                else (case dma_wait_shm 1000 (-1, buf) tag
                    (\<lambda>g. if unat len > length buf then None
                         else map_option (\<lambda>bs. (0, blit 0 bs buf)) (buf_read offset (unat len) g))
                    (rc_pending_tlp_ready (rc0 v)) g1 of
                    None \<Rightarrow> None
                  | Some (res, pending, g2) \<Rightarrow> Some (res, set_rc0 ((rc0 v)\<lparr>rc_pending_tlp_ready := pending\<rparr>)
                      (v\<lparr>vc_rd := st2, vc_side := g2\<rparr>))))))"

definition bridge_dma_read_bytes :: "'p transport \<Rightarrow> u64 \<Rightarrow> bytes \<Rightarrow> u32 \<Rightarrow> 'p vcs \<Rightarrow> ((rc \<times> bytes) \<times> 'p vcs) option" where
  "bridge_dma_read_bytes ops host_addr buf len v =
     (if \<not> vc_initialized v \<or> len = 0 then Some ((-1, buf), v)
      else (case rc_transport (rc0 v) of
          None \<Rightarrow> dma_read_bytes_shm host_addr buf len v
        | Some p \<Rightarrow> (case take_tag (vc_rd v) of
            (tag, st1) \<Rightarrow> (case rc_via (tr_send_dma_req ops (make_dma_req tag DMA_DIR_READ host_addr len 0)) p (rc0 v) of
                (r, ctx1) \<Rightarrow>
                  if r < 0 then Some ((-1, buf), set_rc0 ctx1 (v\<lparr>vc_rd := st1\<rparr>))
                  else (case dma_wait ops 1000 (-1, buf) (handle_read_bytes ops tag len buf) ctx1 of
                      None \<Rightarrow> None
                    | Some (res, ctx2) \<Rightarrow> Some (res, set_rc0 ctx2 (v\<lparr>vc_rd := st1\<rparr>)))))))"

definition dma_write_bytes_shm :: "u64 \<Rightarrow> bytes \<Rightarrow> 'p vcs \<Rightarrow> (rc \<times> 'p vcs) option" where
  "dma_write_bytes_shm host_addr bs v =
     (let len = of_nat (length bs)
      in case bump_alloc len (side_buf_size (vc_side v)) (vc_wr v) of
        (offset, st1) \<Rightarrow> Option.bind (buf_write offset bs (vc_side v)) (\<lambda>g0.
            case take_tag st1 of
              (tag, st2) \<Rightarrow> (case side_enqueue sh_dma_req_ring set_dma_req_ring
                    (enc_dma_req (make_dma_req tag DMA_DIR_WRITE host_addr len offset)) g0 of
                  (r, g1) \<Rightarrow>
                    if r < 0 then Some (-1, v\<lparr>vc_wr := st2, vc_side := g1\<rparr>)
                    else (case dma_wait_shm 1000 (-1) tag (\<lambda>g. Some 0) (rc_pending_tlp_ready (rc0 v)) g1 of
                        None \<Rightarrow> None
                      | Some (res, pending, g2) \<Rightarrow> Some (res, set_rc0 ((rc0 v)\<lparr>rc_pending_tlp_ready := pending\<rparr>)
                          (v\<lparr>vc_wr := st2, vc_side := g2\<rparr>))))))"

definition bridge_dma_write_bytes :: "'p transport \<Rightarrow> u64 \<Rightarrow> bytes \<Rightarrow> 'p vcs \<Rightarrow> (rc \<times> 'p vcs) option" where
  "bridge_dma_write_bytes ops host_addr bs v =
     (if \<not> vc_initialized v \<or> (of_nat (length bs) :: u32) = 0 then Some (-1, v)
      else (case rc_transport (rc0 v) of
          None \<Rightarrow> dma_write_bytes_shm host_addr bs v
        | Some p \<Rightarrow> (case take_tag (vc_wr v) of
            (tag, st1) \<Rightarrow> (case rc_via (send_write ops tag host_addr (of_nat (length bs)) bs) p (rc0 v) of
                (r, ctx1) \<Rightarrow>
                  if r < 0 then Some (-1, set_rc0 ctx1 (v\<lparr>vc_wr := st1\<rparr>))
                  else (case dma_wait ops 1000 (-1) (handle_write_cpl ops tag) ctx1 of
                      None \<Rightarrow> None
                    | Some (res, ctx2) \<Rightarrow> Some (res, set_rc0 ctx2 (v\<lparr>vc_wr := st1\<rparr>)))))))"

subsection \<open>Waiting over TCP\<close>

lemma tcp_rc_recv_sync:
  assumes "sync_stream.awaits (m # ms) (tp_ctrl p)"
  shows "\<exists>s. rc_via (tr_recv_sync tcp_transport) p ctx = (Got m, ctx\<lparr>rc_transport := Some (p\<lparr>tp_ctrl := s\<rparr>)\<rparr>)
    \<and> sync_stream.awaits ms s"
  using sync_stream.recv_awaits [OF assms]
  by (auto simp: rc_via_def tcp_transport_def tcp_recv_sync_def on_ctrl_def)

lemma tcp_rc_recv_tlp:
  assumes "tlp_stream.awaits (t # ts) (tp_data p)"
  shows "\<exists>s. rc_via (tr_recv_tlp tcp_transport) p ctx = (Got t, ctx\<lparr>rc_transport := Some (p\<lparr>tp_data := s\<rparr>)\<rparr>)
    \<and> tlp_stream.awaits ts s"
  using tlp_stream.recv_awaits [OF assms]
  by (auto simp: rc_via_def tcp_transport_def tcp_recv_tlp_def on_data_def)

text \<open>The wait reaches the completion notification with all TLPs announced before it in the cache.\<close>

lemma dma_wait_caches:
  assumes "rc_transport ctx = Some p"
    and "sync_stream.awaits (replicate (length ts) (sync_of SYNC_MSG_TLP_READY 0) @ sync_of SYNC_MSG_DMA_CPL x # ms) (tp_ctrl p)"
    and "tlp_stream.awaits ts (tp_data p)" and "cache_inv ctx"
    and "length (cache_items ctx) + length ts < TLP_CACHE_SIZE"
  shows "\<exists>ctx1 s1 s2. dma_wait tcp_transport (Suc (length ts + n)) failed h ctx =
      (case h ctx1 of (Return r, c2) \<Rightarrow> Some (r, c2) | (Continue, c2) \<Rightarrow> dma_wait tcp_transport n failed h c2 | (Mem_Error, c2) \<Rightarrow> None)
    \<and> rc_transport ctx1 = Some (p\<lparr>tp_ctrl := s1, tp_data := s2\<rparr>) \<and> cache_inv ctx1 \<and> cache_items ctx1 = cache_items ctx @ ts"
  using assms
proof (induction ts arbitrary: ctx p)
  case Nil
  from tcp_rc_recv_sync [of "sync_of SYNC_MSG_DMA_CPL x" ms p ctx] Nil.prems(2) obtain s
    where r: "rc_via (tr_recv_sync tcp_transport) p ctx = (Got (sync_of SYNC_MSG_DMA_CPL x), ctx\<lparr>rc_transport := Some (p\<lparr>tp_ctrl := s\<rparr>)\<rparr>)"
    by auto
  let ?ctx1 = "ctx\<lparr>rc_transport := Some (p\<lparr>tp_ctrl := s\<rparr>)\<rparr>"
  have "dma_wait tcp_transport (Suc n) failed h ctx =
      (case h ?ctx1 of (Return r, c2) \<Rightarrow> Some (r, c2) | (Continue, c2) \<Rightarrow> dma_wait tcp_transport n failed h c2 | (Mem_Error, c2) \<Rightarrow> None)"
    using Nil.prems(1) r by simp
  moreover have "rc_transport ?ctx1 = Some (p\<lparr>tp_ctrl := s, tp_data := tp_data p\<rparr>)" by simp
  ultimately show ?case
    using Nil.prems(4) by (intro exI [of _ ?ctx1] exI [of _ s] exI [of _ "tp_data p"]) (auto simp: cache_inv_def cache_items_def)
next
  case (Cons t ts)
  let ?ms = "replicate (length ts) (sync_of SYNC_MSG_TLP_READY 0) @ sync_of SYNC_MSG_DMA_CPL x # ms"
  from tcp_rc_recv_sync [of "sync_of SYNC_MSG_TLP_READY 0" ?ms p ctx] Cons.prems(2) obtain s
    where r: "rc_via (tr_recv_sync tcp_transport) p ctx = (Got (sync_of SYNC_MSG_TLP_READY 0), ctx\<lparr>rc_transport := Some (p\<lparr>tp_ctrl := s\<rparr>)\<rparr>)"
      "sync_stream.awaits ?ms s" by auto
  let ?p1 = "p\<lparr>tp_ctrl := s\<rparr>" and ?ctx1 = "ctx\<lparr>rc_transport := Some (p\<lparr>tp_ctrl := s\<rparr>)\<rparr>"
  from tcp_rc_recv_tlp [of t ts ?p1 ?ctx1] Cons.prems(3) obtain s2
    where t: "rc_via (tr_recv_tlp tcp_transport) ?p1 ?ctx1 = (Got t, ctx\<lparr>rc_transport := Some (p\<lparr>tp_ctrl := s, tp_data := s2\<rparr>)\<rparr>)"
      "tlp_stream.awaits ts s2" by auto
  let ?p2 = "p\<lparr>tp_ctrl := s, tp_data := s2\<rparr>" and ?ctx2 = "ctx\<lparr>rc_transport := Some (p\<lparr>tp_ctrl := s, tp_data := s2\<rparr>)\<rparr>"
  let ?ctx3 = "snd (tlp_cache_push_ctx ?ctx2 t)"
  have inv2: "cache_inv ?ctx2" and items2: "cache_items ?ctx2 = cache_items ctx"
    using Cons.prems(4) by (simp_all add: cache_inv_def cache_items_def)
  have push: "cache_items ?ctx3 = cache_items ctx @ [t]" "cache_inv ?ctx3"
    using tlp_cache.enq_room [OF inv2, of t] tlp_cache.enq_inv [OF inv2, of t] Cons.prems(5) items2 by auto
  have tr: "rc_transport ?ctx3 = Some ?p2" by (simp add: tlp_cache_push_ctx_def Let_def)
  have "dma_wait tcp_transport (Suc k) failed h ctx = dma_wait tcp_transport k failed h ?ctx3" for k
    using Cons.prems(1) r(1) t(1) by simp
  from this [of "Suc (length ts + n)"]
  have "dma_wait tcp_transport (Suc (length (t # ts) + n)) failed h ctx = dma_wait tcp_transport (Suc (length ts + n)) failed h ?ctx3"
    by (simp only: list.size add_Suc add_Suc_right add_0_right add_0)
  with Cons.IH [of ?ctx3 ?p2] tr r(2) t(2) push Cons.prems(5) show ?case by fastforce
qed

lemma tcp_rc_recv_aux:
  assumes "tp_aux p = Some a" and "reads m f (Got x)" and "healthy a" and "sk_in a = m @ rest"
  shows "\<exists>a'. rc_via (on_aux f) p ctx = (Got x, ctx\<lparr>rc_transport := Some (p\<lparr>tp_aux := Some a'\<rparr>)\<rparr>) \<and> sk_in a' = rest \<and> healthy a'"
  using assms unfolding reads_def by (fastforce simp: rc_via_def on_aux_def aux_or_data_def)

lemma tcp_aux_ops:
  "tr_recv_dma_data tcp_transport = on_aux sock_recv_dma_data"
  "tr_recv_dma_cpl tcp_transport = on_aux (tcp_recv_msg TCP_MSG_DMA_CPL False 16 dec_dma_cpl)"
  by (simp_all add: tcp_transport_def tcp_recv_dma_data_def tcp_recv_dma_cpl_def)

lemma reads_dma_cpl:
  "reads (msg_bytes TCP_MSG_DMA_CPL (enc_dma_cpl c)) (tcp_recv_msg TCP_MSG_DMA_CPL False 16 dec_dma_cpl) (Got c)"
  by (rule dma_cpl_stream.recv_image) simp

text \<open>The order in which the QEMU side completes a read (\<open>bridge_complete_dma_with_data\<close>): data, then completion.\<close>

definition qemu_read_reply :: "u32 \<Rightarrow> u32 \<Rightarrow> u64 \<Rightarrow> bytes \<Rightarrow> bytes" where
  "qemu_read_reply tag direction host_addr bs =
     dma_data_bytes \<lparr>dd_tag = tag, dd_direction = direction, dd_host_addr = host_addr, dd_bytes = bs\<rparr>
     @ msg_bytes TCP_MSG_DMA_CPL (enc_dma_cpl \<lparr>d_tag = tag, d_status = 0, d_timestamp = 0\<rparr>)"

lemma read_bytes_handles_reply:
  assumes "rc_transport ctx = Some p" and "tp_aux p = Some a" and "healthy a"
    and "sk_in a = qemu_read_reply tag direction host_addr bs @ rest"
    and "length bs = unat len" and "length bs \<le> 4096" and "length buf = length bs"
  shows "\<exists>p'. handle_read_bytes tcp_transport tag len buf ctx = (Return (0, bs), ctx\<lparr>rc_transport := Some p'\<rparr>)"
proof -
  let ?d = "\<lparr>dd_tag = tag, dd_direction = direction, dd_host_addr = host_addr, dd_bytes = bs\<rparr>"
  let ?c = "\<lparr>d_tag = tag, d_status = 0, d_timestamp = 0\<rparr>"
  have "reads (dma_data_bytes ?d) sock_recv_dma_data (Got ?d)" using assms(6) by (intro reads_dma_data) simp
  from tcp_rc_recv_aux [OF assms(2) this assms(3), of "msg_bytes TCP_MSG_DMA_CPL (enc_dma_cpl ?c) @ rest" ctx] assms(4)
  obtain a1 where a1: "rc_via (on_aux sock_recv_dma_data) p ctx = (Got ?d, ctx\<lparr>rc_transport := Some (p\<lparr>tp_aux := Some a1\<rparr>)\<rparr>)"
    "sk_in a1 = msg_bytes TCP_MSG_DMA_CPL (enc_dma_cpl ?c) @ rest" "healthy a1" by (auto simp: qemu_read_reply_def)
  let ?ctx1 = "ctx\<lparr>rc_transport := Some (p\<lparr>tp_aux := Some a1\<rparr>)\<rparr>"
  from tcp_rc_recv_aux [of "p\<lparr>tp_aux := Some a1\<rparr>" a1, OF _ reads_dma_cpl [of ?c] a1(3) a1(2), of ?ctx1]
  obtain a2 where "rc_via (on_aux (tcp_recv_msg TCP_MSG_DMA_CPL False 16 dec_dma_cpl)) (p\<lparr>tp_aux := Some a1\<rparr>) ?ctx1
      = (Got ?c, ctx\<lparr>rc_transport := Some (p\<lparr>tp_aux := Some a2\<rparr>)\<rparr>)" by auto
  then show ?thesis
    using assms(1,5,6,7) a1(1) by (auto simp: handle_read_bytes_def tcp_aux_ops)
qed

text \<open>The handler of the word transfer expects the completion first.\<close>

lemma read_cpl_rejects_reply:
  assumes "rc_transport ctx = Some p" and "tp_aux p = Some a" and "healthy a"
    and "sk_in a = qemu_read_reply tag direction host_addr bs @ rest"
  shows "\<exists>p'. handle_read_cpl tcp_transport tag stack len data ctx = (Return (-1, data), ctx\<lparr>rc_transport := Some p'\<rparr>)"
proof -
  let ?h = "\<lparr>h_msg_type = msg_code TCP_MSG_DMA_DATA, h_payload_len = 24 + of_nat (length bs)\<rparr>"
  have "\<exists>more. sk_in a = enc_hdr ?h @ more"
    using assms(4) by (auto simp: qemu_read_reply_def dma_data_bytes_def)
  then obtain more where "sk_in a = enc_hdr ?h @ more" ..
  with reads_hdr [of ?h] assms(3) obtain a1 where "tcp_recv_hdr a = (Some ?h, a1)" unfolding reads_def by blast
  then have "tcp_recv_msg TCP_MSG_DMA_CPL False 16 dec_dma_cpl a = (Failed, a1)" by (simp add: tcp_recv_msg_def)
  then show ?thesis
    using assms(1,2) by (auto simp: handle_read_cpl_def tcp_aux_ops rc_via_def on_aux_def aux_or_data_def)
qed

subsection \<open>Staging in the DMA buffer\<close>

lemma dma_buf_size_value: "dma_buf_size = 14086144"
  by (simp add: code_consts)

lemma bump_alloc_fits:
  assumes "unat len \<le> dma_buf_size" and "unat (ds_bump st) \<le> dma_buf_size"
    and "bump_alloc len (of_nat dma_buf_size) st = (offset, st')"
  shows "unat offset + unat len \<le> dma_buf_size" and "unat (ds_bump st') \<le> dma_buf_size" and "ds_tag st' = ds_tag st"
proof -
  have al: "(len + 63) AND NOT 63 = dma_align len" by (simp add: dma_align_def DMA_MGR_ALIGN_def add.commute)
  have len: "unat len \<le> 14086144" and b: "unat (ds_bump st) \<le> 14086144" using assms(1,2) by (simp_all add: dma_buf_size_value)
  have a: "unat (dma_align len) = (unat len + 63) div 64 * 64" using len by (intro unat_dma_align) simp
  have le: "unat len \<le> unat (dma_align len)" "unat (dma_align len) \<le> 14086144" using len a by simp_all
  have sum: "unat (ds_bump st + dma_align len) = unat (ds_bump st) + unat (dma_align len)"
    using le b by (intro unat_add_no_wrap) simp
  have size: "unat (of_nat dma_buf_size :: u32) = 14086144" by (simp add: dma_buf_size_value)
  have st': "offset = (if 14086144 < unat (ds_bump st) + unat (dma_align len) then 0 else ds_bump st)"
      "st' = st\<lparr>ds_bump := offset + dma_align len\<rparr>"
    using assms(3) [unfolded bump_alloc_def Let_def al word_less_nat_alt sum size] by auto
  show "unat offset + unat len \<le> dma_buf_size" "unat (ds_bump st') \<le> dma_buf_size" "ds_tag st' = ds_tag st"
    using st' le sum by (auto simp: dma_buf_size_value)
qed

lemma length_word_bytes: "word_bytes data n = Some bs \<Longrightarrow> length bs = n"
  by (auto simp: word_bytes_def length_concat_map_const simp del: length_concat split: if_splits)

lemma word_bytes_some: "n \<le> 4 * length data \<Longrightarrow> \<exists>bs. word_bytes data n = Some bs \<and> length bs = n"
  using length_word_bytes [of data n] by (simp add: word_bytes_def)

text \<open>The bytes of a write go into the buffer, and the request that names them into the ring.\<close>

lemma stage_write:
  assumes "shm_inv (ss_shm g)" and "0 < len" and "len \<le> int dma_buf_size" and "nat len \<le> 4 * length data"
    and "unat (ds_bump st) \<le> dma_buf_size"
    and "length (ring_items (sh_dma_req_ring (ss_shm g))) < ring_cap (sh_dma_req_ring (ss_shm g))"
    and "bump_alloc (of_int len) (side_buf_size g) st = (offset, st1)"
  shows "\<exists>bs g1 g2. word_bytes data (nat len) = Some bs \<and> buf_write offset bs g = Some g1
    \<and> side_enqueue sh_dma_req_ring set_dma_req_ring (enc_dma_req (make_dma_req tag direction host_addr (of_int len) offset)) g1 = (0, g2)
    \<and> ring_items (sh_dma_req_ring (ss_shm g2)) = ring_items (sh_dma_req_ring (ss_shm g))
        @ [enc_dma_req (make_dma_req tag direction host_addr (of_int len) offset)]
    \<and> buf_read offset (nat len) g2 = Some bs \<and> shm_inv (ss_shm g2)
    \<and> ring_cap (sh_dma_req_ring (ss_shm g2)) = ring_cap (sh_dma_req_ring (ss_shm g)) \<and> ss_sock g2 = ss_sock g"
    and "unat (of_int len :: u32) = nat len" and "unat (ds_bump st1) \<le> dma_buf_size" and "ds_tag st1 = ds_tag st"
proof -
  obtain bs where bs: "word_bytes data (nat len) = Some bs" "length bs = nat len"
    using word_bytes_some [OF assms(4)] by blast
  have buf: "length (sh_dma_buf (ss_shm g)) = dma_buf_size"
    and ring: "ring_of dma_req_size (sh_dma_req_ring (ss_shm g))" using assms(1) by (simp_all add: shm_inv_def)
  have size: "side_buf_size g = of_nat dma_buf_size" by (simp add: side_buf_size_def buf)
  show ulen: "unat (of_int len :: u32) = nat len"
    using assms(2,3) by (simp add: dma_buf_size_value unsigned_of_int take_bit_int_eq_self)
  have "unat (of_int len :: u32) \<le> dma_buf_size" using assms(3) ulen by simp
  note fits = bump_alloc_fits [OF this assms(5) assms(7) [unfolded size]]
  show "unat (ds_bump st1) \<le> dma_buf_size" "ds_tag st1 = ds_tag st" by (fact fits)+
  let ?g1 = "g\<lparr>ss_shm := (ss_shm g)\<lparr>sh_dma_buf := blit (unat offset) bs (sh_dma_buf (ss_shm g))\<rparr>\<rparr>"
  let ?req = "make_dma_req tag direction host_addr (of_int len) offset"
  have w: "buf_write offset bs g = Some ?g1" using fits(1) bs(2) buf ulen by (simp add: buf_write_def)
  have ok: "ring_ok dma_req_size (enc_dma_req ?req)" by (simp add: ring_ok_def dma_req_size_def)
  obtain r rb where e: "ring_buf_enqueue (sh_dma_req_ring (ss_shm g)) (enc_dma_req ?req) = (r, rb)" by fastforce
  with rb.enq_room [OF ring ok assms(6)] rb.enq_inv [OF ring ok]
  have rb: "r = 0" "ring_items rb = ring_items (sh_dma_req_ring (ss_shm g)) @ [enc_dma_req ?req]" "ring_of dma_req_size rb"
    "ring_cap rb = ring_cap (sh_dma_req_ring (ss_shm g))" by simp_all
  let ?g2 = "?g1\<lparr>ss_shm := set_dma_req_ring rb (ss_shm ?g1)\<rparr>"
  have "side_enqueue sh_dma_req_ring set_dma_req_ring (enc_dma_req ?req) ?g1 = (0, ?g2)"
    using e rb(1) by (simp add: side_enqueue_def)
  moreover have "buf_read offset (nat len) ?g2 = Some bs"
    using fits(1) bs(2) buf ulen by (simp add: buf_read_def set_dma_req_ring_def take_drop_blit_same)
  moreover have "shm_inv (ss_shm ?g2)"
    using assms(1) rb(3) fits(1) bs(2) ulen buf by (simp add: shm_inv_def set_dma_req_ring_def)
  ultimately show "\<exists>bs g1 g2. word_bytes data (nat len) = Some bs \<and> buf_write offset bs g = Some g1
    \<and> side_enqueue sh_dma_req_ring set_dma_req_ring (enc_dma_req ?req) g1 = (0, g2)
    \<and> ring_items (sh_dma_req_ring (ss_shm g2)) = ring_items (sh_dma_req_ring (ss_shm g)) @ [enc_dma_req ?req]
    \<and> buf_read offset (nat len) g2 = Some bs \<and> shm_inv (ss_shm g2)
    \<and> ring_cap (sh_dma_req_ring (ss_shm g2)) = ring_cap (sh_dma_req_ring (ss_shm g)) \<and> ss_sock g2 = ss_sock g"
    using bs(1) w rb by (intro exI [of _ bs] exI [of _ ?g1] exI [of _ ?g2]) (simp add: set_dma_req_ring_def)
qed

lemma bump_alloc_first: "ds_bump st = 0 \<Longrightarrow> fst (bump_alloc len sz st) = 0"
  by (simp add: bump_alloc_def Let_def)

lemma dma_wait_shm_some:
  "(\<And>g. fin g \<noteq> None) \<Longrightarrow> dma_wait_shm n failed tag fin pending g \<noteq> None"
  by (induction n arbitrary: pending g) (auto simp del: not_None_eq split: recvd.splits option.splits prod.splits bind_splits)

lemma dma_wait_shm_keeps:
  "dma_wait_shm n failed tag fin pending g = Some (r, pd, g') \<Longrightarrow>
     sh_dma_buf (ss_shm g') = sh_dma_buf (ss_shm g) \<and> sh_dma_req_ring (ss_shm g') = sh_dma_req_ring (ss_shm g)"
proof (induction n arbitrary: pending g)
  case (Suc n)
  obtain m g1 where m: "side_recv_timed 5000 g = (m, g1)" by fastforce
  have s1: "ss_shm g1 = ss_shm g" using m by (auto simp: side_recv_timed_def split: option.splits prod.splits)
  obtain d g2 where d: "side_dequeue sh_dma_cpl_ring set_dma_cpl_ring g1 = (d, g2)" by fastforce
  have s2: "sh_dma_buf (ss_shm g2) = sh_dma_buf (ss_shm g1)" "sh_dma_req_ring (ss_shm g2) = sh_dma_req_ring (ss_shm g1)"
    using d by (auto simp: side_dequeue_def set_dma_cpl_ring_def split: prod.splits)
  show ?case
    using Suc.prems m d s1 s2 by (auto dest!: Suc.IH split: recvd.splits option.splits if_splits bind_splits)
qed simp

subsection \<open>Waiting in shared memory\<close>

lemma side_recv_timed_next:
  assumes "ss_sock g = Some s" and "sk_rx s = []" and "sk_in s = enc_sync m @ rest"
  shows "side_recv_timed 5000 g = (Got m, g\<lparr>ss_sock := Some (s\<lparr>sk_in := rest\<rparr>)\<rparr>)"
proof -
  have "recv_timed_loop 500 5000000 0 s = (Got (dec_sync (take 8 (sk_in s))), s\<lparr>sk_in := drop 8 (sk_in s), sk_rx := []\<rparr>)"
    by (rule recv_timed_finds [where k = 0]) (use assms in simp_all)
  then show ?thesis using assms by (simp add: side_recv_timed_def sock_sync_recv_timed_def)
qed

text \<open>\<open>k\<close> announcements before the completion are counted.\<close>

lemma dma_wait_shm_counts:
  assumes "ss_sock g = Some s" and "sk_rx s = []"
    and "sk_in s = concat (map enc_sync (replicate k (sync_of SYNC_MSG_TLP_READY 0))) @ enc_sync (sync_of SYNC_MSG_DMA_CPL x) @ rest"
    and "side_dequeue sh_dma_cpl_ring set_dma_cpl_ring (g\<lparr>ss_sock := Some (s\<lparr>sk_in := rest\<rparr>)\<rparr>) = (Some bs, g2)"
    and "d_tag (dec_dma_cpl bs) = tag" and "d_status (dec_dma_cpl bs) = 0" and "fin g2 = Some r" and "k < n"
  shows "dma_wait_shm n failed tag fin pending g = Some (r, pending + int k, g2)"
  using assms
proof (induction k arbitrary: n pending g s)
  case 0
  then obtain m where "n = Suc m" by (cases n) auto
  then show ?case using 0 side_recv_timed_next [of g s "sync_of SYNC_MSG_DMA_CPL x" rest] by simp
next
  case (Suc k)
  obtain m where n: "n = Suc m" using Suc.prems(8) by (cases n) auto
  let ?rest = "concat (map enc_sync (replicate k (sync_of SYNC_MSG_TLP_READY 0))) @ enc_sync (sync_of SYNC_MSG_DMA_CPL x) @ rest"
  let ?g1 = "g\<lparr>ss_sock := Some (s\<lparr>sk_in := ?rest\<rparr>)\<rparr>"
  have "side_recv_timed 5000 g = (Got (sync_of SYNC_MSG_TLP_READY 0), ?g1)"
    by (rule side_recv_timed_next) (use Suc.prems in simp_all)
  moreover have "dma_wait_shm m failed tag fin (pending + 1) ?g1 = Some (r, pending + 1 + int k, g2)"
    by (rule Suc.IH [of ?g1 "s\<lparr>sk_in := ?rest\<rparr>"]) (use Suc.prems n in simp_all)
  ultimately show ?case using n by simp
qed

text \<open>Counted TLPs are handed out by the following polls without a look at the socket.\<close>

lemma shm_polls_pending:
  assumes "rc_transport ctx = None" and "rc_pending_tlp_ready ctx = int (length ts)" and "list_all wf_tlp ts"
    and "ring_of tlp_size (sh_req_ring (ss_shm g))" and "ring_items (sh_req_ring (ss_shm g)) = map enc_tlp ts @ behind"
  shows "\<exists>ctx' g'. poll_n ops (length ts) out ctx g = Some (ts, ctx', g')
    \<and> rc_pending_tlp_ready ctx' = 0 \<and> ss_sock g' = ss_sock g \<and> ring_items (sh_req_ring (ss_shm g')) = behind"
  using assms
proof (induction ts arbitrary: ctx g out)
  case Nil
  then show ?case by auto
next
  case (Cons t ts)
  let ?rb = "sh_req_ring (ss_shm g)"
  obtain rb where d: "ring_buf_dequeue ?rb = (Some (enc_tlp t), rb)" "ring_items rb = map enc_tlp ts @ behind" "ring_of tlp_size rb"
    using rb.deq_some [OF Cons.prems(4), of "enc_tlp t" "map enc_tlp ts @ behind"] rb.deq_inv [OF Cons.prems(4)] Cons.prems(5)
    by (cases "ring_buf_dequeue ?rb") auto
  let ?g1 = "g\<lparr>ss_shm := set_req_ring rb (ss_shm g)\<rparr>"
  let ?ctx1 = "ctx\<lparr>rc_poll_count := rc_poll_count ctx + 1, rc_pending_tlp_ready := int (length ts), rc_last_entry := t\<rparr>"
  have "poll_tlp_ctx ops out ctx g = Some (0, return_entry t out, ?ctx1, ?g1)"
    using Cons.prems(1,2,3) d(1)
    by (simp add: poll_tlp_ctx_def poll_shm_def side_dequeue_def found_entry_def Let_def)
  moreover from Cons.IH [of ?ctx1 ?g1 "return_entry t out"] Cons.prems d
  have "\<exists>ctx' g'. poll_n ops (length ts) (return_entry t out) ?ctx1 ?g1 = Some (ts, ctx', g')
    \<and> rc_pending_tlp_ready ctx' = 0 \<and> ss_sock g' = ss_sock g \<and> ring_items (sh_req_ring (ss_shm g')) = behind"
    by (simp add: set_req_ring_def)
  ultimately show ?case by auto
qed

subsection \<open>Properties\<close>

text \<open>A DMA write requested over shared memory puts the caller's bytes into the DMA buffer, entirely inside
  it, and enqueues one request that names direction, address, length and the offset at which they lie; the bump
  offset stays inside the buffer.\<close>

lemma dma_write_staged:
  assumes "rc_transport (rc0 v) = None" and "shm_inv (ss_shm (vc_side v))"
    and "0 < len" and "len \<le> int dma_buf_size" and "nat len \<le> 4 * length data"
    and "unat (ds_bump (vc_request v)) \<le> dma_buf_size"
    and "length (ring_items (sh_dma_req_ring (ss_shm (vc_side v)))) < ring_cap (sh_dma_req_ring (ss_shm (vc_side v)))"
  shows "\<exists>v' bs req. bridge_vcs_dma_request ops DMA_DIR_WRITE host_addr data len v = Some ((0, ds_tag (vc_request v)), v')
    \<and> word_bytes data (nat len) = Some bs
    \<and> ring_items (sh_dma_req_ring (ss_shm (vc_side v'))) = ring_items (sh_dma_req_ring (ss_shm (vc_side v))) @ [enc_dma_req req]
    \<and> r_tag req = ds_tag (vc_request v) \<and> r_direction req = DMA_DIR_WRITE \<and> r_host_addr req = host_addr \<and> unat (r_len req) = nat len
    \<and> buf_read (r_dma_offset req) (nat len) (vc_side v') = Some bs
    \<and> unat (ds_bump (vc_request v')) \<le> dma_buf_size"
proof -
  obtain offset st1 where b: "bump_alloc (of_int len) (side_buf_size (vc_side v)) (vc_request v) = (offset, st1)" by fastforce
  let ?req = "make_dma_req (ds_tag (vc_request v)) DMA_DIR_WRITE host_addr (of_int len) offset"
  note st = stage_write [OF assms(2,3,4,5,6,7) b]
  from st(1) obtain bs g1 g2 where s: "word_bytes data (nat len) = Some bs" "buf_write offset bs (vc_side v) = Some g1"
      "side_enqueue sh_dma_req_ring set_dma_req_ring (enc_dma_req ?req) g1 = (0, g2)"
      "ring_items (sh_dma_req_ring (ss_shm g2)) = ring_items (sh_dma_req_ring (ss_shm (vc_side v))) @ [enc_dma_req ?req]"
      "buf_read offset (nat len) g2 = Some bs" by blast
  let ?v = "v\<lparr>vc_request := st1\<lparr>ds_tag := ds_tag st1 + 1\<rparr>, vc_side := g2\<rparr>"
  have "bridge_vcs_dma_request ops DMA_DIR_WRITE host_addr data len v = Some ((0, ds_tag (vc_request v)), ?v)"
    using assms(1,3) b s st(4) by (simp add: bridge_vcs_dma_request_def dma_request_shm_def take_tag_def)
  then show ?thesis
    using s st by (intro exI [of _ ?v] exI [of _ bs] exI [of _ ?req]) (simp add: make_dma_req_def)
qed

lemma rc0_start [simp]: "rc0 (vcs_start g) = rc_zero"
  by (simp add: rc0_def vcs_start_def COSIM_MAX_RCS_def)

lemma shm_side_example_fields [simp]: "ss_shm shm_side_example = cosim_shm_init" "ss_sock shm_side_example = None"
  by (simp_all add: shm_side_example_def)

lemma dma_write_staged_witness:
  "\<exists>v' req. bridge_vcs_dma_request shm_transport DMA_DIR_WRITE 0x1000 [0x11223344, 5] 8 (vcs_start shm_side_example) = Some ((0, 1000), v')
    \<and> ring_items (sh_dma_req_ring (ss_shm (vc_side v'))) = [enc_dma_req req]
    \<and> (\<exists>bs. buf_read (r_dma_offset req) 8 (vc_side v') = Some bs \<and> take 1 bs = [0x44])"
proof -
  let ?v = "vcs_start shm_side_example"
  have p: "rc_transport (rc0 ?v) = None" "shm_inv (ss_shm (vc_side ?v))" "unat (ds_bump (vc_request ?v)) \<le> dma_buf_size"
    "length (ring_items (sh_dma_req_ring (ss_shm (vc_side ?v)))) < ring_cap (sh_dma_req_ring (ss_shm (vc_side ?v)))"
    "ring_items (sh_dma_req_ring (ss_shm (vc_side ?v))) = []" "ds_tag (vc_request ?v) = 1000"
    using shm_inv_init shm_init_caps(3) by (simp_all add: rc_zero_def) (simp_all add: vcs_start_def)
  have w: "word_bytes [0x11223344, 5] 8 = Some (le_bytes 4 (0x11223344 :: u32) @ le_bytes 4 (5 :: u32))"
    by (simp add: word_bytes_def)
  have "take 1 (le_bytes 4 w @ bs) = [ucast w]" for w :: u32 and bs by (simp add: numeral_eq_Suc le_bytes.simps)
  from this [of "0x11223344"] have t: "take 1 (le_bytes 4 (0x11223344 :: u32) @ le_bytes 4 (5 :: u32)) = [0x44]" by simp
  have "0 < (8 :: int)" "(8 :: int) \<le> int dma_buf_size" "nat 8 \<le> 4 * length [0x11223344 :: u32, 5]"
    by (simp_all add: dma_buf_size_value)
  from dma_write_staged [OF p(1,2) this p(3,4), of shm_transport "0x1000"] obtain v' bs req
    where r: "bridge_vcs_dma_request shm_transport DMA_DIR_WRITE 0x1000 [0x11223344, 5] 8 ?v = Some ((0, 1000), v')"
      "word_bytes [0x11223344, 5] (nat 8) = Some bs" "ring_items (sh_dma_req_ring (ss_shm (vc_side v'))) = [enc_dma_req req]"
      "buf_read (r_dma_offset req) (nat 8) (vc_side v') = Some bs"
    unfolding p(5,6) append_Nil by blast
  have "nat 8 = 8" by simp
  then have "take 1 bs = [0x44]" "buf_read (r_dma_offset req) 8 (vc_side v') = Some bs"
    using r(2,4) w t by simp_all
  then show ?thesis using r(1,3) by blast
qed

text \<open>The DMA functions keep separate bump offsets into one DMA buffer: a synchronous write issued while the
  first asynchronous write is still in the ring is staged at the same offset, so both requests then name the
  bytes of the later one.\<close>

lemma dma_staging_overlaps:
  assumes "rc_transport (rc0 v) = None" and "vc_rc v \<noteq> []" and "shm_inv (ss_shm (vc_side v))" and "vc_initialized v"
    and "0 < len" and "len \<le> int dma_buf_size" and "nat len \<le> 4 * length data1" and "nat len \<le> 4 * length data2"
    and "ds_bump (vc_request v) = 0" and "ds_bump (vc_write_sync v) = 0"
    and "length (ring_items (sh_dma_req_ring (ss_shm (vc_side v)))) + 1 < ring_cap (sh_dma_req_ring (ss_shm (vc_side v)))"
  shows "\<exists>v1 r2 v2. bridge_vcs_dma_request ops DMA_DIR_WRITE addr1 data1 len v = Some ((0, ds_tag (vc_request v)), v1)
    \<and> bridge_vcs_dma_write_sync ops addr2 data2 len v1 = Some (r2, v2)
    \<and> ring_items (sh_dma_req_ring (ss_shm (vc_side v2))) = ring_items (sh_dma_req_ring (ss_shm (vc_side v)))
      @ [enc_dma_req (make_dma_req (ds_tag (vc_request v)) DMA_DIR_WRITE addr1 (of_int len) 0),
         enc_dma_req (make_dma_req (ds_tag (vc_write_sync v)) DMA_DIR_WRITE addr2 (of_int len) 0)]
    \<and> buf_read 0 (nat len) (vc_side v2) = word_bytes data2 (nat len)"
proof -
  obtain st1 where b1: "bump_alloc (of_int len) (side_buf_size (vc_side v)) (vc_request v) = (0, st1)"
    using bump_alloc_first [OF assms(9)] by (metis prod.collapse)
  have "unat (ds_bump (vc_request v)) \<le> dma_buf_size" using assms(9) by simp
  note w1 = stage_write [OF assms(3,5,6,7) this _ b1]
  from w1(1) [of "ds_tag (vc_request v)" DMA_DIR_WRITE addr1] assms(11) obtain bs1 g1 g2 where s1: "word_bytes data1 (nat len) = Some bs1" "buf_write 0 bs1 (vc_side v) = Some g1"
      "side_enqueue sh_dma_req_ring set_dma_req_ring (enc_dma_req (make_dma_req (ds_tag (vc_request v)) DMA_DIR_WRITE addr1 (of_int len) 0)) g1 = (0, g2)"
      "ring_items (sh_dma_req_ring (ss_shm g2)) = ring_items (sh_dma_req_ring (ss_shm (vc_side v)))
        @ [enc_dma_req (make_dma_req (ds_tag (vc_request v)) DMA_DIR_WRITE addr1 (of_int len) 0)]"
      "shm_inv (ss_shm g2)" "ring_cap (sh_dma_req_ring (ss_shm g2)) = ring_cap (sh_dma_req_ring (ss_shm (vc_side v)))"
    by auto
  let ?v1 = "v\<lparr>vc_request := st1\<lparr>ds_tag := ds_tag st1 + 1\<rparr>, vc_side := g2\<rparr>"
  have v1: "bridge_vcs_dma_request ops DMA_DIR_WRITE addr1 data1 len v = Some ((0, ds_tag (vc_request v)), ?v1)"
    using assms(1,5,11) b1 s1 w1(4) by (simp add: bridge_vcs_dma_request_def dma_request_shm_def take_tag_def)
  obtain st2 where b2: "bump_alloc (of_int len) (side_buf_size g2) (vc_write_sync v) = (0, st2)"
    using bump_alloc_first [OF assms(10)] by (metis prod.collapse)
  have "unat (ds_bump (vc_write_sync v)) \<le> dma_buf_size" using assms(10) by simp
  note w2 = stage_write [OF s1(5) assms(5,6,8) this _ b2]
  from w2(1) [of "ds_tag (vc_write_sync v)" DMA_DIR_WRITE addr2] assms(11) s1(4,6) obtain bs2 g3 g4 where s2: "word_bytes data2 (nat len) = Some bs2" "buf_write 0 bs2 g2 = Some g3"
      "side_enqueue sh_dma_req_ring set_dma_req_ring (enc_dma_req (make_dma_req (ds_tag (vc_write_sync v)) DMA_DIR_WRITE addr2 (of_int len) 0)) g3 = (0, g4)"
      "ring_items (sh_dma_req_ring (ss_shm g4)) = ring_items (sh_dma_req_ring (ss_shm g2))
        @ [enc_dma_req (make_dma_req (ds_tag (vc_write_sync v)) DMA_DIR_WRITE addr2 (of_int len) 0)]"
      "buf_read 0 (nat len) g4 = Some bs2"
    by auto
  have tag: "ds_tag st2 = ds_tag (vc_write_sync v)" using w2(4) assms(11) s1(4,6) by simp
  obtain res pd g5 where wt: "dma_wait_shm 1000 (-1 :: rc) (ds_tag (vc_write_sync v)) (\<lambda>g. Some 0) (rc_pending_tlp_ready (rc0 v)) g4 = Some (res, pd, g5)"
    using dma_wait_shm_some [of "\<lambda>g. Some 0"] by fastforce
  let ?v2 = "set_rc0 ((rc0 v)\<lparr>rc_pending_tlp_ready := pd\<rparr>) (?v1\<lparr>vc_write_sync := st2\<lparr>ds_tag := ds_tag st2 + 1\<rparr>, vc_side := g5\<rparr>)"
  have v2: "bridge_vcs_dma_write_sync ops addr2 data2 len ?v1 = Some (res, ?v2)"
    using assms(1,4,5) b2 s2 tag wt
    by (simp add: rc0_def bridge_vcs_dma_write_sync_def dma_write_sync_shm_def take_tag_def)
  have "sh_dma_buf (ss_shm g5) = sh_dma_buf (ss_shm g4)" "sh_dma_req_ring (ss_shm g5) = sh_dma_req_ring (ss_shm g4)"
    using dma_wait_shm_keeps [OF wt] by simp_all
  then have "buf_read 0 (nat len) g5 = buf_read 0 (nat len) g4" "ring_items (sh_dma_req_ring (ss_shm g5)) = ring_items (sh_dma_req_ring (ss_shm g4))"
    by (simp_all add: buf_read_def)
  then show ?thesis
    using v1 v2 s1(4) s2(1,4,5) by (intro exI [of _ ?v1] exI [of _ res] exI [of _ ?v2]) (simp add: set_rc0_def)
qed

lemma dma_staging_overlaps_witness:
  "\<exists>v1 v2 r1 r2. bridge_vcs_dma_request shm_transport DMA_DIR_WRITE 0x1000 [1] 4 ((vcs_start shm_side_example)\<lparr>vc_initialized := True\<rparr>) = Some (r1, v1)
    \<and> bridge_vcs_dma_write_sync shm_transport 0x2000 [2] 4 v1 = Some (r2, v2)
    \<and> buf_read 0 4 (vc_side v2) = word_bytes [2] 4"
proof -
  let ?v = "(vcs_start shm_side_example)\<lparr>vc_initialized := True\<rparr>"
  have p: "rc_transport (rc0 ?v) = None" "vc_rc ?v \<noteq> []" "shm_inv (ss_shm (vc_side ?v))" "vc_initialized ?v"
    "ds_bump (vc_request ?v) = 0" "ds_bump (vc_write_sync ?v) = 0"
    "length (ring_items (sh_dma_req_ring (ss_shm (vc_side ?v)))) + 1 < ring_cap (sh_dma_req_ring (ss_shm (vc_side ?v)))"
    using shm_inv_init shm_init_caps(3) by (simp_all add: rc0_def vcs_start_def COSIM_MAX_RCS_def rc_zero_def)
  have n: "0 < (4 :: int)" "(4 :: int) \<le> int dma_buf_size" "nat 4 \<le> 4 * length [1 :: u32]" "nat 4 \<le> 4 * length [2 :: u32]"
    by (simp_all add: dma_buf_size_value)
  have "nat 4 = 4" by simp
  with dma_staging_overlaps [OF p(1,2,3,4) n p(5,6,7), of shm_transport "0x1000" "0x2000"] show ?thesis by metis
qed

text \<open>While a read over TCP waits for its completion, the TLPs announced before it are kept, in order, behind
  those already cached, and the data that the QEMU side sends, data first and completion second, is returned.\<close>

lemma tcp_read_keeps_tlps:
  assumes "rc_transport ctx = Some p"
    and "sync_stream.awaits (replicate (length ts) (sync_of SYNC_MSG_TLP_READY 0) @ [sync_of SYNC_MSG_DMA_CPL tag]) (tp_ctrl p)"
    and "tlp_stream.awaits ts (tp_data p)" and "cache_inv ctx" and "length (cache_items ctx) + length ts < 1000"
    and "tp_aux p = Some a" and "healthy a" and "sk_in a = qemu_read_reply tag DMA_DIR_READ host_addr bs @ rest"
    and "length bs = unat len" and "length bs \<le> 4096" and "length buf = length bs"
  shows "\<exists>ctx'. dma_wait tcp_transport 1000 (-1, buf) (handle_read_bytes tcp_transport tag len buf) ctx = Some ((0, bs), ctx')
    \<and> cache_items ctx' = cache_items ctx @ ts"
proof -
  have n: "1000 = Suc (length ts + (999 - length ts))" and small: "length (cache_items ctx) + length ts < TLP_CACHE_SIZE"
    using assms(5) by (simp_all add: code_consts)
  from dma_wait_caches [OF assms(1,2,3,4) small, of "999 - length ts" "(-1, buf)" "handle_read_bytes tcp_transport tag len buf", folded n]
  obtain ctx1 s1 s2 where w: "dma_wait tcp_transport 1000 (-1, buf) (handle_read_bytes tcp_transport tag len buf) ctx =
      (case handle_read_bytes tcp_transport tag len buf ctx1 of (Return r, c2) \<Rightarrow> Some (r, c2)
       | (Continue, c2) \<Rightarrow> dma_wait tcp_transport (999 - length ts) (-1, buf) (handle_read_bytes tcp_transport tag len buf) c2
       | (Mem_Error, c2) \<Rightarrow> None)"
    "rc_transport ctx1 = Some (p\<lparr>tp_ctrl := s1, tp_data := s2\<rparr>)" "cache_items ctx1 = cache_items ctx @ ts" by blast
  from read_bytes_handles_reply [OF w(2), of a tag DMA_DIR_READ host_addr bs rest len buf] assms(6-11)
  obtain p' where "handle_read_bytes tcp_transport tag len buf ctx1 = (Return (0, bs), ctx1\<lparr>rc_transport := Some p'\<rparr>)" by auto
  then show ?thesis using w by (auto simp: cache_items_def)
qed

definition dma_ctx_example :: "transport_tcp_priv rc_ctx" where
  "dma_ctx_example = rc_zero\<lparr>rc_transport := Some (priv_init False
     (fresh_sock (concat (map (\<lambda>m. msg_bytes TCP_MSG_SYNC (enc_sync m)) [sync_of SYNC_MSG_TLP_READY 0, sync_of SYNC_MSG_DMA_CPL 5000])))
     (fresh_sock (concat (map (\<lambda>m. msg_bytes TCP_MSG_TLP (enc_tlp m)) [tlp_zero])))
     (Some (fresh_sock (qemu_read_reply 5000 DMA_DIR_READ 0x1000 [1, 2, 3]))))\<rparr>"

lemma dma_ctx_example_facts:
  "\<exists>p a. rc_transport dma_ctx_example = Some p
    \<and> sync_stream.awaits (replicate (length [tlp_zero]) (sync_of SYNC_MSG_TLP_READY 0) @ [sync_of SYNC_MSG_DMA_CPL 5000]) (tp_ctrl p)
    \<and> tlp_stream.awaits [tlp_zero] (tp_data p) \<and> tp_aux p = Some a \<and> healthy a
    \<and> sk_in a = qemu_read_reply 5000 DMA_DIR_READ 0x1000 [1, 2, 3] @ []"
  "cache_inv dma_ctx_example" "cache_items dma_ctx_example = []"
proof -
  show "cache_inv dma_ctx_example" "cache_items dma_ctx_example = []"
    using cache_inv_zero by (simp_all add: dma_ctx_example_def cache_inv_def cache_items_def)
  show "\<exists>p a. rc_transport dma_ctx_example = Some p
    \<and> sync_stream.awaits (replicate (length [tlp_zero]) (sync_of SYNC_MSG_TLP_READY 0) @ [sync_of SYNC_MSG_DMA_CPL 5000]) (tp_ctrl p)
    \<and> tlp_stream.awaits [tlp_zero] (tp_data p) \<and> tp_aux p = Some a \<and> healthy a
    \<and> sk_in a = qemu_read_reply 5000 DMA_DIR_READ 0x1000 [1, 2, 3] @ []"
    using sync_stream.awaits_fresh [of "[sync_of SYNC_MSG_TLP_READY 0, sync_of SYNC_MSG_DMA_CPL 5000]"]
      tlp_stream.awaits_fresh [of "[tlp_zero]"]
    by (simp add: dma_ctx_example_def priv_init_def) (simp add: fresh_sock_def)
qed

lemma tcp_read_keeps_tlps_witness:
  "\<exists>ctx'. dma_wait tcp_transport 1000 (-1, [0, 0, 0]) (handle_read_bytes tcp_transport 5000 3 [0, 0, 0]) dma_ctx_example
     = Some ((0, [1, 2, 3]), ctx') \<and> cache_items ctx' = [tlp_zero]"
proof -
  obtain p a where f: "rc_transport dma_ctx_example = Some p"
    "sync_stream.awaits (replicate (length [tlp_zero]) (sync_of SYNC_MSG_TLP_READY 0) @ [sync_of SYNC_MSG_DMA_CPL 5000]) (tp_ctrl p)"
    "tlp_stream.awaits [tlp_zero] (tp_data p)" "tp_aux p = Some a" "healthy a"
    "sk_in a = qemu_read_reply 5000 DMA_DIR_READ 0x1000 [1, 2, 3] @ []"
    using dma_ctx_example_facts(1) by blast
  from tcp_read_keeps_tlps [OF f(1-3) dma_ctx_example_facts(2) _ f(4-6), of 3 "[0, 0, 0]"] dma_ctx_example_facts(3)
  show ?thesis by simp
qed

text \<open>The word transfer, in the same situation, fails whatever the data: it asks for the completion before the
  data and finds the data message.\<close>

lemma tcp_word_read_fails:
  assumes "rc_transport ctx = Some p"
    and "sync_stream.awaits (replicate (length ts) (sync_of SYNC_MSG_TLP_READY 0) @ [sync_of SYNC_MSG_DMA_CPL tag]) (tp_ctrl p)"
    and "tlp_stream.awaits ts (tp_data p)" and "cache_inv ctx" and "length (cache_items ctx) + length ts < 1000"
    and "tp_aux p = Some a" and "healthy a" and "sk_in a = qemu_read_reply tag DMA_DIR_READ host_addr bs @ rest"
  shows "\<exists>ctx'. dma_wait tcp_transport 1000 (-1, data) (handle_read_cpl tcp_transport tag stack len data) ctx = Some ((-1, data), ctx')"
proof -
  have n: "1000 = Suc (length ts + (999 - length ts))" and small: "length (cache_items ctx) + length ts < TLP_CACHE_SIZE"
    using assms(5) by (simp_all add: code_consts)
  from dma_wait_caches [OF assms(1,2,3,4) small, of "999 - length ts" "(-1, data)" "handle_read_cpl tcp_transport tag stack len data", folded n]
  obtain ctx1 s1 s2 where w: "dma_wait tcp_transport 1000 (-1, data) (handle_read_cpl tcp_transport tag stack len data) ctx =
      (case handle_read_cpl tcp_transport tag stack len data ctx1 of (Return r, c2) \<Rightarrow> Some (r, c2)
       | (Continue, c2) \<Rightarrow> dma_wait tcp_transport (999 - length ts) (-1, data) (handle_read_cpl tcp_transport tag stack len data) c2
       | (Mem_Error, c2) \<Rightarrow> None)"
    "rc_transport ctx1 = Some (p\<lparr>tp_ctrl := s1, tp_data := s2\<rparr>)" by blast
  from read_cpl_rejects_reply [OF w(2), of a tag DMA_DIR_READ host_addr bs rest stack len data] assms(6-8) w(1)
  show ?thesis by auto
qed

lemma tcp_word_read_fails_witness:
  "\<exists>ctx'. dma_wait tcp_transport 1000 (-1, [7]) (handle_read_cpl tcp_transport 5000 (replicate 64 0) 3 [7]) dma_ctx_example
     = Some ((-1, [7]), ctx')"
proof -
  obtain p a where f: "rc_transport dma_ctx_example = Some p"
    "sync_stream.awaits (replicate (length [tlp_zero]) (sync_of SYNC_MSG_TLP_READY 0) @ [sync_of SYNC_MSG_DMA_CPL 5000]) (tp_ctrl p)"
    "tlp_stream.awaits [tlp_zero] (tp_data p)" "tp_aux p = Some a" "healthy a"
    "sk_in a = qemu_read_reply 5000 DMA_DIR_READ 0x1000 [1, 2, 3] @ []"
    using dma_ctx_example_facts(1) by blast
  from tcp_word_read_fails [OF f(1-3) dma_ctx_example_facts(2) _ f(4-6), of "[7]" "replicate 64 0" 3] dma_ctx_example_facts(3)
  show ?thesis by simp
qed

text \<open>In shared memory a write that waits for its completion consumes the announcements of the TLPs that
  arrive before it, and counts them: the polls after it hand out exactly these TLPs, in order, without a look at
  the socket.\<close>

lemma shm_wait_recovers_tlps:
  assumes "ss_sock g = Some s" and "sk_rx s = []"
    and "sk_in s = concat (map enc_sync (replicate (length ts) (sync_of SYNC_MSG_TLP_READY 0))) @ enc_sync (sync_of SYNC_MSG_DMA_CPL x) @ rest"
    and "ring_of dma_cpl_size (sh_dma_cpl_ring (ss_shm g))"
    and "ring_items (sh_dma_cpl_ring (ss_shm g)) = enc_dma_cpl \<lparr>d_tag = tag, d_status = 0, d_timestamp = tm\<rparr> # cpls"
    and "ring_of tlp_size (sh_req_ring (ss_shm g))" and "ring_items (sh_req_ring (ss_shm g)) = map enc_tlp ts @ behind"
    and "list_all wf_tlp ts" and "length ts < 1000" and "rc_transport ctx = None"
  shows "\<exists>g1 ctx' g2. dma_wait_shm 1000 (-1 :: rc) tag (\<lambda>g. Some 0) 0 g = Some (0, int (length ts), g1)
    \<and> poll_n ops (length ts) out (ctx\<lparr>rc_pending_tlp_ready := int (length ts)\<rparr>) g1 = Some (ts, ctx', g2) \<and> ss_sock g2 = ss_sock g1"
proof -
  let ?c = "enc_dma_cpl \<lparr>d_tag = tag, d_status = 0, d_timestamp = tm\<rparr>" and ?g0 = "g\<lparr>ss_sock := Some (s\<lparr>sk_in := rest\<rparr>)\<rparr>"
  obtain rb where d: "ring_buf_dequeue (sh_dma_cpl_ring (ss_shm g)) = (Some ?c, rb)"
    using rb.deq_some [OF assms(4,5)] by (cases "ring_buf_dequeue (sh_dma_cpl_ring (ss_shm g))") auto
  let ?g1 = "?g0\<lparr>ss_shm := set_dma_cpl_ring rb (ss_shm g)\<rparr>"
  have "side_dequeue sh_dma_cpl_ring set_dma_cpl_ring ?g0 = (Some ?c, ?g1)" using d by (simp add: side_dequeue_def)
  from dma_wait_shm_counts [OF assms(1-3) this, of tag "\<lambda>g. Some (0 :: rc)" 0 1000 "-1" 0] assms(9)
  have w: "dma_wait_shm 1000 (-1 :: rc) tag (\<lambda>g. Some 0) 0 g = Some (0, int (length ts), ?g1)" by simp
  let ?ctx = "ctx\<lparr>rc_pending_tlp_ready := int (length ts)\<rparr>"
  have "ring_of tlp_size (sh_req_ring (ss_shm ?g1))" "ring_items (sh_req_ring (ss_shm ?g1)) = map enc_tlp ts @ behind"
    using assms(6,7) by (simp_all add: set_dma_cpl_ring_def)
  from shm_polls_pending [OF _ _ assms(8) this, of ?ctx ops out] assms(10) obtain ctx' g2
    where "poll_n ops (length ts) out ?ctx ?g1 = Some (ts, ctx', g2)" "ss_sock g2 = ss_sock ?g1" by auto
  with w show ?thesis by blast
qed

definition wait_example :: shm_side where
  "wait_example = \<lparr>ss_shm = set_req_ring (snd (ring_buf_enqueue (sh_req_ring cosim_shm_init) (enc_tlp tlp_zero)))
      (set_dma_cpl_ring (snd (ring_buf_enqueue (sh_dma_cpl_ring cosim_shm_init)
        (enc_dma_cpl \<lparr>d_tag = 3000, d_status = 0, d_timestamp = 0\<rparr>))) cosim_shm_init),
     ss_sock = Some (fresh_sock (enc_sync (sync_of SYNC_MSG_TLP_READY 0) @ enc_sync (sync_of SYNC_MSG_DMA_CPL 3000)))\<rparr>"

lemma shm_wait_recovers_tlps_witness:
  "\<exists>g1 ctx' g2. dma_wait_shm 1000 (-1 :: rc) 3000 (\<lambda>g. Some 0) 0 wait_example = Some (0, 1, g1)
    \<and> poll_n shm_transport 1 poll_out_zero (rc_zero\<lparr>rc_pending_tlp_ready := 1\<rparr>) g1 = Some ([tlp_zero], ctx', g2)"
proof -
  let ?c = "enc_dma_cpl \<lparr>d_tag = 3000, d_status = 0, d_timestamp = 0\<rparr>"
  let ?rq = "snd (ring_buf_enqueue (sh_req_ring cosim_shm_init) (enc_tlp tlp_zero))"
  let ?rc = "snd (ring_buf_enqueue (sh_dma_cpl_ring cosim_shm_init) ?c)"
  have r: "ring_of tlp_size (sh_req_ring cosim_shm_init)" "ring_of dma_cpl_size (sh_dma_cpl_ring cosim_shm_init)"
    using shm_inv_init by (simp_all add: shm_inv_def)
  have ok: "ring_ok tlp_size (enc_tlp tlp_zero)" "ring_ok dma_cpl_size ?c" by (simp_all add: ring_ok_def tlp_size_def dma_cpl_size_def)
  have rings: "ring_of tlp_size ?rq" "ring_items ?rq = [enc_tlp tlp_zero]" "ring_of dma_cpl_size ?rc" "ring_items ?rc = [?c]"
    using rb.enq_inv [OF r(1) ok(1)] rb.enq_room [OF r(1) ok(1)] rb.enq_inv [OF r(2) ok(2)] rb.enq_room [OF r(2) ok(2)]
    by (simp_all add: shm_init_caps)
  have e: "sh_req_ring (ss_shm wait_example) = ?rq" "sh_dma_cpl_ring (ss_shm wait_example) = ?rc"
    by (simp_all add: wait_example_def set_req_ring_def set_dma_cpl_ring_def)
  have so: "ss_sock wait_example = Some (fresh_sock (enc_sync (sync_of SYNC_MSG_TLP_READY 0) @ enc_sync (sync_of SYNC_MSG_DMA_CPL 3000)))"
    by (simp add: wait_example_def)
  have st: "sk_rx (fresh_sock (enc_sync (sync_of SYNC_MSG_TLP_READY 0) @ enc_sync (sync_of SYNC_MSG_DMA_CPL 3000))) = []"
    "sk_in (fresh_sock (enc_sync (sync_of SYNC_MSG_TLP_READY 0) @ enc_sync (sync_of SYNC_MSG_DMA_CPL 3000)))
      = concat (map enc_sync (replicate (length [tlp_zero]) (sync_of SYNC_MSG_TLP_READY 0))) @ enc_sync (sync_of SYNC_MSG_DMA_CPL 3000) @ []"
    by (simp_all add: fresh_sock_def)
  have i: "ring_of dma_cpl_size (sh_dma_cpl_ring (ss_shm wait_example))" "ring_items (sh_dma_cpl_ring (ss_shm wait_example)) = [?c]"
    "ring_of tlp_size (sh_req_ring (ss_shm wait_example))"
    "ring_items (sh_req_ring (ss_shm wait_example)) = map enc_tlp [tlp_zero] @ []" "list_all wf_tlp [tlp_zero]"
    "length [tlp_zero] < 1000" "rc_transport rc_zero = None"
    unfolding e using rings by (simp_all add: rc_zero_def)
  from shm_wait_recovers_tlps [OF so st i, of shm_transport poll_out_zero] show ?thesis by auto
qed

end
