(* ===== verification/Guest_Memory.thy ===== *)
theory Guest_Memory
  imports Prelude
begin

section \<open>Guest memory\<close>

text \<open>
  The guest's physical memory, as the device models read and write it (\<open>cpu_physical_memory_read\<close> and
  \<open>cpu_physical_memory_write\<close> of QEMU, a DMA transfer of the simulator): a function of the address, with
  regions that may wrap at the end of the address space, and what a write leaves unchanged.
\<close>

type_synonym memory = "u64 \<Rightarrow> u8"

definition mem_bytes :: "memory \<Rightarrow> u64 \<Rightarrow> nat \<Rightarrow> bytes" where
  "mem_bytes m a n = map (\<lambda>i. m (a + of_nat i)) [0..<n]"

definition mem_write :: "u64 \<Rightarrow> bytes \<Rightarrow> memory \<Rightarrow> memory" where
  "mem_write a bs m x = (if unat (x - a) < length bs then bs ! unat (x - a) else m x)"

definition region :: "u64 \<Rightarrow> nat \<Rightarrow> u64 set" where
  "region a n = {x. unat (x - a) < n}"

definition agree_off :: "u64 set \<Rightarrow> memory \<Rightarrow> memory \<Rightarrow> bool" where
  "agree_off R m m' \<longleftrightarrow> (\<forall>x. x \<notin> R \<longrightarrow> m' x = m x)"

lemma length_mem_bytes [simp]: "length (mem_bytes m a n) = n"
  by (simp add: mem_bytes_def)

lemma unat_of_nat_less: "n < 2 ^ LENGTH('a) \<Longrightarrow> unat (of_nat n :: 'a::len word) = n"
  by (simp add: unat_of_nat)

lemma unat_of_nat_u64: "i < 2 ^ 64 \<Longrightarrow> unat (of_nat i :: u64) = i"
  by (rule unat_of_nat_less) simp

lemma region_0 [simp]: "region a 0 = {}"
  by (simp add: region_def)

lemma in_region_offset: "i < n \<Longrightarrow> n \<le> 2 ^ 64 \<Longrightarrow> a + of_nat i \<in> region a n"
  by (simp add: region_def unat_of_nat)

lemma region_mono: "n \<le> n' \<Longrightarrow> region a n \<subseteq> region a n'"
  by (auto simp: region_def)

lemma mem_bytes_cong:
  assumes "\<And>x. x \<in> region a n \<Longrightarrow> m' x = m x" and "n \<le> 2 ^ 64"
  shows "mem_bytes m' a n = mem_bytes m a n"
  using assms(1) in_region_offset [OF _ assms(2)] by (auto simp: mem_bytes_def)

lemma mem_bytes_agree:
  "agree_off R m m' \<Longrightarrow> region a n \<inter> R = {} \<Longrightarrow> n \<le> 2 ^ 64 \<Longrightarrow> mem_bytes m' a n = mem_bytes m a n"
  by (rule mem_bytes_cong) (auto simp: agree_off_def)

lemma mem_bytes_write_same:
  assumes "length bs = n" and "n \<le> 2 ^ 64"
  shows "mem_bytes (mem_write a bs m) a n = bs"
  using assms by (intro nth_equalityI) (auto simp: mem_bytes_def mem_write_def unat_of_nat)

lemma agree_off_refl [simp]: "agree_off R m m"
  by (simp add: agree_off_def)

lemma agree_off_write: "region a (length bs) \<subseteq> R \<Longrightarrow> agree_off R m (mem_write a bs m)"
  by (auto simp: agree_off_def mem_write_def region_def)

lemma agree_off_trans: "agree_off R m m' \<Longrightarrow> agree_off R' m' m'' \<Longrightarrow> agree_off (R \<union> R') m m''"
  by (auto simp: agree_off_def)

lemma agree_off_mono: "agree_off R m m' \<Longrightarrow> R \<subseteq> R' \<Longrightarrow> agree_off R' m m'"
  by (auto simp: agree_off_def)

text \<open>Two pieces of one object, at offsets from its base.\<close>

lemma region_offset:
  assumes "i + n \<le> 2 ^ 64"
  shows "x \<in> region (b + of_nat i) n \<longleftrightarrow> i \<le> unat (x - b) \<and> unat (x - b) < i + n"
proof (cases "n = 0")
  case False
  define y where "y = x - b"
  have i: "i < 2 ^ 64" using assms False by linarith
  then have u: "unat (of_nat i :: u64) = i" by (rule unat_of_nat_u64)
  have yb: "unat y < 2 ^ 64" using unat_bound [of y] by simp
  have xy: "x - (b + of_nat i) = y - of_nat i" by (simp add: y_def algebra_simps)
  have "unat (y - of_nat i) = (if i \<le> unat y then unat y - i else 2 ^ 64 + unat y - i)"
  proof (cases "i \<le> unat y")
    case True
    then have "(of_nat i :: u64) \<le> y" using u by (simp add: word_le_nat_alt)
    then show ?thesis using True u by (simp add: unat_sub)
  next
    case False
    then have "\<not> (of_nat i :: u64) \<le> y" using u by (simp add: word_le_nat_alt)
    then show ?thesis using False u i yb by (simp add: unat_sub_if_size word_size)
  qed
  then show ?thesis
    using assms yb unfolding region_def mem_Collect_eq xy y_def [symmetric] by (auto split: if_splits)
qed simp

lemma region_offset_disjoint:
  assumes "i + n \<le> j \<or> j + k \<le> i" and "i + n \<le> 2 ^ 64" and "j + k \<le> 2 ^ 64"
  shows "region (b + of_nat i) n \<inter> region (b + of_nat j) k = {}"
  using assms by (auto simp: region_offset)

lemma region_offset_subset:
  assumes "i + n \<le> k" and "k \<le> 2 ^ 64"
  shows "region (b + of_nat i) n \<subseteq> region b k"
proof
  fix x assume "x \<in> region (b + of_nat i) n"
  then have "unat (x - b) < i + n" using assms by (simp add: region_offset)
  then show "x \<in> region b k" using assms by (simp add: region_def)
qed

lemma region_apart:
  assumes "unat a + n \<le> unat b \<or> unat b + k \<le> unat a" and "unat a + n \<le> 2 ^ 64" and "unat b + k \<le> 2 ^ 64"
  shows "region a n \<inter> region b k = {}"
  using region_offset_disjoint [OF assms, of 0] by simp

end
