(* ===== verification/Virtqueue.thy ===== *)
theory Virtqueue
  imports Eth_Mac_Dpi Vcs_Dma Guest_Memory
begin

section \<open>The virtqueue engine: bridge/vcs/virtqueue\_dma.c\<close>

text \<open>
  The device side of a virtio network card: on a doorbell the simulator reads the descriptors the guest
  posted, moves packets between guest memory and the Ethernet shim, and publishes used entries.  The
  functions of the other files that the engine declares \<open>extern\<close> are a record of operations on a state
  \<open>'s\<close>; \<open>bridge_env\<close> is that record made of the model's own bridge and shim, \<open>guest_env\<close> one in which
  the guest's memory answers at once.  A result \<^theory_text>\<open>None\<close> is undefined behaviour of the C code (a copy
  outside a buffer, a signed overflow, a remainder by 0) or, for the receive loop, not returning.  The
  contents of a local buffer before it is written are taken to be zero.
\<close>

definition VQ_MAX_CHAIN :: nat where [code_consts]: "VQ_MAX_CHAIN = 16"
definition VQ_PKT_BUF :: nat where [code_consts]: "VQ_PKT_BUF = 9216"

definition VIRTQ_DESC_F_NEXT :: u16 where [code_consts]: "VIRTQ_DESC_F_NEXT = 1"
definition VIRTQ_DESC_F_WRITE :: u16 where [code_consts]: "VIRTQ_DESC_F_WRITE = 2"

record virtq_desc =
  vd_addr :: u64
  vd_len :: u32
  vd_flags :: u16
  vd_next :: u16

definition dec_desc :: "bytes \<Rightarrow> virtq_desc" where
  "dec_desc bs = \<lparr>vd_addr = le_word (field 0 8 bs), vd_len = le_word (field 8 4 bs),
     vd_flags = le_word (field 12 2 bs), vd_next = le_word (field 14 2 bs)\<rparr>"

definition has_next :: "virtq_desc \<Rightarrow> bool" where
  "has_next d \<longleftrightarrow> vd_flags d AND VIRTQ_DESC_F_NEXT \<noteq> 0"

definition writable :: "virtq_desc \<Rightarrow> bool" where
  "writable d \<longleftrightarrow> vd_flags d AND VIRTQ_DESC_F_WRITE \<noteq> 0"

record 's vq_env =
  dma_read :: "u64 \<Rightarrow> bytes \<Rightarrow> u32 \<Rightarrow> 's \<Rightarrow> ((rc \<times> bytes) \<times> 's) option"
  dma_write :: "u64 \<Rightarrow> bytes \<Rightarrow> 's \<Rightarrow> (rc \<times> 's) option"
  eth_send :: "bytes \<Rightarrow> int \<Rightarrow> 's \<Rightarrow> rc \<times> 's"
  eth_recv :: "int \<Rightarrow> 's \<Rightarrow> ((int \<times> bytes) \<times> 's) option"

subsection \<open>Queue state and configuration\<close>

record vq_state =
  vq_desc_gpa :: u64
  vq_avail_gpa :: u64
  vq_used_gpa :: u64
  vq_size :: u16
  vq_last_avail :: u16
  vq_last_used :: u16
  vq_configured :: bool

record vq_dev =
  vq_rx :: vq_state              \<comment> \<open>\<open>vq[0]\<close>\<close>
  vq_tx :: vq_state              \<comment> \<open>\<open>vq[1]\<close>\<close>
  tx_pkt_count :: int
  rx_pkt_count :: int
  rx_poll_empty_count :: int

definition vq_zero :: vq_state where
  "vq_zero = \<lparr>vq_desc_gpa = 0, vq_avail_gpa = 0, vq_used_gpa = 0, vq_size = 0, vq_last_avail = 0,
     vq_last_used = 0, vq_configured = False\<rparr>"

definition vq_start :: vq_dev where
  "vq_start = \<lparr>vq_rx = vq_zero, vq_tx = vq_zero, tx_pkt_count = 0, rx_pkt_count = 0, rx_poll_empty_count = 0\<rparr>"

definition configure_queue :: "u64 \<Rightarrow> u64 \<Rightarrow> u64 \<Rightarrow> int \<Rightarrow> vq_state \<Rightarrow> vq_state" where
  "configure_queue desc avail used sz q =
     (if vq_configured q \<and> vq_desc_gpa q = desc \<and> vq_avail_gpa q = avail \<and> vq_used_gpa q = used
         \<and> vq_size q = word_of_int sz
      then q
      else \<lparr>vq_desc_gpa = desc, vq_avail_gpa = avail, vq_used_gpa = used, vq_size = word_of_int sz,
            vq_last_avail = 0, vq_last_used = 0, vq_configured = True\<rparr>)"

definition vcs_vq_configure :: "int \<Rightarrow> u64 \<Rightarrow> u64 \<Rightarrow> u64 \<Rightarrow> int \<Rightarrow> vq_dev \<Rightarrow> vq_dev" where
  "vcs_vq_configure queue desc avail used sz dev =
     (if queue < 0 \<or> queue > 1 then dev
      else if queue = 0 then dev\<lparr>vq_rx := configure_queue desc avail used sz (vq_rx dev)\<rparr>
      else dev\<lparr>vq_tx := configure_queue desc avail used sz (vq_tx dev)\<rparr>)"

definition vcs_vq_get_tx_count :: "vq_dev \<Rightarrow> int" where
  "vcs_vq_get_tx_count = tx_pkt_count"

definition vcs_vq_get_rx_count :: "vq_dev \<Rightarrow> int" where
  "vcs_vq_get_rx_count = rx_pkt_count"

subsection \<open>Addresses and fixed-size transfers\<close>

definition avail_entry_gpa :: "vq_state \<Rightarrow> u16 \<Rightarrow> u64" where
  "avail_entry_gpa q p = vq_avail_gpa q + 4 + ucast (p mod vq_size q) * 2"

definition used_entry_gpa :: "vq_state \<Rightarrow> u16 \<Rightarrow> u64" where
  "used_entry_gpa q p = vq_used_gpa q + 4 + ucast (p mod vq_size q) * 8"

definition desc_gpa :: "u64 \<Rightarrow> u16 \<Rightarrow> u64" where
  "desc_gpa table i = table + ucast i * 16"

text \<open>A read into a local buffer of \<open>n\<close> bytes: nothing on an error code.\<close>

definition dma_get :: "'s vq_env \<Rightarrow> u64 \<Rightarrow> nat \<Rightarrow> 's \<Rightarrow> (bytes option \<times> 's) option" where
  "dma_get env a n s = map_option (\<lambda>((r, bs), s1). (if r < 0 then None else Some bs, s1))
     (dma_read env a (replicate n 0) (of_nat n) s)"

definition used_entry :: "u16 \<Rightarrow> u32 \<Rightarrow> bytes" where
  "used_entry head len = le_bytes 4 (ucast head :: u32) @ le_bytes 4 len"

subsection \<open>Transmission\<close>

text \<open>The 12 bytes of the virtio-net header are skipped, over several descriptors if need be:
  the header bytes left, the address and the length of the data in this descriptor.\<close>

definition skip_header :: "u32 \<Rightarrow> virtq_desc \<Rightarrow> u32 \<times> u64 \<times> u32" where
  "skip_header hdr d =
     (if hdr > 0 then
        (if vd_len d \<le> hdr then (hdr - vd_len d, vd_addr d, 0) else (0, vd_addr d + ucast hdr, vd_len d - hdr))
      else (hdr, vd_addr d, vd_len d))"

text \<open>Reading the data of one descriptor to \<open>pkt_buf + pkt_len\<close>, for \<open>int\<close> values of \<open>pkt_len\<close> and of
  the sum with the 32-bit length.\<close>

definition tx_read :: "'s vq_env \<Rightarrow> u64 \<Rightarrow> u32 \<Rightarrow> bytes \<times> int \<Rightarrow> 's \<Rightarrow> ((bytes \<times> int) option \<times> 's) option" where
  "tx_read env a len = (\<lambda>(pkt, pkt_len) s.
     let total = pkt_len + sint len;
         to_read = (if total > int VQ_PKT_BUF then word_of_int (int VQ_PKT_BUF - pkt_len) else len)
     in if total \<ge> 2 ^ 31 \<or> total < - (2 ^ 31) \<or> pkt_len < 0 \<or> pkt_len > int VQ_PKT_BUF then None
        else map_option (\<lambda>((r, bs), s1).
            (if r < 0 then None else Some (take (nat pkt_len) pkt @ bs, pkt_len + sint to_read), s1))
          (dma_read env a (drop (nat pkt_len) pkt) to_read s))"

fun tx_chain :: "'s vq_env \<Rightarrow> u64 \<Rightarrow> nat \<Rightarrow> u16 \<Rightarrow> u32 \<Rightarrow> bytes \<times> int \<Rightarrow> 's \<Rightarrow> ((bytes \<times> int) option \<times> 's) option" where
  "tx_chain env table 0 cur hdr pkt s = Some (Some pkt, s)"
| "tx_chain env table (Suc n) cur hdr pkt s =
     (case dma_get env (desc_gpa table cur) 16 s of
        None \<Rightarrow> None
      | Some (None, s1) \<Rightarrow> Some (None, s1)
      | Some (Some bs, s1) \<Rightarrow>
          (let d = dec_desc bs
           in case skip_header hdr d of
               (hdr1, a, len) \<Rightarrow>
                 (case (if len > 0 then tx_read env a len pkt s1 else Some (Some pkt, s1)) of
                    None \<Rightarrow> None
                  | Some (None, s2) \<Rightarrow> Some (None, s2)
                  | Some (Some pkt1, s2) \<Rightarrow>
                      if has_next d then tx_chain env table n (vd_next d) hdr1 pkt1 s2 else Some (Some pkt1, s2))))"

text \<open>One available entry: its chain is read, the packet forwarded, and the used entry written.  The
  result of the forwarding is only printed.\<close>

definition tx_one :: "'s vq_env \<Rightarrow> vq_state \<Rightarrow> 's \<Rightarrow> (bool \<times> 's) option" where
  "tx_one env q s =
     (if vq_size q = 0 then None
      else case dma_get env (avail_entry_gpa q (vq_last_avail q)) 2 s of
          None \<Rightarrow> None
        | Some (None, s1) \<Rightarrow> Some (False, s1)
        | Some (Some bs, s1) \<Rightarrow>
            (let head = le_word bs
             in case tx_chain env (vq_desc_gpa q) VQ_MAX_CHAIN head 12 (replicate VQ_PKT_BUF 0, 0) s1 of
                 None \<Rightarrow> None
               | Some (None, s2) \<Rightarrow> Some (False, s2)
               | Some (Some (pkt, pkt_len), s2) \<Rightarrow>
                   (let s3 = (if pkt_len > 0 then snd (eth_send env pkt pkt_len s2) else s2)
                    in map_option (\<lambda>(r, s4). (\<not> r < 0, s4))
                         (dma_write env (used_entry_gpa q (vq_last_used q)) (used_entry head 0) s3))))"

definition vq_advance :: "vq_state \<Rightarrow> vq_state" where
  "vq_advance q = q\<lparr>vq_last_avail := vq_last_avail q + 1, vq_last_used := vq_last_used q + 1\<rparr>"

definition tx_done :: "vq_dev \<Rightarrow> vq_dev" where
  "tx_done dev = dev\<lparr>vq_tx := vq_advance (vq_tx dev), tx_pkt_count := tx_pkt_count dev + 1\<rparr>"

lemma unat_gap_smaller:
  fixes a b :: u16
  assumes "b \<noteq> a"
  shows "unat (a - b) = Suc (unat (a - (b + 1)))"
proof -
  have "a - b \<noteq> 0" using assms by simp
  then have "unat (a - b) = Suc (unat (a - b - 1))"
    by (simp add: unat_minus_one unat_gt_0 Suc_pred)
  then show ?thesis by (simp add: algebra_simps)
qed

text \<open>The loop over the available entries: how many were processed, or nothing on an error return.\<close>

function tx_loop :: "'s vq_env \<Rightarrow> u16 \<Rightarrow> int \<Rightarrow> vq_dev \<Rightarrow> 's \<Rightarrow> (int option \<times> vq_dev \<times> 's) option" where
  "tx_loop env avail_idx processed dev s =
     (if vq_last_avail (vq_tx dev) = avail_idx then Some (Some processed, dev, s)
      else case tx_one env (vq_tx dev) s of
          None \<Rightarrow> None
        | Some (False, s1) \<Rightarrow> Some (None, dev, s1)
        | Some (True, s1) \<Rightarrow> tx_loop env avail_idx (processed + 1) (tx_done dev) s1)"
  by pat_completeness auto
termination
  by (relation "measure (\<lambda>(env, a, n, dev, s). unat (a - vq_last_avail (vq_tx dev)))")
    (use unat_gap_smaller in \<open>fastforce simp: tx_done_def vq_advance_def\<close>)+

declare tx_loop.simps [simp del]

definition vcs_vq_process_tx :: "'s vq_env \<Rightarrow> vq_dev \<Rightarrow> 's \<Rightarrow> (int \<times> vq_dev \<times> 's) option" where
  "vcs_vq_process_tx env dev s =
     (if \<not> vq_configured (vq_tx dev) then Some (-1, dev, s)
      else case dma_get env (vq_avail_gpa (vq_tx dev)) 4 s of
          None \<Rightarrow> None
        | Some (None, s1) \<Rightarrow> Some (-1, dev, s1)
        | Some (Some hdr, s1) \<Rightarrow>
            (case tx_loop env (le_word (field 2 2 hdr)) 0 dev s1 of
               None \<Rightarrow> None
             | Some (None, dev1, s2) \<Rightarrow> Some (-1, dev1, s2)
             | Some (Some n, dev1, s2) \<Rightarrow>
                 if n > 0 then
                   map_option (\<lambda>(r, s3). (if r < 0 then -1 else n, dev1, s3))
                     (dma_write env (vq_used_gpa (vq_tx dev1) + 2) (le_bytes 2 (vq_last_used (vq_tx dev1))) s2)
                 else Some (n, dev1, s2)))"

subsection \<open>Reception\<close>

text \<open>The header written before a frame: zeros, and \<open>num_buffers = 1\<close>.\<close>

definition vnet_hdr :: bytes where
  "vnet_hdr = [0, 0, 0, 0, 0, 0, 0, 0, 0, 0, 1, 0]"

text \<open>Filling one writable descriptor with the header, if it is still to be written, and the rest of the
  frame; the state of the walk is whether the header was written, the bytes left and the bytes written.\<close>

definition rx_header :: "'s vq_env \<Rightarrow> virtq_desc \<Rightarrow> bytes \<times> u32 \<Rightarrow> 's \<Rightarrow> ((bytes \<times> u32) option \<times> 's) option" where
  "rx_header env d = (\<lambda>(rest, written) s.
     let hdr_len = min (vd_len d) 12
     in case dma_write env (vd_addr d) (take (unat hdr_len) vnet_hdr) s of
         None \<Rightarrow> None
       | Some (r, s1) \<Rightarrow>
           if r < 0 then Some (None, s1)
           else (let space = unat (vd_len d - hdr_len); n = min (length rest) space
             in if space > 0 \<and> rest \<noteq> [] then
                  map_option (\<lambda>(r, s2). (if r < 0 then None else Some (drop n rest, written + hdr_len + of_nat n), s2))
                    (dma_write env (vd_addr d + ucast hdr_len) (take n rest) s1)
                else Some (Some (rest, written + hdr_len), s1)))"

definition rx_data :: "'s vq_env \<Rightarrow> virtq_desc \<Rightarrow> bytes \<times> u32 \<Rightarrow> 's \<Rightarrow> ((bytes \<times> u32) option \<times> 's) option" where
  "rx_data env d = (\<lambda>(rest, written) s.
     if rest \<noteq> [] then
       (let n = min (length rest) (unat (vd_len d))
        in map_option (\<lambda>(r, s1). (if r < 0 then None else Some (drop n rest, written + of_nat n), s1))
             (dma_write env (vd_addr d) (take n rest) s))
     else Some (Some (rest, written), s))"

fun rx_chain :: "'s vq_env \<Rightarrow> u64 \<Rightarrow> nat \<Rightarrow> u16 \<Rightarrow> bool \<Rightarrow> bytes \<times> u32 \<Rightarrow> 's \<Rightarrow> (u32 option \<times> 's) option" where
  "rx_chain env table 0 cur hdr_written w s = Some (Some (snd w), s)"
| "rx_chain env table (Suc n) cur hdr_written w s =
     (case dma_get env (desc_gpa table cur) 16 s of
        None \<Rightarrow> None
      | Some (None, s1) \<Rightarrow> Some (None, s1)
      | Some (Some bs, s1) \<Rightarrow>
          (let d = dec_desc bs
           in case (if \<not> writable d then Some (Some w, s1)
                    else if \<not> hdr_written then rx_header env d w s1 else rx_data env d w s1) of
               None \<Rightarrow> None
             | Some (None, s2) \<Rightarrow> Some (None, s2)
             | Some (Some w1, s2) \<Rightarrow>
                 if has_next d then rx_chain env table n (vd_next d) (hdr_written \<or> writable d) w1 s2
                 else Some (Some (snd w1), s2)))"

definition rx_inject_one :: "'s vq_env \<Rightarrow> vq_state \<Rightarrow> u16 \<Rightarrow> bytes \<Rightarrow> 's \<Rightarrow> (u32 option \<times> 's) option" where
  "rx_inject_one env q head frame s = rx_chain env (vq_desc_gpa q) VQ_MAX_CHAIN head False (frame, 0) s"

text \<open>One round of the loop: whether it goes on.  The frame is taken only once a buffer is posted; a failing
  transfer leaves the loop with the frame taken, and after the used entry with the queue advanced.\<close>

definition rx_publish :: "'s vq_env \<Rightarrow> vq_dev \<Rightarrow> u16 \<Rightarrow> u32 \<Rightarrow> 's \<Rightarrow> (bool \<times> vq_dev \<times> 's) option" where
  "rx_publish env dev head written s =
     (case dma_write env (used_entry_gpa (vq_rx dev) (vq_last_used (vq_rx dev))) (used_entry head written) s of
        None \<Rightarrow> None
      | Some (r, s1) \<Rightarrow>
          if r < 0 then Some (False, dev, s1)
          else (let dev1 = dev\<lparr>vq_rx := vq_advance (vq_rx dev)\<rparr>
            in map_option (\<lambda>(r, s2). if r < 0 then (False, dev1, s2)
                   else (True, dev1\<lparr>rx_pkt_count := rx_pkt_count dev1 + 1\<rparr>, s2))
                 (dma_write env (vq_used_gpa (vq_rx dev1) + 2) (le_bytes 2 (vq_last_used (vq_rx dev1))) s1)))"

definition rx_deliver :: "'s vq_env \<Rightarrow> vq_dev \<Rightarrow> bytes \<Rightarrow> 's \<Rightarrow> (bool \<times> vq_dev \<times> 's) option" where
  "rx_deliver env dev frame s =
     (if vq_size (vq_rx dev) = 0 then None
      else case dma_get env (avail_entry_gpa (vq_rx dev) (vq_last_avail (vq_rx dev))) 2 s of
          None \<Rightarrow> None
        | Some (None, s1) \<Rightarrow> Some (False, dev, s1)
        | Some (Some bs, s1) \<Rightarrow>
            (case rx_inject_one env (vq_rx dev) (le_word bs) frame s1 of
               None \<Rightarrow> None
             | Some (None, s2) \<Rightarrow> Some (False, dev, s2)
             | Some (Some written, s2) \<Rightarrow> rx_publish env dev (le_word bs) written s2))"

definition rx_round :: "'s vq_env \<Rightarrow> vq_dev \<Rightarrow> 's \<Rightarrow> (bool \<times> vq_dev \<times> 's) option" where
  "rx_round env dev s =
     (case dma_get env (vq_avail_gpa (vq_rx dev)) 4 s of
        None \<Rightarrow> None
      | Some (None, s1) \<Rightarrow> Some (False, dev, s1)
      | Some (Some hdr, s1) \<Rightarrow>
          if vq_last_avail (vq_rx dev) = le_word (field 2 2 hdr) then Some (False, dev, s1)
          else (case eth_recv env (int VQ_PKT_BUF) s1 of
              None \<Rightarrow> None
            | Some ((frame_len, frame), s2) \<Rightarrow>
                if frame_len \<le> 0 then Some (False, dev, s2) else rx_deliver env dev (take (nat frame_len) frame) s2))"

partial_function (option) rx_loop :: "'s vq_env \<Rightarrow> int \<Rightarrow> vq_dev \<Rightarrow> 's \<Rightarrow> (int \<times> vq_dev \<times> 's) option" where
  "rx_loop env injected dev s =
     Option.bind (rx_round env dev s) (\<lambda>(more_work, dev1, s1).
       if more_work then rx_loop env (injected + 1) dev1 s1 else Some (injected, dev1, s1))"

definition vcs_vq_process_rx :: "'s vq_env \<Rightarrow> vq_dev \<Rightarrow> 's \<Rightarrow> (int \<times> vq_dev \<times> 's) option" where
  "vcs_vq_process_rx env dev s =
     (if \<not> vq_configured (vq_rx dev) then Some (0, dev, s)
      else map_option (\<lambda>(injected, dev1, s1).
          (injected, dev1\<lparr>rx_poll_empty_count := if injected = 0 then rx_poll_empty_count dev1 + 1 else 0\<rparr>, s1))
        (rx_loop env 0 dev s))"

subsection \<open>The operations the engine calls\<close>

text \<open>The bridge and the Ethernet shim of this model.\<close>

type_synonym 'p vq_host = "'p vcs \<times> mac_state \<times> eth_link"

definition bridge_env :: "'p transport \<Rightarrow> 'p vq_host vq_env" where
  "bridge_env ops =
     \<lparr>dma_read = (\<lambda>a buf len (v, m). map_option (\<lambda>(r, v1). (r, v1, m)) (bridge_dma_read_bytes ops a buf len v)),
      dma_write = (\<lambda>a bs (v, m). map_option (\<lambda>(r, v1). (r, v1, m)) (bridge_dma_write_bytes ops a bs v)),
      eth_send = (\<lambda>d len (v, g, l). case vcs_eth_mac_send_raw (Some d) len g l of (r, g1, l1) \<Rightarrow> (r, v, g1, l1)),
      eth_recv = (\<lambda>max_len (v, g, l). map_option (\<lambda>(r, g1, l1). (r, v, g1, l1)) (vcs_eth_mac_recv_raw True max_len g l))\<rparr>"

text \<open>Guest memory that serves a transfer at once and any state behind the Ethernet operations.  As in
  \<open>bridge_dma_read_bytes\<close>, a transfer of no bytes is an error.\<close>

record 'n guest =
  g_mem :: memory
  g_net :: 'n

definition guest_env :: "(bytes \<Rightarrow> int \<Rightarrow> 'n \<Rightarrow> rc \<times> 'n) \<Rightarrow> (int \<Rightarrow> 'n \<Rightarrow> ((int \<times> bytes) \<times> 'n) option)
    \<Rightarrow> 'n guest vq_env" where
  "guest_env send recv =
     \<lparr>dma_read = (\<lambda>a buf len g. if len = 0 then Some ((-1, buf), g)
        else if unat len > length buf then None
        else Some ((0, blit 0 (mem_bytes (g_mem g) a (unat len)) buf), g)),
      dma_write = (\<lambda>a bs g. if bs = [] then Some (-1, g) else Some (0, g\<lparr>g_mem := mem_write a bs (g_mem g)\<rparr>)),
      eth_send = (\<lambda>d len g. case send d len (g_net g) of (r, n) \<Rightarrow> (r, g\<lparr>g_net := n\<rparr>)),
      eth_recv = (\<lambda>max_len g. map_option (\<lambda>(r, n). (r, g\<lparr>g_net := n\<rparr>)) (recv max_len (g_net g)))\<rparr>"

end
