(* ===== verification/Virtqueue_Tx.thy ===== *)
theory Virtqueue_Tx
  imports Virtqueue
begin

section \<open>Transmission out of guest memory\<close>

text \<open>
  What the transmit side of the virtqueue engine does when transfers are served from guest memory: an
  abstract reading of a descriptor chain, that the loop over descriptors computes it, and that the loop
  over the available ring forwards the packets in order and publishes the used entries.
\<close>

subsection \<open>Chains and packets\<close>

fun chain :: "memory \<Rightarrow> u64 \<Rightarrow> nat \<Rightarrow> u16 \<Rightarrow> virtq_desc list" where
  "chain m table 0 cur = []"
| "chain m table (Suc n) cur =
     (let d = dec_desc (mem_bytes m (desc_gpa table cur) 16)
      in d # (if has_next d then chain m table n (vd_next d) else []))"

definition desc_data :: "memory \<Rightarrow> virtq_desc \<Rightarrow> bytes" where
  "desc_data m d = mem_bytes m (vd_addr d) (unat (vd_len d))"

definition chain_data :: "memory \<Rightarrow> virtq_desc list \<Rightarrow> bytes" where
  "chain_data m ds = concat (map (desc_data m) ds)"

definition head_of :: "memory \<Rightarrow> vq_state \<Rightarrow> u16 \<Rightarrow> u16" where
  "head_of m q p = le_word (mem_bytes m (avail_entry_gpa q p) 2)"

text \<open>The packet of an available entry: the chain's bytes after the virtio-net header.\<close>

definition packet :: "memory \<Rightarrow> vq_state \<Rightarrow> u16 \<Rightarrow> bytes" where
  "packet m q p = drop 12 (chain_data m (chain m (vq_desc_gpa q) VQ_MAX_CHAIN (head_of m q p)))"

lemma length_desc_data [simp]: "length (desc_data m d) = unat (vd_len d)"
  by (simp add: desc_data_def)

lemma chain_data_simps [simp]:
  "chain_data m [] = []" "chain_data m (d # ds) = desc_data m d @ chain_data m ds"
  by (simp_all add: chain_data_def)

lemma drop_mem_bytes: "drop k (mem_bytes m a n) = mem_bytes m (a + of_nat k) (n - k)"
  by (simp add: mem_bytes_def drop_map algebra_simps flip: map_add_upt)
    (rule nth_equalityI, simp_all add: algebra_simps)

subsection \<open>Reading a chain\<close>

lemma guest_get:
  "0 < n \<Longrightarrow> n < 2 ^ 32 \<Longrightarrow> dma_get (guest_env send recv) a n g = Some (Some (mem_bytes (g_mem g) a n), g)"
  by (simp add: dma_get_def guest_env_def unat_of_nat word_of_nat_eq_0_iff nat_dvd_not_less)

lemma guest_put: "bs \<noteq> [] \<Longrightarrow> dma_write (guest_env send recv) a bs g = Some (0, g\<lparr>g_mem := mem_write a bs (g_mem g)\<rparr>)"
  by (simp add: guest_env_def)

text \<open>The packet buffer holds the bytes \<open>bs\<close> so far.\<close>

definition holds :: "bytes \<times> int \<Rightarrow> bytes \<Rightarrow> bool" where
  "holds w bs \<longleftrightarrow> length (fst w) = VQ_PKT_BUF \<and> snd w = int (length bs) \<and> take (length bs) (fst w) = bs
     \<and> length bs \<le> VQ_PKT_BUF"

lemma sint_small:
  assumes "unat (w :: u32) = n" and "n < 2 ^ 31"
  shows "sint w = int n"
proof -
  have "sint w = signed_take_bit 31 (int (unat w))" by (simp add: sint_uint flip: uint_nat)
  also have "\<dots> = signed_take_bit 31 (int n)" by (simp only: assms(1))
  also have "\<dots> = int n" by (rule signed_take_bit_int_eq_self) (use assms(2) in simp_all)
  finally show ?thesis .
qed

lemma sint_large:
  assumes "2 ^ 31 \<le> unat (w :: u32)"
  shows "sint w < 0"
proof -
  define n where "n = unat w"
  have n: "2 ^ 31 \<le> n" "n < 2 ^ 32" using assms unat_bounds(3) [of w] by (simp_all add: n_def)
  have "sint w = signed_take_bit 31 (int n)" unfolding n_def by (simp add: sint_uint flip: uint_nat)
  also have "\<dots> = (int n + 2 ^ 31) mod 2 ^ 32 - 2 ^ 31"
    by (simp add: signed_take_bit_eq_take_bit_shift take_bit_eq_mod)
  also have "(int n + 2 ^ 31) mod 2 ^ 32 = int n - 2 ^ 31"
    using n mod_pos_pos_trivial [of "int n - 2 ^ 31" "2 ^ 32"] mod_add_self2 [of "int n - 2 ^ 31" "2 ^ 32 :: int"]
    by (simp add: add.commute)
  finally show ?thesis using n by simp
qed

lemma guest_tx_read:
  assumes "holds w bs" and "0 < len" and "length bs + unat len \<le> VQ_PKT_BUF"
  shows "\<exists>w'. tx_read (guest_env send recv) a len w g = Some (Some w', g)
    \<and> holds w' (bs @ mem_bytes (g_mem g) a (unat len))"
proof -
  obtain pkt where w: "w = (pkt, int (length bs))" "length pkt = VQ_PKT_BUF" "take (length bs) pkt = bs"
    using assms(1) by (cases w) (auto simp: holds_def)
  obtain n where n: "unat len = n" "0 < n" "length bs + n \<le> 9216"
    using assms(2,3) by (simp add: word_less_nat_alt code_consts)
  then have len: "sint len = int n" by (intro sint_small) simp_all
  let ?pkt = "bs @ mem_bytes (g_mem g) a n @ drop (length bs + n) pkt"
  have "tx_read (guest_env send recv) a len w g = Some (Some (?pkt, int (length bs + n)), g)"
    using assms(2) n w by (auto simp: tx_read_def Let_def len guest_env_def code_consts blit_def add.commute)
  moreover have "holds (?pkt, int (length bs + n)) (bs @ mem_bytes (g_mem g) a n)"
    using n w by (simp add: holds_def code_consts)
  ultimately show ?thesis using n(1) by blast
qed

text \<open>What is left of the header after a descriptor, and the data the descriptor adds.\<close>

lemma skip_header_data:
  assumes "skip_header h d = (h1, a, len)" and "unat h \<le> 12"
  shows "drop (unat h) (desc_data m d) = mem_bytes m a (unat len)" and "unat h1 = unat h - unat (vd_len d)"
    and "unat len \<le> unat (vd_len d)"
proof -
  have sub: "unat (x - y) = unat x - unat y" if "y \<le> x" for x y :: u32
    using that by (simp add: unat_sub)
  consider "h = 0" "h1 = h" "a = vd_addr d" "len = vd_len d"
    | "0 < h" "vd_len d \<le> h" "h1 = h - vd_len d" "len = 0"
    | "0 < h" "h < vd_len d" "h1 = 0" "a = vd_addr d + ucast h" "len = vd_len d - h"
    using assms(1) by (auto simp: skip_header_def word_gt_0 split: if_splits)
  then have "drop (unat h) (desc_data m d) = mem_bytes m a (unat len) \<and> unat h1 = unat h - unat (vd_len d)
      \<and> unat len \<le> unat (vd_len d)"
  proof cases
    case 1
    then show ?thesis by (simp add: desc_data_def)
  next
    case 2
    then show ?thesis using word_le_nat_alt [of "vd_len d" h] by (simp add: sub mem_bytes_def)
  next
    case 3
    then have le: "unat h < unat (vd_len d)" by (simp add: word_less_nat_alt)
    have "(of_nat (unat h) :: u64) = ucast h" by simp
    then show ?thesis using 3 le by (simp add: desc_data_def drop_mem_bytes sub word_le_nat_alt)
  qed
  then show "drop (unat h) (desc_data m d) = mem_bytes m a (unat len)" "unat h1 = unat h - unat (vd_len d)"
    "unat len \<le> unat (vd_len d)" by simp_all
qed

lemma guest_tx_chain:
  assumes "holds w bs" and "unat h \<le> 12"
    and "length bs + length (drop (unat h) (chain_data (g_mem g) (chain (g_mem g) table n cur))) \<le> VQ_PKT_BUF"
  shows "\<exists>w'. tx_chain (guest_env send recv) table n cur h w g = Some (Some w', g)
    \<and> holds w' (bs @ drop (unat h) (chain_data (g_mem g) (chain (g_mem g) table n cur)))"
  using assms
proof (induction n arbitrary: cur h w bs)
  case 0
  then show ?case by simp
next
  case (Suc n)
  let ?m = "g_mem g"
  define d where "d = dec_desc (mem_bytes ?m (desc_gpa table cur) 16)"
  define rest where "rest = (if has_next d then chain ?m table n (vd_next d) else [])"
  have ch: "chain ?m table (Suc n) cur = d # rest" by (simp add: d_def rest_def Let_def)
  have get: "dma_get (guest_env send recv) (desc_gpa table cur) 16 g = Some (Some (mem_bytes ?m (desc_gpa table cur) 16), g)"
    by (rule guest_get) simp_all
  obtain h1 a len where sk: "skip_header h d = (h1, a, len)" by (cases "skip_header h d")
  note facts = skip_header_data [OF sk Suc.prems(2)]
  let ?new = "mem_bytes ?m a (unat len)"
  have split: "drop (unat h) (chain_data ?m (d # rest)) = ?new @ drop (unat h1) (chain_data ?m rest)"
    by (simp add: facts)
  have fits: "length bs + unat len + length (drop (unat h1) (chain_data ?m rest)) \<le> VQ_PKT_BUF"
    using Suc.prems(3) unfolding ch split by simp
  obtain w1 where w1: "(if len > 0 then tx_read (guest_env send recv) a len w g else Some (Some w, g)) = Some (Some w1, g)"
    and h1: "holds w1 (bs @ ?new)"
  proof (cases "len > 0")
    case True
    have "length bs + unat len \<le> VQ_PKT_BUF" using fits by simp
    from guest_tx_read [OF Suc.prems(1) True this] True that show ?thesis by fastforce
  next
    case False
    then have "len = 0" by (simp add: word_gt_0)
    then show ?thesis using that [of w] Suc.prems(1) by (simp add: mem_bytes_def)
  qed
  have step: "tx_chain (guest_env send recv) table (Suc n) cur h w g =
    (if has_next d then tx_chain (guest_env send recv) table n (vd_next d) h1 w1 g else Some (Some w1, g))"
    by (simp add: get Let_def d_def [symmetric] sk w1)
  show ?case
  proof (cases "has_next d")
    case True
    have "unat h1 \<le> 12" using facts(2) Suc.prems(2) by simp
    moreover have "length (bs @ ?new) + length (drop (unat h1) (chain_data ?m (chain ?m table n (vd_next d)))) \<le> VQ_PKT_BUF"
      using fits True by (simp add: rest_def)
    ultimately obtain w' where "tx_chain (guest_env send recv) table n (vd_next d) h1 w1 g = Some (Some w', g)"
        "holds w' ((bs @ ?new) @ drop (unat h1) (chain_data ?m (chain ?m table n (vd_next d))))"
      using Suc.IH [OF h1] by blast
    then show ?thesis unfolding ch split step using True by (simp add: rest_def)
  next
    case False
    then show ?thesis unfolding ch split step using h1 by (simp add: rest_def)
  qed
qed

subsection \<open>The used ring\<close>

definition used_ring :: "vq_state \<Rightarrow> u64 set" where
  "used_ring q = region (vq_used_gpa q) (4 + 8 * unat (vq_size q))"

definition used_slot :: "vq_state \<Rightarrow> u16 \<Rightarrow> u64 set" where
  "used_slot q p = region (used_entry_gpa q p) 8"

definition used_slots :: "vq_state \<Rightarrow> u16 \<Rightarrow> nat \<Rightarrow> u64 set" where
  "used_slots q p n = (\<Union>i<n. used_slot q (p + of_nat i))"

lemma used_entry_offset:
  "used_entry_gpa q p = vq_used_gpa q + of_nat (4 + 8 * unat (p mod vq_size q))"
proof -
  have "(ucast (p mod vq_size q) :: u64) = of_nat (unat (p mod vq_size q))" by simp
  then show ?thesis unfolding used_entry_gpa_def by (simp only: of_nat_add of_nat_mult) (simp add: algebra_simps)
qed

lemma slot_index:
  fixes p s :: u16
  assumes "s \<noteq> 0"
  shows "unat (p mod s) < unat s"
  using assms by (simp add: unat_mod word_neq_0_conv word_less_nat_alt)

lemma used_slot_in_ring:
  assumes "vq_size q \<noteq> 0"
  shows "used_slot q p \<subseteq> used_ring q"
  unfolding used_slot_def used_ring_def used_entry_offset
  using slot_index [OF assms, of p] unat_bounds(2) [of "vq_size q"] by (intro region_offset_subset) simp_all

lemma used_slots_in_ring: "vq_size q \<noteq> 0 \<Longrightarrow> used_slots q p n \<subseteq> used_ring q"
  using used_slot_in_ring by (fastforce simp: used_slots_def)

lemma used_slots_Suc: "used_slots q p (Suc n) = used_slot q p \<union> used_slots q (p + 1) n"
proof -
  have "{..<Suc n} = insert 0 (Suc ` {..<n})" by (rule lessThan_Suc_eq_insert_0)
  then show ?thesis by (simp add: used_slots_def add.assoc)
qed

text \<open>With a ring size that divides \<open>2 ^ 16\<close> (virtio demands a power of two), entries at positions less
  than the size apart have different slots.\<close>

lemma used_slots_disjoint:
  assumes "vq_size q \<noteq> 0" and "unat (vq_size q) dvd 65536" and "n < unat (vq_size q)"
  shows "used_slot q p \<inter> used_slots q (p + 1) n = {}"
proof -
  let ?s = "unat (vq_size q)"
  have "used_slot q p \<inter> used_slot q (p + 1 + of_nat i) = {}" if "i < n" for i
  proof -
    define a where "a = unat (p mod vq_size q)"
    define b where "b = unat ((p + of_nat (Suc i)) mod vq_size q)"
    have bounds: "a < ?s" "b < ?s" "?s < 65536"
      using slot_index [OF assms(1)] unat_bounds(2) by (simp_all add: a_def b_def)
    have "unat (p + of_nat (Suc i)) = (unat p + Suc i) mod 65536"
      using that assms(3) bounds(3) by (simp add: unat_word_ariths unat_of_nat mod_simps)
    then have "b = (unat p + Suc i) mod 65536 mod ?s" by (simp add: b_def unat_mod)
    then have b: "b = (unat p + Suc i) mod ?s" using assms(2) by (simp add: mod_mod_cancel)
    have "a \<noteq> b"
    proof
      assume "a = b"
      then have "(unat p + Suc i) mod ?s = unat p mod ?s" using b by (simp add: a_def unat_mod)
      then have "?s dvd (unat p + Suc i) - unat p" by (simp only: mod_eq_dvd_iff_nat le_add1)
      then have "?s dvd Suc i" by simp
      then show False using that assms(3) by (auto dest: dvd_imp_le)
    qed
    then have "4 + 8 * a + 8 \<le> 4 + 8 * b \<or> 4 + 8 * b + 8 \<le> 4 + 8 * a" by linarith
    then have "region (vq_used_gpa q + of_nat (4 + 8 * a)) 8 \<inter> region (vq_used_gpa q + of_nat (4 + 8 * b)) 8 = {}"
      using bounds by (intro region_offset_disjoint) (assumption | simp)+
    moreover have "p + 1 + of_nat i = p + of_nat (Suc i)" by (simp add: add.assoc)
    ultimately show ?thesis unfolding used_slot_def used_entry_offset a_def b_def by (simp only:)
  qed
  then show ?thesis by (auto simp: used_slots_def)
qed

subsection \<open>Descriptors away from the used ring\<close>

fun chain_clear :: "u64 set \<Rightarrow> memory \<Rightarrow> u64 \<Rightarrow> nat \<Rightarrow> u16 \<Rightarrow> bool" where
  "chain_clear R m table 0 cur \<longleftrightarrow> True"
| "chain_clear R m table (Suc n) cur \<longleftrightarrow> region (desc_gpa table cur) 16 \<inter> R = {}
     \<and> (let d = dec_desc (mem_bytes m (desc_gpa table cur) 16)
        in region (vd_addr d) (unat (vd_len d)) \<inter> R = {} \<and> (has_next d \<longrightarrow> chain_clear R m table n (vd_next d)))"

lemma chain_agree:
  assumes "agree_off R m m'" and "chain_clear R m table n cur"
  shows "chain m' table n cur = chain m table n cur \<and> chain_clear R m' table n cur
    \<and> chain_data m' (chain m table n cur) = chain_data m (chain m table n cur)"
  using assms(2)
proof (induction n arbitrary: cur)
  case 0
  then show ?case by simp
next
  case (Suc n)
  define d where "d = dec_desc (mem_bytes m (desc_gpa table cur) 16)"
  have clear: "region (desc_gpa table cur) 16 \<inter> R = {}" "region (vd_addr d) (unat (vd_len d)) \<inter> R = {}"
    "has_next d \<Longrightarrow> chain_clear R m table n (vd_next d)"
    using Suc.prems by (simp_all add: d_def Let_def)
  have d': "dec_desc (mem_bytes m' (desc_gpa table cur) 16) = d"
    unfolding d_def by (subst mem_bytes_agree [OF assms(1) clear(1)]) simp_all
  have data: "desc_data m' d = desc_data m d"
    unfolding desc_data_def using unat_bounds(3) [of "vd_len d"]
    by (intro mem_bytes_agree [OF assms(1) clear(2)]) simp
  show ?case
    using Suc.IH [OF clear(3)] clear data by (auto simp: Let_def d' d_def [symmetric])
qed

text \<open>An available entry that can be transmitted: nothing it is read from lies in the used ring, and its
  packet fits the packet buffer.\<close>

definition entry_ok :: "memory \<Rightarrow> vq_state \<Rightarrow> u16 \<Rightarrow> bool" where
  "entry_ok m q p \<longleftrightarrow> region (avail_entry_gpa q p) 2 \<inter> used_ring q = {}
     \<and> chain_clear (used_ring q) m (vq_desc_gpa q) VQ_MAX_CHAIN (head_of m q p) \<and> length (packet m q p) \<le> VQ_PKT_BUF"

lemma entry_agree:
  assumes "agree_off (used_ring q) m m'" and "entry_ok m q p"
  shows "entry_ok m' q p" and "head_of m' q p = head_of m q p" and "packet m' q p = packet m q p"
proof -
  show h: "head_of m' q p = head_of m q p"
    using assms unfolding head_of_def entry_ok_def by (subst mem_bytes_agree [OF assms(1)]) simp_all
  show p: "packet m' q p = packet m q p"
    using chain_agree [OF assms(1)] assms(2) by (auto simp: packet_def h entry_ok_def)
  show "entry_ok m' q p" using chain_agree [OF assms(1)] assms(2) by (auto simp: entry_ok_def h p)
qed

lemma vq_advance_simps [simp]:
  "vq_last_avail (vq_advance q) = vq_last_avail q + 1" "vq_last_used (vq_advance q) = vq_last_used q + 1"
  "vq_size (vq_advance q) = vq_size q" "vq_used_gpa (vq_advance q) = vq_used_gpa q"
  "vq_configured (vq_advance q) = vq_configured q" "vq_desc_gpa (vq_advance q) = vq_desc_gpa q"
  "vq_avail_gpa (vq_advance q) = vq_avail_gpa q"
  "avail_entry_gpa (vq_advance q) p = avail_entry_gpa q p" "used_entry_gpa (vq_advance q) p = used_entry_gpa q p"
  "head_of m (vq_advance q) p = head_of m q p" "packet m (vq_advance q) p = packet m q p"
  "used_ring (vq_advance q) = used_ring q" "used_slots (vq_advance q) p n = used_slots q p n"
  "entry_ok m (vq_advance q) p = entry_ok m q p"
  by (simp_all add: vq_advance_def avail_entry_gpa_def used_entry_gpa_def head_of_def packet_def used_ring_def
      used_slots_def used_slot_def entry_ok_def)

subsection \<open>The loop over the available ring\<close>

text \<open>A network that sends the bytes it is handed, and no others of the buffer; a packet of no bytes is not
  sent.\<close>

definition sends_prefix :: "(bytes \<Rightarrow> int \<Rightarrow> 'n \<Rightarrow> rc \<times> 'n) \<Rightarrow> (bytes \<Rightarrow> 'n \<Rightarrow> rc \<times> 'n) \<Rightarrow> bool" where
  "sends_prefix send tx \<longleftrightarrow> (\<forall>d k n. k \<le> length d \<longrightarrow> send d (int k) n = tx (take k d) n)"

definition send_packet :: "(bytes \<Rightarrow> 'n \<Rightarrow> rc \<times> 'n) \<Rightarrow> bytes \<Rightarrow> 'n \<Rightarrow> 'n" where
  "send_packet tx p n = (if p = [] then n else snd (tx p n))"

lemma length_used_entry [simp]: "length (used_entry h l) = 8"
  by (simp add: used_entry_def)

lemma guest_tx_one:
  assumes "vq_size q \<noteq> 0" and "length (packet (g_mem g) q (vq_last_avail q)) \<le> VQ_PKT_BUF" and "sends_prefix send tx"
  shows "tx_one (guest_env send recv) q g = Some (True,
    g\<lparr>g_net := send_packet tx (packet (g_mem g) q (vq_last_avail q)) (g_net g),
      g_mem := mem_write (used_entry_gpa q (vq_last_used q)) (used_entry (head_of (g_mem g) q (vq_last_avail q)) 0) (g_mem g)\<rparr>)"
proof -
  let ?m = "g_mem g" and ?la = "vq_last_avail q"
  let ?env = "guest_env send recv"
  have get: "dma_get ?env (avail_entry_gpa q ?la) 2 g = Some (Some (mem_bytes ?m (avail_entry_gpa q ?la) 2), g)"
    by (rule guest_get) simp_all
  have h0: "holds (replicate VQ_PKT_BUF 0, 0) []" by (simp add: holds_def)
  have h12: "unat (12 :: u32) \<le> 12" by simp
  have "length ([] :: bytes) + length (drop (unat (12 :: u32)) (chain_data ?m (chain ?m (vq_desc_gpa q) VQ_MAX_CHAIN (head_of ?m q ?la))))
      \<le> VQ_PKT_BUF"
    using assms(2) by (simp add: packet_def)
  from guest_tx_chain [OF h0 h12 this, of send recv]
  obtain w where w: "tx_chain ?env (vq_desc_gpa q) VQ_MAX_CHAIN (head_of ?m q ?la) 12 (replicate VQ_PKT_BUF 0, 0) g
      = Some (Some w, g)" and h: "holds w (packet ?m q ?la)"
    unfolding packet_def by fastforce
  obtain pkt where p: "w = (pkt, int (length (packet ?m q ?la)))" "take (length (packet ?m q ?la)) pkt = packet ?m q ?la"
      "length (packet ?m q ?la) \<le> length pkt"
    using h by (cases w) (auto simp: holds_def)
  have send: "(if int (length (packet ?m q ?la)) > 0 then snd (eth_send ?env pkt (int (length (packet ?m q ?la))) g) else g)
      = g\<lparr>g_net := send_packet tx (packet ?m q ?la) (g_net g)\<rparr>"
    using p(2,3) assms(3) by (simp add: sends_prefix_def guest_env_def send_packet_def split: prod.splits)
  have nonempty: "used_entry h l \<noteq> []" for h l using length_used_entry [of h l] by (metis list.size(3) zero_neq_numeral)
  show ?thesis
    using assms(1) get w p(1) send nonempty
    by (simp add: tx_one_def Let_def head_of_def [symmetric]) (simp add: guest_env_def)
qed

text \<open>The packets of \<open>n\<close> entries from a position on.\<close>

definition packets :: "memory \<Rightarrow> vq_state \<Rightarrow> u16 \<Rightarrow> nat \<Rightarrow> bytes list" where
  "packets m q p n = map (\<lambda>i. packet m q (p + of_nat i)) [0..<n]"

lemma packets_simps:
  "packets m q p 0 = []" "packets m q p (Suc n) = packet m q p # packets m q (p + 1) n"
  by (simp_all add: packets_def upt_rec [of 0] map_Suc_upt [symmetric] add.assoc del: upt_Suc)

text \<open>The used entries of \<open>n\<close> positions name the heads of as many available entries.\<close>

definition entries_published :: "memory \<Rightarrow> memory \<Rightarrow> vq_state \<Rightarrow> u16 \<Rightarrow> u16 \<Rightarrow> nat \<Rightarrow> bool" where
  "entries_published m m' q lu la n \<longleftrightarrow>
     (\<forall>i<n. mem_bytes m' (used_entry_gpa q (lu + of_nat i)) 8 = used_entry (head_of m q (la + of_nat i)) 0)"

lemma packets_advance [simp]:
  "packets m (vq_advance q) p n = packets m q p n"
  "entries_published m m' (vq_advance q) lu la n = entries_published m m' q lu la n"
  by (simp_all add: packets_def entries_published_def)

lemma all_less_Suc_split: "(\<forall>i<Suc n. P i) \<longleftrightarrow> P 0 \<and> (\<forall>i<n. P (Suc i))"
  by (auto simp: less_Suc_eq_0_disj)

lemma guest_tx_loop:
  assumes "n = unat (avail_idx - vq_last_avail (vq_tx dev))" and "vq_size (vq_tx dev) \<noteq> 0"
    and "\<forall>i<n. entry_ok (g_mem g) (vq_tx dev) (vq_last_avail (vq_tx dev) + of_nat i)"
    and "sends_prefix send tx"
  shows "\<exists>g' dev'. tx_loop (guest_env send recv) avail_idx k dev g = Some (Some (k + int n), dev', g')
    \<and> g_net g' = fold (send_packet tx) (packets (g_mem g) (vq_tx dev) (vq_last_avail (vq_tx dev)) n) (g_net g)
    \<and> dev' = dev\<lparr>vq_tx := (vq_tx dev)\<lparr>vq_last_avail := avail_idx, vq_last_used := vq_last_used (vq_tx dev) + of_nat n\<rparr>,
                  tx_pkt_count := tx_pkt_count dev + int n\<rparr>
    \<and> agree_off (used_slots (vq_tx dev) (vq_last_used (vq_tx dev)) n) (g_mem g) (g_mem g')
    \<and> (n \<le> unat (vq_size (vq_tx dev)) \<and> unat (vq_size (vq_tx dev)) dvd 65536 \<longrightarrow>
        entries_published (g_mem g) (g_mem g') (vq_tx dev) (vq_last_used (vq_tx dev)) (vq_last_avail (vq_tx dev)) n)"
  using assms(1-3)
proof (induction n arbitrary: dev g k)
  case 0
  then have "avail_idx - vq_last_avail (vq_tx dev) = 0" by (simp add: unat_eq_0)
  then have "vq_last_avail (vq_tx dev) = avail_idx" by simp
  then show ?case by (auto simp: tx_loop.simps packets_simps entries_published_def)
next
  case (Suc n)
  let ?q = "vq_tx dev" and ?m = "g_mem g" and ?la = "vq_last_avail (vq_tx dev)" and ?lu = "vq_last_used (vq_tx dev)"
  have neq: "?la \<noteq> avail_idx" using Suc.prems(1) by auto
  have gap: "n = unat (avail_idx - (?la + 1))" using unat_gap_smaller [OF neq] Suc.prems(1) by simp
  have ok0: "entry_ok ?m ?q ?la" and oks: "\<forall>i<n. entry_ok ?m ?q (?la + 1 + of_nat i)"
    using Suc.prems(3) by (simp_all add: all_less_Suc_split add.assoc)
  define g1 where "g1 = g\<lparr>g_net := send_packet tx (packet ?m ?q ?la) (g_net g),
      g_mem := mem_write (used_entry_gpa ?q ?lu) (used_entry (head_of ?m ?q ?la) 0) ?m\<rparr>"
  have one: "tx_one (guest_env send recv) ?q g = Some (True, g1)"
    unfolding g1_def using ok0 Suc.prems(2) by (intro guest_tx_one assms(4)) (simp_all add: entry_ok_def)
  have ag1: "agree_off (used_slot ?q ?lu) ?m (g_mem g1)"
    by (simp add: g1_def agree_off_write used_slot_def)
  have ring1: "agree_off (used_ring ?q) ?m (g_mem g1)"
    using agree_off_mono [OF ag1 used_slot_in_ring [OF Suc.prems(2)]] .
  have q1: "vq_tx (tx_done dev) = vq_advance ?q" by (simp add: tx_done_def)
  have oks1: "\<forall>i<n. entry_ok (g_mem g1) ?q (?la + 1 + of_nat i)"
    using oks entry_agree(1) [OF ring1] by blast
  have pk: "packets (g_mem g1) ?q (?la + 1) n = packets ?m ?q (?la + 1) n"
    using oks entry_agree(3) [OF ring1] by (simp add: packets_def)
  obtain g' dev' where IH: "tx_loop (guest_env send recv) avail_idx (k + 1) (tx_done dev) g1 = Some (Some (k + 1 + int n), dev', g')"
      "g_net g' = fold (send_packet tx) (packets ?m ?q (?la + 1) n) (g_net g1)"
      "dev' = (tx_done dev)\<lparr>vq_tx := (vq_advance ?q)\<lparr>vq_last_avail := avail_idx, vq_last_used := ?lu + 1 + of_nat n\<rparr>,
                  tx_pkt_count := tx_pkt_count (tx_done dev) + int n\<rparr>"
      "agree_off (used_slots ?q (?lu + 1) n) (g_mem g1) (g_mem g')"
      "n \<le> unat (vq_size ?q) \<and> unat (vq_size ?q) dvd 65536 \<longrightarrow> entries_published (g_mem g1) (g_mem g') ?q (?lu + 1) (?la + 1) n"
    using Suc.IH [of "tx_done dev" g1 "k + 1", unfolded q1 vq_advance_simps packets_advance, OF gap Suc.prems(2) oks1]
    unfolding pk by blast
  have run: "tx_loop (guest_env send recv) avail_idx k dev g = Some (Some (k + int (Suc n)), dev', g')"
    using neq one IH(1) by (subst tx_loop.simps) (simp add: algebra_simps)
  have agree: "agree_off (used_slots ?q ?lu (Suc n)) ?m (g_mem g')"
    unfolding used_slots_Suc by (rule agree_off_trans [OF ag1 IH(4)])
  have pub: "entries_published ?m (g_mem g') ?q ?lu ?la (Suc n)"
    if n: "Suc n \<le> unat (vq_size ?q)" "unat (vq_size ?q) dvd 65536"
  proof -
    have "mem_bytes (g_mem g') (used_entry_gpa ?q ?lu) 8 = mem_bytes (g_mem g1) (used_entry_gpa ?q ?lu) 8"
      using used_slots_disjoint [OF Suc.prems(2) n(2)] n(1) by (intro mem_bytes_agree [OF IH(4)]) (simp_all add: used_slot_def)
    also have "\<dots> = used_entry (head_of ?m ?q ?la) 0" by (simp add: g1_def mem_bytes_write_same)
    finally have first: "mem_bytes (g_mem g') (used_entry_gpa ?q ?lu) 8 = used_entry (head_of ?m ?q ?la) 0" .
    have "\<forall>i<n. mem_bytes (g_mem g') (used_entry_gpa ?q (?lu + 1 + of_nat i)) 8 = used_entry (head_of (g_mem g1) ?q (?la + 1 + of_nat i)) 0"
      using IH(5) n by (simp add: entries_published_def)
    then show ?thesis
      using first oks entry_agree(2) [OF ring1] by (simp add: entries_published_def all_less_Suc_split add.assoc)
  qed
  have net: "g_net g' = fold (send_packet tx) (packets ?m ?q ?la (Suc n)) (g_net g)"
    using IH(2) by (simp add: packets_simps g1_def)
  have dev: "dev' = dev\<lparr>vq_tx := ?q\<lparr>vq_last_avail := avail_idx, vq_last_used := ?lu + of_nat (Suc n)\<rparr>,
                  tx_pkt_count := tx_pkt_count dev + int (Suc n)\<rparr>"
    unfolding IH(3) by (simp add: tx_done_def vq_advance_def add.assoc)
  show ?case using run net dev agree pub by blast
qed

definition avail_idx_of :: "memory \<Rightarrow> vq_state \<Rightarrow> u16" where
  "avail_idx_of m q = le_word (field 2 2 (mem_bytes m (vq_avail_gpa q) 4))"

text \<open>How many entries the guest has made available since the last doorbell.\<close>

definition pending :: "memory \<Rightarrow> vq_state \<Rightarrow> nat" where
  "pending m q = unat (avail_idx_of m q - vq_last_avail q)"

definition used_idx :: "memory \<Rightarrow> vq_state \<Rightarrow> u16" where
  "used_idx m q = le_word (mem_bytes m (vq_used_gpa q + 2) 2)"

lemma used_idx_clear: "region (vq_used_gpa q + 2) 2 \<inter> used_slots q p n = {}"
proof -
  have "region (vq_used_gpa q + of_nat 2) 2 \<inter> used_slot q p' = {}" for p'
    unfolding used_slot_def used_entry_offset
    using unat_bounds(2) [of "p' mod vq_size q"] by (intro region_offset_disjoint) simp_all
  then show ?thesis by (auto simp: used_slots_def)
qed

lemma used_slots_idx_clear: "i < n \<Longrightarrow> region (used_entry_gpa q (p + of_nat i)) 8 \<inter> region (vq_used_gpa q + 2) 2 = {}"
  using used_idx_clear [of q p n] by (fastforce simp: used_slots_def used_slot_def)

lemma used_idx_in_ring: "region (vq_used_gpa q + 2) 2 \<subseteq> used_ring q"
  using region_offset_subset [of 2 2 "4 + 8 * unat (vq_size q)" "vq_used_gpa q"] unat_bounds(2) [of "vq_size q"]
  by (simp add: used_ring_def)

lemma guest_process_tx:
  assumes "vq_configured (vq_tx dev)" and "vq_size (vq_tx dev) \<noteq> 0" and "sends_prefix send tx"
    and "\<forall>i<pending (g_mem g) (vq_tx dev). entry_ok (g_mem g) (vq_tx dev) (vq_last_avail (vq_tx dev) + of_nat i)"
    and "pending (g_mem g) (vq_tx dev) \<le> unat (vq_size (vq_tx dev))" and "unat (vq_size (vq_tx dev)) dvd 65536"
  defines "q \<equiv> vq_tx dev" and "n \<equiv> pending (g_mem g) (vq_tx dev)"
  shows "\<exists>g' q'. vcs_vq_process_tx (guest_env send recv) dev g
      = Some (int n, dev\<lparr>vq_tx := q', tx_pkt_count := tx_pkt_count dev + int n\<rparr>, g')
    \<and> g_net g' = fold (send_packet tx) (packets (g_mem g) q (vq_last_avail q) n) (g_net g)
    \<and> q' = q\<lparr>vq_last_avail := avail_idx_of (g_mem g) q, vq_last_used := vq_last_used q + of_nat n\<rparr>
    \<and> (n > 0 \<longrightarrow> used_idx (g_mem g') q = vq_last_used q + of_nat n)
    \<and> entries_published (g_mem g) (g_mem g') q (vq_last_used q) (vq_last_avail q) n
    \<and> agree_off (used_ring q) (g_mem g) (g_mem g')"
proof -
  let ?env = "guest_env send recv"
  have get: "dma_get ?env (vq_avail_gpa q) 4 g = Some (Some (mem_bytes (g_mem g) (vq_avail_gpa q) 4), g)"
    by (rule guest_get) simp_all
  have n: "n = unat (avail_idx_of (g_mem g) q - vq_last_avail q)" by (simp add: n_def q_def pending_def)
  have oks: "\<forall>i<n. entry_ok (g_mem g) (vq_tx dev) (vq_last_avail (vq_tx dev) + of_nat i)"
    using assms(4) by (simp add: n_def)
  have le: "n \<le> unat (vq_size (vq_tx dev)) \<and> unat (vq_size (vq_tx dev)) dvd 65536" using assms(5,6) by (simp add: n_def)
  obtain g1 dev1 where loop: "tx_loop ?env (avail_idx_of (g_mem g) q) 0 dev g = Some (Some (int n), dev1, g1)"
      "g_net g1 = fold (send_packet tx) (packets (g_mem g) q (vq_last_avail q) n) (g_net g)"
      "dev1 = dev\<lparr>vq_tx := q\<lparr>vq_last_avail := avail_idx_of (g_mem g) q, vq_last_used := vq_last_used q + of_nat n\<rparr>,
                  tx_pkt_count := tx_pkt_count dev + int n\<rparr>"
      "agree_off (used_slots q (vq_last_used q) n) (g_mem g) (g_mem g1)"
      "entries_published (g_mem g) (g_mem g1) q (vq_last_used q) (vq_last_avail q) n"
    using guest_tx_loop [OF n [unfolded q_def] assms(2) oks assms(3), where k = 0 and recv = recv] le
    unfolding add_0 q_def by blast
  have ring: "agree_off (used_ring q) (g_mem g) (g_mem g1)"
    using agree_off_mono [OF loop(4)] used_slots_in_ring assms(2) by (simp add: q_def)
  show ?thesis
  proof (cases "n = 0")
    case True
    then show ?thesis using loop ring get assms(1)
      by (simp add: vcs_vq_process_tx_def q_def [symmetric] avail_idx_of_def [symmetric])
  next
    case False
    define m' where "m' = mem_write (vq_used_gpa q + 2) (le_bytes 2 (vq_last_used q + of_nat n)) (g_mem g1)"
    have idx: "used_idx m' q = vq_last_used q + of_nat n"
      by (simp add: used_idx_def m'_def mem_bytes_write_same)
    have step: "agree_off (region (vq_used_gpa q + 2) 2) (g_mem g1) m'"
      unfolding m'_def by (rule agree_off_write) simp
    have pub: "entries_published (g_mem g) m' q (vq_last_used q) (vq_last_avail q) n"
      using loop(5) used_slots_idx_clear by (auto simp: entries_published_def mem_bytes_agree [OF step])
    have agree: "agree_off (used_ring q) (g_mem g) m'"
      using agree_off_mono [OF agree_off_trans [OF ring step]] used_idx_in_ring by blast
    have nonempty: "le_bytes 2 w \<noteq> []" for w :: u16 using length_le_bytes [of 2 w] by (metis list.size(3) zero_neq_numeral)
    have "vcs_vq_process_tx ?env dev g = Some (int n, dev1, g1\<lparr>g_mem := m'\<rparr>)"
      using False get loop(1,3) assms(1) nonempty
      by (simp add: vcs_vq_process_tx_def q_def [symmetric] avail_idx_of_def [symmetric] guest_put m'_def)
    then show ?thesis using loop(2,3) idx pub agree by simp
  qed
qed

subsection \<open>Properties\<close>

text \<open>C9: On a doorbell every packet the guest made available is handed to the network, in order and byte for
  byte (the chain's data after the virtio header), the queue positions advance by as many entries, the used
  index and the used entries tell the guest so, and nothing outside the used ring is written.\<close>

theorem vq_tx_forwards:
  assumes "vq_configured (vq_tx dev)" and "vq_size (vq_tx dev) \<noteq> 0" and "sends_prefix send tx"
    and "\<forall>i<pending (g_mem g) (vq_tx dev). entry_ok (g_mem g) (vq_tx dev) (vq_last_avail (vq_tx dev) + of_nat i)"
    and "pending (g_mem g) (vq_tx dev) \<le> unat (vq_size (vq_tx dev))" and "unat (vq_size (vq_tx dev)) dvd 65536"
  defines "q \<equiv> vq_tx dev" and "n \<equiv> pending (g_mem g) (vq_tx dev)"
  shows "\<exists>g' q'. vcs_vq_process_tx (guest_env send recv) dev g
      = Some (int n, dev\<lparr>vq_tx := q', tx_pkt_count := tx_pkt_count dev + int n\<rparr>, g')
    \<and> g_net g' = fold (send_packet tx) (packets (g_mem g) q (vq_last_avail q) n) (g_net g)
    \<and> q' = q\<lparr>vq_last_avail := avail_idx_of (g_mem g) q, vq_last_used := vq_last_used q + of_nat n\<rparr>
    \<and> (n > 0 \<longrightarrow> used_idx (g_mem g') q = vq_last_used q + of_nat n)
    \<and> entries_published (g_mem g) (g_mem g') q (vq_last_used q) (vq_last_avail q) n
    \<and> agree_off (used_ring q) (g_mem g) (g_mem g')"
  unfolding q_def n_def by (rule guest_process_tx [OF assms(1-6)])

text \<open>A guest with one packet of two bytes behind its header: descriptors at 0x1000, the available ring at
  0x2000, the used ring at 0x3000, the buffer at 0x5000.\<close>

definition guest_example :: memory where
  "guest_example x = (if x = 0x2002 then 1 else if x = 0x1001 then 0x50 else if x = 0x1008 then 14
     else if x = 0x500C then 0xAA else if x = 0x500D then 0xBB else 0)"

definition queue_example :: vq_state where
  "queue_example = configure_queue 0x1000 0x2000 0x3000 4 vq_zero"

definition list_net :: "(bytes \<Rightarrow> bytes list \<Rightarrow> rc \<times> bytes list)" where
  "list_net p n = (0, n @ [p])"

lemma queue_example_simps [simp]:
  "vq_desc_gpa queue_example = 0x1000" "vq_avail_gpa queue_example = 0x2000" "vq_used_gpa queue_example = 0x3000"
  "vq_size queue_example = 4" "vq_last_avail queue_example = 0" "vq_last_used queue_example = 0" "vq_configured queue_example"
  by (simp_all add: queue_example_def configure_queue_def vq_zero_def)

lemma guest_example_bytes:
  "mem_bytes guest_example 0x2000 4 = [0, 0, 1, 0]" "mem_bytes guest_example 0x2004 2 = [0, 0]"
  "mem_bytes guest_example 0x1000 16 = [0, 0x50, 0, 0, 0, 0, 0, 0, 14, 0, 0, 0, 0, 0, 0, 0]"
  "mem_bytes guest_example 0x5000 14 = [0, 0, 0, 0, 0, 0, 0, 0, 0, 0, 0, 0, 0xAA, 0xBB]"
  by (simp_all add: mem_bytes_def guest_example_def upt_rec)

lemma guest_example_queue:
  "avail_idx_of guest_example queue_example = 1" "head_of guest_example queue_example 0 = 0"
  "packet guest_example queue_example 0 = [0xAA, 0xBB]" "entry_ok guest_example queue_example 0"
proof -
  show "avail_idx_of guest_example queue_example = 1"
    by (simp add: avail_idx_of_def guest_example_bytes field_def le_word_def)
  have entry: "avail_entry_gpa queue_example 0 = 0x2004" by (simp add: avail_entry_gpa_def)
  show head: "head_of guest_example queue_example 0 = 0"
    by (simp add: head_of_def entry guest_example_bytes le_word_def)
  have desc: "dec_desc (mem_bytes guest_example 0x1000 16) = \<lparr>vd_addr = 0x5000, vd_len = 14, vd_flags = 0, vd_next = 0\<rparr>"
    by (simp add: guest_example_bytes dec_desc_def field_def le_word_def)
  have max: "VQ_MAX_CHAIN = Suc 15" by (simp add: code_consts)
  have chain: "chain guest_example 0x1000 VQ_MAX_CHAIN 0 = [\<lparr>vd_addr = 0x5000, vd_len = 14, vd_flags = 0, vd_next = 0\<rparr>]"
    unfolding max chain.simps(2) by (simp add: Let_def desc_gpa_def has_next_def desc)
  show packet: "packet guest_example queue_example 0 = [0xAA, 0xBB]"
    by (simp add: packet_def head chain desc_data_def guest_example_bytes)
  show "entry_ok guest_example queue_example 0"
    unfolding entry_ok_def packet entry head max chain_clear.simps(2)
    by (simp add: used_ring_def VQ_PKT_BUF_def Let_def desc_gpa_def has_next_def desc region_apart)
qed

theorem vq_tx_forwards_witness:
  "\<exists>g' q'. vcs_vq_process_tx (guest_env (\<lambda>d len. list_net (take (nat len) d)) (\<lambda>_ n. None)) (vq_start\<lparr>vq_tx := queue_example\<rparr>)
      \<lparr>g_mem = guest_example, g_net = []\<rparr> = Some (1, vq_start\<lparr>vq_tx := q', tx_pkt_count := 1\<rparr>, g')
    \<and> g_net g' = [[0xAA, 0xBB]] \<and> used_idx (g_mem g') queue_example = 1"
proof -
  have n: "pending guest_example queue_example = 1" by (simp add: pending_def guest_example_queue)
  have "sends_prefix (\<lambda>d len. list_net (take (nat len) d)) list_net" by (simp add: sends_prefix_def)
  from vq_tx_forwards [of "vq_start\<lparr>vq_tx := queue_example\<rparr>", OF _ _ this, of "\<lparr>g_mem = guest_example, g_net = []\<rparr>" "\<lambda>_ n. None"]
  show ?thesis
    by (auto simp: n guest_example_queue packets_simps send_packet_def list_net_def vq_start_def)
qed

subsection \<open>Whatever the guest posts\<close>

text \<open>The only demand on the guest: no descriptor of the table has a length of \<open>2 ^ 31 - 9216\<close> or more, and
  the table does not overlap the used ring.  Chains may be cyclic, longer than the limit or larger than the
  packet buffer.\<close>

definition small_descs :: "memory \<Rightarrow> vq_state \<Rightarrow> bool" where
  "small_descs m q \<longleftrightarrow> (\<forall>i. region (desc_gpa (vq_desc_gpa q) i) 16 \<inter> used_ring q = {}
     \<and> unat (vd_len (dec_desc (mem_bytes m (desc_gpa (vq_desc_gpa q) i) 16))) < 2 ^ 31 - VQ_PKT_BUF)"

definition in_buffer :: "bytes \<times> int \<Rightarrow> bool" where
  "in_buffer w \<longleftrightarrow> length (fst w) = VQ_PKT_BUF \<and> 0 \<le> snd w \<and> snd w \<le> int VQ_PKT_BUF"

lemma small_descs_agree: "agree_off (used_ring q) m m' \<Longrightarrow> small_descs m q \<Longrightarrow> small_descs m' q"
  by (simp add: small_descs_def mem_bytes_agree)

lemma tx_read_total:
  assumes "in_buffer w" and "0 < len" and "unat len < 2 ^ 31 - VQ_PKT_BUF"
  shows "\<exists>r. tx_read (guest_env send recv) a len w g = Some (r, g) \<and> (\<forall>w'. r = Some w' \<longrightarrow> in_buffer w')"
proof -
  define pkt k where "pkt = fst w" and "k = nat (snd w)"
  then have w: "w = (pkt, int k)" "length pkt = 9216" "k \<le> 9216"
    using assms(1) by (auto simp: in_buffer_def code_consts prod_eq_iff)
  obtain n where n: "unat len = n" "0 < n" "n < 2 ^ 31 - 9216"
    using assms(2,3) by (simp add: word_less_nat_alt code_consts)
  then have sl: "sint len = int n" by (intro sint_small) simp_all
  obtain room where room: "k + room = 9216" using w(3) le_Suc_ex by metis
  have "9216 - int k = int room" using room by linarith
  then have r1: "(word_of_int (9216 - int k) :: u32) = of_nat room" by simp
  have r2: "unat (of_nat room :: u32) = room" by (rule unat_of_nat_less) (use room in simp)
  note r = r1 r2 room
  have sr: "sint (of_nat room :: u32) = int room" by (rule sint_small [OF r2]) (use room in simp)
  show ?thesis
  proof (cases "k + n \<le> 9216")
    case True
    then show ?thesis using w n assms(2)
      by (auto simp: tx_read_def Let_def sl guest_env_def code_consts in_buffer_def blit_def)
  next
    case False
    then show ?thesis using w n r
      by (auto simp: tx_read_def Let_def sl sr guest_env_def code_consts in_buffer_def blit_def)
  qed
qed

lemma tx_chain_total:
  assumes "small_descs (g_mem g) q" and "in_buffer w"
  shows "\<exists>r. tx_chain (guest_env send recv) (vq_desc_gpa q) n cur h w g = Some (r, g) \<and> (\<forall>w'. r = Some w' \<longrightarrow> in_buffer w')"
  using assms(2)
proof (induction n arbitrary: cur h w)
  case 0
  then show ?case by (cases w) simp
next
  case (Suc n)
  let ?env = "guest_env send recv"
  define d where "d = dec_desc (mem_bytes (g_mem g) (desc_gpa (vq_desc_gpa q) cur) 16)"
  have get: "dma_get ?env (desc_gpa (vq_desc_gpa q) cur) 16 g = Some (Some (mem_bytes (g_mem g) (desc_gpa (vq_desc_gpa q) cur) 16), g)"
    by (rule guest_get) simp_all
  obtain h1 a len where sk: "skip_header h d = (h1, a, len)" by (cases "skip_header h d")
  have "unat len \<le> unat (vd_len d)"
    using sk by (auto simp: skip_header_def word_le_nat_alt unat_sub split: if_splits)
  moreover have "unat (vd_len d) < 2 ^ 31 - VQ_PKT_BUF" using assms(1) by (simp add: small_descs_def d_def)
  ultimately have len: "unat len < 2 ^ 31 - VQ_PKT_BUF" by linarith
  obtain r where r: "(if len > 0 then tx_read ?env a len w g else Some (Some w, g)) = Some (r, g)"
      "\<forall>w'. r = Some w' \<longrightarrow> in_buffer w'"
    using tx_read_total [OF Suc.prems _ len, of send recv a g] Suc.prems by (cases "len > 0") auto
  show ?case
    using Suc.IH r get sk by (cases r) (auto simp: Let_def d_def [symmetric])
qed

lemma tx_one_total:
  assumes "small_descs (g_mem g) q" and "vq_size q \<noteq> 0"
  shows "\<exists>b g'. tx_one (guest_env send recv) q g = Some (b, g') \<and> agree_off (used_ring q) (g_mem g) (g_mem g')"
proof -
  let ?env = "guest_env send recv" and ?a = "avail_entry_gpa q (vq_last_avail q)"
  have get: "dma_get ?env ?a 2 g = Some (Some (mem_bytes (g_mem g) ?a 2), g)" by (rule guest_get) simp_all
  have "in_buffer (replicate VQ_PKT_BUF 0, 0)" by (simp add: in_buffer_def)
  from tx_chain_total [OF assms(1) this, of send recv VQ_MAX_CHAIN "le_word (mem_bytes (g_mem g) ?a 2)" 12] obtain r
    where r: "tx_chain ?env (vq_desc_gpa q) VQ_MAX_CHAIN (le_word (mem_bytes (g_mem g) ?a 2)) 12 (replicate VQ_PKT_BUF 0, 0) g = Some (r, g)"
    by blast
  have nonempty: "used_entry h l \<noteq> []" for h l using length_used_entry [of h l] by (metis list.size(3) zero_neq_numeral)
  have mem: "g_mem (snd (eth_send ?env d k g)) = g_mem g" for d k by (simp add: guest_env_def split: prod.splits)
  have ag: "agree_off (used_ring q) m (mem_write (used_entry_gpa q p) (used_entry h l) m)" for m p h l
    using used_slot_in_ring [OF assms(2), of p] by (intro agree_off_write) (simp add: used_slot_def)
  show ?thesis
    using assms(2) get r by (cases r) (auto simp: tx_one_def Let_def guest_put nonempty mem ag)
qed

lemma tx_loop_total:
  assumes "small_descs (g_mem g) (vq_tx dev)" and "vq_size (vq_tx dev) \<noteq> 0"
  shows "\<exists>r dev' g'. tx_loop (guest_env send recv) avail_idx k dev g = Some (r, dev', g')
    \<and> (r = None \<or> r = Some (k + int (unat (avail_idx - vq_last_avail (vq_tx dev)))))
    \<and> vq_used_gpa (vq_tx dev') = vq_used_gpa (vq_tx dev)
    \<and> agree_off (used_ring (vq_tx dev)) (g_mem g) (g_mem g')"
  using assms
proof (induction "unat (avail_idx - vq_last_avail (vq_tx dev))" arbitrary: dev g k)
  case 0
  then have "avail_idx - vq_last_avail (vq_tx dev) = 0" by (metis unat_eq_0)
  then have "vq_last_avail (vq_tx dev) = avail_idx" by simp
  then show ?case by (auto simp: tx_loop.simps)
next
  case (Suc n)
  let ?env = "guest_env send recv"
  have neq: "vq_last_avail (vq_tx dev) \<noteq> avail_idx" using Suc.hyps(2) by auto
  obtain b g1 where one: "tx_one ?env (vq_tx dev) g = Some (b, g1)" "agree_off (used_ring (vq_tx dev)) (g_mem g) (g_mem g1)"
    using tx_one_total [OF Suc.prems] by blast
  show ?case
  proof (cases b)
    case True
    have q: "vq_tx (tx_done dev) = vq_advance (vq_tx dev)" by (simp add: tx_done_def)
    have n: "n = unat (avail_idx - vq_last_avail (vq_tx (tx_done dev)))"
      using unat_gap_smaller [OF neq] Suc.hyps(2) by (simp add: q)
    have small: "small_descs (g_mem g1) (vq_tx (tx_done dev))" "vq_size (vq_tx (tx_done dev)) \<noteq> 0"
      using small_descs_agree [OF one(2) Suc.prems(1)] Suc.prems(2) by (simp_all add: q small_descs_def)
    from Suc.hyps(1) [OF n small, of "k + 1"] obtain r dev' g'
      where run: "tx_loop ?env avail_idx (k + 1) (tx_done dev) g1 = Some (r, dev', g')"
        "r = None \<or> r = Some (k + 1 + int n)" "vq_used_gpa (vq_tx dev') = vq_used_gpa (vq_tx dev)"
        "agree_off (used_ring (vq_tx dev)) (g_mem g1) (g_mem g')"
      unfolding n [symmetric] by (auto simp: q)
    have "tx_loop ?env avail_idx k dev g = Some (r, dev', g')"
      using neq one(1) True run(1) by (subst tx_loop.simps) simp
    moreover have "agree_off (used_ring (vq_tx dev)) (g_mem g) (g_mem g')"
      using agree_off_trans [OF one(2) run(4)] by simp
    ultimately show ?thesis using run(2,3) unfolding Suc.hyps(2) [symmetric] by (auto simp: algebra_simps)
  next
    case False
    then have "tx_loop ?env avail_idx k dev g = Some (None, dev, g1)" using neq one(1) by (subst tx_loop.simps) simp
    then show ?thesis using one(2) by blast
  qed
qed


text \<open>A descriptor that names itself as its successor, with data longer than the buffer.\<close>

definition cyclic_example :: memory where
  "cyclic_example x = (if x = 0x2002 then 1 else if x = 0x1001 then 0x50 else if x = 0x1009 then 0x30
     else if x = 0x100C then 1 else 0)"

definition far_queue :: vq_state where
  "far_queue = configure_queue 0x1000 0x2000 0x200000 4 vq_zero"

lemma cyclic_desc:
  fixes i :: u16
  shows "unat (vd_len (dec_desc (mem_bytes cyclic_example (desc_gpa 0x1000 i) 16))) < 2 ^ 31 - VQ_PKT_BUF"
proof -
  let ?bs = "field 8 4 (mem_bytes cyclic_example (desc_gpa 0x1000 i) 16)"
  have "?bs ! 3 = cyclic_example (desc_gpa 0x1000 i + 11)" "length ?bs = 4"
    by (simp_all add: field_def mem_bytes_def)
  moreover have "unat (cyclic_example x) \<le> 0x50" for x by (simp add: cyclic_example_def)
  ultimately obtain a b c d where bs: "?bs = [a, b, c, d]" and d: "unat d \<le> 0x50"
    by (auto simp: numeral_eq_Suc length_Suc_conv)
  have "le_nat ?bs < 2 ^ 31 - 9216" unfolding bs using unat_bounds(1) [of a] unat_bounds(1) [of b] unat_bounds(1) [of c] d by simp
  then show ?thesis by (simp add: dec_desc_def le_word_def code_consts unat_of_nat_less)
qed


text \<open>C36: The length check of the transmit loop is made in \<open>int\<close>: a first descriptor of \<open>2 ^ 31 + 12\<close> bytes or
  more passes it, and the read overruns the packet buffer.\<close>

theorem vq_tx_len_overflow:
  assumes "vq_configured (vq_tx dev)" and "vq_size (vq_tx dev) \<noteq> 0" and "0 < pending (g_mem g) (vq_tx dev)"
    and "2 ^ 31 + 12 \<le> unat (vd_len (hd (chain (g_mem g) (vq_desc_gpa (vq_tx dev)) 1
        (head_of (g_mem g) (vq_tx dev) (vq_last_avail (vq_tx dev))))))"
  shows "vcs_vq_process_tx (guest_env send recv) dev g = None"
proof -
  let ?env = "guest_env send recv" and ?q = "vq_tx dev" and ?m = "g_mem g"
  let ?h = "head_of ?m ?q (vq_last_avail ?q)"
  define d where "d = dec_desc (mem_bytes ?m (desc_gpa (vq_desc_gpa ?q) ?h) 16)"
  have d: "2 ^ 31 + 12 \<le> unat (vd_len d)" using assms(4) by (simp add: d_def Let_def)
  have get: "dma_get ?env a n g = Some (Some (mem_bytes ?m a n), g)" if "0 < n" "n < 2 ^ 32" for a n
    using that by (rule guest_get)
  define len where "len = vd_len d - 12"
  have len: "2 ^ 31 \<le> unat len" using d by (simp add: len_def unat_sub word_le_nat_alt)
  have "\<not> vd_len d \<le> 12" using d by (simp add: word_le_nat_alt)
  then have sk: "skip_header 12 d = (0, vd_addr d + 12, len)" by (simp add: skip_header_def len_def)
  have pos: "0 < len" using len by (simp add: word_less_nat_alt)
  have neg: "sint len < 0" using len by (rule sint_large)
  have "tx_read ?env (vd_addr d + 12) len (replicate VQ_PKT_BUF 0, 0) g = None"
    using neg len pos by (auto simp: tx_read_def Let_def guest_env_def code_consts)
  then have "tx_chain ?env (vq_desc_gpa ?q) (Suc 15) ?h 12 (replicate VQ_PKT_BUF 0, 0) g = None"
    unfolding tx_chain.simps(2) using pos by (simp add: get Let_def d_def [symmetric] sk)
  moreover have "VQ_MAX_CHAIN = Suc 15" by (simp add: code_consts)
  ultimately have "tx_one ?env ?q g = None"
    using assms(2) by (simp add: tx_one_def get Let_def head_of_def [symmetric] del: tx_chain.simps)
  moreover have "vq_last_avail ?q \<noteq> avail_idx_of ?m ?q" using assms(3) by (auto simp: pending_def)
  ultimately have "tx_loop ?env (avail_idx_of ?m ?q) 0 dev g = None" by (subst tx_loop.simps) simp
  then show ?thesis using assms(1) get by (simp add: vcs_vq_process_tx_def avail_idx_of_def [symmetric])
qed

text \<open>A descriptor of \<open>2 ^ 31 + 12\<close> bytes.\<close>

definition overflow_example :: memory where
  "overflow_example x = (if x = 0x2002 then 1 else if x = 0x1001 then 0x50 else if x = 0x1008 then 12
     else if x = 0x100B then 0x80 else 0)"

theorem vq_tx_len_overflow_witness:
  "vcs_vq_process_tx (guest_env (\<lambda>d len. list_net (take (nat len) d)) (\<lambda>_ n. None)) (vq_start\<lparr>vq_tx := queue_example\<rparr>)
      \<lparr>g_mem = overflow_example, g_net = []\<rparr> = None"
proof -
  have bytes: "mem_bytes overflow_example 0x2000 4 = [0, 0, 1, 0]" "mem_bytes overflow_example 0x2004 2 = [0, 0]"
    "mem_bytes overflow_example 0x1000 16 = [0, 0x50, 0, 0, 0, 0, 0, 0, 12, 0, 0, 0x80, 0, 0, 0, 0]"
    by (simp_all add: mem_bytes_def overflow_example_def upt_rec)
  have head: "head_of overflow_example queue_example 0 = 0"
    by (simp add: head_of_def avail_entry_gpa_def bytes le_word_def)
  show ?thesis
    by (rule vq_tx_len_overflow)
      (simp_all add: head pending_def avail_idx_of_def bytes field_def le_word_def Let_def desc_gpa_def dec_desc_def)
qed

end
