(* ===== verification/Virtqueue_Rx.thy ===== *)
theory Virtqueue_Rx
  imports Virtqueue_Tx
begin

section \<open>Reception into guest memory\<close>

text \<open>
  What the receive side of the virtqueue engine does when transfers are served from guest memory: a frame
  fills the writable descriptors of a chain with the virtio header and its bytes, the loop delivers frames in
  order into successive buffers, and no frame is taken from the network unless a buffer is posted.
\<close>

subsection \<open>Filling a chain\<close>

definition wdescs :: "virtq_desc list \<Rightarrow> virtq_desc list" where
  "wdescs ds = filter writable ds"

definition desc_region :: "virtq_desc \<Rightarrow> u64 set" where
  "desc_region d = region (vd_addr d) (unat (vd_len d))"

definition bufs :: "virtq_desc list \<Rightarrow> u64 set" where
  "bufs ds = (\<Union>d\<in>set (wdescs ds). desc_region d)"

definition apart :: "virtq_desc \<Rightarrow> virtq_desc \<Rightarrow> bool" where
  "apart d e \<longleftrightarrow> desc_region d \<inter> desc_region e = {}"

text \<open>The descriptors of a chain are read outside \<open>R\<close>.\<close>

fun table_clear :: "u64 set \<Rightarrow> memory \<Rightarrow> u64 \<Rightarrow> nat \<Rightarrow> u16 \<Rightarrow> bool" where
  "table_clear R m table 0 cur \<longleftrightarrow> True"
| "table_clear R m table (Suc n) cur \<longleftrightarrow> region (desc_gpa table cur) 16 \<inter> R = {}
     \<and> (let d = dec_desc (mem_bytes m (desc_gpa table cur) 16)
        in has_next d \<longrightarrow> table_clear R m table n (vd_next d))"

lemma wdescs_simps [simp]:
  "wdescs [] = []" "wdescs (d # ds) = (if writable d then d # wdescs ds else wdescs ds)"
  by (simp_all add: wdescs_def)

lemma bufs_simps [simp]:
  "bufs [] = {}" "bufs (d # ds) = (if writable d then desc_region d else {}) \<union> bufs ds"
  by (simp_all add: bufs_def)

lemma table_agree:
  assumes "agree_off R m m'" and "table_clear R m table n cur"
  shows "chain m' table n cur = chain m table n cur \<and> table_clear R m' table n cur"
  using assms(2)
proof (induction n arbitrary: cur)
  case 0
  then show ?case by simp
next
  case (Suc n)
  define d where "d = dec_desc (mem_bytes m (desc_gpa table cur) 16)"
  have clear: "region (desc_gpa table cur) 16 \<inter> R = {}" "has_next d \<Longrightarrow> table_clear R m table n (vd_next d)"
    using Suc.prems by (simp_all add: d_def Let_def)
  have "dec_desc (mem_bytes m' (desc_gpa table cur) 16) = d"
    unfolding d_def by (subst mem_bytes_agree [OF assms(1) clear(1)]) simp_all
  then show ?case using Suc.IH [OF clear(2)] clear by (auto simp: Let_def d_def [symmetric])
qed

lemma mem_write_append:
  assumes "length xs + length ys \<le> 2 ^ 64"
  shows "mem_write (a + of_nat (length xs)) ys (mem_write a xs m) = mem_write a (xs @ ys) m"
proof (cases "ys = []")
  case False
  then have "length xs < 2 ^ 64" using assms by (cases ys) simp_all
  have in_ys: "unat (x - (a + of_nat (length xs))) < length ys \<longleftrightarrow> length xs \<le> unat (x - a) \<and> unat (x - a) < length xs + length ys" for x
    using region_offset [of "length xs" "length ys" x a] assms by (simp add: region_def)
  have "unat (x - (a + of_nat (length xs))) = unat (x - a) - length xs" if "length xs \<le> unat (x - a)" for x
  proof -
    have "(of_nat (length xs) :: u64) \<le> x - a" using that \<open>length xs < 2 ^ 64\<close> by (simp add: word_le_nat_alt unat_of_nat_less)
    then have "unat ((x - a) - of_nat (length xs)) = unat (x - a) - length xs"
      using \<open>length xs < 2 ^ 64\<close> by (simp add: unat_sub unat_of_nat_less)
    then show ?thesis by (simp add: algebra_simps)
  qed
  then show ?thesis by (auto simp: fun_eq_iff mem_write_def in_ys nth_append)
next
  case True
  then show ?thesis by (simp add: fun_eq_iff mem_write_def)
qed

lemma desc_data_write:
  assumes "length bs \<le> unat (vd_len d)"
  shows "take (length bs) (desc_data (mem_write (vd_addr d) bs m) d) = bs"
proof -
  have "take (length bs) (mem_bytes (mem_write (vd_addr d) bs m) (vd_addr d) (unat (vd_len d)))
      = mem_bytes (mem_write (vd_addr d) bs m) (vd_addr d) (length bs)"
    using assms by (simp add: mem_bytes_def take_map)
  also have "\<dots> = bs" using assms unat_bounds(3) [of "vd_len d"] by (intro mem_bytes_write_same) simp_all
  finally show ?thesis by (simp add: desc_data_def)
qed

text \<open>With room for it in the first descriptor, the header and the frame are written as one run of bytes.\<close>

lemma rx_header_as_data:
  assumes "12 \<le> unat (vd_len d)" and "length rest \<le> VQ_PKT_BUF"
  shows "rx_header (guest_env send recv) d (rest, w) g = rx_data (guest_env send recv) d (vnet_hdr @ rest, w) g"
proof -
  obtain L where L: "unat (vd_len d) = L" "12 \<le> L" using assms(1) by blast
  have hl: "min (vd_len d) 12 = 12" by (rule min_absorb2) (use L in \<open>simp add: word_le_nat_alt\<close>)
  have sp: "unat (vd_len d - 12) = L - 12" using L by (simp add: unat_sub word_le_nat_alt)
  define n where "n = min (length rest) (L - 12)"
  have len: "length vnet_hdr = 12" by (simp add: vnet_hdr_def)
  have hdr: "take 12 vnet_hdr = vnet_hdr" "vnet_hdr \<noteq> []" by (simp_all add: vnet_hdr_def)
  have mn: "min (12 + length rest) L = 12 + n" using L by (simp add: n_def)
  have two: "mem_write (vd_addr d + 12) (take n rest) (mem_write (vd_addr d) vnet_hdr m) = mem_write (vd_addr d) (vnet_hdr @ take n rest) m" for m
    using mem_write_append [of vnet_hdr "take n rest" "vd_addr d" m] assms(2) by (simp add: len code_consts)
  have tot: "w + of_nat (12 + n) = w + 12 + of_nat n" by (simp add: add.assoc)
  show ?thesis
  proof (cases "L - 12 > 0 \<and> rest \<noteq> []")
    case True
    then have "take n rest \<noteq> []" by (simp add: n_def)
    then show ?thesis using True
      by (simp add: rx_header_def rx_data_def Let_def hl sp hdr L(1) mn guest_put two len n_def [symmetric])
  next
    case False
    then have "n = 0" by (auto simp: n_def)
    then show ?thesis using False hdr
      by (auto simp: rx_header_def rx_data_def Let_def hl sp L(1) mn guest_put len)
  qed
qed

text \<open>Descriptors that can be filled: no writable one is empty and no two overlap.\<close>

definition fillable :: "virtq_desc list \<Rightarrow> bool" where
  "fillable ds \<longleftrightarrow> (\<forall>d\<in>set (wdescs ds). 0 < vd_len d) \<and> sorted_wrt apart (wdescs ds)"

lemma apart_bufs:
  "writable d \<Longrightarrow> fillable (d # ds) \<Longrightarrow> desc_region d \<inter> bufs ds = {}"
  by (auto simp: fillable_def bufs_def apart_def)

lemma desc_data_agree:
  "agree_off R m m' \<Longrightarrow> desc_region d \<inter> R = {} \<Longrightarrow> desc_data m' d = desc_data m d"
  unfolding desc_data_def desc_region_def
  using unat_bounds(3) [of "vd_len d"] by (intro mem_bytes_agree) simp_all

lemma length_chain_data: "length (chain_data m ds) = sum_list (map (\<lambda>d. unat (vd_len d)) ds)"
  by (induction ds) simp_all

definition capacity :: "virtq_desc list \<Rightarrow> nat" where
  "capacity ds = sum_list (map (\<lambda>d. unat (vd_len d)) (wdescs ds))"

lemma guest_rx_data:
  assumes "0 < vd_len d"
  shows "\<exists>m'. rx_data (guest_env send recv) d (rest, w) g
      = Some (Some (drop (unat (vd_len d)) rest, w + of_nat (min (length rest) (unat (vd_len d)))), g\<lparr>g_mem := m'\<rparr>)
    \<and> agree_off (desc_region d) (g_mem g) m'
    \<and> take (length rest) (desc_data m' d) = take (unat (vd_len d)) rest"
proof (cases "rest = []")
  case True
  then show ?thesis by (auto simp: rx_data_def intro!: exI [of _ "g_mem g"])
next
  case False
  define n where "n = min (length rest) (unat (vd_len d))"
  define m' where "m' = mem_write (vd_addr d) (take n rest) (g_mem g)"
  have "0 < unat (vd_len d)" using assms by (simp add: word_less_nat_alt)
  then have "take n rest \<noteq> []" using False by (simp add: n_def)
  moreover have "drop n rest = drop (unat (vd_len d)) rest" by (auto simp: n_def min_def)
  ultimately have "rx_data (guest_env send recv) d (rest, w) g
      = Some (Some (drop (unat (vd_len d)) rest, w + of_nat n), g\<lparr>g_mem := m'\<rparr>)"
    using False by (simp add: rx_data_def Let_def guest_put n_def [symmetric] m'_def)
  moreover have "agree_off (desc_region d) (g_mem g) m'"
    unfolding m'_def desc_region_def by (intro agree_off_write region_mono) (simp add: n_def)
  moreover have "take (length (take n rest)) (desc_data m' d) = take n rest"
    unfolding m'_def by (rule desc_data_write) (simp add: n_def)
  then have "take (length rest) (desc_data m' d) = take (unat (vd_len d)) rest"
    by (cases "length rest \<le> unat (vd_len d)") (simp_all add: n_def)
  ultimately show ?thesis unfolding n_def by blast
qed

lemma rx_fill:
  assumes "table_clear B (g_mem g) table n cur" and "bufs (chain (g_mem g) table n cur) \<subseteq> B"
    and "fillable (chain (g_mem g) table n cur)"
  shows "\<exists>m'. rx_chain (guest_env send recv) table n cur True (rest, w) g
      = Some (Some (w + of_nat (min (length rest) (capacity (chain (g_mem g) table n cur)))), g\<lparr>g_mem := m'\<rparr>)
    \<and> agree_off (bufs (chain (g_mem g) table n cur)) (g_mem g) m'
    \<and> take (length rest) (chain_data m' (wdescs (chain (g_mem g) table n cur)))
      = take (capacity (chain (g_mem g) table n cur)) rest"
  using assms
proof (induction n arbitrary: cur rest w g)
  case 0
  then show ?case by (auto simp: capacity_def intro!: exI [of _ "g_mem g"])
next
  case (Suc n)
  let ?env = "guest_env send recv"
  define d where "d = dec_desc (mem_bytes (g_mem g) (desc_gpa table cur) 16)"
  define ds where "ds = (if has_next d then chain (g_mem g) table n (vd_next d) else [])"
  have ch: "chain (g_mem g) table (Suc n) cur = d # ds" by (simp add: d_def ds_def Let_def)
  have get: "dma_get ?env (desc_gpa table cur) 16 g = Some (Some (mem_bytes (g_mem g) (desc_gpa table cur) 16), g)"
    by (rule guest_get) simp_all
  note pre = Suc.prems(2,3) [unfolded ch]
  have fill_ds: "fillable ds" using pre(2) by (auto simp: fillable_def split: if_splits)
  obtain rest1 w1 m1 where step: "(if \<not> writable d then Some (Some (rest, w), g) else rx_data ?env d (rest, w) g)
        = Some (Some (rest1, w1), g\<lparr>g_mem := m1\<rparr>)"
      and ag1: "agree_off (if writable d then desc_region d else {}) (g_mem g) m1"
      and rest1: "rest1 = (if writable d then drop (unat (vd_len d)) rest else rest)"
        "w1 = (if writable d then w + of_nat (min (length rest) (unat (vd_len d))) else w)"
      and data1: "writable d \<Longrightarrow> take (length rest) (desc_data m1 d) = take (unat (vd_len d)) rest"
  proof (cases "writable d")
    case True
    then have "0 < vd_len d" using pre(2) by (simp add: fillable_def)
    from guest_rx_data [OF this, of send recv rest w g] True that show ?thesis by fastforce
  next
    case False
    with that [of rest w "g_mem g"] show ?thesis by simp
  qed
  have agB: "agree_off B (g_mem g) m1" using agree_off_mono [OF ag1] pre(1) by auto
  show ?case
  proof (cases "has_next d")
    case True
    have tc: "table_clear B (g_mem g) table n (vd_next d)"
      using Suc.prems(1) True by (simp add: Let_def d_def [symmetric])
    have ch1: "chain m1 table n (vd_next d) = ds" "table_clear B m1 table n (vd_next d)"
      using table_agree [OF agB tc] True by (simp_all add: ds_def)
    obtain m' where IH: "rx_chain ?env table n (vd_next d) True (rest1, w1) (g\<lparr>g_mem := m1\<rparr>)
          = Some (Some (w1 + of_nat (min (length rest1) (capacity ds))), g\<lparr>g_mem := m'\<rparr>)"
        "agree_off (bufs ds) m1 m'"
        "take (length rest1) (chain_data m' (wdescs ds)) = take (capacity ds) rest1"
      using Suc.IH [of "g\<lparr>g_mem := m1\<rparr>" "vd_next d" rest1 w1] ch1 pre(1) fill_ds by auto
    have run: "rx_chain ?env table (Suc n) cur True (rest, w) g
        = Some (Some (w1 + of_nat (min (length rest1) (capacity ds))), g\<lparr>g_mem := m'\<rparr>)"
      using get step True IH(1) by (cases "writable d") (simp_all add: Let_def d_def [symmetric])
    have ag: "agree_off (bufs (d # ds)) (g_mem g) m'"
      using agree_off_trans [OF ag1 IH(2)] by simp
    show ?thesis
    proof (cases "writable d")
      case True
      define L where "L = unat (vd_len d)"
      have "desc_data m' d = desc_data m1 d" by (rule desc_data_agree [OF IH(2) apart_bufs [OF True pre(2)]])
      then have data: "take (length rest) (desc_data m' d) = take L rest" "length (desc_data m' d) = L"
        using data1 [OF True] by (simp_all add: L_def)
      have "take (length rest) (desc_data m' d @ chain_data m' (wdescs ds)) = take (L + capacity ds) rest"
      proof (cases "length rest \<le> L")
        case True
        then show ?thesis using data by simp
      next
        case False
        then have "desc_data m' d = take L rest" using data by simp
        moreover have "take (length rest - L) (chain_data m' (wdescs ds)) = take (capacity ds) (drop L rest)"
          using IH(3) True rest1(1) \<open>writable d\<close> by (simp add: L_def)
        ultimately show ?thesis using False data(2) by (simp add: take_add)
      qed
      moreover have "w1 + of_nat (min (length rest1) (capacity ds)) = w + of_nat (min (length rest) (L + capacity ds))"
      proof -
        have "min (length rest) L + min (length rest - L) (capacity ds) = min (length rest) (L + capacity ds)" by linarith
        then have "of_nat (min (length rest) (L + capacity ds))
            = (of_nat (min (length rest) L) + of_nat (min (length rest - L) (capacity ds)) :: u32)"
          by (simp only: flip: of_nat_add)
        then show ?thesis using True rest1 by (simp add: L_def add.assoc)
      qed
      ultimately show ?thesis using run ag True unfolding ch by (auto simp: capacity_def L_def)
    next
      case False
      then show ?thesis using run ag IH(3) rest1 unfolding ch by (auto simp: capacity_def)
    qed
  next
    case False
    then have run: "rx_chain ?env table (Suc n) cur True (rest, w) g = Some (Some w1, g\<lparr>g_mem := m1\<rparr>)"
      using get step by (cases "writable d") (simp_all add: Let_def d_def [symmetric])
    have "ds = []" using False by (simp add: ds_def)
    then show ?thesis using run ag1 rest1 data1 unfolding ch by (auto simp: capacity_def)
  qed
qed

lemma rx_chain_header:
  assumes "wdescs (chain (g_mem g) table n cur) \<noteq> []" and "12 \<le> unat (vd_len (hd (wdescs (chain (g_mem g) table n cur))))"
    and "length frame \<le> VQ_PKT_BUF"
  shows "rx_chain (guest_env send recv) table n cur False (frame, w) g
    = rx_chain (guest_env send recv) table n cur True (vnet_hdr @ frame, w) g"
  using assms(1,2)
proof (induction n arbitrary: cur)
  case 0
  then show ?case by simp
next
  case (Suc n)
  define d where "d = dec_desc (mem_bytes (g_mem g) (desc_gpa table cur) 16)"
  have get: "dma_get (guest_env send recv) (desc_gpa table cur) 16 g = Some (Some (mem_bytes (g_mem g) (desc_gpa table cur) 16), g)"
    by (rule guest_get) simp_all
  show ?case
  proof (cases "writable d")
    case True
    then have "12 \<le> unat (vd_len d)" using Suc.prems(2) by (simp add: Let_def d_def [symmetric])
    then have "rx_header (guest_env send recv) d (frame, w) g = rx_data (guest_env send recv) d (vnet_hdr @ frame, w) g"
      using assms(3) by (rule rx_header_as_data)
    then show ?thesis using True get by (simp add: Let_def d_def [symmetric] split: option.splits)
  next
    case False
    show ?thesis
    proof (cases "has_next d")
      case chained: True
      have "rx_chain (guest_env send recv) table n (vd_next d) False (frame, w) g
          = rx_chain (guest_env send recv) table n (vd_next d) True (vnet_hdr @ frame, w) g"
        using Suc.prems False chained by (intro Suc.IH) (simp_all add: Let_def d_def [symmetric])
      then show ?thesis using False chained get by (simp add: Let_def d_def [symmetric])
    next
      case last: False
      then show ?thesis using Suc.prems(1) False by (simp add: Let_def d_def [symmetric])
    qed
  qed
qed

subsection \<open>One buffer\<close>

definition rx_descs :: "memory \<Rightarrow> vq_state \<Rightarrow> u16 \<Rightarrow> virtq_desc list" where
  "rx_descs m q p = chain m (vq_desc_gpa q) VQ_MAX_CHAIN (head_of m q p)"

text \<open>A posted buffer that can take a frame: it has room for header and frame, the header fits its first
  descriptor, and nothing the engine reads lies in \<open>W\<close>, the memory that is written.\<close>

definition rx_ok :: "u64 set \<Rightarrow> memory \<Rightarrow> vq_state \<Rightarrow> u16 \<Rightarrow> bytes \<Rightarrow> bool" where
  "rx_ok W m q p f \<longleftrightarrow> region (avail_entry_gpa q p) 2 \<inter> W = {}
     \<and> table_clear W m (vq_desc_gpa q) VQ_MAX_CHAIN (head_of m q p)
     \<and> bufs (rx_descs m q p) \<subseteq> W \<and> fillable (rx_descs m q p) \<and> wdescs (rx_descs m q p) \<noteq> []
     \<and> 12 \<le> unat (vd_len (hd (wdescs (rx_descs m q p)))) \<and> 12 + length f \<le> capacity (rx_descs m q p)
     \<and> length f \<le> VQ_PKT_BUF"

text \<open>The guest finds the header and the frame at the start of the buffer.\<close>

definition holds_frame :: "memory \<Rightarrow> virtq_desc list \<Rightarrow> bytes \<Rightarrow> bool" where
  "holds_frame m ds f \<longleftrightarrow> take (12 + length f) (chain_data m (wdescs ds)) = vnet_hdr @ f"

lemma rx_ok_agree:
  assumes "agree_off W m m'" and "rx_ok W m q p f"
  shows "rx_ok W m' q p f" and "head_of m' q p = head_of m q p" and "rx_descs m' q p = rx_descs m q p"
proof -
  show h: "head_of m' q p = head_of m q p"
    using assms unfolding head_of_def rx_ok_def by (subst mem_bytes_agree [OF assms(1)]) simp_all
  show d: "rx_descs m' q p = rx_descs m q p"
    using table_agree [OF assms(1)] assms(2) by (auto simp: rx_descs_def h rx_ok_def)
  show "rx_ok W m' q p f" using table_agree [OF assms(1)] assms(2) by (auto simp: rx_ok_def h d)
qed

lemma guest_rx_inject:
  assumes "rx_ok W (g_mem g) q p f"
  shows "\<exists>m'. rx_inject_one (guest_env send recv) q (head_of (g_mem g) q p) f g
      = Some (Some (of_nat (12 + length f)), g\<lparr>g_mem := m'\<rparr>)
    \<and> agree_off (bufs (rx_descs (g_mem g) q p)) (g_mem g) m' \<and> holds_frame m' (rx_descs (g_mem g) q p) f"
proof -
  let ?ds = "rx_descs (g_mem g) q p" and ?h = "head_of (g_mem g) q p"
  have ok: "table_clear W (g_mem g) (vq_desc_gpa q) VQ_MAX_CHAIN ?h" "bufs ?ds \<subseteq> W" "fillable ?ds" "wdescs ?ds \<noteq> []"
      "12 \<le> unat (vd_len (hd (wdescs ?ds)))" "12 + length f \<le> capacity ?ds" "length f \<le> VQ_PKT_BUF"
    using assms by (simp_all add: rx_ok_def)
  have len: "length (vnet_hdr @ f) = 12 + length f" by (simp add: vnet_hdr_def)
  have eq: "rx_chain (guest_env send recv) (vq_desc_gpa q) VQ_MAX_CHAIN ?h False (f, 0) g
      = rx_chain (guest_env send recv) (vq_desc_gpa q) VQ_MAX_CHAIN ?h True (vnet_hdr @ f, 0) g"
    using ok(4,5,7) unfolding rx_descs_def by (intro rx_chain_header)
  obtain m' where m': "rx_chain (guest_env send recv) (vq_desc_gpa q) VQ_MAX_CHAIN ?h True (vnet_hdr @ f, 0) g
        = Some (Some (0 + of_nat (min (length (vnet_hdr @ f)) (capacity ?ds))), g\<lparr>g_mem := m'\<rparr>)"
      "agree_off (bufs ?ds) (g_mem g) m'"
      "take (length (vnet_hdr @ f)) (chain_data m' (wdescs ?ds)) = take (capacity ?ds) (vnet_hdr @ f)"
    using rx_fill [OF ok(1), of send recv "vnet_hdr @ f" 0] ok(2,3) unfolding rx_descs_def by blast
  have "min (length (vnet_hdr @ f)) (capacity ?ds) = 12 + length f" using ok(6) len by simp
  moreover have "take (capacity ?ds) (vnet_hdr @ f) = vnet_hdr @ f" using ok(6) len by simp
  ultimately show ?thesis
    using m' len by (auto simp: rx_inject_one_def eq holds_frame_def)
qed

subsection \<open>The loop over frames\<close>

text \<open>The network hands out the frames one by one and then has none.\<close>

fun serves :: "(int \<Rightarrow> 'n \<Rightarrow> ((int \<times> bytes) \<times> 'n) option) \<Rightarrow> bytes list \<Rightarrow> 'n \<Rightarrow> 'n \<Rightarrow> bool" where
  "serves recv [] n n' \<longleftrightarrow> n' = n \<and> recv (int VQ_PKT_BUF) n = Some ((0, []), n)"
| "serves recv (f # fs) n n' \<longleftrightarrow>
     (f \<noteq> [] \<and> (case recv (int VQ_PKT_BUF) n of Some ((k, bs), n1) \<Rightarrow> k = int (length f) \<and> bs = f \<and> serves recv fs n1 n' | None \<Rightarrow> False))"

definition idx_region :: "vq_state \<Rightarrow> u64 set" where
  "idx_region q = region (vq_used_gpa q + 2) 2"

lemma rx_descs_advance [simp]: "rx_descs m (vq_advance q) p = rx_descs m q p" "rx_ok W m (vq_advance q) p f = rx_ok W m q p f"
  "used_slot (vq_advance q) p = used_slot q p" "idx_region (vq_advance q) = idx_region q"
  "avail_idx_of m (vq_advance q) = avail_idx_of m q" "used_idx m (vq_advance q) = used_idx m q"
  by (simp_all add: rx_descs_def rx_ok_def used_slot_def idx_region_def avail_idx_of_def used_idx_def)

lemma idx_slot_clear: "idx_region q \<inter> used_slot q p = {}"
  using used_idx_clear [of q p "Suc 0"] unfolding used_slots_Suc idx_region_def by blast

lemma holds_frame_agree:
  assumes "agree_off R m m'" and "bufs ds \<inter> R = {}"
  shows "holds_frame m' ds f = holds_frame m ds f"
proof -
  have same: "map (desc_data m') (wdescs ds) = map (desc_data m) (wdescs ds)"
    using assms(2) by (auto simp: bufs_def intro!: desc_data_agree [OF assms(1)])
  show ?thesis unfolding holds_frame_def chain_data_def same ..
qed

definition rx_done :: "vq_dev \<Rightarrow> vq_dev" where
  "rx_done dev = dev\<lparr>vq_rx := vq_advance (vq_rx dev), rx_pkt_count := rx_pkt_count dev + 1\<rparr>"

lemma guest_rx_round:
  assumes "vq_size (vq_rx dev) \<noteq> 0" and "avail_idx_of (g_mem g) (vq_rx dev) \<noteq> vq_last_avail (vq_rx dev)"
    and "recv (int VQ_PKT_BUF) (g_net g) = Some ((int (length f), f), n1)" and "f \<noteq> []"
    and "rx_ok W (g_mem g) (vq_rx dev) (vq_last_avail (vq_rx dev)) f"
    and "bufs (rx_descs (g_mem g) (vq_rx dev) (vq_last_avail (vq_rx dev))) \<inter> used_ring (vq_rx dev) = {}"
  defines "q \<equiv> vq_rx dev"
  shows "\<exists>m'. rx_round (guest_env send recv) dev g = Some (True, rx_done dev, \<lparr>g_mem = m', g_net = n1\<rparr>)
    \<and> agree_off (bufs (rx_descs (g_mem g) q (vq_last_avail q)) \<union> used_slot q (vq_last_used q) \<union> idx_region q) (g_mem g) m'
    \<and> holds_frame m' (rx_descs (g_mem g) q (vq_last_avail q)) f
    \<and> mem_bytes m' (used_entry_gpa q (vq_last_used q)) 8
        = used_entry (head_of (g_mem g) q (vq_last_avail q)) (of_nat (12 + length f))
    \<and> used_idx m' q = vq_last_used q + 1"
proof -
  let ?env = "guest_env send recv" and ?la = "vq_last_avail q" and ?lu = "vq_last_used q"
  let ?h = "head_of (g_mem g) q ?la" and ?ds = "rx_descs (g_mem g) q ?la" and ?g1 = "g\<lparr>g_net := n1\<rparr>"
  have get: "dma_get ?env a n g0 = Some (Some (mem_bytes (g_mem g0) a n), g0)" if "0 < n" "n < 2 ^ 32" for a n g0
    using that by (rule guest_get)
  have ok: "rx_ok W (g_mem ?g1) q ?la f" using assms(5) by (simp add: q_def)
  from guest_rx_inject [OF this, of send recv] obtain m1
    where inj: "rx_inject_one ?env q ?h f ?g1 = Some (Some (of_nat (12 + length f)), ?g1\<lparr>g_mem := m1\<rparr>)"
      and ag1: "agree_off (bufs ?ds) (g_mem g) m1" and hf: "holds_frame m1 ?ds f" by auto
  define m2 where "m2 = mem_write (used_entry_gpa q ?lu) (used_entry ?h (of_nat (12 + length f))) m1"
  define m3 where "m3 = mem_write (vq_used_gpa q + 2) (le_bytes 2 (?lu + 1)) m2"
  have ag2: "agree_off (used_slot q ?lu) m1 m2" unfolding m2_def used_slot_def by (rule agree_off_write) simp
  have ag3: "agree_off (idx_region q) m2 m3" unfolding m3_def idx_region_def by (rule agree_off_write) simp
  have inring: "used_slot q ?lu \<subseteq> used_ring q" "idx_region q \<subseteq> used_ring q"
    using used_slot_in_ring used_idx_in_ring assms(1) by (simp_all add: q_def idx_region_def)
  have nonempty: "used_entry h l \<noteq> []" "le_bytes 2 w \<noteq> []" for h l and w :: u16
    using length_used_entry [of h l] length_le_bytes [of 2 w] by (metis list.size(3) zero_neq_numeral)+
  have "rx_round ?env dev g = Some (True, rx_done dev, \<lparr>g_mem = m3, g_net = n1\<rparr>)"
  proof -
    have recv: "eth_recv ?env (int VQ_PKT_BUF) g = Some ((int (length f), f), ?g1)"
      using assms(3) by (simp add: guest_env_def)
    have pub: "rx_publish ?env dev ?h (of_nat (12 + length f)) (?g1\<lparr>g_mem := m1\<rparr>) = Some (True, rx_done dev, \<lparr>g_mem = m3, g_net = n1\<rparr>)"
      by (simp add: rx_publish_def q_def [symmetric] guest_put nonempty Let_def rx_done_def m3_def m2_def del: of_nat_add)
    have "rx_deliver ?env dev f ?g1 = Some (True, rx_done dev, \<lparr>g_mem = m3, g_net = n1\<rparr>)"
      using assms(1) inj pub by (simp add: rx_deliver_def q_def [symmetric] get head_of_def [symmetric])
    then show ?thesis
      using assms(2) [symmetric] assms(4) recv by (simp add: rx_round_def q_def [symmetric] get avail_idx_of_def [symmetric])
  qed
  moreover have "agree_off (bufs ?ds \<union> used_slot q ?lu \<union> idx_region q) (g_mem g) m3"
    using agree_off_trans [OF agree_off_trans [OF ag1 ag2] ag3] .
  moreover have "holds_frame m3 ?ds f"
    using hf holds_frame_agree [OF agree_off_trans [OF ag2 ag3], of ?ds f] inring assms(6) by (auto simp: q_def)
  moreover have "mem_bytes m3 (used_entry_gpa q ?lu) 8 = used_entry ?h (of_nat (12 + length f))"
  proof -
    have "mem_bytes m3 (used_entry_gpa q ?lu) 8 = mem_bytes m2 (used_entry_gpa q ?lu) 8"
      using idx_slot_clear [of q ?lu] by (intro mem_bytes_agree [OF ag3]) (auto simp: used_slot_def)
    then show ?thesis by (simp add: m2_def mem_bytes_write_same)
  qed
  moreover have "used_idx m3 q = ?lu + 1" by (simp add: used_idx_def m3_def mem_bytes_write_same)
  ultimately show ?thesis by blast
qed

text \<open>Successive buffers that can take successive frames, away from the used ring and from each other.\<close>

fun rx_ready :: "u64 set \<Rightarrow> memory \<Rightarrow> vq_state \<Rightarrow> u16 \<Rightarrow> bytes list \<Rightarrow> bool" where
  "rx_ready W m q p [] \<longleftrightarrow> True"
| "rx_ready W m q p (f # fs) \<longleftrightarrow> rx_ok W m q p f \<and> bufs (rx_descs m q p) \<inter> used_ring q = {}
     \<and> (\<forall>i<length fs. bufs (rx_descs m q p) \<inter> bufs (rx_descs m q (p + 1 + of_nat i)) = {})
     \<and> rx_ready W m q (p + 1) fs"

fun rx_filled :: "memory \<Rightarrow> memory \<Rightarrow> vq_state \<Rightarrow> u16 \<Rightarrow> bytes list \<Rightarrow> bool" where
  "rx_filled m m' q p [] \<longleftrightarrow> True"
| "rx_filled m m' q p (f # fs) \<longleftrightarrow> holds_frame m' (rx_descs m q p) f \<and> rx_filled m m' q (p + 1) fs"

text \<open>The used entries name the buffers' heads with the bytes written.\<close>

fun rx_published :: "memory \<Rightarrow> memory \<Rightarrow> vq_state \<Rightarrow> u16 \<Rightarrow> u16 \<Rightarrow> bytes list \<Rightarrow> bool" where
  "rx_published m m' q p u [] \<longleftrightarrow> True"
| "rx_published m m' q p u (f # fs) \<longleftrightarrow>
     mem_bytes m' (used_entry_gpa q u) 8 = used_entry (head_of m q p) (of_nat (12 + length f))
     \<and> rx_published m m' q (p + 1) (u + 1) fs"

definition rx_touched :: "memory \<Rightarrow> vq_state \<Rightarrow> u16 \<Rightarrow> u16 \<Rightarrow> nat \<Rightarrow> u64 set" where
  "rx_touched m q p u n = used_slots q u n \<union> idx_region q \<union> (\<Union>i<n. bufs (rx_descs m q (p + of_nat i)))"

lemma rx_touched_Suc:
  "rx_touched m q p u (Suc n) = bufs (rx_descs m q p) \<union> used_slot q u \<union> idx_region q \<union> rx_touched m q (p + 1) (u + 1) n"
proof -
  have "{..<Suc n} = insert 0 (Suc ` {..<n})" by (rule lessThan_Suc_eq_insert_0)
  then show ?thesis by (auto simp: rx_touched_def used_slots_Suc add.assoc)
qed

lemma rx_ready_advance [simp]:
  "rx_ready W m (vq_advance q) p fs = rx_ready W m q p fs" "rx_filled m m' (vq_advance q) p fs = rx_filled m m' q p fs"
  "rx_published m m' (vq_advance q) p u fs = rx_published m m' q p u fs"
  "rx_touched m (vq_advance q) p u n = rx_touched m q p u n"
  by (induction fs arbitrary: p u) (simp_all add: rx_touched_def)

lemma rx_ready_agree:
  assumes "agree_off W m m'" and "rx_ready W m q p fs"
  shows "rx_ready W m' q p fs \<and> (\<forall>i<length fs. rx_descs m' q (p + of_nat i) = rx_descs m q (p + of_nat i))
    \<and> rx_filled m' m'' q p fs = rx_filled m m'' q p fs \<and> rx_published m' m'' q p u fs = rx_published m m'' q p u fs"
  using assms(2)
proof (induction fs arbitrary: p u)
  case Nil
  then show ?case by simp
next
  case (Cons f fs)
  have ok: "rx_ok W m q p f" "rx_ready W m q (p + 1) fs" using Cons.prems by simp_all
  note here = rx_ok_agree [OF assms(1) ok(1)] and IH = Cons.IH [OF ok(2), of "u + 1"]
  have "\<forall>i<length (f # fs). rx_descs m' q (p + of_nat i) = rx_descs m q (p + of_nat i)"
    using here(3) IH by (simp add: all_less_Suc_split add.assoc del: of_nat_Suc) (simp add: add.assoc)
  then show ?case using here IH Cons.prems by simp
qed

lemma rx_ready_ring:
  "rx_ready W m q p fs \<Longrightarrow> i < length fs \<Longrightarrow> bufs (rx_descs m q (p + of_nat i)) \<inter> used_ring q = {}"
proof (induction fs arbitrary: p i)
  case (Cons f fs)
  then show ?case
  proof (cases i)
    case (Suc j)
    then show ?thesis using Cons.IH [of "p + 1" j] Cons.prems by (simp add: add.assoc)
  qed simp
qed simp

lemma guest_rx_loop:
  assumes "serves recv fs (g_net g) n'" and "vq_size (vq_rx dev) \<noteq> 0"
    and "length fs \<le> unat (avail_idx_of (g_mem g) (vq_rx dev) - vq_last_avail (vq_rx dev))"
    and "rx_ready W (g_mem g) (vq_rx dev) (vq_last_avail (vq_rx dev)) fs"
    and "used_ring (vq_rx dev) \<subseteq> W" and "region (vq_avail_gpa (vq_rx dev)) 4 \<inter> W = {}"
  shows "\<exists>m'. rx_loop (guest_env send recv) k dev g = Some (k + int (length fs),
        dev\<lparr>vq_rx := (vq_rx dev)\<lparr>vq_last_avail := vq_last_avail (vq_rx dev) + of_nat (length fs),
                                  vq_last_used := vq_last_used (vq_rx dev) + of_nat (length fs)\<rparr>,
            rx_pkt_count := rx_pkt_count dev + int (length fs)\<rparr>, \<lparr>g_mem = m', g_net = n'\<rparr>)
    \<and> agree_off (rx_touched (g_mem g) (vq_rx dev) (vq_last_avail (vq_rx dev)) (vq_last_used (vq_rx dev)) (length fs)) (g_mem g) m'
    \<and> rx_filled (g_mem g) m' (vq_rx dev) (vq_last_avail (vq_rx dev)) fs
    \<and> (length fs \<le> unat (vq_size (vq_rx dev)) \<and> unat (vq_size (vq_rx dev)) dvd 65536 \<longrightarrow>
        rx_published (g_mem g) m' (vq_rx dev) (vq_last_avail (vq_rx dev)) (vq_last_used (vq_rx dev)) fs)
    \<and> used_idx m' (vq_rx dev) = (if fs = [] then used_idx (g_mem g) (vq_rx dev) else vq_last_used (vq_rx dev) + of_nat (length fs))"
  using assms
proof (induction fs arbitrary: dev g k)
  case Nil
  let ?env = "guest_env send recv" and ?q = "vq_rx dev"
  have get: "dma_get ?env (vq_avail_gpa ?q) 4 g = Some (Some (mem_bytes (g_mem g) (vq_avail_gpa ?q) 4), g)"
    by (rule guest_get) simp_all
  have "recv (int VQ_PKT_BUF) (g_net g) = Some ((0, []), g_net g)" "n' = g_net g" using Nil.prems(1) by simp_all
  then have "rx_round ?env dev g = Some (False, dev, g)"
    using get by (simp add: rx_round_def) (simp add: guest_env_def)
  then have "rx_loop ?env k dev g = Some (k, dev, g)" by (simp add: rx_loop.simps)
  then show ?case using \<open>n' = g_net g\<close> by (auto intro!: exI [of _ "g_mem g"])
next
  case (Cons f fs)
  let ?env = "guest_env send recv" and ?q = "vq_rx dev" and ?m = "g_mem g"
  let ?la = "vq_last_avail ?q" and ?lu = "vq_last_used ?q"
  obtain n1 where net: "f \<noteq> []" "recv (int VQ_PKT_BUF) (g_net g) = Some ((int (length f), f), n1)" "serves recv fs n1 n'"
    using Cons.prems(1) by (auto split: option.splits)
  have neq: "?la \<noteq> avail_idx_of ?m ?q" using Cons.prems(3) by auto
  have ready: "rx_ok W ?m ?q ?la f" "bufs (rx_descs ?m ?q ?la) \<inter> used_ring ?q = {}" "rx_ready W ?m ?q (?la + 1) fs"
      and sep: "\<forall>i<length fs. bufs (rx_descs ?m ?q ?la) \<inter> bufs (rx_descs ?m ?q (?la + 1 + of_nat i)) = {}"
    using Cons.prems(4) by simp_all
  obtain m1 where round: "rx_round ?env dev g = Some (True, rx_done dev, \<lparr>g_mem = m1, g_net = n1\<rparr>)"
      and ag1: "agree_off (bufs (rx_descs ?m ?q ?la) \<union> used_slot ?q ?lu \<union> idx_region ?q) ?m m1"
      and held: "holds_frame m1 (rx_descs ?m ?q ?la) f"
      and entry: "mem_bytes m1 (used_entry_gpa ?q ?lu) 8 = used_entry (head_of ?m ?q ?la) (of_nat (12 + length f))"
      and idx1: "used_idx m1 ?q = ?lu + 1"
    using guest_rx_round [of dev g recv f n1 W, OF Cons.prems(2) neq [symmetric] net(2,1) ready(1,2), of send] by blast
  have inW: "bufs (rx_descs ?m ?q ?la) \<union> used_slot ?q ?lu \<union> idx_region ?q \<subseteq> W"
    using ready(1) used_slot_in_ring [OF Cons.prems(2), of ?lu] used_idx_in_ring [of ?q] Cons.prems(5)
    by (auto simp: rx_ok_def idx_region_def)
  have agW: "agree_off W ?m m1" using agree_off_mono [OF ag1 inW] .
  have avail: "avail_idx_of m1 ?q = avail_idx_of ?m ?q"
    unfolding avail_idx_of_def using Cons.prems(6) by (subst mem_bytes_agree [OF agW]) simp_all
  note stay = rx_ready_agree [OF agW ready(3)]
  have ready1: "rx_ready W m1 ?q (?la + 1) fs"
    and fillEq: "rx_filled m1 m'' ?q (?la + 1) fs = rx_filled ?m m'' ?q (?la + 1) fs"
    and pubEq: "rx_published m1 m'' ?q (?la + 1) u fs = rx_published ?m m'' ?q (?la + 1) u fs" for m'' u
    using stay by blast+
  have q1: "vq_rx (rx_done dev) = vq_advance ?q" by (simp add: rx_done_def)
  have gap: "length fs \<le> unat (avail_idx_of m1 ?q - (?la + 1))"
    using unat_gap_smaller [OF neq] Cons.prems(3) by (simp add: avail)
  have touched: "rx_touched m1 ?q (?la + 1) (?lu + 1) (length fs) = rx_touched ?m ?q (?la + 1) (?lu + 1) (length fs)"
    using stay by (simp add: rx_touched_def)
  obtain m' where IH: "rx_loop ?env (k + 1) (rx_done dev) \<lparr>g_mem = m1, g_net = n1\<rparr> = Some (k + 1 + int (length fs),
        (rx_done dev)\<lparr>vq_rx := (vq_advance ?q)\<lparr>vq_last_avail := ?la + 1 + of_nat (length fs), vq_last_used := ?lu + 1 + of_nat (length fs)\<rparr>,
            rx_pkt_count := rx_pkt_count (rx_done dev) + int (length fs)\<rparr>, \<lparr>g_mem = m', g_net = n'\<rparr>)"
      and agI: "agree_off (rx_touched ?m ?q (?la + 1) (?lu + 1) (length fs)) m1 m'"
      and fillI: "rx_filled ?m m' ?q (?la + 1) fs"
      and pubI: "length fs \<le> unat (vq_size ?q) \<and> unat (vq_size ?q) dvd 65536 \<longrightarrow> rx_published ?m m' ?q (?la + 1) (?lu + 1) fs"
      and idxI: "used_idx m' ?q = (if fs = [] then used_idx m1 ?q else ?lu + 1 + of_nat (length fs))"
    using Cons.IH [of "\<lparr>g_mem = m1, g_net = n1\<rparr>" "rx_done dev" "k + 1", unfolded q1 vq_advance_simps rx_descs_advance rx_ready_advance guest.select_convs,
      OF net(3) Cons.prems(2) gap ready1 Cons.prems(5,6)] unfolding touched fillEq pubEq by blast
  have run: "rx_loop ?env k dev g = rx_loop ?env (k + 1) (rx_done dev) \<lparr>g_mem = m1, g_net = n1\<rparr>"
    by (subst rx_loop.simps) (simp add: round)
  have ag: "agree_off (rx_touched ?m ?q ?la ?lu (length (f # fs))) ?m m'"
    using agree_off_trans [OF ag1 agI] by (simp add: rx_touched_Suc)
  have bclear: "bufs (rx_descs ?m ?q ?la) \<inter> rx_touched ?m ?q (?la + 1) (?lu + 1) (length fs) = {}"
    using sep ready(2) used_slots_in_ring [OF Cons.prems(2), of "?lu + 1" "length fs"] used_idx_in_ring [of ?q]
    unfolding rx_touched_def idx_region_def by blast
  have fill: "rx_filled ?m m' ?q ?la (f # fs)"
    using held holds_frame_agree [OF agI bclear, of f] fillI by simp
  have pub: "rx_published ?m m' ?q ?la ?lu (f # fs)" if n: "length (f # fs) \<le> unat (vq_size ?q)" "unat (vq_size ?q) dvd 65536"
  proof -
    have "used_slot ?q ?lu \<inter> used_slots ?q (?lu + 1) (length fs) = {}"
      using n by (intro used_slots_disjoint [OF Cons.prems(2)]) simp_all
    moreover have "used_slot ?q ?lu \<inter> bufs (rx_descs ?m ?q (?la + 1 + of_nat i)) = {}" if "i < length fs" for i
      using rx_ready_ring [OF ready(3) that] used_slot_in_ring [OF Cons.prems(2), of ?lu] by blast
    ultimately have "used_slot ?q ?lu \<inter> rx_touched ?m ?q (?la + 1) (?lu + 1) (length fs) = {}"
      using idx_slot_clear [of ?q ?lu] unfolding rx_touched_def by blast
    then have "mem_bytes m' (used_entry_gpa ?q ?lu) 8 = mem_bytes m1 (used_entry_gpa ?q ?lu) 8"
      by (intro mem_bytes_agree [OF agI]) (simp_all add: used_slot_def)
    then show ?thesis using entry pubI n by simp
  qed
  have idx: "used_idx m' ?q = ?lu + of_nat (length (f # fs))"
    using idx1 idxI by (simp add: add.assoc)
  show ?case
    using run IH ag fill pub idx by (auto simp: rx_done_def vq_advance_def add.assoc)
qed

lemma guest_process_rx:
  assumes "vq_configured (vq_rx dev)" and "vq_size (vq_rx dev) \<noteq> 0" and "serves recv fs (g_net g) n'"
    and "length fs \<le> pending (g_mem g) (vq_rx dev)"
    and "rx_ready W (g_mem g) (vq_rx dev) (vq_last_avail (vq_rx dev)) fs"
    and "used_ring (vq_rx dev) \<subseteq> W" and "region (vq_avail_gpa (vq_rx dev)) 4 \<inter> W = {}"
    and "length fs \<le> unat (vq_size (vq_rx dev))" and "unat (vq_size (vq_rx dev)) dvd 65536"
  defines "q \<equiv> vq_rx dev"
  shows "\<exists>dev' m'. vcs_vq_process_rx (guest_env send recv) dev g = Some (int (length fs), dev', \<lparr>g_mem = m', g_net = n'\<rparr>)
    \<and> rx_filled (g_mem g) m' q (vq_last_avail q) fs
    \<and> rx_published (g_mem g) m' q (vq_last_avail q) (vq_last_used q) fs
    \<and> used_idx m' q = (if fs = [] then used_idx (g_mem g) q else vq_last_used q + of_nat (length fs))
    \<and> vq_rx dev' = q\<lparr>vq_last_avail := vq_last_avail q + of_nat (length fs), vq_last_used := vq_last_used q + of_nat (length fs)\<rparr>
    \<and> rx_pkt_count dev' = rx_pkt_count dev + int (length fs)"
  using guest_rx_loop [OF assms(3,2) assms(4) [unfolded pending_def] assms(5-7), where send = send and k = 0] assms(1,8,9)
  by (auto simp: vcs_vq_process_rx_def q_def)

subsection \<open>Properties\<close>

text \<open>C10: Polling the receive queue delivers the frames the network holds, in order, each into the next posted
  buffer behind its virtio header; the used entries name the buffers with the bytes written, the used index
  counts them, and no frame is left behind or invented.\<close>

theorem vq_rx_delivers:
  assumes "vq_configured (vq_rx dev)" and "vq_size (vq_rx dev) \<noteq> 0" and "serves recv fs (g_net g) n'"
    and "length fs \<le> pending (g_mem g) (vq_rx dev)"
    and "rx_ready W (g_mem g) (vq_rx dev) (vq_last_avail (vq_rx dev)) fs"
    and "used_ring (vq_rx dev) \<subseteq> W" and "region (vq_avail_gpa (vq_rx dev)) 4 \<inter> W = {}"
    and "length fs \<le> unat (vq_size (vq_rx dev))" and "unat (vq_size (vq_rx dev)) dvd 65536"
  defines "q \<equiv> vq_rx dev"
  shows "\<exists>dev' m'. vcs_vq_process_rx (guest_env send recv) dev g = Some (int (length fs), dev', \<lparr>g_mem = m', g_net = n'\<rparr>)
    \<and> rx_filled (g_mem g) m' q (vq_last_avail q) fs
    \<and> rx_published (g_mem g) m' q (vq_last_avail q) (vq_last_used q) fs
    \<and> used_idx m' q = (if fs = [] then used_idx (g_mem g) q else vq_last_used q + of_nat (length fs))
    \<and> vq_rx dev' = q\<lparr>vq_last_avail := vq_last_avail q + of_nat (length fs), vq_last_used := vq_last_used q + of_nat (length fs)\<rparr>
    \<and> rx_pkt_count dev' = rx_pkt_count dev + int (length fs)"
  unfolding q_def by (rule guest_process_rx [OF assms(1-9)])

text \<open>A guest that posted one buffer of 64 bytes at 0x6000, and a network holding a list of frames.\<close>

definition rx_example :: memory where
  "rx_example x = (if x = 0x2002 then 1 else if x = 0x1001 then 0x60 else if x = 0x1008 then 64
     else if x = 0x100C then 2 else 0)"

definition take_frame :: "int \<Rightarrow> bytes list \<Rightarrow> ((int \<times> bytes) \<times> bytes list) option" where
  "take_frame max_len n = (case n of [] \<Rightarrow> Some ((0, []), []) | f # fs \<Rightarrow> Some ((int (length f), f), fs))"

definition rx_written :: "u64 set" where
  "rx_written = region 0x3000 36 \<union> region 0x6000 64"

lemma rx_example_queue:
  "avail_idx_of rx_example queue_example = 1" "used_ring queue_example = region 0x3000 36"
  "rx_descs rx_example queue_example 0 = [\<lparr>vd_addr = 0x6000, vd_len = 64, vd_flags = 2, vd_next = 0\<rparr>]"
  "length f \<le> 52 \<Longrightarrow> rx_ready rx_written rx_example queue_example 0 [f]"
proof -
  have bytes: "mem_bytes rx_example 0x2000 4 = [0, 0, 1, 0]" "mem_bytes rx_example 0x2004 2 = [0, 0]"
    "mem_bytes rx_example 0x1000 16 = [0, 0x60, 0, 0, 0, 0, 0, 0, 64, 0, 0, 0, 2, 0, 0, 0]"
    by (simp_all add: mem_bytes_def rx_example_def upt_rec)
  show "avail_idx_of rx_example queue_example = 1" by (simp add: avail_idx_of_def bytes field_def le_word_def)
  show ring: "used_ring queue_example = region 0x3000 36" by (simp add: used_ring_def)
  have entry: "avail_entry_gpa queue_example 0 = 0x2004" by (simp add: avail_entry_gpa_def)
  have head: "head_of rx_example queue_example 0 = 0" by (simp add: head_of_def entry bytes le_word_def)
  have desc: "dec_desc (mem_bytes rx_example 0x1000 16) = \<lparr>vd_addr = 0x6000, vd_len = 64, vd_flags = 2, vd_next = 0\<rparr>"
    by (simp add: bytes dec_desc_def field_def le_word_def)
  have max: "VQ_MAX_CHAIN = Suc 15" by (simp add: code_consts)
  have flags: "(2 :: u16) AND 1 = 0" "(2 :: u16) AND 2 \<noteq> 0" by simp_all
  show descs: "rx_descs rx_example queue_example 0 = [\<lparr>vd_addr = 0x6000, vd_len = 64, vd_flags = 2, vd_next = 0\<rparr>]"
    unfolding rx_descs_def head max chain.simps(2) by (simp add: Let_def desc_gpa_def desc has_next_def code_consts)
  have disj: "region 0x2004 2 \<inter> rx_written = {}" "region 0x1000 16 \<inter> rx_written = {}" "region 0x6000 64 \<inter> region 0x3000 36 = {}"
    unfolding rx_written_def Int_Un_distrib by (simp_all add: region_apart)
  have sub: "region 0x6000 64 \<subseteq> rx_written" by (simp add: rx_written_def)
  show "rx_ready rx_written rx_example queue_example 0 [f]" if "length f \<le> 52"
    using that unfolding rx_ready.simps rx_ok_def descs head entry ring max table_clear.simps(2)
    by (simp add: disj sub Let_def desc_gpa_def desc has_next_def code_consts bufs_def wdescs_def writable_def desc_region_def
        fillable_def capacity_def)
qed

theorem vq_rx_delivers_witness:
  "\<exists>dev' m'. vcs_vq_process_rx (guest_env (\<lambda>d len n. (0, n)) take_frame) (vq_start\<lparr>vq_rx := queue_example\<rparr>)
      \<lparr>g_mem = rx_example, g_net = [[7, 8, 9]]\<rparr> = Some (1, dev', \<lparr>g_mem = m', g_net = []\<rparr>)
    \<and> mem_bytes m' 0x6000 15 = vnet_hdr @ [7, 8, 9]"
proof -
  let ?dev = "vq_start\<lparr>vq_rx := queue_example\<rparr>" and ?g = "\<lparr>g_mem = rx_example, g_net = [[7, 8, 9]]\<rparr>"
  have net: "serves take_frame [[7, 8, 9]] (g_net ?g) []" by (simp add: take_frame_def)
  have pend: "length [[7, 8, 9] :: bytes] \<le> pending (g_mem ?g) (vq_rx ?dev)" by (simp add: pending_def rx_example_queue)
  have ready: "rx_ready rx_written (g_mem ?g) (vq_rx ?dev) (vq_last_avail (vq_rx ?dev)) [[7, 8, 9]]"
    using rx_example_queue(4) [of "[7, 8, 9]"] by simp
  have ring: "used_ring (vq_rx ?dev) \<subseteq> rx_written" by (simp add: rx_example_queue rx_written_def)
  have avail: "region (vq_avail_gpa (vq_rx ?dev)) 4 \<inter> rx_written = {}"
    unfolding rx_written_def Int_Un_distrib by (simp add: region_apart)
  from vq_rx_delivers [of ?dev, OF _ _ net pend ready ring avail, of "\<lambda>d len n. (0, n)"] obtain dev' m'
    where r: "vcs_vq_process_rx (guest_env (\<lambda>d len n. (0, n)) take_frame) ?dev ?g = Some (1, dev', \<lparr>g_mem = m', g_net = []\<rparr>)"
      "holds_frame m' (rx_descs rx_example queue_example 0) [7, 8, 9]" by auto
  then have "take 15 (mem_bytes m' 0x6000 64) = vnet_hdr @ [7, 8, 9]"
    by (simp add: holds_frame_def rx_example_queue wdescs_def writable_def code_consts desc_data_def chain_data_def)
  moreover have "take 15 (mem_bytes m' 0x6000 64) = mem_bytes m' 0x6000 15" by (simp add: mem_bytes_def take_map)
  ultimately show ?thesis using r(1) by metis
qed

end
