(* ===== verification/Vm_Link.thy ===== *)
theory Vm_Link
  imports Virtqueue_Rx Eth_Net
begin

section \<open>From one guest to the other\<close>

text \<open>
  Two simulators with a virtqueue engine each, on the two ends of one Ethernet link: the engines' Ethernet
  operations are the MAC shim of this model (\<open>eth_mac_dpi.c\<close>) over the frame rings of the shared object.
\<close>

definition mac_send :: "bytes \<Rightarrow> int \<Rightarrow> mac_state \<times> eth_link \<Rightarrow> rc \<times> mac_state \<times> eth_link" where
  "mac_send d len = (\<lambda>(g, l). vcs_eth_mac_send_raw (Some d) len g l)"

definition mac_recv :: "int \<Rightarrow> mac_state \<times> eth_link \<Rightarrow> ((int \<times> bytes) \<times> mac_state \<times> eth_link) option" where
  "mac_recv max_len = (\<lambda>(g, l). vcs_eth_mac_recv_raw True max_len g l)"

definition mac_tx :: "bytes \<Rightarrow> mac_state \<times> eth_link \<Rightarrow> rc \<times> mac_state \<times> eth_link" where
  "mac_tx p = mac_send p (int (length p))"

text \<open>The shim sends the bytes it is handed and no others.\<close>

lemma mac_sends_prefix: "sends_prefix mac_send mac_tx"
  unfolding sends_prefix_def
proof (intro allI impI)
  fix d :: bytes and k and n :: "mac_state \<times> eth_link" assume "k \<le> length d"
  then have len: "length (take k d) = k" by simp
  have frame: "frame_of_bytes (take k d) (int k) = frame_of_bytes d (int k)" by (simp add: frame_of_bytes_def)
  obtain g l where n: "n = (g, l)" by fastforce
  show "mac_send d (int k) n = mac_tx (take k d) n"
    unfolding n mac_tx_def mac_send_def len by (cases g) (simp_all add: vcs_eth_mac_send_raw_def frame)
qed

text \<open>A port that neither drops frames nor limits them.\<close>

definition lossless :: "eth_port \<Rightarrow> bool" where
  "lossless port \<longleftrightarrow> lm_burst_remaining (ep_link port) = 0 \<and> lm_drop_rate_ppm (ep_link port) = 0 \<and> lm_fc_window (ep_link port) = 0"

definition payload :: "eth_frame \<Rightarrow> bytes" where
  "payload f = take (unat (ef_len f)) (ef_data f)"

definition sized :: "eth_frame \<Rightarrow> bool" where
  "sized f \<longleftrightarrow> 0 < unat (ef_len f) \<and> unat (ef_len f) \<le> ETH_FRAME_MAX_DATA \<and> length (ef_data f) = ETH_FRAME_MAX_DATA"

definition wire :: "eth_port \<Rightarrow> eth_link \<Rightarrow> eth_frame list" where
  "wire port l = eth_items (eth_shm_tx_ring l (ep_role port))"

definition wire_cap :: "eth_port \<Rightarrow> eth_link \<Rightarrow> nat" where
  "wire_cap port l = eth_ring_cap (eth_shm_tx_ring l (ep_role port))"

lemma mac_tx_ok:
  assumes "lossless port" and "eth_link_inv l" and "p \<noteq> []" and "length p \<le> ETH_FRAME_MAX_DATA"
    and "length (wire port l) < wire_cap port l"
  shows "\<exists>port' l' f. mac_tx p (Some port, l) = (0, Some port', l') \<and> lossless port' \<and> ep_role port' = ep_role port
    \<and> eth_link_inv l' \<and> wire port' l' = wire port l @ [f] \<and> payload f = p \<and> sized f \<and> wire_cap port' l' = wire_cap port l"
proof -
  let ?f = "frame_of_bytes p (int (length p))"
  have len: "0 < int (length p)" "int (length p) \<le> int ETH_FRAME_MAX_DATA" using assms(3,4) by simp_all
  have wf: "wf_frame ?f" by (rule wf_frame_of_bytes [OF len]) simp
  have "link_model_fc_can_send (ep_link port)" "\<not> fst (link_model_should_drop (ep_link port))"
    using assms(1) by (simp_all add: lossless_def link_model_fc_can_send_def no_drop_rate_0)
  then have "fst (eth_port_send port ?f 0 l) = 0"
    using send_rc [OF assms(2) wf, of port 0] assms(5) by (simp add: wire_def wire_cap_def)
  then obtain port' f l' where send: "eth_port_send port ?f 0 l = (0, port', f, l')" by (metis prod.collapse)
  note ok = send_ok [OF send assms(2) wf]
  have tx: "mac_tx p (Some port, l) = (0, Some port', l')"
    using len send by (simp add: mac_tx_def mac_send_def vcs_eth_mac_send_raw_def)
  have "lm_burst_remaining (snd (send_deadline port ?f 0)) = 0 \<and> lm_drop_rate_ppm (snd (send_deadline port ?f 0)) = 0"
    using assms(1) by (simp add: send_deadline_def link_model_deadline_def Let_def lossless_def no_drop_rate_0)
  then have loss: "lossless port'" using assms(1) by (simp add: ok(3) lossless_def link_model_inc_outstanding_def)
  have role: "ep_role port' = ep_role port" by (simp add: ok(3))
  have frame: "ef_len f = of_nat (length p)" "ef_data f = p @ drop (length p) (ef_data frame_zero)"
    using ok(1) assms(4) by (simp_all add: stamped_def frame_of_bytes_def frame_zero_def)
  have ulen: "unat (of_nat (length p) :: u16) = length p"
    using assms(4) by (intro unat_of_nat_less) (simp add: code_consts)
  have "payload f = p" by (simp add: payload_def frame ulen)
  moreover have "sized f" using assms(3,4) by (simp add: sized_def frame ulen frame_zero_def)
  moreover have "wire port' l' = wire port l @ [f]" using ok(5) by (simp add: wire_def role)
  moreover have "wire_cap port' l' = wire_cap port l"
    using eth_enqueue_inv(2) [OF tx_ring_inv [OF assms(2)], of "stamped port ?f 0" "ep_role port"] wf ok(1)
    by (simp add: wire_cap_def role ok(4) eth_ring_cap_def)
  ultimately show ?thesis using tx loss role ok(7) by blast
qed

text \<open>A burst of packets ends up on the wire, in order; empty packets are not sent.\<close>

lemma mac_tx_all:
  assumes "lossless port" and "eth_link_inv l" and "\<forall>p\<in>set ps. length p \<le> ETH_FRAME_MAX_DATA"
    and "length (wire port l) + length ps \<le> wire_cap port l"
  shows "\<exists>port' l' fs. fold (send_packet mac_tx) ps (Some port, l) = (Some port', l') \<and> ep_role port' = ep_role port
    \<and> eth_link_inv l' \<and> wire port' l' = wire port l @ fs \<and> map payload fs = filter (\<lambda>p. p \<noteq> []) ps \<and> list_all sized fs"
  using assms
proof (induction ps arbitrary: port l)
  case Nil
  then show ?case by auto
next
  case (Cons p ps)
  show ?case
  proof (cases "p = []")
    case True
    then show ?thesis using Cons.IH [OF Cons.prems(1,2)] Cons.prems(3,4) by (auto simp: send_packet_def)
  next
    case False
    have "length p \<le> ETH_FRAME_MAX_DATA" "length (wire port l) < wire_cap port l" using Cons.prems(3,4) by simp_all
    from mac_tx_ok [OF Cons.prems(1,2) False this] obtain port1 l1 f
      where one: "mac_tx p (Some port, l) = (0, Some port1, l1)" "lossless port1" "ep_role port1 = ep_role port"
        "eth_link_inv l1" "wire port1 l1 = wire port l @ [f]" "payload f = p" "sized f" "wire_cap port1 l1 = wire_cap port l"
      by blast
    have "length (wire port1 l1) + length ps \<le> wire_cap port1 l1" using Cons.prems(4) one by simp
    with Cons.IH [OF one(2,4)] Cons.prems(3) obtain port' l' fs
      where rest: "fold (send_packet mac_tx) ps (Some port1, l1) = (Some port', l')" "ep_role port' = ep_role port1"
        "eth_link_inv l'" "wire port' l' = wire port1 l1 @ fs" "map payload fs = filter (\<lambda>p. p \<noteq> []) ps" "list_all sized fs"
      by auto
    have "fold (send_packet mac_tx) (p # ps) (Some port, l) = (Some port', l')"
      using False one(1) rest(1) by (simp add: send_packet_def)
    then show ?thesis using rest one False by (intro exI [of _ port'] exI [of _ l'] exI [of _ "f # fs"]) simp
  qed
qed

text \<open>The other end takes the payloads off the wire one by one.\<close>

lemma mac_serves:
  assumes "eth_link_inv l" and "wire port l = fs" and "list_all sized fs" and "ep_role q = eth_peer (ep_role port)"
  shows "\<exists>q' l'. serves mac_recv (map payload fs) (Some q, l) (Some q', l') \<and> wire port l' = []"
  using assms
proof (induction fs arbitrary: q l)
  case Nil
  have rx: "eth_items (eth_shm_rx_ring l (ep_role q)) = []" using Nil.prems by (simp add: wire_def)
  have "eth_ring_inv (eth_shm_rx_ring l (ep_role q))" using Nil.prems(1) eth_link_inv_rings by blast
  from eth_dequeue_none [OF this rx] have "eth_port_try_recv q l = (None, l)"
    by (simp add: eth_port_try_recv_def set_rx_ring_def eth_shm_rx_ring_def)
  then have "mac_recv (int VQ_PKT_BUF) (Some q, l) = Some ((0, []), Some q, l)"
    by (simp add: mac_recv_def vcs_eth_mac_recv_raw_def recv_nonblocking code_consts)
  then show ?case using Nil.prems(2) by auto
next
  case (Cons f fs)
  obtain res l1 where tr: "eth_port_try_recv q l = (res, l1)" by fastforce
  note t = try_recv [OF Cons.prems(1) tr, unfolded Cons.prems(4), simplified]
  have res: "res = Some f" "wire port l1 = fs"
    using t(1,2) Cons.prems(2) by (cases res; simp add: wire_def)+
  have sized: "sized f" "list_all sized fs" using Cons.prems(3) by simp_all
  have copy: "recv_copy_len f (int VQ_PKT_BUF) = int (unat (ef_len f))"
  proof -
    have le: "unat (ef_len f) \<le> 9216" using sized(1) by (simp add: sized_def code_consts)
    have "uint (ef_len f) = int (unat (ef_len f))" by simp
    moreover have "ef_len f < 9216 \<or> ef_len f = 9216"
      using le by (simp add: word_less_nat_alt word_unat_eq_iff le_less)
    ultimately show ?thesis by (auto simp: recv_copy_len_def code_consts)
  qed
  have fits: "unat (ef_len f) \<le> 9216" "0 < unat (ef_len f)" "length (ef_data f) = 9216"
    using sized(1) by (simp_all add: sized_def code_consts)
  have recv: "mac_recv (int VQ_PKT_BUF) (Some q, l) = Some ((int (length (payload f)), payload f), Some (eth_port_tx_complete q), l1)"
  proof -
    have "recv_copy_len f (int VQ_PKT_BUF) \<le> int ETH_FRAME_MAX_DATA" unfolding copy using fits by (simp add: code_consts del: of_nat_unat)
    from recv_raw_some [OF tr [unfolded res(1)] _ this] show ?thesis
      unfolding copy mac_recv_def using fits by (simp add: payload_def code_consts min_def del: of_nat_unat)
  qed
  have "payload f \<noteq> []" using fits by (auto simp: payload_def)
  moreover have "ep_role (eth_port_tx_complete q) = eth_peer (ep_role port)" using Cons.prems(4) by (simp add: eth_port_tx_complete_def)
  with Cons.IH [OF t(4) res(2) sized(2)] obtain q' l'
    where "serves mac_recv (map payload fs) (Some (eth_port_tx_complete q), l1) (Some q', l')" "wire port l' = []" by blast
  ultimately show ?case using recv by auto
qed

subsection \<open>Properties\<close>

text \<open>C1: Packets that one guest makes available on its transmit queue arrive in the posted receive buffers of the
  guest at the other end of the link: after one doorbell and one poll the buffers hold exactly the packets,
  in order and byte for byte, behind the virtio header, and nothing is left on the wire.\<close>

theorem packets_reach_other_guest:
  fixes dev_a dev_b :: vq_dev
  assumes tx: "vq_configured (vq_tx dev_a)" "vq_size (vq_tx dev_a) \<noteq> 0" "unat (vq_size (vq_tx dev_a)) dvd 65536"
      "pending ma (vq_tx dev_a) \<le> unat (vq_size (vq_tx dev_a))"
      "\<forall>i<pending ma (vq_tx dev_a). entry_ok ma (vq_tx dev_a) (vq_last_avail (vq_tx dev_a) + of_nat i)"
    and link: "lossless port" "eth_link_inv l" "wire port l = []" "pending ma (vq_tx dev_a) \<le> wire_cap port l"
      "ep_role other = eth_peer (ep_role port)"
    and frames: "fs = filter (\<lambda>p. p \<noteq> []) (packets ma (vq_tx dev_a) (vq_last_avail (vq_tx dev_a)) (pending ma (vq_tx dev_a)))"
    and rx: "vq_configured (vq_rx dev_b)" "vq_size (vq_rx dev_b) \<noteq> 0" "unat (vq_size (vq_rx dev_b)) dvd 65536"
      "length fs \<le> pending mb (vq_rx dev_b)" "length fs \<le> unat (vq_size (vq_rx dev_b))"
      "rx_ready W mb (vq_rx dev_b) (vq_last_avail (vq_rx dev_b)) fs" "used_ring (vq_rx dev_b) \<subseteq> W"
      "region (vq_avail_gpa (vq_rx dev_b)) 4 \<inter> W = {}"
  shows "\<exists>dev_a' ma' port' l1 dev_b' mb' other' l2.
      vcs_vq_process_tx (guest_env mac_send mac_recv) dev_a \<lparr>g_mem = ma, g_net = (Some port, l)\<rparr>
        = Some (int (pending ma (vq_tx dev_a)), dev_a', \<lparr>g_mem = ma', g_net = (Some port', l1)\<rparr>)
    \<and> vcs_vq_process_rx (guest_env mac_send mac_recv) dev_b \<lparr>g_mem = mb, g_net = (Some other, l1)\<rparr>
        = Some (int (length fs), dev_b', \<lparr>g_mem = mb', g_net = (Some other', l2)\<rparr>)
    \<and> rx_filled mb mb' (vq_rx dev_b) (vq_last_avail (vq_rx dev_b)) fs \<and> wire port l2 = []"
proof -
  let ?n = "pending ma (vq_tx dev_a)" and ?ga = "\<lparr>g_mem = ma, g_net = (Some port, l)\<rparr>"
  let ?ps = "packets ma (vq_tx dev_a) (vq_last_avail (vq_tx dev_a)) ?n"
  have "\<forall>p\<in>set ?ps. length p \<le> ETH_FRAME_MAX_DATA"
    using tx(5) by (auto simp: packets_def entry_ok_def code_consts)
  from mac_tx_all [OF link(1,2) this] link(3,4) obtain port' l1 es
    where sent: "fold (send_packet mac_tx) ?ps (Some port, l) = (Some port', l1)" "ep_role port' = ep_role port"
      "eth_link_inv l1" "wire port' l1 = es" "map payload es = fs" "list_all sized es"
    by (auto simp: packets_def frames)
  obtain ga' q' where a: "vcs_vq_process_tx (guest_env mac_send mac_recv) dev_a ?ga
      = Some (int ?n, dev_a\<lparr>vq_tx := q', tx_pkt_count := tx_pkt_count dev_a + int ?n\<rparr>, ga')"
      "g_net ga' = (Some port', l1)"
    using guest_process_tx [OF tx(1,2) mac_sends_prefix, of ?ga mac_recv] tx(3-5) sent(1) by auto
  have "wire port l1 = es" using sent(2,4) by (simp add: wire_def)
  from mac_serves [OF sent(3) this sent(6) link(5)] obtain other' l2
    where serve: "serves mac_recv fs (Some other, l1) (Some other', l2)" "wire port l2 = []"
    unfolding sent(5) by blast
  let ?gb = "\<lparr>g_mem = mb, g_net = (Some other, l1)\<rparr>"
  obtain dev_b' mb' where b: "vcs_vq_process_rx (guest_env mac_send mac_recv) dev_b ?gb
      = Some (int (length fs), dev_b', \<lparr>g_mem = mb', g_net = (Some other', l2)\<rparr>)"
      "rx_filled mb mb' (vq_rx dev_b) (vq_last_avail (vq_rx dev_b)) fs"
    using guest_process_rx [OF rx(1,2), of mac_recv fs ?gb "(Some other', l2)" W mac_send] serve(1) rx(3-8) by auto
  have "ga' = \<lparr>g_mem = g_mem ga', g_net = (Some port', l1)\<rparr>" using a(2) by (cases ga') simp
  then show ?thesis using a(1) b serve(2) by metis
qed

theorem packets_reach_other_guest_witness:
  "\<exists>dev_a' ma' g' dev_b' mb' net.
      vcs_vq_process_tx (guest_env mac_send mac_recv) (vq_start\<lparr>vq_tx := queue_example\<rparr>)
        \<lparr>g_mem = guest_example, g_net = (Some (open_port (cfg_example\<lparr>lm_fc_window := 0\<rparr>) ETH_ROLE_A), eth_link_init)\<rparr>
        = Some (1, dev_a', \<lparr>g_mem = ma', g_net = g'\<rparr>)
    \<and> vcs_vq_process_rx (guest_env mac_send mac_recv) (vq_start\<lparr>vq_rx := queue_example\<rparr>)
        \<lparr>g_mem = rx_example, g_net = (Some (open_port cfg_example ETH_ROLE_B), snd g')\<rparr>
        = Some (1, dev_b', \<lparr>g_mem = mb', g_net = net\<rparr>)
    \<and> holds_frame mb' (rx_descs rx_example queue_example 0) [0xAA, 0xBB]"
proof -
  let ?a = "vq_start\<lparr>vq_tx := queue_example\<rparr>" and ?b = "vq_start\<lparr>vq_rx := queue_example\<rparr>"
  let ?p = "open_port (cfg_example\<lparr>lm_fc_window := 0\<rparr>) ETH_ROLE_A" and ?q = "open_port cfg_example ETH_ROLE_B"
  have n0: "pending guest_example queue_example = 1" by (simp add: pending_def guest_example_queue)
  then have n: "pending guest_example (vq_tx ?a) = 1" by simp
  have loss: "lossless ?p" by (simp add: lossless_def open_port_def link_model_reset_def cfg_example_def)
  have link: "wire ?p eth_link_init = []" "wire_cap ?p eth_link_init = 255" "ep_role ?q = eth_peer (ep_role ?p)"
    by (simp_all add: wire_def wire_cap_def open_port_def eth_peer_def eth_shm_tx_ring_def eth_link_init_def eth_items_def
        eth_ring_zero_def ring_idx_def ring_count_def eth_ring_cap_def code_consts)
  have fs: "[[0xAA, 0xBB]] = filter (\<lambda>p. p \<noteq> []) (packets guest_example (vq_tx ?a) (vq_last_avail (vq_tx ?a)) (pending guest_example (vq_tx ?a)))"
    by (simp add: n0 packets_simps guest_example_queue)
  have ring: "used_ring (vq_rx ?b) \<subseteq> rx_written" by (simp add: rx_example_queue rx_written_def)
  have avail: "region (vq_avail_gpa (vq_rx ?b)) 4 \<inter> rx_written = {}"
    unfolding rx_written_def Int_Un_distrib by (simp add: region_apart)
  have ready: "rx_ready rx_written rx_example (vq_rx ?b) (vq_last_avail (vq_rx ?b)) [[0xAA, 0xBB]]"
    using rx_example_queue(4) [of "[0xAA, 0xBB]"] by simp
  have pend: "length [[0xAA, 0xBB] :: bytes] \<le> pending rx_example (vq_rx ?b)" by (simp add: pending_def rx_example_queue)
  have entries: "\<forall>i<pending guest_example (vq_tx ?a). entry_ok guest_example (vq_tx ?a) (vq_last_avail (vq_tx ?a) + of_nat i)"
    unfolding n by (simp add: guest_example_queue)
  have q: "vq_configured (vq_tx ?a)" "vq_size (vq_tx ?a) \<noteq> 0" "unat (vq_size (vq_tx ?a)) dvd 65536"
      "pending guest_example (vq_tx ?a) \<le> unat (vq_size (vq_tx ?a))" "pending guest_example (vq_tx ?a) \<le> wire_cap ?p eth_link_init"
      "vq_configured (vq_rx ?b)" "vq_size (vq_rx ?b) \<noteq> 0" "unat (vq_size (vq_rx ?b)) dvd 65536"
      "length [[0xAA, 0xBB] :: bytes] \<le> unat (vq_size (vq_rx ?b))"
    by (simp_all add: n0 link(2))
  from packets_reach_other_guest [of ?a guest_example ?p eth_link_init ?q,
      OF q(1-4) entries loss eth_link_inv_init link(1) q(5) link(3) fs q(6-8) pend q(9) ready ring avail]
  obtain dev_a' ma' port' l1 dev_b' mb' other' l2
    where "vcs_vq_process_tx (guest_env mac_send mac_recv) ?a \<lparr>g_mem = guest_example, g_net = (Some ?p, eth_link_init)\<rparr>
        = Some (int (pending guest_example (vq_tx ?a)), dev_a', \<lparr>g_mem = ma', g_net = (Some port', l1)\<rparr>)"
      and "vcs_vq_process_rx (guest_env mac_send mac_recv) ?b \<lparr>g_mem = rx_example, g_net = (Some ?q, l1)\<rparr>
        = Some (int (length [[0xAA, 0xBB] :: bytes]), dev_b', \<lparr>g_mem = mb', g_net = (Some other', l2)\<rparr>)"
      and "rx_filled rx_example mb' (vq_rx ?b) (vq_last_avail (vq_rx ?b)) [[0xAA, 0xBB]]" by blast
  then show ?thesis unfolding n
    by (intro exI [of _ dev_a'] exI [of _ ma'] exI [of _ "(Some port', l1)"] exI [of _ dev_b'] exI [of _ mb'] exI [of _ "(Some other', l2)"]) simp
qed

end
