(* ===== verification/Pcie_Access.thy ===== *)
theory Pcie_Access
  imports Bridge_Qemu Guest_Memory
begin

section \<open>What the QEMU devices share: accesses as TLPs\<close>

text \<open>
  The three device models of qemu-plugin (PF, VF, root complex) turn a guest access into a TLP for one
  DWORD and read the result out of the completion's DWORD.  They repeat the same code; this theory holds
  it once, with the lane arithmetic, and the part of QEMU the devices call, as a record of operations on
  a state \<open>'q\<close> of QEMU.  \<open>'d\<close> are QEMU's devices (\<open>PCIDevice\<close> pointers).
\<close>

subsection \<open>QEMU\<close>

text \<open>The calls that set a device up or take it down, with what the code passes.\<close>

datatype qemu_call =
    Register_Bar nat u64                  \<comment> \<open>\<open>memory_region_init_io\<close> and \<open>pci_register_bar\<close>: index, size\<close>
  | Vf_Register_Bar nat u64               \<comment> \<open>\<open>pcie_sriov_vf_register_bar\<close>\<close>
  | Enable_Bus_Master                     \<comment> \<open>\<open>PCI_COMMAND_MEMORY | PCI_COMMAND_MASTER\<close>\<close>
  | Set_Interrupt_Pin
  | Msix_Init u16 u32                     \<comment> \<open>vectors, offset of the pending bits in BAR 0\<close>
  | Pcie_Cap_Init nat
  | Sriov_Init u16 u16 u16 u16            \<comment> \<open>VF device id, number of VFs, offset, stride\<close>
  | Sriov_Vf_Bar nat u64
  | Set_Multifunction
  | New_Bh
  | Delete_Bh
  | Sriov_Exit
  | Pcie_Cap_Exit
  | Msix_Uninit
  | Msi_Init int int                      \<comment> \<open>offset, vectors\<close>
  | Msi_Uninit

record ('d, 'q) qemu =
  q_bar_addr :: "'d \<Rightarrow> int \<Rightarrow> 'q \<Rightarrow> u64"
  q_read_config :: "'d \<Rightarrow> u32 \<Rightarrow> nat \<Rightarrow> 'q \<Rightarrow> u32"
  q_write_config :: "'d \<Rightarrow> u32 \<Rightarrow> u32 \<Rightarrow> nat \<Rightarrow> 'q \<Rightarrow> 'q"
  q_num_vfs :: "'d \<Rightarrow> 'q \<Rightarrow> u16"                        \<comment> \<open>\<open>exp.sriov_pf.num_vfs\<close>\<close>
  q_bdf :: "'d \<Rightarrow> 'q \<Rightarrow> nat \<times> nat \<times> nat"                   \<comment> \<open>bus, device, function\<close>
  q_find_device :: "'d \<Rightarrow> nat \<Rightarrow> nat \<Rightarrow> 'q \<Rightarrow> 'd option"    \<comment> \<open>\<open>pci_find_device\<close> on the bus of a device\<close>
  q_msix_enabled :: "'d \<Rightarrow> 'q \<Rightarrow> bool"
  q_msi_enabled :: "'d \<Rightarrow> 'q \<Rightarrow> bool"
  q_msix_notify :: "'d \<Rightarrow> u32 \<Rightarrow> 'q \<Rightarrow> 'q"
  q_msi_notify :: "'d \<Rightarrow> u32 \<Rightarrow> 'q \<Rightarrow> 'q"
  q_set_irq :: "'d \<Rightarrow> bool \<Rightarrow> 'q \<Rightarrow> 'q"
  q_schedule_bh :: "'q \<Rightarrow> 'q"
  q_mem_read :: "u64 \<Rightarrow> nat \<Rightarrow> 'q \<Rightarrow> bytes \<times> 'q"          \<comment> \<open>\<open>cpu_physical_memory_read\<close>\<close>
  q_mem_write :: "u64 \<Rightarrow> bytes \<Rightarrow> 'q \<Rightarrow> 'q"              \<comment> \<open>\<open>cpu_physical_memory_write\<close>\<close>
  q_dma_write :: "'d \<Rightarrow> u64 \<Rightarrow> bytes \<Rightarrow> 'q \<Rightarrow> 'q"        \<comment> \<open>\<open>pci_dma_write\<close>\<close>
  q_call :: "'d \<Rightarrow> qemu_call \<Rightarrow> 'q \<Rightarrow> int \<times> 'q"
  q_new_function :: "'d \<Rightarrow> nat \<Rightarrow> 'q \<Rightarrow> ('d \<times> bool) \<times> 'q"  \<comment> \<open>a device for a function of the slot; whether
     QEMU goes on to realise it\<close>
  q_pf_of_vf :: "'d \<Rightarrow> 'q \<Rightarrow> 'd option"
  q_vf_number :: "'d \<Rightarrow> 'q \<Rightarrow> u16"

subsection \<open>Lanes of a DWORD\<close>

text \<open>\<open>(uint8_t)(((1u << size) - 1) << byte_off)\<close>\<close>

definition byte_enables :: "nat \<Rightarrow> nat \<Rightarrow> u8" where
  "byte_enables sz off = ucast (push_bit off (push_bit sz 1 - 1 :: u32))"

text \<open>The DWORD at the start of the completion's data, and the bytes of a DWORD to send.\<close>

definition data_dword :: "bytes \<Rightarrow> u32" where
  "data_dword data = foldl (\<lambda>dw i. dw OR push_bit (8 * i) (ucast (data ! i))) 0 [0..<4]"

definition dword_bytes :: "nat \<Rightarrow> u32 \<Rightarrow> bytes" where
  "dword_bytes n w = map (\<lambda>i. ucast (drop_bit (8 * i) w AND 0xFF)) [0..<n]"

text \<open>The value read: as 64 bits for MMIO, as 32 bits for configuration space.\<close>

definition lane_value :: "nat \<Rightarrow> nat \<Rightarrow> u32 \<Rightarrow> u64" where
  "lane_value sz off dw = (let v = ucast (drop_bit (off * 8) dw)
     in if sz < 4 then v AND (push_bit (sz * 8) 1 - 1) else v)"

definition cfg_value :: "nat \<Rightarrow> nat \<Rightarrow> u32 \<Rightarrow> u32" where
  "cfg_value len off dw = (let v = drop_bit (off * 8) dw
     in if len < 4 then v AND (push_bit (len * 8) 1 - 1) else v)"

text \<open>The low two bits of an address and the address of its DWORD.\<close>

definition low2 :: "'a::len word \<Rightarrow> nat" where
  "low2 a = unat (a AND 3)"

definition dword_addr :: "'a::len word \<Rightarrow> 'a word" where
  "dword_addr a = a AND NOT 3"

subsection \<open>Memory accesses\<close>

definition mmio_req :: "tlp_type \<Rightarrow> u64 \<Rightarrow> nat \<Rightarrow> tlp_entry" where
  "mmio_req ty pcie_addr sz = tlp_zero\<lparr>t_type := tlp_code ty, t_addr := dword_addr pcie_addr, t_len := 4,
     t_first_be := byte_enables sz (low2 pcie_addr), t_last_be := 0, t_requester_id := 0\<rparr>"

definition mmio_read_req :: "u64 \<Rightarrow> nat \<Rightarrow> tlp_entry" where
  "mmio_read_req pcie_addr sz = mmio_req TLP_MRD pcie_addr sz"

definition mmio_write_req :: "u64 \<Rightarrow> nat \<Rightarrow> u64 \<Rightarrow> tlp_entry" where
  "mmio_write_req pcie_addr sz val = (mmio_req TLP_MWR pcie_addr sz)
     \<lparr>t_data := blit 0 (dword_bytes 4 (push_bit (low2 pcie_addr * 8) (ucast val))) (replicate 64 0)\<rparr>"

text \<open>The access through a bridge: the read waits for its completion and hands back all ones on failure,
  the write is posted.\<close>

definition mmio_read_via :: "'p transport \<Rightarrow> u64 \<Rightarrow> nat \<Rightarrow> 'p bridge_ctx \<Rightarrow> u64 \<times> 'p bridge_ctx" where
  "mmio_read_via ops pcie_addr sz ctx =
     (case bridge_send_tlp_and_wait ops (mmio_read_req pcie_addr sz) cpl_zero ctx of
        (r, req, cpl, ctx1) \<Rightarrow>
          (if r < 0 then 0xFFFFFFFF else lane_value sz (low2 pcie_addr) (data_dword (c_data cpl)), ctx1))"

definition mmio_write_via :: "'p transport \<Rightarrow> u64 \<Rightarrow> u64 \<Rightarrow> nat \<Rightarrow> 'p bridge_ctx \<Rightarrow> 'p bridge_ctx" where
  "mmio_write_via ops pcie_addr val sz ctx =
     (case bridge_send_tlp_fire ops (mmio_write_req pcie_addr sz val) ctx of (r, req, ctx1) \<Rightarrow> ctx1)"

subsection \<open>Configuration accesses\<close>

definition cfg_read_req :: "u32 \<Rightarrow> u16 \<Rightarrow> u16 \<Rightarrow> tlp_entry" where
  "cfg_read_req address requester target = tlp_zero\<lparr>t_type := tlp_code TLP_CFGRD0, t_addr := ucast (dword_addr address),
     t_len := 4, t_requester_id := requester, t_target_bdf := target\<rparr>"

definition cfg_write_req :: "u32 \<Rightarrow> u32 \<Rightarrow> nat \<Rightarrow> u16 \<Rightarrow> u16 \<Rightarrow> tlp_entry" where
  "cfg_write_req address data len requester target = tlp_zero\<lparr>t_type := tlp_code TLP_CFGWR0, t_addr := ucast address,
     t_len := of_nat len, t_requester_id := requester, t_target_bdf := target,
     t_data := blit 0 (dword_bytes len data) (replicate 64 0)\<rparr>"

subsection \<open>Lanes, byte by byte\<close>

lemma dword_bytes_nth: "i < n \<Longrightarrow> dword_bytes n w ! i = ucast (drop_bit (8 * i) w)"
  by (simp add: dword_bytes_def) (rule bit_word_eqI, auto simp: bit_simps and_mask_literals)

lemma length_dword_bytes [simp]: "length (dword_bytes n w) = n"
  by (simp add: dword_bytes_def)

lemma upt_0_4: "[0..<4] = [0, 1, 2, 3 :: nat]"
  by code_simp

lemma bit_u8_high: "8 \<le> j \<Longrightarrow> \<not> bit (b :: u8) j"
  using bit_imp_le_length [of b j] by auto

lemma bit_data_dword:
  assumes "n < 32"
  shows "bit (data_dword data) n \<longleftrightarrow> bit (data ! (n div 8)) (n mod 8)"
proof -
  define k m where "k = n div 8" and "m = n mod 8"
  have "data_dword data = ucast (data ! 0) OR push_bit 8 (ucast (data ! 1)) OR push_bit 16 (ucast (data ! 2))
      OR push_bit 24 (ucast (data ! 3))"
    by (simp add: data_dword_def upt_0_4 or.assoc)
  then have b: "bit (data_dword data) n \<longleftrightarrow> bit (data ! 0) n \<or> 8 \<le> n \<and> bit (data ! 1) (n - 8)
      \<or> 16 \<le> n \<and> bit (data ! 2) (n - 16) \<or> 24 \<le> n \<and> bit (data ! 3) (n - 24)"
    using assms by (auto simp: bit_or_iff bit_push_bit_iff bit_ucast_iff)
  have "m < 8" "n = 8 * k + m" "k < 4" using assms by (auto simp: k_def m_def)
  then have "k = 0 \<and> n = m \<or> k = 1 \<and> n - 8 = m \<and> 8 \<le> n \<or> k = 2 \<and> n - 16 = m \<and> 16 \<le> n
      \<or> k = 3 \<and> n - 24 = m \<and> 24 \<le> n" by arith
  then have "bit (data_dword data) n \<longleftrightarrow> bit (data ! k) m"
    unfolding b using bit_u8_high \<open>m < 8\<close> by (elim disjE conjE) (auto dest: bit_u8_high)
  then show ?thesis by (simp add: k_def m_def)
qed

lemma bit_byte_enables: "sz \<le> 8 \<Longrightarrow> bit (byte_enables sz off) i \<longleftrightarrow> off \<le> i \<and> i < off + sz \<and> i < 8"
proof -
  assume sz: "sz \<le> 8"
  have "push_bit sz 1 - 1 = (mask sz :: u32)" by (simp add: mask_eq_exp_minus_1 push_bit_eq_mult)
  then show ?thesis using sz by (auto simp: byte_enables_def bit_simps)
qed

lemma bit_lane_value:
  assumes "off + sz \<le> 4"
  shows "bit (lane_value sz off dw) n \<longleftrightarrow> n < 8 * sz \<and> bit dw (n + 8 * off)"
proof -
  have "push_bit (sz * 8) 1 - 1 = (mask (8 * sz) :: u64)" by (simp add: mask_eq_exp_minus_1 push_bit_eq_mult mult.commute)
  then show ?thesis
    using assms by (auto simp: lane_value_def Let_def bit_simps add.commute mult.commute dest: bit_imp_le_length)
qed

lemma data_dword_bytes [simp]: "data_dword (dword_bytes 4 w @ rest) = w"
proof (rule bit_word_eqI)
  fix n assume n: "n < LENGTH(32)"
  then have k: "n div 8 < 4" by simp
  have "(dword_bytes 4 w @ rest) ! (n div 8) = ucast (drop_bit (8 * (n div 8)) w)"
    using k by (simp only: nth_append length_dword_bytes if_True dword_bytes_nth)
  moreover have "8 * (n div 8) + n mod 8 = n" by simp
  ultimately show "bit (data_dword (dword_bytes 4 w @ rest)) n = bit w n"
    using n by (simp add: bit_data_dword bit_ucast_iff bit_drop_bit_eq)
qed

text \<open>A device that honours the byte enables: the enabled bytes of the DWORD are replaced.\<close>

definition merge_lanes :: "u8 \<Rightarrow> bytes \<Rightarrow> u32 \<Rightarrow> u32" where
  "merge_lanes be data old = data_dword (map (\<lambda>i. if bit be i then data ! i else dword_bytes 4 old ! i) [0..<4])"

lemma bit_merge_lanes:
  assumes "n < 32"
  shows "bit (merge_lanes be data old) n \<longleftrightarrow>
    (if bit be (n div 8) then bit (data ! (n div 8)) (n mod 8) else bit old n)"
proof -
  have "n div 8 < 4" using assms by simp
  moreover have "8 * (n div 8) + n mod 8 = n" by simp
  ultimately show ?thesis
    using assms by (simp add: merge_lanes_def bit_data_dword dword_bytes_nth bit_simps)
qed

lemma low2_less [simp]: "low2 (a :: 'a::len word) < 4"
  unfolding low2_def and_mask_literals unsigned_take_bit_eq by (simp add: take_bit_eq_mod)

lemma bit_nat_digit:
  fixes x :: nat
  assumes "u < 256"
  shows "bit (u + 256 * x) n \<longleftrightarrow> (if n < 8 then bit u n else bit x (n - 8))"
proof (cases "n < 8")
  case True
  then have "(2::nat) ^ n * 2 ^ (8 - n) = 2 ^ 8" by (simp add: power_add [symmetric])
  then have "256 * x = 2 ^ n * (2 ^ (8 - n) * x)" by (simp add: mult.assoc [symmetric])
  then have "(u + 256 * x) div 2 ^ n = 2 ^ (8 - n) * x + u div 2 ^ n"
    using div_mult_self4 [of "2 ^ n" "2 ^ (8 - n) * x" u] by (simp only: add.commute) simp
  then show ?thesis using True by (simp add: bit_iff_odd)
next
  case False
  then have "(2::nat) ^ n = 256 * 2 ^ (n - 8)" using power_add [of "2::nat" 8 "n - 8"] by simp
  then show ?thesis using False assms by (simp add: bit_iff_odd div_mult2_eq)
qed

lemma bit_le_nat: "bit (le_nat bs) n \<longleftrightarrow> n div 8 < length bs \<and> bit (bs ! (n div 8)) (n mod 8)"
proof (induction bs arbitrary: n)
  case (Cons b bs)
  have u: "unat b < 256" by (rule unat_bounds)
  show ?case
  proof (cases "n < 8")
    case True
    then show ?thesis using bit_nat_digit [OF u, of "le_nat bs" n] by (simp add: bit_unsigned_iff)
  next
    case False
    then have "n div 8 = Suc ((n - 8) div 8)" "n mod 8 = (n - 8) mod 8" by (simp_all add: le_div_geq le_mod_geq)
    then show ?thesis using False bit_nat_digit [OF u, of "le_nat bs" n] Cons.IH [of "n - 8"] by simp
  qed
qed simp

lemma bit_le_word:
  "bit (le_word bs :: 'a::len word) n \<longleftrightarrow> n < LENGTH('a) \<and> n div 8 < length bs \<and> bit (bs ! (n div 8)) (n mod 8)"
  by (simp add: le_word_def bit_of_nat_iff bit_le_nat)

text \<open>What a read hands back: the bytes at the offset, little endian.\<close>

lemma lane_value_bytes:
  assumes "off + sz \<le> 4" and "4 \<le> length data"
  shows "lane_value sz off (data_dword data) = le_word (take sz (drop off data))"
proof (rule bit_word_eqI)
  fix n assume "n < LENGTH(64)"
  have "(n + 8 * off) div 8 = n div 8 + off" "(n + 8 * off) mod 8 = n mod 8" by simp_all
  moreover have "n + 8 * off < 32" if "n < 8 * sz" using that assms(1) by simp
  moreover have "n div 8 < sz \<longleftrightarrow> n < 8 * sz" by (auto simp: div_less_iff_less_mult mult.commute)
  ultimately show "bit (lane_value sz off (data_dword data)) n = bit (le_word (take sz (drop off data)) :: u64) n"
    using assms \<open>n < LENGTH(64)\<close> by (auto simp: bit_lane_value bit_data_dword bit_le_word add.commute min_def)
qed

text \<open>Writing and reading back through a device that honours the byte enables.\<close>

lemma write_read_lanes:
  assumes "off + sz \<le> 4"
  shows "lane_value sz off (merge_lanes (byte_enables sz off) (dword_bytes 4 (push_bit (off * 8) (ucast val))) old)
    = take_bit (8 * sz) val"
proof (rule bit_word_eqI)
  fix n assume "n < LENGTH(64)"
  define m where "m = n + 8 * off"
  have m: "m < 32" "m div 8 < 4" "off \<le> m div 8" "m div 8 < off + sz" "8 * (m div 8) + m mod 8 = m" "off * 8 \<le> m"
    if "n < 8 * sz" using that assms by (auto simp: m_def)
  have e: "bit (byte_enables sz off) (m div 8)" if "n < 8 * sz" using m [OF that] assms by (simp add: bit_byte_enables)
  show "bit (lane_value sz off (merge_lanes (byte_enables sz off) (dword_bytes 4 (push_bit (off * 8) (ucast val))) old)) n
      = bit (take_bit (8 * sz) val) n"
  proof (cases "n < 8 * sz")
    case True
    then show ?thesis
      using m [OF True] e [OF True] assms \<open>n < LENGTH(64)\<close>
      by (simp add: bit_lane_value m_def [symmetric] bit_merge_lanes dword_bytes_nth bit_ucast_iff bit_drop_bit_eq bit_push_bit_iff
          bit_take_bit_iff) (simp add: m_def mult.commute)
  next
    case False
    then show ?thesis using assms by (simp add: bit_lane_value bit_take_bit_iff)
  qed
qed

lemma merge_lanes_other:
  assumes "i < 4" and "\<not> bit be i"
  shows "dword_bytes 4 (merge_lanes be data old) ! i = dword_bytes 4 old ! i"
proof (rule bit_word_eqI)
  fix n assume "n < LENGTH(8)"
  then have "(8 * i + n) div 8 = i" "8 * i + n < 32" using assms(1) by auto
  then show "bit (dword_bytes 4 (merge_lanes be data old) ! i) n = bit (dword_bytes 4 old ! i) n"
    using assms \<open>n < LENGTH(8)\<close>
    by (simp add: dword_bytes_nth bit_ucast_iff bit_drop_bit_eq bit_merge_lanes)
qed

subsection \<open>The DMA callback\<close>

text \<open>
  What the DMA callbacks of the PF and the root complex do with a request: \<open>wr_net\<close> writes data that
  arrived over a transport, \<open>wr\<close> and \<open>rd\<close> move data between guest memory and the shared DMA buffer.
  \<^theory_text>\<open>None\<close> is an access outside the local buffer of 65536 bytes, which \<open>recv_dma_data\<close> is not told of,
  or outside the shared DMA buffer: offset and length are the peer's.  \<open>recv_dma_data\<close> of a transport never
  returns the code 1.
\<close>

definition DMA_CB_BUF :: nat where [code_consts]: "DMA_CB_BUF = 65536"

definition dma_cb_via :: "'p transport \<Rightarrow> (u64 \<Rightarrow> bytes \<Rightarrow> 'q \<Rightarrow> 'q) \<Rightarrow> (u64 \<Rightarrow> bytes \<Rightarrow> 'q \<Rightarrow> 'q)
    \<Rightarrow> (u64 \<Rightarrow> nat \<Rightarrow> 'q \<Rightarrow> bytes \<times> 'q) \<Rightarrow> dma_req \<Rightarrow> 'p bridge_ctx \<Rightarrow> 'q \<Rightarrow> ('p bridge_ctx \<times> 'q) option" where
  "dma_cb_via ops wr_net wr rd req ctx q =
     (case bc_transport ctx of
        Some p \<Rightarrow>
          if r_direction req = DMA_DIR_WRITE
          then (case via (tr_recv_dma_data ops) p ctx of
              (Failed, ctx1) \<Rightarrow> Some (snd (bridge_complete_dma ops (r_tag req) 1 ctx1), q)
            | (Nothing, ctx1) \<Rightarrow> None
            | (Got d, ctx1) \<Rightarrow>
                if length (dd_bytes d) > DMA_CB_BUF then None
                else Some (snd (bridge_complete_dma ops (r_tag req) 0 ctx1), wr_net (r_host_addr req) (dd_bytes d) q))
          else (case rd (r_host_addr req) (min (unat (r_len req)) DMA_CB_BUF) q of
              (buf, q1) \<Rightarrow> Some (snd (bridge_complete_dma_with_data ops (r_tag req) 0 (r_direction req)
                  (r_host_addr req) buf ctx), q1))
      | None \<Rightarrow>
          (let off = unat (r_dma_offset req); len = unat (r_len req); dma_buf = sh_dma_buf (bc_shm ctx)
           in if off + len > length dma_buf then None
              else if r_direction req = DMA_DIR_WRITE
              then Some (snd (bridge_complete_dma ops (r_tag req) 0 ctx), wr (r_host_addr req) (take len (drop off dma_buf)) q)
              else (case rd (r_host_addr req) len q of
                  (bs, q1) \<Rightarrow> Some (snd (bridge_complete_dma ops (r_tag req) 0
                      (ctx\<lparr>bc_shm := (bc_shm ctx)\<lparr>sh_dma_buf := blit off bs dma_buf\<rparr>\<rparr>)), q1))))"

subsection \<open>Opening the bridge\<close>

text \<open>The device's properties, and what the kernel answers while the bridge is opened.\<close>

record dev_props =
  dp_transport :: "string option"
  dp_shm_name :: "string option"
  dp_sock_path :: "string option"

record 'p bridge_answers =
  ba_os :: os_answers
  ba_listen_fd :: int
  ba_created :: "'p option"           \<comment> \<open>\<open>transport_create\<close>\<close>
  ba_no_shm :: cosim_shm
  ba_timeout :: "int option"
  ba_accept :: "accept_answer list"
  ba_client :: sock
  ba_poller_ok :: bool                \<comment> \<open>\<open>irq_poller_start\<close> returns a poller\<close>

datatype realize_error = Already_Initialized | Bridge_Init_Failed | Bridge_Connect_Failed | Names_Required
  | Topology_Failed | Poller_Failed | No_Parent

text \<open>The context connected, or the error; a context that does not connect is destroyed.  \<^theory_text>\<open>None\<close>: accepting
  never returns.\<close>

definition connect_or_destroy :: "'p transport \<Rightarrow> 'p bridge_answers \<Rightarrow> 'p bridge_ctx option
    \<Rightarrow> (realize_error + 'p bridge_ctx) option" where
  "connect_or_destroy ops ans created = (case created of
     None \<Rightarrow> Some (Inl Bridge_Init_Failed)
   | Some ctx \<Rightarrow> map_option (\<lambda>(r, ctx1). if r < 0 then Inl Bridge_Connect_Failed else Inr ctx1)
       (bridge_connect_ex ops (ba_timeout ans) (ba_accept ans) (ba_client ans) ctx))"

definition open_bridge :: "'p transport \<Rightarrow> 'p bridge_answers \<Rightarrow> dev_props \<Rightarrow> (realize_error + 'p bridge_ctx) option" where
  "open_bridge ops ans props =
     (if dp_transport props = Some ''tcp''
      then connect_or_destroy ops ans (bridge_init_ex ops False [] [] (ba_os ans) (ba_listen_fd ans) (ba_no_shm ans) (ba_created ans))
      else (case (dp_shm_name props, dp_sock_path props) of
          (Some name, Some path) \<Rightarrow> connect_or_destroy ops ans (fst (bridge_init name path (ba_os ans) (ba_listen_fd ans)))
        | _ \<Rightarrow> Some (Inl Names_Required)))"

subsection \<open>Example contexts\<close>

text \<open>A bridge over TCP with messages and completions on the way.\<close>

definition tcp_ctx_with :: "sync_msg list \<Rightarrow> cpl_entry list \<Rightarrow> sock option \<Rightarrow> transport_tcp_priv bridge_ctx" where
  "tcp_ctx_with ms cs aux = bridge_ctx_new cosim_shm_init (Some (priv_init True
     (fresh_sock (concat (map (\<lambda>m. msg_bytes TCP_MSG_SYNC (enc_sync m)) ms)))
     (fresh_sock (concat (map (\<lambda>m. msg_bytes TCP_MSG_CPL (enc_cpl m)) cs))) aux))"

lemma tcp_ctx_with_inbox: "list_all wf_cpl cs \<Longrightarrow> tcp_inbox (tcp_ctx_with ms cs aux) ms cs"
  unfolding tcp_inbox_def tcp_ctx_with_def bridge_ctx_new_def priv_init_def
  using cpl_stream.awaits_fresh [of cs] sync_stream.awaits_fresh [of ms] by (simp add: list_all_iff)

lemma tcp_ctx_with_fields [simp]:
  "bc_next_tag (tcp_ctx_with ms cs aux) = 0" "bc_tag_mask (tcp_ctx_with ms cs aux) = 0x03FF"
  by (simp_all add: tcp_ctx_with_def bridge_ctx_new_def)

subsection \<open>A small QEMU\<close>

text \<open>An instance of the record with memory and a log of what the devices ask for; the devices are numbers,
  the device of a new function is its number.\<close>

datatype qemu_event = E_Msix nat u32 | E_Msi nat u32 | E_Irq nat bool | E_Bh | E_Call nat qemu_call

record plain_qemu =
  pq_mem :: memory
  pq_log :: "qemu_event list"

definition log_event :: "qemu_event \<Rightarrow> plain_qemu \<Rightarrow> plain_qemu" where
  "log_event e q = q\<lparr>pq_log := pq_log q @ [e]\<rparr>"

definition plain :: "(nat, plain_qemu) qemu" where
  "plain = \<lparr>q_bar_addr = (\<lambda>d i q. 0x100000), q_read_config = (\<lambda>d a n q. 0), q_write_config = (\<lambda>d a v n q. q),
     q_num_vfs = (\<lambda>d q. 0), q_bdf = (\<lambda>d q. (1, 0, d)), q_find_device = (\<lambda>d bus devfn q. None),
     q_msix_enabled = (\<lambda>d q. True), q_msi_enabled = (\<lambda>d q. True),
     q_msix_notify = (\<lambda>d v. log_event (E_Msix d v)), q_msi_notify = (\<lambda>d v. log_event (E_Msi d v)),
     q_set_irq = (\<lambda>d b. log_event (E_Irq d b)), q_schedule_bh = log_event E_Bh,
     q_mem_read = (\<lambda>a n q. (mem_bytes (pq_mem q) a n, q)), q_mem_write = (\<lambda>a bs q. q\<lparr>pq_mem := mem_write a bs (pq_mem q)\<rparr>),
     q_dma_write = (\<lambda>d a bs q. q\<lparr>pq_mem := mem_write a bs (pq_mem q)\<rparr>),
     q_call = (\<lambda>d c q. (0, log_event (E_Call d c) q)), q_new_function = (\<lambda>d i q. ((i, True), q)),
     q_pf_of_vf = (\<lambda>d q. Some 0), q_vf_number = (\<lambda>d q. 0)\<rparr>"

lemma plain_simps [simp]:
  "q_bar_addr plain d b q = 0x100000" "q_read_config plain d a n q = 0" "q_write_config plain d a v n q = q"
  "q_num_vfs plain d q = 0" "q_find_device plain d bus devfn q = None" "q_bdf plain d q = (1, 0, d)"
  "q_msix_enabled plain d q" "q_msi_enabled plain d q" "q_msix_notify plain d mv = log_event (E_Msix d mv)"
  "q_msi_notify plain d mv = log_event (E_Msi d mv)" "q_set_irq plain d x = log_event (E_Irq d x)"
  "q_schedule_bh plain = log_event E_Bh" "q_mem_read plain ga n q = (mem_bytes (pq_mem q) ga n, q)"
  "q_mem_write plain ga bs q = q\<lparr>pq_mem := mem_write ga bs (pq_mem q)\<rparr>"
  "q_dma_write plain d ga bs q = q\<lparr>pq_mem := mem_write ga bs (pq_mem q)\<rparr>"
  "q_call plain d c q = (0, log_event (E_Call d c) q)" "q_new_function plain d i q = ((i, True), q)"
  "q_pf_of_vf plain d q = Some 0" "q_vf_number plain d q = 0"
  by (simp_all add: plain_def)

definition plain_start :: plain_qemu where
  "plain_start = \<lparr>pq_mem = (\<lambda>_. 0), pq_log = []\<rparr>"

end
