(* ===== verification/Msi_Queue.thy ===== *)
theory Msi_Queue
  imports Fifo
begin

section \<open>The interrupt queues of the QEMU devices\<close>

text \<open>
  The poller thread may not touch QEMU's interrupt state, so the devices queue interrupts in an array of
  256 entries with two free-running \<open>int\<close> counters, and a bottom half delivers them in QEMU's main loop.
  The PF queue has two arrays with the same index, taken here as one array of pairs.  The counters are
  never reset after the device is realised: a result \<^theory_text>\<open>None\<close> is the overflow of a counter.
\<close>

definition COSIM_MSIX_QUEUE_SIZE :: nat where [code_consts]: "COSIM_MSIX_QUEUE_SIZE = 256"

record 'a msi_queue =
  mq_slots :: "'a list"
  mq_head :: nat
  mq_tail :: nat

definition msi_queue_new :: "'a \<Rightarrow> 'a msi_queue" where
  "msi_queue_new z = \<lparr>mq_slots = replicate COSIM_MSIX_QUEUE_SIZE z, mq_head = 0, mq_tail = 0\<rparr>"

text \<open>Queueing, from the poller: whether there was room.\<close>

definition msi_put :: "'a \<Rightarrow> 'a msi_queue \<Rightarrow> (bool \<times> 'a msi_queue) option" where
  "msi_put x q =
     (if mq_tail q \<ge> mq_head q + COSIM_MSIX_QUEUE_SIZE then Some (False, q)
      else if Suc (mq_tail q) \<ge> 2 ^ 31 then None
      else Some (True, q\<lparr>mq_slots := (mq_slots q)[mq_tail q mod COSIM_MSIX_QUEUE_SIZE := x], mq_tail := Suc (mq_tail q)\<rparr>))"

text \<open>The loop of the bottom half, for what it does with an entry.\<close>

function msi_drain :: "('a \<Rightarrow> 's \<Rightarrow> 's option) \<Rightarrow> 'a msi_queue \<Rightarrow> 's \<Rightarrow> ('a msi_queue \<times> 's) option" where
  "msi_drain f q s =
     (if mq_head q = mq_tail q then Some (q, s)
      else if mq_tail q < mq_head q then None
      else case f (mq_slots q ! (mq_head q mod COSIM_MSIX_QUEUE_SIZE)) s of
          None \<Rightarrow> None
        | Some s1 \<Rightarrow> msi_drain f (q\<lparr>mq_head := Suc (mq_head q)\<rparr>) s1)"
  by pat_completeness auto
termination
  by (relation "measure (\<lambda>(f, q, s). mq_tail q - mq_head q)") auto

declare msi_drain.simps [simp del]

subsection \<open>Abstraction\<close>

definition msi_ok :: "'a msi_queue \<Rightarrow> bool" where
  "msi_ok q \<longleftrightarrow> length (mq_slots q) = COSIM_MSIX_QUEUE_SIZE \<and> mq_head q \<le> mq_tail q
     \<and> mq_tail q \<le> mq_head q + COSIM_MSIX_QUEUE_SIZE"

definition msi_items :: "'a msi_queue \<Rightarrow> 'a list" where
  "msi_items q = map (\<lambda>i. mq_slots q ! (i mod COSIM_MSIX_QUEUE_SIZE)) [mq_head q..<mq_tail q]"

lemma msi_new [simp]: "msi_ok (msi_queue_new z)" "msi_items (msi_queue_new z) = []" "mq_tail (msi_queue_new z) = 0"
  by (simp_all add: msi_ok_def msi_queue_new_def msi_items_def)

lemma msi_items_le: "msi_ok q \<Longrightarrow> length (msi_items q) \<le> 256"
  by (auto simp: msi_items_def msi_ok_def code_consts)

lemma mod_window:
  assumes "h \<le> i" "i < (t :: nat)" "t < h + n"
  shows "i mod n \<noteq> t mod n"
proof
  assume "i mod n = t mod n"
  then have "n dvd t - i" using mod_eq_dvd_iff_nat [of i t n] assms by simp
  then show False using assms by (auto dest: dvd_imp_le)
qed

lemma msi_put_spec:
  assumes "msi_ok q" and "Suc (mq_tail q) < 2 ^ 31"
  shows "\<exists>q'. msi_put x q = Some (length (msi_items q) < 256, q') \<and> msi_ok q' \<and> mq_head q' = mq_head q
    \<and> mq_tail q' \<le> Suc (mq_tail q) \<and> msi_items q' = (if length (msi_items q) < 256 then msi_items q @ [x] else msi_items q)"
proof (cases "mq_tail q < mq_head q + 256")
  case True
  let ?q = "q\<lparr>mq_slots := (mq_slots q)[mq_tail q mod 256 := x], mq_tail := Suc (mq_tail q)\<rparr>"
  have "(mq_slots q)[mq_tail q mod 256 := x] ! (i mod 256) = mq_slots q ! (i mod 256)"
    if "mq_head q \<le> i" "i < mq_tail q" for i
    using mod_window [OF that True] by simp
  then have "msi_items ?q = msi_items q @ [x]"
    using assms by (auto simp: msi_items_def msi_ok_def code_consts)
  then show ?thesis using True assms by (auto simp: msi_put_def msi_ok_def msi_items_def code_consts)
next
  case False
  then show ?thesis using assms by (auto simp: msi_put_def msi_ok_def msi_items_def code_consts)
qed

lemma msi_items_Cons:
  assumes "mq_head q < mq_tail q"
  shows "msi_items q = mq_slots q ! (mq_head q mod 256) # msi_items (q\<lparr>mq_head := Suc (mq_head q)\<rparr>)"
  using assms by (simp add: msi_items_def upt_conv_Cons code_consts)

lemma msi_drain_spec:
  assumes "msi_ok q"
  shows "msi_drain f q s = map_option (\<lambda>s'. (q\<lparr>mq_head := mq_tail q\<rparr>, s')) (fold_opt f (msi_items q) s)"
  using assms
proof (induction f q s rule: msi_drain.induct)
  case (1 f q s)
  show ?case
  proof (cases "mq_head q = mq_tail q")
    case True
    then have "q\<lparr>mq_head := mq_tail q\<rparr> = q" by (metis msi_queue.surjective msi_queue.update_convs(2))
    then show ?thesis using True by (simp add: msi_drain.simps [of f q s] msi_items_def)
  next
    case False
    then have lt: "mq_head q < mq_tail q" using 1 by (simp add: msi_ok_def)
    have ok: "msi_ok (q\<lparr>mq_head := Suc (mq_head q)\<rparr>)" using 1(2) lt by (simp add: msi_ok_def)
    show ?thesis
      using False lt 1(1) ok
      by (subst msi_drain.simps) (auto simp: msi_items_Cons [OF lt] code_consts split: option.splits)
  qed
qed

lemma msi_drained [simp]: "msi_ok q \<Longrightarrow> msi_ok (q\<lparr>mq_head := mq_tail q\<rparr>)" "msi_items (q\<lparr>mq_head := mq_tail q\<rparr>) = []"
  by (simp_all add: msi_ok_def msi_items_def)

text \<open>A sequence of arrivals: those that find room.\<close>

fun msi_puts :: "'a list \<Rightarrow> 'a msi_queue \<Rightarrow> 'a msi_queue option" where
  "msi_puts [] q = Some q"
| "msi_puts (x # xs) q = (case msi_put x q of None \<Rightarrow> None | Some (_, q1) \<Rightarrow> msi_puts xs q1)"

lemma msi_puts_spec:
  assumes "msi_ok q" and "mq_tail q + length xs < 2 ^ 31"
  shows "\<exists>q'. msi_puts xs q = Some q' \<and> msi_ok q' \<and> msi_items q' = take 256 (msi_items q @ xs)
    \<and> mq_tail q' \<le> mq_tail q + length xs"
  using assms
proof (induction xs arbitrary: q)
  case Nil
  have "length (msi_items q) \<le> 256" by (rule msi_items_le) (rule Nil)
  then show ?case using Nil by simp
next
  case (Cons x xs)
  have l: "length (msi_items q) \<le> 256" by (rule msi_items_le) (rule Cons.prems)
  obtain q1 where q1: "msi_put x q = Some (length (msi_items q) < 256, q1)" "msi_ok q1" "mq_tail q1 \<le> Suc (mq_tail q)"
    "msi_items q1 = (if length (msi_items q) < 256 then msi_items q @ [x] else msi_items q)"
    using msi_put_spec [of q x] Cons.prems by auto
  with Cons.IH [of q1] Cons.prems obtain q' where "msi_puts xs q1 = Some q'" "msi_ok q'"
    "msi_items q' = take 256 (msi_items q1 @ xs)" "mq_tail q' \<le> mq_tail q1 + length xs" by auto
  moreover have "take 256 (msi_items q1 @ xs) = take 256 (msi_items q @ x # xs)" using q1(4) l by (auto simp: take_Cons')
  ultimately show ?case using q1 by auto
qed

end
