(* ===== verification/Pcie_Pf.thy ===== *)
theory Pcie_Pf
  imports Pcie_Access Msi_Queue Irq_Poller
begin

section \<open>The physical function of QEMU: qemu-plugin/cosim\_pcie\_pf.c\<close>

text \<open>
  All physical functions of the card share one bridge, opened by function 0, through the global
  \<open>g_cosim_shared\<close>.  The model keeps the structs of the devices, the global, the bridge contexts at
  their heap addresses (a freed context is \<^theory_text>\<open>None\<close>) and QEMU's state in one record.  A result \<^theory_text>\<open>None\<close>
  is undefined behaviour of the C code: the use of a freed or null context, an index outside an array, an
  overflow of a queue counter.  Debug output is left out.
\<close>

definition COSIM_MAX_PF_DEVICES :: nat where [code_consts]: "COSIM_MAX_PF_DEVICES = 8"
definition COSIM_SRIOV_CAP_OFFSET :: u32 where [code_consts]: "COSIM_SRIOV_CAP_OFFSET = 0x100"

subsection \<open>State\<close>

record 'd pf_bar_ctx =
  bx_dev :: 'd
  bx_index :: nat
  bx_is_vf :: bool

record 'd pf_dev =
  pd_index :: u8
  pd_bar_ctx :: "nat \<Rightarrow> 'd pf_bar_ctx option"
  pd_bar_sizes :: "u64 list"
  pd_num_bars :: nat
  pd_msix_vectors :: u16
  pd_num_vfs :: u16
  pd_vf_device_id :: u16
  pd_vf_bar_sizes :: "u64 list"
  pd_vf_msix_vectors :: u16
  pd_bridge :: "nat option"              \<comment> \<open>address of the bridge context\<close>
  pd_poller :: bool
  pd_tag_mask :: u16
  pd_topo :: bool                        \<comment> \<open>points to the shared topology\<close>
  pd_bh :: bool
  pd_queue :: "(u32 \<times> u16) msi_queue"

record 'd vf_dev =
  vf_parent :: "'d option"
  vf_index :: u16
  vf_bar_ctx :: "nat \<Rightarrow> 'd pf_bar_ctx option"
  vf_num_bars :: nat
  vf_msix_vectors :: u16

record ('p, 'd, 'q) cosim_world =
  cw_heap :: "nat \<Rightarrow> 'p bridge_ctx option"
  cw_fresh :: nat
  cw_pf :: "'d \<Rightarrow> 'd pf_dev"
  cw_vf :: "'d \<Rightarrow> 'd vf_dev"
  g_bridge :: "nat option"               \<comment> \<open>\<open>g_cosim_shared\<close>\<close>
  g_poller :: bool
  g_topo :: topology_resp
  g_devices :: "'d option list"
  g_num_pfs :: nat
  g_initialized :: bool
  cw_qemu :: 'q

definition pf_new :: "u8 \<Rightarrow> 'd pf_dev" where
  "pf_new idx = \<lparr>pd_index = idx, pd_bar_ctx = (\<lambda>_. None), pd_bar_sizes = replicate 6 0, pd_num_bars = 0,
     pd_msix_vectors = 0, pd_num_vfs = 0, pd_vf_device_id = 0, pd_vf_bar_sizes = replicate 6 0, pd_vf_msix_vectors = 0,
     pd_bridge = None, pd_poller = False, pd_tag_mask = 0, pd_topo = False, pd_bh = False, pd_queue = msi_queue_new (0, 0)\<rparr>"

definition vf_new :: "'d vf_dev" where
  "vf_new = \<lparr>vf_parent = None, vf_index = 0, vf_bar_ctx = (\<lambda>_. None), vf_num_bars = 0, vf_msix_vectors = 0\<rparr>"

definition world_start :: "'q \<Rightarrow> ('p, 'd, 'q) cosim_world" where
  "world_start q = \<lparr>cw_heap = (\<lambda>_. None), cw_fresh = 0, cw_pf = (\<lambda>_. pf_new 0), cw_vf = (\<lambda>_. vf_new),
     g_bridge = None, g_poller = False, g_topo = topology_zero, g_devices = replicate COSIM_MAX_PF_DEVICES None,
     g_num_pfs = 0, g_initialized = False, cw_qemu = q\<rparr>"

definition upd_pf :: "'d \<Rightarrow> ('d pf_dev \<Rightarrow> 'd pf_dev) \<Rightarrow> ('p, 'd, 'q) cosim_world \<Rightarrow> ('p, 'd, 'q) cosim_world" where
  "upd_pf d f w = w\<lparr>cw_pf := (cw_pf w)(d := f (cw_pf w d))\<rparr>"

text \<open>An action on the context a pointer refers to.\<close>

definition on_bridge :: "nat option \<Rightarrow> ('p bridge_ctx \<Rightarrow> 'a \<times> 'p bridge_ctx) \<Rightarrow> ('p, 'd, 'q) cosim_world
    \<Rightarrow> ('a \<times> ('p, 'd, 'q) cosim_world) option" where
  "on_bridge ptr f w = (case ptr of None \<Rightarrow> None | Some a \<Rightarrow> (case cw_heap w a of
     None \<Rightarrow> None
   | Some ctx \<Rightarrow> (case f ctx of (r, ctx1) \<Rightarrow> Some (r, w\<lparr>cw_heap := (cw_heap w)(a := Some ctx1)\<rparr>))))"

text \<open>Elements of the two arrays of the global.\<close>

definition topo_pf :: "nat \<Rightarrow> ('p, 'd, 'q) cosim_world \<Rightarrow> pf_topology option" where
  "topo_pf i w = (if i < length (tp_pfs (g_topo w)) then Some (tp_pfs (g_topo w) ! i) else None)"

definition device_slot :: "nat \<Rightarrow> ('p, 'd, 'q) cosim_world \<Rightarrow> 'd option option" where
  "device_slot i w = (if i < length (g_devices w) then Some (g_devices w ! i) else None)"

subsection \<open>Finding functions by BDF\<close>

fun find_pf_from :: "nat \<Rightarrow> nat \<Rightarrow> u16 \<Rightarrow> ('p, 'd, 'q) cosim_world \<Rightarrow> int option" where
  "find_pf_from 0 i bdf w = Some (-1)"
| "find_pf_from (Suc n) i bdf w = (case topo_pf i w of
     None \<Rightarrow> None
   | Some t \<Rightarrow> if pf_bdf t = bdf then Some (int i) else find_pf_from n (Suc i) bdf w)"

definition cosim_find_pf_by_bdf :: "u16 \<Rightarrow> ('p, 'd, 'q) cosim_world \<Rightarrow> int option" where
  "cosim_find_pf_by_bdf bdf w = find_pf_from (g_num_pfs w) 0 bdf w"

text \<open>The comparison of the VF range is made in \<open>int\<close>.\<close>

definition in_vf_range :: "u16 \<Rightarrow> pf_topology \<Rightarrow> bool" where
  "in_vf_range rid t \<longleftrightarrow> pf_num_vfs t > 0 \<and> rid > pf_bdf t \<and> uint rid \<le> uint (pf_bdf t) + uint (pf_num_vfs t)"

fun find_owner_from :: "nat \<Rightarrow> nat \<Rightarrow> u16 \<Rightarrow> ('p, 'd, 'q) cosim_world \<Rightarrow> 'd option option" where
  "find_owner_from 0 i rid w = Some None"
| "find_owner_from (Suc n) i rid w = (case device_slot i w of
     None \<Rightarrow> None
   | Some None \<Rightarrow> find_owner_from n (Suc i) rid w
   | Some (Some d) \<Rightarrow> (case topo_pf i w of
       None \<Rightarrow> None
     | Some t \<Rightarrow> if pf_bdf t = rid \<or> in_vf_range rid t then Some (Some d) else find_owner_from n (Suc i) rid w))"

definition find_device_owner :: "u16 \<Rightarrow> ('p, 'd, 'q) cosim_world \<Rightarrow> 'd option option" where
  "find_device_owner rid w = find_owner_from (g_num_pfs w) 0 rid w"

subsection \<open>Memory accesses\<close>

definition bar_bridge :: "'d pf_bar_ctx \<Rightarrow> ('p, 'd, 'q) cosim_world \<Rightarrow> nat option" where
  "bar_bridge bc w = (if bx_is_vf bc then g_bridge w else pd_bridge (cw_pf w (bx_dev bc)))"

definition pcie_addr :: "('d, 'q) qemu \<Rightarrow> 'd pf_bar_ctx \<Rightarrow> u64 \<Rightarrow> ('p, 'd, 'q) cosim_world \<Rightarrow> u64" where
  "pcie_addr Q bc addr w = q_bar_addr Q (bx_dev bc) (int (bx_index bc)) (cw_qemu w) + addr"

definition cosim_pf_mmio_read :: "'p transport \<Rightarrow> ('d, 'q) qemu \<Rightarrow> 'd pf_bar_ctx \<Rightarrow> u64 \<Rightarrow> nat
    \<Rightarrow> ('p, 'd, 'q) cosim_world \<Rightarrow> (u64 \<times> ('p, 'd, 'q) cosim_world) option" where
  "cosim_pf_mmio_read ops Q bc addr sz w =
     (if bar_bridge bc w = None then Some (0xFFFFFFFF, w)
      else on_bridge (bar_bridge bc w) (mmio_read_via ops (pcie_addr Q bc addr w) sz) w)"

definition cosim_pf_mmio_write :: "'p transport \<Rightarrow> ('d, 'q) qemu \<Rightarrow> 'd pf_bar_ctx \<Rightarrow> u64 \<Rightarrow> u64 \<Rightarrow> nat
    \<Rightarrow> ('p, 'd, 'q) cosim_world \<Rightarrow> ('p, 'd, 'q) cosim_world option" where
  "cosim_pf_mmio_write ops Q bc addr val sz w =
     (if bar_bridge bc w = None then Some w
      else map_option snd (on_bridge (bar_bridge bc w) (\<lambda>ctx. ((), mmio_write_via ops (pcie_addr Q bc addr w) val sz ctx)) w))"

subsection \<open>Configuration space\<close>

definition PCI_STATUS :: u32 where [code_consts]: "PCI_STATUS = 0x06"
definition PCI_HEADER_TYPE :: u32 where [code_consts]: "PCI_HEADER_TYPE = 0x0E"
definition PCI_CAPABILITY_LIST :: u32 where [code_consts]: "PCI_CAPABILITY_LIST = 0x34"
definition PCI_CONFIG_SPACE_SIZE :: u32 where [code_consts]: "PCI_CONFIG_SPACE_SIZE = 0x100"
definition PCI_SRIOV_CTRL :: u32 where [code_consts]: "PCI_SRIOV_CTRL = 0x08"

definition cosim_pf_addr_is_local :: "u32 \<Rightarrow> nat \<Rightarrow> bool" where
  "cosim_pf_addr_is_local address len \<longleftrightarrow>
     address = PCI_CAPABILITY_LIST \<or> address = 0x34 \<or> address = 0x35 \<or> address = 0x36 \<or> address = 0x37
     \<or> address \<ge> 0x40 \<and> address < PCI_CONFIG_SPACE_SIZE \<or> address \<ge> PCI_CONFIG_SPACE_SIZE
     \<or> address \<le> PCI_STATUS \<and> address + of_nat len > PCI_STATUS"

text \<open>\<open>target_bdf\<close>: the BDF of this function in the topology, 0 without one.\<close>

definition own_bdf :: "'d \<Rightarrow> ('p, 'd, 'q) cosim_world \<Rightarrow> u16 option" where
  "own_bdf d w = (if pd_topo (cw_pf w d) then map_option pf_bdf (topo_pf (unat (pd_index (cw_pf w d))) w) else Some 0)"

text \<open>The multi-function bit that function 0 shows in its header type.\<close>

definition add_multifunction :: "'d \<Rightarrow> u32 \<Rightarrow> nat \<Rightarrow> ('p, 'd, 'q) cosim_world \<Rightarrow> u32 \<Rightarrow> u32" where
  "add_multifunction d address len w val =
     (if pd_index (cw_pf w d) = 0 \<and> address \<le> PCI_HEADER_TYPE \<and> address + of_nat len > PCI_HEADER_TYPE \<and> g_num_pfs w > 1
      then val OR push_bit (unat (PCI_HEADER_TYPE - address) * 8) 0x80 else val)"

definition cfg_read_via :: "'p transport \<Rightarrow> u32 \<Rightarrow> nat \<Rightarrow> u16 \<Rightarrow> 'p bridge_ctx \<Rightarrow> u32 option \<times> 'p bridge_ctx" where
  "cfg_read_via ops address len target ctx =
     (case bridge_send_tlp_and_wait_bdf ops (cfg_read_req address 0 target) cpl_zero 0 target ctx of
        (r, req, cpl, ctx1) \<Rightarrow>
          (if r < 0 then None else Some (cfg_value len (low2 address) (data_dword (c_data cpl))), ctx1))"

definition cosim_pf_config_read :: "'p transport \<Rightarrow> ('d, 'q) qemu \<Rightarrow> 'd \<Rightarrow> u32 \<Rightarrow> nat
    \<Rightarrow> ('p, 'd, 'q) cosim_world \<Rightarrow> (u32 \<times> ('p, 'd, 'q) cosim_world) option" where
  "cosim_pf_config_read ops Q d address len w =
     (if pd_bridge (cw_pf w d) = None \<or> cosim_pf_addr_is_local address len
      then Some (q_read_config Q d address len (cw_qemu w), w)
      else Option.bind (own_bdf d w) (\<lambda>target.
        map_option (\<lambda>(v, w1). (case v of
            None \<Rightarrow> q_read_config Q d address len (cw_qemu w1)
          | Some v \<Rightarrow> add_multifunction d address len w1 v, w1))
          (on_bridge (pd_bridge (cw_pf w d)) (cfg_read_via ops address len target) w)))"

definition vf_event_for :: "u32 \<Rightarrow> u8 \<Rightarrow> u16 \<Rightarrow> vf_event" where
  "vf_event_for data idx active =
     (if data AND 1 \<noteq> 0 \<and> active > 0
      then \<lparr>v_event_type = VF_EVENT_ENABLE, v_pf_index = idx, v_num_vfs = active\<rparr>
      else \<lparr>v_event_type = VF_EVENT_DISABLE, v_pf_index = idx, v_num_vfs = 0\<rparr>)"

definition cosim_pf_config_write :: "'p transport \<Rightarrow> ('d, 'q) qemu \<Rightarrow> 'd \<Rightarrow> u32 \<Rightarrow> u32 \<Rightarrow> nat
    \<Rightarrow> ('p, 'd, 'q) cosim_world \<Rightarrow> ('p, 'd, 'q) cosim_world option" where
  "cosim_pf_config_write ops Q d address data len w =
     (let w1 = w\<lparr>cw_qemu := q_write_config Q d address data len (cw_qemu w)\<rparr>;
          pf = cw_pf w1 d;
          notified = (if pd_bridge pf \<noteq> None \<and> pd_num_vfs pf > 0 \<and> address = COSIM_SRIOV_CAP_OFFSET + PCI_SRIOV_CTRL \<and> len = 2
            then map_option snd (on_bridge (pd_bridge pf)
              (bridge_send_vf_event ops (vf_event_for data (pd_index pf) (q_num_vfs Q d (cw_qemu w1)))) w1)
            else Some w1)
      in if pd_bridge pf = None \<or> cosim_pf_addr_is_local address len then notified
         else Option.bind notified (\<lambda>w2. Option.bind (own_bdf d w2) (\<lambda>target.
           map_option snd (on_bridge (pd_bridge pf)
             (\<lambda>ctx. ((), snd (snd (bridge_send_tlp_fire ops (cfg_write_req address data len 0 target) ctx)))) w2))))"

subsection \<open>DMA\<close>

definition cosim_pf_dma_cb :: "'p transport \<Rightarrow> ('d, 'q) qemu \<Rightarrow> 'd \<Rightarrow> dma_req
    \<Rightarrow> ('p, 'd, 'q) cosim_world \<Rightarrow> ('p, 'd, 'q) cosim_world option" where
  "cosim_pf_dma_cb ops Q d req w = (case pd_bridge (cw_pf w d) of None \<Rightarrow> None | Some a \<Rightarrow> (case cw_heap w a of
     None \<Rightarrow> None
   | Some ctx \<Rightarrow> map_option (\<lambda>(ctx1, q1). w\<lparr>cw_heap := (cw_heap w)(a := Some ctx1), cw_qemu := q1\<rparr>)
       (dma_cb_via ops (q_mem_write Q) (q_mem_write Q) (q_mem_read Q) req ctx (cw_qemu w))))"

subsection \<open>Interrupts\<close>

text \<open>The callback of the poller, and the bottom half: the function with the requester's BDF, or the device
  at that BDF on the bus of the function that owns the range, is notified by MSI-X, MSI or its pin.\<close>

definition cosim_pf_msi_cb :: "('d, 'q) qemu \<Rightarrow> 'd \<Rightarrow> u16 \<Rightarrow> u16
    \<Rightarrow> ('p, 'd, 'q) cosim_world \<Rightarrow> ('p, 'd, 'q) cosim_world option" where
  "cosim_pf_msi_cb Q d rid vector w = (case msi_put (ucast rid, vector) (pd_queue (cw_pf w d)) of
     None \<Rightarrow> None
   | Some (False, q) \<Rightarrow> Some w
   | Some (True, q) \<Rightarrow> Some (upd_pf d (\<lambda>pf. pf\<lparr>pd_queue := q\<rparr>) w\<lparr>cw_qemu := q_schedule_bh Q (cw_qemu w)\<rparr>))"

fun find_pf_device :: "nat \<Rightarrow> nat \<Rightarrow> u16 \<Rightarrow> ('p, 'd, 'q) cosim_world \<Rightarrow> 'd option option" where
  "find_pf_device 0 i rid w = Some None"
| "find_pf_device (Suc n) i rid w = (case device_slot i w of
     None \<Rightarrow> None
   | Some None \<Rightarrow> find_pf_device n (Suc i) rid w
   | Some (Some d) \<Rightarrow> (case topo_pf i w of
       None \<Rightarrow> None
     | Some t \<Rightarrow> if pf_bdf t = rid then Some (Some d) else find_pf_device n (Suc i) rid w))"

definition msix_target :: "('d, 'q) qemu \<Rightarrow> u16 \<Rightarrow> ('p, 'd, 'q) cosim_world \<Rightarrow> 'd option option" where
  "msix_target Q rid w = (case find_pf_device (g_num_pfs w) 0 rid w of
     None \<Rightarrow> None
   | Some (Some d) \<Rightarrow> Some (Some d)
   | Some None \<Rightarrow> map_option (\<lambda>owner. Option.bind owner (\<lambda>d.
       q_find_device Q d (unat (drop_bit 8 rid AND 0xFF)) (unat (rid AND 0xFF)) (cw_qemu w)))
       (find_device_owner rid w))"

definition notify_device :: "('d, 'q) qemu \<Rightarrow> 'd \<Rightarrow> u16 \<Rightarrow> 'q \<Rightarrow> 'q" where
  "notify_device Q d vector q =
     (if q_msix_enabled Q d q then q_msix_notify Q d (ucast vector) q
      else if q_msi_enabled Q d q then q_msi_notify Q d (ucast vector) q
      else q_set_irq Q d True q)"

definition msix_deliver :: "('d, 'q) qemu \<Rightarrow> u32 \<times> u16 \<Rightarrow> ('p, 'd, 'q) cosim_world \<Rightarrow> ('p, 'd, 'q) cosim_world option" where
  "msix_deliver Q = (\<lambda>(rid, vector) w. case msix_target Q (ucast rid) w of
     None \<Rightarrow> None
   | Some None \<Rightarrow> Some w
   | Some (Some d) \<Rightarrow> Some (w\<lparr>cw_qemu := notify_device Q d vector (cw_qemu w)\<rparr>))"

definition cosim_pf_msix_bh_cb :: "('d, 'q) qemu \<Rightarrow> 'd \<Rightarrow> ('p, 'd, 'q) cosim_world \<Rightarrow> ('p, 'd, 'q) cosim_world option" where
  "cosim_pf_msix_bh_cb Q d w = map_option (\<lambda>(q, w1). upd_pf d (\<lambda>pf. pf\<lparr>pd_queue := q\<rparr>) w1)
     (msi_drain (msix_deliver Q) (pd_queue (cw_pf w d)) w)"

subsection \<open>Realize\<close>

definition call_qemu :: "('d, 'q) qemu \<Rightarrow> 'd \<Rightarrow> qemu_call \<Rightarrow> ('p, 'd, 'q) cosim_world \<Rightarrow> int \<times> ('p, 'd, 'q) cosim_world" where
  "call_qemu Q d c w = (case q_call Q d c (cw_qemu w) of (r, q) \<Rightarrow> (r, w\<lparr>cw_qemu := q\<rparr>))"

text \<open>Step 1: function 0 opens the bridge and asks for the topology, the others take what is there.\<close>

definition pf_open :: "'p transport \<Rightarrow> 'p bridge_answers \<Rightarrow> dev_props \<Rightarrow> 'd \<Rightarrow> ('p, 'd, 'q) cosim_world
    \<Rightarrow> (realize_error option \<times> ('p, 'd, 'q) cosim_world) option" where
  "pf_open ops ans props d w =
     (if g_initialized w then Some (Some Already_Initialized, w)
      else case open_bridge ops ans props of
          None \<Rightarrow> None
        | Some (Inl e) \<Rightarrow> Some (Some e, upd_pf d (\<lambda>pf. pf\<lparr>pd_bridge := None\<rparr>) w)
        | Some (Inr ctx) \<Rightarrow>
            (case bridge_query_topology ops ctx of
               (Failed, ctx1) \<Rightarrow> Some (Some Topology_Failed, upd_pf d (\<lambda>pf. pf\<lparr>pd_bridge := None\<rparr>) (w\<lparr>g_topo := topology_zero\<rparr>))
             | (got, ctx1) \<Rightarrow>
                 (let t = (case got of Got t \<Rightarrow> t | _ \<Rightarrow> topology_zero); a = cw_fresh w
                  in Some (None, upd_pf d (\<lambda>pf. pf\<lparr>pd_bridge := Some a, pd_topo := True,
                         pd_tag_mask := tag_width_to_mask (th_tag_width (tp_header t))\<rparr>)
                       (w\<lparr>cw_heap := (cw_heap w)(a := Some ctx1), cw_fresh := Suc a, g_bridge := Some a, g_topo := t,
                          g_num_pfs := unat (th_num_pfs (tp_header t))\<rparr>)))))"

definition pf_share :: "'d \<Rightarrow> ('p, 'd, 'q) cosim_world \<Rightarrow> ('p, 'd, 'q) cosim_world" where
  "pf_share d w = upd_pf d (\<lambda>pf. pf\<lparr>pd_bridge := g_bridge w, pd_topo := True,
     pd_tag_mask := tag_width_to_mask (th_tag_width (tp_header (g_topo w)))\<rparr>) w"

text \<open>Steps 1 and 2: registration, and the function's part of the topology.\<close>

definition pf_register :: "'d \<Rightarrow> ('p, 'd, 'q) cosim_world \<Rightarrow> ('p, 'd, 'q) cosim_world option" where
  "pf_register d w =
     (let idx = unat (pd_index (cw_pf w d));
          w1 = (if idx < COSIM_MAX_PF_DEVICES then w\<lparr>g_devices := (g_devices w)[idx := Some d]\<rparr> else w)
      in map_option (\<lambda>t. upd_pf d (\<lambda>pf. pf\<lparr>pd_msix_vectors := pf_msix_vectors t, pd_num_vfs := pf_num_vfs t,
           pd_vf_device_id := pf_vf_device_id t, pd_vf_msix_vectors := pf_vf_msix_vectors t,
           pd_bar_sizes := pf_bar_size t, pd_vf_bar_sizes := pf_vf_bar_size t\<rparr>) w1) (topo_pf idx w1))"

text \<open>Step 3: the 64-bit BARs 0, 2 and 4.\<close>

definition pf_bar :: "('d, 'q) qemu \<Rightarrow> 'd \<Rightarrow> nat \<Rightarrow> ('p, 'd, 'q) cosim_world \<Rightarrow> ('p, 'd, 'q) cosim_world" where
  "pf_bar Q d i w =
     (let sz = pd_bar_sizes (cw_pf w d) ! i
      in if sz = 0 then w
         else snd (call_qemu Q d (Register_Bar i sz)
           (upd_pf d (\<lambda>pf. pf\<lparr>pd_bar_ctx := (pd_bar_ctx pf)(i := Some \<lparr>bx_dev = d, bx_index = i, bx_is_vf = False\<rparr>),
              pd_num_bars := Suc (pd_num_bars pf)\<rparr>) w)))"

definition pba_offset :: "u16 \<Rightarrow> u32" where
  "pba_offset vectors = (ucast vectors * 16 + 0xFFF) AND NOT 0xFFF"

definition pf_bars :: "('d, 'q) qemu \<Rightarrow> 'd \<Rightarrow> ('p, 'd, 'q) cosim_world \<Rightarrow> ('p, 'd, 'q) cosim_world" where
  "pf_bars Q d w = snd (call_qemu Q d Set_Interrupt_Pin (snd (call_qemu Q d Enable_Bus_Master
     (fold (pf_bar Q d) [0, 2, 4] w))))"

text \<open>Steps 4 and 5: MSI-X, the PCIe capability and SR-IOV.\<close>

definition pf_msix :: "('d, 'q) qemu \<Rightarrow> 'd \<Rightarrow> ('p, 'd, 'q) cosim_world \<Rightarrow> ('p, 'd, 'q) cosim_world" where
  "pf_msix Q d w = (let v = pd_msix_vectors (cw_pf w d)
     in if v > 0 then snd (call_qemu Q d (Msix_Init v (pba_offset v)) w) else w)"

definition vf_bar_cap :: "('d, 'q) qemu \<Rightarrow> 'd \<Rightarrow> nat \<Rightarrow> ('p, 'd, 'q) cosim_world \<Rightarrow> ('p, 'd, 'q) cosim_world" where
  "vf_bar_cap Q d i w = (let sz = pd_vf_bar_sizes (cw_pf w d) ! i
     in if sz = 0 then w else snd (call_qemu Q d (Sriov_Vf_Bar i sz) w))"

text \<open>The number of functions that VF offset and stride step over.\<close>

definition npfs :: "('p, 'd, 'q) cosim_world \<Rightarrow> u16" where
  "npfs w = (if g_num_pfs w > 1 then of_nat (g_num_pfs w) else 1)"

definition pf_sriov :: "('d, 'q) qemu \<Rightarrow> 'd \<Rightarrow> ('p, 'd, 'q) cosim_world \<Rightarrow> ('p, 'd, 'q) cosim_world" where
  "pf_sriov Q d w = (case call_qemu Q d (Pcie_Cap_Init 0x80) w of
     (r, w1) \<Rightarrow> (let pf = cw_pf w1 d
       in if pd_num_vfs pf > 0 \<and> r \<ge> 0
          then fold (vf_bar_cap Q d) [0, 2, 4]
            (snd (call_qemu Q d (Sriov_Init (pd_vf_device_id pf) (pd_num_vfs pf) (npfs w1) (npfs w1)) w1))
          else w1))"

definition pf_setup :: "('d, 'q) qemu \<Rightarrow> 'd \<Rightarrow> ('p, 'd, 'q) cosim_world \<Rightarrow> ('p, 'd, 'q) cosim_world option" where
  "pf_setup Q d w = map_option (\<lambda>w1. pf_sriov Q d (pf_msix Q d (pf_bars Q d w1))) (pf_register d w)"

text \<open>A function other than 0.\<close>

definition pf_realize_shared :: "('d, 'q) qemu \<Rightarrow> 'd \<Rightarrow> ('p, 'd, 'q) cosim_world \<Rightarrow> ('p, 'd, 'q) cosim_world option" where
  "pf_realize_shared Q d w = map_option (\<lambda>w1.
       upd_pf d (\<lambda>pf. pf\<lparr>pd_poller := g_poller w1\<rparr>)
         (case g_devices w1 ! 0 of
            Some d0 \<Rightarrow> upd_pf d (\<lambda>pf. pf\<lparr>pd_bh := pd_bh (cw_pf w1 d0),
               pd_queue := (pd_queue pf)\<lparr>mq_head := 0, mq_tail := 0\<rparr>\<rparr>) w1
          | None \<Rightarrow> w1))
     (pf_setup Q d (pf_share d (upd_pf d (\<lambda>pf. pf\<lparr>pd_num_bars := 0\<rparr>) w)))"

text \<open>Step 6: the functions 1 to 7 that the topology names are created on the slot of function 0.\<close>

fun create_pfs :: "('d, 'q) qemu \<Rightarrow> 'd \<Rightarrow> nat list \<Rightarrow> ('p, 'd, 'q) cosim_world \<Rightarrow> ('p, 'd, 'q) cosim_world option" where
  "create_pfs Q d [] w = Some w"
| "create_pfs Q d (i # is) w = (case q_new_function Q d i (cw_qemu w) of
     ((dn, ok), q) \<Rightarrow>
       (let w1 = upd_pf dn (\<lambda>_. pf_new (of_nat i)) (w\<lparr>cw_qemu := q\<rparr>)
        in Option.bind (if ok then pf_realize_shared Q dn w1 else Some w1) (create_pfs Q d is)))"

definition destroy_bridge :: "'p transport \<Rightarrow> nat \<Rightarrow> ('p, 'd, 'q) cosim_world \<Rightarrow> ('p, 'd, 'q) cosim_world option" where
  "destroy_bridge ops a w = map_option (\<lambda>(_, w1). w1\<lparr>cw_heap := (cw_heap w1)(a := None), g_bridge := None\<rparr>)
     (on_bridge (Some a) (\<lambda>ctx. ((), fst (bridge_destroy ops None ctx))) w)"

definition pf_start :: "'p transport \<Rightarrow> 'p bridge_answers \<Rightarrow> ('d, 'q) qemu \<Rightarrow> 'd \<Rightarrow> ('p, 'd, 'q) cosim_world
    \<Rightarrow> (realize_error option \<times> ('p, 'd, 'q) cosim_world) option" where
  "pf_start ops ans Q d w =
     (let w1 = snd (call_qemu Q d New_Bh (upd_pf d (\<lambda>pf. pf\<lparr>pd_bh := True,
            pd_queue := (pd_queue pf)\<lparr>mq_head := 0, mq_tail := 0\<rparr>\<rparr>) w))
      in if \<not> ba_poller_ok ans
         then Option.bind (pd_bridge (cw_pf w1 d)) (\<lambda>a. map_option (\<lambda>w2. (Some Poller_Failed,
             upd_pf d (\<lambda>pf. pf\<lparr>pd_bridge := None, pd_poller := False\<rparr>) w2)) (destroy_bridge ops a w1))
         else map_option (\<lambda>w2. (None, w2))
           (create_pfs Q d [1..<min (g_num_pfs w1) COSIM_MAX_PF_DEVICES]
             (snd (call_qemu Q d Set_Multifunction
               (upd_pf d (\<lambda>pf. pf\<lparr>pd_poller := True\<rparr>) w1\<lparr>g_poller := True, g_initialized := True\<rparr>)))))"

definition cosim_pcie_pf_realize :: "'p transport \<Rightarrow> 'p bridge_answers \<Rightarrow> dev_props \<Rightarrow> ('d, 'q) qemu \<Rightarrow> 'd
    \<Rightarrow> ('p, 'd, 'q) cosim_world \<Rightarrow> (realize_error option \<times> ('p, 'd, 'q) cosim_world) option" where
  "cosim_pcie_pf_realize ops ans props Q d w =
     (if pd_index (cw_pf w d) = 0
      then case pf_open ops ans props d (upd_pf d (\<lambda>pf. pf\<lparr>pd_num_bars := 0\<rparr>) w) of
          None \<Rightarrow> None
        | Some (Some e, w1) \<Rightarrow> Some (Some e, w1)
        | Some (None, w1) \<Rightarrow> Option.bind (pf_setup Q d w1) (pf_start ops ans Q d)
      else map_option (\<lambda>w1. (None, w1)) (pf_realize_shared Q d w))"

subsection \<open>Exit\<close>

definition pf_release :: "'p transport \<Rightarrow> ('d, 'q) qemu \<Rightarrow> 'd \<Rightarrow> ('p, 'd, 'q) cosim_world \<Rightarrow> ('p, 'd, 'q) cosim_world option" where
  "pf_release ops Q d w =
     (let pf = cw_pf w d;
          w1 = (if pd_poller pf then upd_pf d (\<lambda>pf. pf\<lparr>pd_poller := False\<rparr>) w\<lparr>g_poller := False\<rparr> else w);
          w2 = (if pd_bh pf then snd (call_qemu Q d Delete_Bh (upd_pf d (\<lambda>pf. pf\<lparr>pd_bh := False\<rparr>) w1)) else w1)
      in map_option (\<lambda>w3. w3\<lparr>g_initialized := False\<rparr>)
          (case pd_bridge pf of
             None \<Rightarrow> Some w2
           | Some a \<Rightarrow> map_option (upd_pf d (\<lambda>pf. pf\<lparr>pd_bridge := None\<rparr>)) (destroy_bridge ops a w2)))"

definition cosim_pcie_pf_exit :: "'p transport \<Rightarrow> ('d, 'q) qemu \<Rightarrow> 'd \<Rightarrow> ('p, 'd, 'q) cosim_world
    \<Rightarrow> ('p, 'd, 'q) cosim_world option" where
  "cosim_pcie_pf_exit ops Q d w = map_option (\<lambda>w1.
       (let idx = unat (pd_index (cw_pf w1 d));
            w2 = (if idx < COSIM_MAX_PF_DEVICES then w1\<lparr>g_devices := (g_devices w1)[idx := None]\<rparr> else w1);
            w3 = (if pd_num_vfs (cw_pf w2 d) > 0 then snd (call_qemu Q d Sriov_Exit w2) else w2)
        in snd (call_qemu Q d Msix_Uninit (snd (call_qemu Q d Pcie_Cap_Exit w3)))))
     (if pd_index (cw_pf w d) = 0 then pf_release ops Q d w else Some w)"

end
