(* ===== verification/Pcie_Pf_Access.thy ===== *)
theory Pcie_Pf_Access
  imports Pcie_Pf
begin

section \<open>Accesses of the guest through a physical or virtual function\<close>

text \<open>What the accesses of cosim\_pcie\_pf.c achieve: lanes, requests on the wire, interrupts, and the
  search for the function behind a BDF.\<close>

subsection \<open>Requests\<close>

lemma mmio_write_lanes:
  "merge_lanes be (t_data (mmio_write_req a sz val)) old
    = merge_lanes be (dword_bytes 4 (push_bit (low2 a * 8) (ucast val))) old"
proof -
  have "(dword_bytes 4 v @ rest) ! i = dword_bytes 4 v ! i" if "i < 4" for v rest i
    using that by (simp add: nth_append)
  then show ?thesis unfolding merge_lanes_def mmio_write_req_def
    by (intro arg_cong [where f = data_dword] map_cong) auto
qed

lemma mmio_req_fields [simp]:
  "t_first_be (mmio_write_req a sz val) = byte_enables sz (low2 a)"
  "t_addr (mmio_write_req a sz val) = dword_addr a" "t_addr (mmio_read_req a sz) = dword_addr a"
  "wf_tlp (mmio_write_req a sz val)" "wf_tlp (mmio_read_req a sz)"
  by (simp_all add: mmio_write_req_def mmio_read_req_def mmio_req_def wf_tlp_def tlp_zero_def)

text \<open>Over TCP, with the completions on the way.\<close>

lemma tcp_mmio_write:
  assumes "tcp_inbox ctx ms cs" and "bc_transport ctx = Some p"
  shows "\<exists>ctx1 p1. mmio_write_via tcp_transport a val sz ctx = ctx1 \<and> tcp_inbox ctx1 ms cs \<and> bc_transport ctx1 = Some p1
    \<and> bc_next_tag ctx1 = (bc_next_tag ctx + 1) AND bc_tag_mask ctx \<and> bc_tag_mask ctx1 = bc_tag_mask ctx
    \<and> sk_out (tp_data p1) = sk_out (tp_data p) @ msg_bytes TCP_MSG_TLP
        (enc_tlp ((mmio_write_req a sz val)\<lparr>t_tag := bc_next_tag ctx AND bc_tag_mask ctx\<rparr>))"
proof -
  from tcp_send_tlp_done [OF assms, of "mmio_write_req a sz val"] obtain ctx1 p1
    where s: "bridge_send_tlp tcp_transport (mmio_write_req a sz val) ctx
        = (0, (mmio_write_req a sz val)\<lparr>t_tag := bc_next_tag ctx AND bc_tag_mask ctx\<rparr>, ctx1)"
      "tcp_inbox ctx1 ms cs" "bc_transport ctx1 = Some p1"
      "sk_out (tp_data p1) = sk_out (tp_data p) @ msg_bytes TCP_MSG_TLP
        (enc_tlp ((mmio_write_req a sz val)\<lparr>t_tag := bc_next_tag ctx AND bc_tag_mask ctx\<rparr>))" by blast
  then show ?thesis
    using send_tlp_tag [OF s(1)] by (auto simp: mmio_write_via_def bridge_send_tlp_fire_def)
qed

lemma tcp_mmio_read:
  assumes "tcp_inbox ctx (replicate (Suc (length stale)) (sync_of SYNC_MSG_CPL_READY 0) @ ms) (stale @ c # cs)"
    and "bc_transport ctx = Some p" and "c_tag c = bc_next_tag ctx AND bc_tag_mask ctx"
    and "\<forall>s\<in>set stale. c_tag s \<noteq> c_tag c" and "length stale < 256"
  shows "\<exists>ctx1. mmio_read_via tcp_transport a sz ctx = (lane_value sz (low2 a) (data_dword (c_data c)), ctx1)
    \<and> tcp_inbox ctx1 ms cs"
  using tcp_send_and_wait [OF assms, of "mmio_read_req a sz" cpl_zero]
  by (auto simp: mmio_read_via_def)

lemma on_bridge_ok:
  assumes "cw_heap w a = Some ctx" and "f ctx = (r, ctx1)"
  shows "on_bridge (Some a) f w = Some (r, w\<lparr>cw_heap := (cw_heap w)(a := Some ctx1)\<rparr>)"
  using assms by (simp add: on_bridge_def)

lemma bar_heap [simp]:
  "bar_bridge bc (w\<lparr>cw_heap := h\<rparr>) = bar_bridge bc w" "pcie_addr Q bc addr (w\<lparr>cw_heap := h\<rparr>) = pcie_addr Q bc addr w"
  by (simp_all add: bar_bridge_def pcie_addr_def)

text \<open>C5: A guest write to a BAR leaves as one memory-write TLP for the DWORD of the address, and when the card
  applies it by its byte enables to the DWORD \<open>old\<close> it holds and completes the read that follows with the
  result, the guest reads back what it wrote, whatever the other bytes of the DWORD are and whatever
  completions of earlier posted requests are on the way.  This holds for every access inside one DWORD.\<close>

theorem pf_write_then_read:
  assumes "bar_bridge bc w = Some a" and "cw_heap w a = Some ctx" and "bc_transport ctx = Some p"
    and "tcp_inbox ctx (replicate (Suc (length stale)) (sync_of SYNC_MSG_CPL_READY 0) @ ms) (stale @ c # cs)"
    and "c_tag c = ((bc_next_tag ctx + 1) AND bc_tag_mask ctx) AND bc_tag_mask ctx"
    and "\<forall>s\<in>set stale. c_tag s \<noteq> c_tag c" and "length stale < 256"
    and "low2 (pcie_addr Q bc addr w) + sz \<le> 4"
    and "data_dword (c_data c) = merge_lanes (t_first_be (mmio_write_req (pcie_addr Q bc addr w) sz val))
           (t_data (mmio_write_req (pcie_addr Q bc addr w) sz val)) old"
  shows "\<exists>w1 w2 ctx1 p1. cosim_pf_mmio_write tcp_transport Q bc addr val sz w = Some w1
    \<and> cw_heap w1 a = Some ctx1 \<and> bc_transport ctx1 = Some p1
    \<and> sk_out (tp_data p1) = sk_out (tp_data p) @ msg_bytes TCP_MSG_TLP (enc_tlp
        ((mmio_write_req (pcie_addr Q bc addr w) sz val)\<lparr>t_tag := bc_next_tag ctx AND bc_tag_mask ctx\<rparr>))
    \<and> cosim_pf_mmio_read tcp_transport Q bc addr sz w1 = Some (take_bit (8 * sz) val, w2)"
proof -
  let ?a = "pcie_addr Q bc addr w"
  from tcp_mmio_write [OF assms(4,3), of ?a val sz] obtain ctx1 p1
    where w1: "mmio_write_via tcp_transport ?a val sz ctx = ctx1" "bc_transport ctx1 = Some p1"
      "tcp_inbox ctx1 (replicate (Suc (length stale)) (sync_of SYNC_MSG_CPL_READY 0) @ ms) (stale @ c # cs)"
      "bc_next_tag ctx1 = (bc_next_tag ctx + 1) AND bc_tag_mask ctx" "bc_tag_mask ctx1 = bc_tag_mask ctx"
      "sk_out (tp_data p1) = sk_out (tp_data p) @ msg_bytes TCP_MSG_TLP (enc_tlp
        ((mmio_write_req ?a sz val)\<lparr>t_tag := bc_next_tag ctx AND bc_tag_mask ctx\<rparr>))" by auto
  have tag: "c_tag c = bc_next_tag ctx1 AND bc_tag_mask ctx1" using assms(5) w1 by simp
  from tcp_mmio_read [OF w1(3,2) tag assms(6,7), of ?a sz] obtain ctx2
    where r: "mmio_read_via tcp_transport ?a sz ctx1 = (lane_value sz (low2 ?a) (data_dword (c_data c)), ctx2)" by blast
  have v: "lane_value sz (low2 ?a) (data_dword (c_data c)) = take_bit (8 * sz) val"
    unfolding assms(9) mmio_write_lanes mmio_req_fields by (rule write_read_lanes [OF assms(8)])
  let ?w1 = "w\<lparr>cw_heap := (cw_heap w)(a := Some ctx1)\<rparr>"
  have "cosim_pf_mmio_write tcp_transport Q bc addr val sz w = Some ?w1"
    using assms(1,2) w1(1) by (simp add: cosim_pf_mmio_write_def on_bridge_def)
  moreover have "cosim_pf_mmio_read tcp_transport Q bc addr sz ?w1
      = Some (take_bit (8 * sz) val, ?w1\<lparr>cw_heap := (cw_heap ?w1)(a := Some ctx2)\<rparr>)"
    using assms(1) r v by (simp add: cosim_pf_mmio_read_def on_bridge_def)
  ultimately show ?thesis using w1 by (intro exI [of _ ?w1] exI conjI) (assumption | simp)+
qed

text \<open>A function whose register DWORD at 0x100000 is 0x11223344; the completion of the posted write comes first.\<close>

definition rw_completions :: "u64 \<Rightarrow> nat \<Rightarrow> u64 \<Rightarrow> cpl_entry list" where
  "rw_completions a sz val = [cpl_zero, cpl_zero\<lparr>c_tag := 1, c_data := dword_bytes 4
     (merge_lanes (t_first_be (mmio_write_req a sz val)) (t_data (mmio_write_req a sz val)) 0x11223344) @ replicate 60 0\<rparr>]"

definition rw_world :: "(transport_tcp_priv, nat, plain_qemu) cosim_world" where
  "rw_world = (world_start plain_start)\<lparr>cw_heap := [0 \<mapsto> tcp_ctx_with [sync_of SYNC_MSG_CPL_READY 0, sync_of SYNC_MSG_CPL_READY 0]
       (rw_completions 0x100002 2 0xBEEF) None],
     cw_pf := (\<lambda>d. (pf_new 0)\<lparr>pd_bridge := Some 0\<rparr>)\<rparr>"

theorem pf_write_then_read_witness:
  "\<exists>w1 w2. cosim_pf_mmio_write tcp_transport plain \<lparr>bx_dev = 0, bx_index = 0, bx_is_vf = False\<rparr> 2 0xBEEF 2 rw_world = Some w1
    \<and> cosim_pf_mmio_read tcp_transport plain \<lparr>bx_dev = 0, bx_index = 0, bx_is_vf = False\<rparr> 2 2 w1 = Some (0xBEEF, w2)"
proof -
  let ?bc = "\<lparr>bx_dev = 0, bx_index = 0, bx_is_vf = False\<rparr>"
  let ?cs = "rw_completions 0x100002 2 0xBEEF"
  let ?ctx = "tcp_ctx_with [sync_of SYNC_MSG_CPL_READY 0, sync_of SYNC_MSG_CPL_READY 0] ?cs None"
  have a: "pcie_addr plain ?bc 2 rw_world = 0x100002" by (simp add: pcie_addr_def)
  have b: "bar_bridge ?bc rw_world = Some 0" "cw_heap rw_world 0 = Some ?ctx"
    by (simp_all add: bar_bridge_def rw_world_def)
  obtain p where p: "bc_transport ?ctx = Some p" by (simp add: tcp_ctx_with_def bridge_ctx_new_def)
  have wf: "list_all wf_cpl ?cs" by (simp add: rw_completions_def wf_cpl_def cpl_zero_def)
  have cs: "?cs = [hd ?cs] @ ?cs ! 1 # []" by (simp add: rw_completions_def)
  have i: "tcp_inbox ?ctx (replicate (Suc (length [hd ?cs])) (sync_of SYNC_MSG_CPL_READY 0) @ []) ([hd ?cs] @ ?cs ! 1 # [])"
    unfolding cs [symmetric] using tcp_ctx_with_inbox [OF wf] by simp
  have t: "c_tag (?cs ! 1) = ((bc_next_tag ?ctx + 1) AND bc_tag_mask ?ctx) AND bc_tag_mask ?ctx"
    "\<forall>s\<in>set [hd ?cs]. c_tag s \<noteq> c_tag (?cs ! 1)" "length [hd ?cs] < 256"
    by (simp_all add: rw_completions_def cpl_zero_def)
  have l: "low2 (pcie_addr plain ?bc 2 rw_world) + 2 \<le> 4" unfolding a by (simp add: low2_def)
  have d: "data_dword (c_data (?cs ! 1)) = merge_lanes (t_first_be (mmio_write_req (pcie_addr plain ?bc 2 rw_world) 2 0xBEEF))
      (t_data (mmio_write_req (pcie_addr plain ?bc 2 rw_world) 2 0xBEEF)) 0x11223344"
    unfolding a by (simp add: rw_completions_def)
  have v: "take_bit (8 * 2) (0xBEEF :: u64) = 0xBEEF" by simp
  from pf_write_then_read [OF b p i t l d] show ?thesis unfolding v by blast
qed

subsection \<open>Functions and their BDFs\<close>

definition pf_bdfs :: "('p, 'd, 'q) cosim_world \<Rightarrow> u16 list" where
  "pf_bdfs w = map pf_bdf (take (g_num_pfs w) (tp_pfs (g_topo w)))"

text \<open>A topology of at most as many functions as the arrays have elements, with different BDFs.\<close>

definition bdfs_ok :: "('p, 'd, 'q) cosim_world \<Rightarrow> bool" where
  "bdfs_ok w \<longleftrightarrow> g_num_pfs w \<le> length (tp_pfs (g_topo w)) \<and> g_num_pfs w \<le> length (g_devices w) \<and> distinct (pf_bdfs w)"

lemma pf_bdfs_nth: "bdfs_ok w \<Longrightarrow> i < g_num_pfs w \<Longrightarrow> pf_bdfs w ! i = pf_bdf (tp_pfs (g_topo w) ! i)"
  by (simp add: pf_bdfs_def bdfs_ok_def)

lemma find_pf_hit:
  assumes "bdfs_ok w" and "j < n" and "i + n = g_num_pfs w"
  shows "find_pf_from n i (pf_bdfs w ! (i + j)) w = Some (int (i + j))"
  using assms(2,3)
proof (induction n arbitrary: i j)
  case (Suc n)
  have t: "topo_pf i w = Some (tp_pfs (g_topo w) ! i)" "pf_bdf (tp_pfs (g_topo w) ! i) = pf_bdfs w ! i"
    using assms(1) Suc.prems pf_bdfs_nth [OF assms(1), of i] by (simp_all add: topo_pf_def bdfs_ok_def)
  have len: "length (pf_bdfs w) = g_num_pfs w" using assms(1) by (simp add: pf_bdfs_def bdfs_ok_def)
  show ?case
  proof (cases j)
    case 0
    then show ?thesis using t by simp
  next
    case (Suc k)
    then have "pf_bdfs w ! i \<noteq> pf_bdfs w ! (i + j)"
      using assms(1) Suc.prems len by (simp add: bdfs_ok_def nth_eq_iff_index_eq)
    then show ?thesis using t Suc.IH [of k "Suc i"] Suc.prems Suc by simp
  qed
qed simp

lemma find_pf_miss:
  assumes "bdfs_ok w" and "bdf \<notin> set (pf_bdfs w)" and "i + n = g_num_pfs w"
  shows "find_pf_from n i bdf w = Some (-1)"
  using assms(3)
proof (induction n arbitrary: i)
  case (Suc n)
  have "topo_pf i w = Some (tp_pfs (g_topo w) ! i)" "pf_bdf (tp_pfs (g_topo w) ! i) = pf_bdfs w ! i"
    using assms(1) Suc.prems pf_bdfs_nth [OF assms(1), of i] by (simp_all add: topo_pf_def bdfs_ok_def)
  moreover have "i < length (pf_bdfs w)" using Suc.prems assms(1) by (simp add: pf_bdfs_def bdfs_ok_def)
  then have "pf_bdfs w ! i \<in> set (pf_bdfs w)" by (rule nth_mem)
  ultimately show ?case using Suc.IH [of "Suc i"] Suc.prems assms(2) by auto
qed simp

text \<open>With more functions than elements, a search that finds nothing leaves the array.\<close>

lemma find_pf_out_of_bounds:
  assumes "length (tp_pfs (g_topo w)) < i + n" and "i \<le> length (tp_pfs (g_topo w))"
    and "\<forall>t\<in>set (tp_pfs (g_topo w)). pf_bdf t \<noteq> bdf"
  shows "find_pf_from n i bdf w = None"
  using assms
proof (induction n arbitrary: i)
  case (Suc n)
  show ?case
  proof (cases "i < length (tp_pfs (g_topo w))")
    case True
    then show ?thesis using Suc.IH [of "Suc i"] Suc.prems by (auto simp: topo_pf_def)
  next
    case False
    then show ?thesis by (simp add: topo_pf_def)
  qed
qed simp

lemma find_device_hit:
  assumes "bdfs_ok w" and "j < n" and "i + n = g_num_pfs w" and "g_devices w ! (i + j) = Some d"
  shows "find_pf_device n i (pf_bdfs w ! (i + j)) w = Some (Some d)"
  using assms(2-)
proof (induction n arbitrary: i j)
  case (Suc n)
  have t: "topo_pf i w = Some (tp_pfs (g_topo w) ! i)" "pf_bdf (tp_pfs (g_topo w) ! i) = pf_bdfs w ! i"
    "device_slot i w = Some (g_devices w ! i)"
    using assms(1) Suc.prems pf_bdfs_nth [OF assms(1), of i] by (simp_all add: topo_pf_def device_slot_def bdfs_ok_def)
  have len: "length (pf_bdfs w) = g_num_pfs w" using assms(1) by (simp add: pf_bdfs_def bdfs_ok_def)
  show ?case
  proof (cases j)
    case 0
    then show ?thesis using t Suc.prems by simp
  next
    case (Suc k)
    then have "pf_bdfs w ! i \<noteq> pf_bdfs w ! (i + j)"
      using assms(1) Suc.prems len by (simp add: bdfs_ok_def nth_eq_iff_index_eq)
    then show ?thesis using t Suc.IH [of k "Suc i"] Suc.prems Suc by (simp split: option.splits)
  qed
qed simp

lemma msix_target_pf:
  "bdfs_ok w \<Longrightarrow> i < g_num_pfs w \<Longrightarrow> g_devices w ! i = Some d \<Longrightarrow> msix_target Q (pf_bdfs w ! i) w = Some (Some d)"
  using find_device_hit [of w i "g_num_pfs w" 0 d] by (simp add: msix_target_def)

subsection \<open>Interrupts\<close>

lemma world_qemu [simp]:
  "bdfs_ok (w\<lparr>cw_qemu := q\<rparr>) = bdfs_ok w" "pf_bdfs (w\<lparr>cw_qemu := q\<rparr>) = pf_bdfs w"
  "bdfs_ok (upd_pf d f w) = bdfs_ok w" "pf_bdfs (upd_pf d f w) = pf_bdfs w"
  "cw_qemu (upd_pf d f w) = cw_qemu w" "g_devices (upd_pf d f w) = g_devices w" "g_num_pfs (upd_pf d f w) = g_num_pfs w"
  "cw_pf (upd_pf d f w) d = f (cw_pf w d)"
  by (simp_all add: bdfs_ok_def pf_bdfs_def upd_pf_def)

text \<open>The interrupts that arrive, and what is scheduled for them.\<close>

lemma msi_arrivals:
  assumes "msi_ok (pd_queue (cw_pf w d))" and "mq_tail (pd_queue (cw_pf w d)) + length evs < 2 ^ 31"
  shows "\<exists>w1. fold_opt (\<lambda>(rid, v). cosim_pf_msi_cb Q d rid v) evs w = Some w1
    \<and> msi_ok (pd_queue (cw_pf w1 d)) \<and> bdfs_ok w1 = bdfs_ok w \<and> pf_bdfs w1 = pf_bdfs w \<and> g_devices w1 = g_devices w
    \<and> g_num_pfs w1 = g_num_pfs w
    \<and> msi_items (pd_queue (cw_pf w1 d)) = take 256 (msi_items (pd_queue (cw_pf w d)) @ map (\<lambda>(rid, v). (ucast rid, v)) evs)
    \<and> cw_qemu w1 = (q_schedule_bh Q ^^ min (256 - length (msi_items (pd_queue (cw_pf w d)))) (length evs)) (cw_qemu w)"
  using assms
proof (induction evs arbitrary: w)
  case Nil
  then show ?case using msi_items_le [OF Nil(1)] by simp
next
  case (Cons e evs)
  obtain rid v where e: "e = (rid, v)" by fastforce
  let ?q = "pd_queue (cw_pf w d)"
  from msi_put_spec [of ?q "(ucast rid, v)"] Cons.prems obtain q1
    where q1: "msi_put (ucast rid, v) ?q = Some (length (msi_items ?q) < 256, q1)" "msi_ok q1" "mq_tail q1 \<le> Suc (mq_tail ?q)"
      "msi_items q1 = (if length (msi_items ?q) < 256 then msi_items ?q @ [(ucast rid, v)] else msi_items ?q)" by auto
  show ?case
  proof (cases "length (msi_items ?q) < 256")
    case True
    let ?w = "upd_pf d (\<lambda>pf. pf\<lparr>pd_queue := q1\<rparr>) w\<lparr>cw_qemu := q_schedule_bh Q (cw_qemu w)\<rparr>"
    have step: "cosim_pf_msi_cb Q d rid v w = Some ?w" using q1(1) True by (simp add: cosim_pf_msi_cb_def)
    have q: "pd_queue (cw_pf ?w d) = q1" by (simp add: upd_pf_def)
    have n: "min (256 - length (msi_items ?q)) (length (e # evs)) = Suc (min (256 - length (msi_items q1)) (length evs))"
      using True q1(4) by simp
    from Cons.IH [of ?w] q q1(2,3) Cons.prems show ?thesis
      using step e True q1(4) unfolding n by (auto simp: funpow_swap1)
  next
    case False
    then have full: "length (msi_items ?q) = 256" using msi_items_le [OF Cons.prems(1)] by simp
    have step: "cosim_pf_msi_cb Q d rid v w = Some w" using q1(1) False by (simp add: cosim_pf_msi_cb_def)
    from Cons.IH [of w] Cons.prems show ?thesis using step e full by auto
  qed
qed

lemma bh_delivers:
  assumes "bdfs_ok w" and "\<forall>(i, v)\<in>set evs. i < g_num_pfs w \<and> g_devices w ! i = Some (dev i)"
  shows "fold_opt (msix_deliver Q) (map (\<lambda>(i, v). (ucast (pf_bdfs w ! i), v)) evs) w
    = Some (w\<lparr>cw_qemu := fold (\<lambda>(i, v). notify_device Q (dev i) v) evs (cw_qemu w)\<rparr>)"
  using assms
proof (induction evs arbitrary: w)
  case (Cons e evs)
  obtain i v where e: "e = (i, v)" by fastforce
  have t: "msix_target Q (pf_bdfs w ! i) w = Some (Some (dev i))"
    using Cons.prems e by (intro msix_target_pf) auto
  have "ucast (ucast (pf_bdfs w ! i) :: u32) = pf_bdfs w ! i" by (rule ucast_up_ucast_id) (simp add: is_up)
  with t have "msix_deliver Q (ucast (pf_bdfs w ! i), v) w = Some (w\<lparr>cw_qemu := notify_device Q (dev i) v (cw_qemu w)\<rparr>)"
    by (simp add: msix_deliver_def)
  then show ?case
    using Cons.IH [of "w\<lparr>cw_qemu := notify_device Q (dev i) v (cw_qemu w)\<rparr>"] Cons.prems e by simp
qed simp

text \<open>C12: Interrupts are not lost while the queue has room: of any burst of interrupts of the functions in the
  topology, up to the overflow of the counters after 2147483647 interrupts, the first 256 are delivered by
  the next run of the bottom half, in order, each to the function whose BDF it carries, and the queue is
  empty afterwards; the bottom half has been scheduled once for each of them.\<close>

theorem pf_msix_burst_delivered:
  assumes "bdfs_ok w" and "\<forall>(i, v)\<in>set evs. i < g_num_pfs w \<and> g_devices w ! i = Some (dev i)"
    and "msi_ok (pd_queue (cw_pf w d))" and "msi_items (pd_queue (cw_pf w d)) = []"
    and "mq_tail (pd_queue (cw_pf w d)) + length evs < 2 ^ 31"
  shows "\<exists>w1 w2. fold_opt (\<lambda>(i, v). cosim_pf_msi_cb Q d (pf_bdfs w ! i) v) evs w = Some w1
    \<and> cosim_pf_msix_bh_cb Q d w1 = Some w2 \<and> msi_items (pd_queue (cw_pf w2 d)) = []
    \<and> cw_qemu w2 = fold (\<lambda>(i, v). notify_device Q (dev i) v) (take 256 evs)
        ((q_schedule_bh Q ^^ min 256 (length evs)) (cw_qemu w))"
proof -
  let ?evs = "map (\<lambda>(i, v). (pf_bdfs w ! i, v)) evs"
  have f: "fold_opt (\<lambda>(i, v). cosim_pf_msi_cb Q d (pf_bdfs w ! i) v) evs u
      = fold_opt (\<lambda>(rid, v). cosim_pf_msi_cb Q d rid v) ?evs u" for u
    by (induction evs arbitrary: u) (auto split: option.splits)
  from msi_arrivals [OF assms(3), of ?evs Q] assms(4,5) obtain w1
    where w1: "fold_opt (\<lambda>(rid, v). cosim_pf_msi_cb Q d rid v) ?evs w = Some w1" "msi_ok (pd_queue (cw_pf w1 d))"
      "bdfs_ok w1 = bdfs_ok w" "pf_bdfs w1 = pf_bdfs w" "g_devices w1 = g_devices w" "g_num_pfs w1 = g_num_pfs w"
      "msi_items (pd_queue (cw_pf w1 d)) = take 256 (map (\<lambda>(rid, v). (ucast rid, v)) ?evs)"
      "cw_qemu w1 = (q_schedule_bh Q ^^ min 256 (length evs)) (cw_qemu w)" by auto
  have items: "msi_items (pd_queue (cw_pf w1 d)) = map (\<lambda>(i, v). (ucast (pf_bdfs w1 ! i), v)) (take 256 evs)"
    unfolding w1(7) by (simp add: w1(4) take_map comp_def case_prod_beta)
  have "\<forall>(i, v)\<in>set (take 256 evs). i < g_num_pfs w1 \<and> g_devices w1 ! i = Some (dev i)"
    using assms(2) w1(5,6) by (auto dest: in_set_takeD)
  from bh_delivers [OF _ this, of Q] w1(3) assms(1) items
  have "fold_opt (msix_deliver Q) (msi_items (pd_queue (cw_pf w1 d))) w1
      = Some (w1\<lparr>cw_qemu := fold (\<lambda>(i, v). notify_device Q (dev i) v) (take 256 evs) (cw_qemu w1)\<rparr>)" by simp
  moreover define w2 where "w2 = upd_pf d (\<lambda>pf. pf\<lparr>pd_queue := (pd_queue (cw_pf w1 d))\<lparr>mq_head := mq_tail (pd_queue (cw_pf w1 d))\<rparr>\<rparr>)
      (w1\<lparr>cw_qemu := fold (\<lambda>(i, v). notify_device Q (dev i) v) (take 256 evs) (cw_qemu w1)\<rparr>)"
  ultimately have "cosim_pf_msix_bh_cb Q d w1 = Some w2"
    using msi_drain_spec [OF w1(2), of "msix_deliver Q" w1] by (simp add: cosim_pf_msix_bh_cb_def)
  moreover have "msi_items (pd_queue (cw_pf w2 d)) = []" using w1(2) by (simp add: w2_def)
  moreover have "cw_qemu w2 = fold (\<lambda>(i, v). notify_device Q (dev i) v) (take 256 evs)
      ((q_schedule_bh Q ^^ min 256 (length evs)) (cw_qemu w))" using w1(8) by (simp add: w2_def)
  ultimately show ?thesis unfolding f using w1(1) by blast
qed

text \<open>Two functions, realized as devices 0 and 1, on a bridge over TCP.\<close>

definition topology_two :: topology_resp where
  "topology_two = topology_zero\<lparr>tp_header := \<lparr>th_num_pfs = 2, th_tag_width = 2, th_pad = [0, 0]\<rparr>,
     tp_pfs := pf_zero\<lparr>pf_bdf := 0x100, pf_num_vfs := 4\<rparr> # pf_zero\<lparr>pf_bdf := 0x101, pf_num_vfs := 4\<rparr> # replicate 6 pf_zero\<rparr>"

definition world_two :: "transport_tcp_priv bridge_ctx \<Rightarrow> (transport_tcp_priv, nat, plain_qemu) cosim_world" where
  "world_two ctx = (world_start plain_start)\<lparr>cw_heap := [0 \<mapsto> ctx], cw_fresh := 1,
     cw_pf := (\<lambda>d. (pf_new (of_nat d))\<lparr>pd_bridge := Some 0, pd_topo := True, pd_num_vfs := 4\<rparr>),
     g_bridge := Some 0, g_topo := topology_two, g_devices := Some 0 # Some 1 # replicate 6 None, g_num_pfs := 2,
     g_initialized := True\<rparr>"

lemma world_two_ok: "bdfs_ok (world_two ctx)" "pf_bdfs (world_two ctx) = [0x100, 0x101]"
  by (simp_all add: bdfs_ok_def pf_bdfs_def world_two_def topology_two_def world_start_def COSIM_MAX_PF_DEVICES_def numeral_2_eq_2)

definition two_functions :: "(transport_tcp_priv, nat, plain_qemu) cosim_world" where
  "two_functions = world_two (tcp_ctx_with [] [] None)"

lemma two_functions_ok: "bdfs_ok two_functions"
  by (simp only: two_functions_def world_two_ok(1))

theorem pf_msix_burst_delivered_witness:
  "\<exists>w1 w2. fold_opt (\<lambda>(i, v). cosim_pf_msi_cb plain 0 (pf_bdfs two_functions ! i) v) [(1, 3), (0, 4)] two_functions = Some w1
    \<and> cosim_pf_msix_bh_cb plain 0 w1 = Some w2
    \<and> pq_log (cw_qemu w2) = [E_Bh, E_Bh, E_Msix 1 3, E_Msix 0 4]"
proof -
  have "\<forall>(i, v)\<in>set [(1, 3), (0, 4 :: u16)]. i < g_num_pfs two_functions \<and> g_devices two_functions ! i = Some i"
    "msi_ok (pd_queue (cw_pf two_functions 0))" "msi_items (pd_queue (cw_pf two_functions 0)) = []"
    "mq_tail (pd_queue (cw_pf two_functions 0)) + length [(1 :: nat, 3 :: u16), (0, 4)] < 2 ^ 31"
    by (simp_all add: two_functions_def world_two_def world_start_def pf_new_def)
  from pf_msix_burst_delivered [OF two_functions_ok this, of plain] obtain w1 w2
    where r: "fold_opt (\<lambda>(i, v). cosim_pf_msi_cb plain 0 (pf_bdfs two_functions ! i) v) [(1, 3), (0, 4)] two_functions = Some w1"
      "cosim_pf_msix_bh_cb plain 0 w1 = Some w2"
      "cw_qemu w2 = fold (\<lambda>(i, v). notify_device plain i v) (take 256 [(1, 3), (0, 4)])
        ((q_schedule_bh plain ^^ min 256 (length [(1 :: nat, 3 :: u16), (0, 4)])) (cw_qemu two_functions))" by blast
  have m: "min 256 (length [(1 :: nat, 3 :: u16), (0, 4)]) = Suc (Suc 0)" by simp
  have "pq_log (cw_qemu w2) = [E_Bh, E_Bh, E_Msix 1 3, E_Msix 0 4]"
    unfolding r(3) m by (simp add: notify_device_def log_event_def two_functions_def world_two_def world_start_def plain_start_def)
  with r(1,2) show ?thesis by blast
qed

end
