(* ===== verification/Pcie_Dma.thy ===== *)
theory Pcie_Dma
  imports Pcie_Pf_Access Vcs_Dma
begin

section \<open>The card's DMA, served by the poller with the callback of the physical function\<close>

text \<open>
  The poller thread that function 0 starts reads DMA requests from the transport of its bridge and calls
  \<open>cosim_pf_dma_cb\<close>, which receives the data of a write from, and sends the data of a read and the
  completion to, the same connection.  Here the two work together over TCP: what a sequence of transfers
  does to guest memory and what goes back to the card.
\<close>

subsection \<open>The poller of function 0\<close>

text \<open>The poller works on the transport that the bridge context points to.\<close>

definition put_priv :: "'d \<Rightarrow> 'p \<Rightarrow> ('p, 'd, 'q) cosim_world \<Rightarrow> ('p, 'd, 'q) cosim_world" where
  "put_priv d p w = (case pd_bridge (cw_pf w d) of None \<Rightarrow> w
     | Some a \<Rightarrow> w\<lparr>cw_heap := (cw_heap w)(a := map_option (\<lambda>c. c\<lparr>bc_transport := Some p\<rparr>) (cw_heap w a))\<rparr>)"

definition get_priv :: "'d \<Rightarrow> 'p \<Rightarrow> ('p, 'd, 'q) cosim_world \<Rightarrow> 'p" where
  "get_priv d p w = (case Option.bind (Option.bind (pd_bridge (cw_pf w d)) (cw_heap w)) bc_transport of
     None \<Rightarrow> p | Some p' \<Rightarrow> p')"

definition pf_poller :: "'p transport \<Rightarrow> ('d, 'q) qemu \<Rightarrow> 'd \<Rightarrow> ('p \<times> ('p, 'd, 'q) cosim_world option) irq_poller" where
  "pf_poller ops Q d = irq_poller_start_v2
     (Some (\<lambda>req (p, u). case Option.bind u (\<lambda>w. cosim_pf_dma_cb ops Q d req (put_priv d p w)) of
        None \<Rightarrow> (p, None) | Some w \<Rightarrow> (get_priv d p w, Some w)))
     (Some (\<lambda>rid vector (p, u). (p, Option.bind u (cosim_pf_msi_cb Q d rid vector))))"

subsection \<open>Sockets without a poll schedule\<close>

definition quiet :: "sock \<Rightarrow> bool" where
  "quiet s \<longleftrightarrow> healthy s \<and> sk_polls s = []"

lemma tcp_send_all_polls: "sk_polls (snd (tcp_send_all bs s)) = sk_polls s"
proof (induction bs s rule: tcp_send_all.induct)
  case (1 bs s)
  obtain r s1 where send: "sk_send bs s = (r, s1)" by fastforce
  have "sk_polls s1 = sk_polls s" using send by (auto simp: sk_send_def split: list.splits io_answer.splits)
  then show ?case using 1 send by (subst tcp_send_all.simps) (cases r; auto)
qed

text \<open>What the building blocks leave, as destruction rules.\<close>

lemma sock_steps:
  "tcp_send_all bs s = (r, s') \<Longrightarrow> sk_polls s' = sk_polls s"
  "tcp_recv_all n s = (x, s') \<Longrightarrow> sk_polls s' = sk_polls s \<and> sk_out s' = sk_out s"
  "tcp_recv_hdr s = (h, s') \<Longrightarrow> sk_polls s' = sk_polls s \<and> sk_out s' = sk_out s"
  "tcp_recv_body n dec s = (y, s') \<Longrightarrow> sk_polls s' = sk_polls s \<and> sk_out s' = sk_out s"
proof -
  show "tcp_send_all bs s = (r, s') \<Longrightarrow> sk_polls s' = sk_polls s" using tcp_send_all_polls [of bs s] by simp
  have all: "tcp_recv_all n s = (x, s') \<Longrightarrow> sk_polls s' = sk_polls s \<and> sk_out s' = sk_out s" for n s x s'
    using tcp_recv_all_polls [of n s] tcp_recv_all_out [of n s] by simp
  then show "tcp_recv_all n s = (x, s') \<Longrightarrow> sk_polls s' = sk_polls s \<and> sk_out s' = sk_out s" .
  show "tcp_recv_hdr s = (h, s') \<Longrightarrow> sk_polls s' = sk_polls s \<and> sk_out s' = sk_out s"
    using all by (auto simp: tcp_recv_hdr_def split: prod.splits)
  show "tcp_recv_body n dec s = (y, s') \<Longrightarrow> sk_polls s' = sk_polls s \<and> sk_out s' = sk_out s"
    using all by (auto simp: tcp_recv_body_def split: prod.splits option.splits)
qed

lemma send_polls:
  "sk_polls (snd (tcp_send_msg ty payload s)) = sk_polls s"
  "sk_polls (snd (sock_send_dma_data tag dir addr bs s)) = sk_polls s"
  by (auto simp: tcp_send_msg_def sock_send_dma_data_def Let_def split: prod.splits dest!: sock_steps(1))

lemma recv_data_polls: "sk_polls (snd (sock_recv_dma_data s)) = sk_polls s"
  by (auto simp: sock_recv_dma_data_def Let_def recv_hdr_body_polls split: prod.splits option.splits dest!: sock_steps(2,3))

lemma recv_nb_out: "tcp_recv_nb ty n dec s = (y, s') \<Longrightarrow> sk_out s' = sk_out s"
  by (auto simp: tcp_recv_nb_def tcp_peek_aux_msg_type_def sk_poll_def Let_def
      split: prod.splits option.splits if_splits poll_answer.splits list.splits dest!: sock_steps(3,4))

text \<open>Operations on the auxiliary connection that keep it quiet.\<close>

lemma aux_sends:
  assumes "sends m f" and "\<And>s. sk_polls (snd (f s)) = sk_polls s" and "tp_aux p = Some s" and "quiet s"
  shows "\<exists>s'. on_aux f p = (0, p\<lparr>tp_aux := Some s'\<rparr>) \<and> sk_out s' = sk_out s @ m \<and> sk_in s' = sk_in s \<and> quiet s'"
proof -
  have h: "healthy s" "sk_polls s = []" using assms(4) by (simp_all add: quiet_def)
  with assms(1) obtain s' where "f s = (0, s')" "sk_out s' = sk_out s @ m" "sk_in s' = sk_in s" "healthy s'"
    unfolding sends_def by blast
  moreover from this(1) assms(2) [of s] h(2) have "sk_polls s' = []" by simp
  ultimately show ?thesis using assms(3) by (intro exI [of _ s']) (simp add: on_aux_def aux_or_data_def quiet_def)
qed

lemma aux_reads:
  assumes "reads m f x" and "\<And>s. sk_polls (snd (f s)) = sk_polls s" and "tp_aux p = Some s" and "quiet s" and "sk_in s = m @ rest"
  shows "\<exists>s'. on_aux f p = (x, p\<lparr>tp_aux := Some s'\<rparr>) \<and> sk_in s' = rest \<and> sk_out s' = sk_out s \<and> quiet s'"
proof -
  have h: "healthy s" "sk_polls s = []" using assms(4) by (simp_all add: quiet_def)
  with assms(1,5) obtain s' where "f s = (x, s')" "sk_out s' = sk_out s" "sk_in s' = rest" "healthy s'"
    unfolding reads_def by blast
  moreover from this(1) assms(2) [of s] h(2) have "sk_polls s' = []" by simp
  ultimately show ?thesis using assms(3) by (intro exI [of _ s']) (simp add: on_aux_def aux_or_data_def quiet_def)
qed

lemma aux_nb_hit:
  assumes "tp_aux p = Some s" and "quiet s" and "sk_in s = msg_bytes TCP_MSG_DMA_REQ (enc_dma_req r) @ rest"
  shows "\<exists>s'. tr_recv_dma_req_nb tcp_transport p = (Got r, p\<lparr>tp_aux := Some s'\<rparr>) \<and> sk_in s' = rest \<and> sk_out s' = sk_out s \<and> quiet s'"
proof -
  have q: "sk_polls s = []" "healthy s" using assms(2) by (simp_all add: quiet_def)
  from nb_hit [OF q assms(3), of 32 dec_dma_req] obtain s'
    where s': "tcp_recv_nb TCP_MSG_DMA_REQ 32 dec_dma_req s = (Got r, s')" "sk_in s' = rest" "healthy s'" "sk_polls s' = []" by auto
  have "sk_out s' = sk_out s" by (rule recv_nb_out [OF s'(1)])
  then show ?thesis using s' assms(1)
    by (intro exI [of _ s']) (simp add: tcp_transport_def tcp_recv_dma_req_nb_def on_aux_def aux_or_data_def quiet_def)
qed

subsection \<open>Serving one transfer\<close>

text \<open>The transfers of the card as they arrive on the connection, and their specification: the reply and
  the effect on QEMU's state.\<close>

datatype card_op = Card_Write dma_req bytes | Card_Read dma_req

primrec card_bytes :: "card_op \<Rightarrow> bytes" where
  "card_bytes (Card_Write r bs) = msg_bytes TCP_MSG_DMA_REQ (enc_dma_req r)
     @ dma_data_bytes \<lparr>dd_tag = r_tag r, dd_direction = DMA_DIR_WRITE, dd_host_addr = r_host_addr r, dd_bytes = bs\<rparr>"
| "card_bytes (Card_Read r) = msg_bytes TCP_MSG_DMA_REQ (enc_dma_req r)"

primrec card_req :: "card_op \<Rightarrow> dma_req" where
  "card_req (Card_Write r bs) = r"
| "card_req (Card_Read r) = r"

primrec card_ok :: "card_op \<Rightarrow> bool" where
  "card_ok (Card_Write r bs) \<longleftrightarrow> r_direction r = DMA_DIR_WRITE \<and> length bs \<le> 65536"
| "card_ok (Card_Read r) \<longleftrightarrow> r_direction r \<noteq> DMA_DIR_WRITE"

definition cpl_message :: "u32 \<Rightarrow> bytes" where
  "cpl_message tag = msg_bytes TCP_MSG_DMA_CPL (enc_dma_cpl \<lparr>d_tag = tag, d_status = 0, d_timestamp = 0\<rparr>)"

definition note_message :: "u32 \<Rightarrow> bytes" where
  "note_message tag = msg_bytes TCP_MSG_SYNC (enc_sync (sync_of SYNC_MSG_DMA_CPL tag))"

primrec serve :: "('d, 'q) qemu \<Rightarrow> card_op \<Rightarrow> 'q \<Rightarrow> bytes \<times> 'q" where
  "serve Q (Card_Write r bs) q = (cpl_message (r_tag r), q_mem_write Q (r_host_addr r) bs q)"
| "serve Q (Card_Read r) q = (case q_mem_read Q (r_host_addr r) (min (unat (r_len r)) 65536) q of
     (bs, q1) \<Rightarrow> (dma_data_bytes \<lparr>dd_tag = r_tag r, dd_direction = r_direction r, dd_host_addr = r_host_addr r,
         dd_bytes = bs\<rparr> @ cpl_message (r_tag r), q1))"

text \<open>A private state whose connections are ready, and its two outputs.\<close>

definition ready :: "transport_tcp_priv \<Rightarrow> bytes \<Rightarrow> bool" where
  "ready p bs \<longleftrightarrow> (\<exists>s. tp_aux p = Some s \<and> quiet s \<and> sk_in s = bs) \<and> healthy (tp_ctrl p)"

definition aux_out :: "transport_tcp_priv \<Rightarrow> bytes" where
  "aux_out p = (case tp_aux p of None \<Rightarrow> [] | Some s \<Rightarrow> sk_out s)"

lemma complete_dma_ready:
  assumes "bc_transport ctx = Some p" and "ready p bs"
  shows "\<exists>p'. bridge_complete_dma tcp_transport tag 0 ctx = (0, ctx\<lparr>bc_transport := Some p'\<rparr>) \<and> ready p' bs
    \<and> aux_out p' = aux_out p @ cpl_message tag \<and> sk_out (tp_ctrl p') = sk_out (tp_ctrl p) @ note_message tag"
proof -
  let ?c = "\<lparr>d_tag = tag, d_status = 0, d_timestamp = 0\<rparr>"
  from assms(2) obtain s where s: "tp_aux p = Some s" "quiet s" "sk_in s = bs" "healthy (tp_ctrl p)" by (auto simp: ready_def)
  from aux_sends [OF sends_msg send_polls(1) s(1,2), of TCP_MSG_DMA_CPL "enc_dma_cpl ?c"] obtain s1
    where s1: "tcp_send_dma_cpl ?c p = (0, p\<lparr>tp_aux := Some s1\<rparr>)" "sk_out s1 = sk_out s @ cpl_message tag" "sk_in s1 = bs" "quiet s1"
    using s(3) by (auto simp: tcp_send_dma_cpl_def cpl_message_def)
  from on_ctrl_sends [OF sends_msg, of "p\<lparr>tp_aux := Some s1\<rparr>" TCP_MSG_SYNC "enc_sync (sync_of SYNC_MSG_DMA_CPL tag)"] s(4)
  obtain c where "tcp_send_sync (sync_of SYNC_MSG_DMA_CPL tag) (p\<lparr>tp_aux := Some s1\<rparr>) = (0, p\<lparr>tp_aux := Some s1, tp_ctrl := c\<rparr>)"
    "sk_out c = sk_out (tp_ctrl p) @ note_message tag" "healthy c"
    by (auto simp: tcp_send_sync_def note_message_def)
  then show ?thesis
    using assms(1) s s1
    by (intro exI [of _ "p\<lparr>tp_aux := Some s1, tp_ctrl := c\<rparr>"])
      (simp add: bridge_complete_dma_def Let_def via_def bc_send_sync_def tcp_transport_def ready_def aux_out_def)
qed

lemma send_data_ready:
  assumes "ready p bs"
  shows "\<exists>p'. tr_send_dma_data tcp_transport tag dir addr d p = (0, p') \<and> ready p' bs \<and> tp_ctrl p' = tp_ctrl p
    \<and> aux_out p' = aux_out p @ dma_data_bytes \<lparr>dd_tag = tag, dd_direction = dir, dd_host_addr = addr, dd_bytes = d\<rparr>"
proof -
  let ?d = "\<lparr>dd_tag = tag, dd_direction = dir, dd_host_addr = addr, dd_bytes = d\<rparr>"
  from assms obtain s where s: "tp_aux p = Some s" "quiet s" "sk_in s = bs" "healthy (tp_ctrl p)" by (auto simp: ready_def)
  have "sends (dma_data_bytes ?d) (sock_send_dma_data tag dir addr d)" using sends_dma_data [of ?d] by simp
  from aux_sends [OF this send_polls(2) s(1,2)] show ?thesis
    using s by (auto simp: tcp_transport_def tcp_send_dma_data_def ready_def aux_out_def)
qed

lemma recv_data_ready:
  assumes "ready p (dma_data_bytes d @ bs)" and "length (dd_bytes d) \<le> 65536"
  shows "\<exists>p'. tr_recv_dma_data tcp_transport p = (Got d, p') \<and> ready p' bs \<and> tp_ctrl p' = tp_ctrl p \<and> aux_out p' = aux_out p"
proof -
  from assms(1) obtain s where s: "tp_aux p = Some s" "quiet s" "sk_in s = dma_data_bytes d @ bs" "healthy (tp_ctrl p)"
    by (auto simp: ready_def)
  have "reads (dma_data_bytes d) sock_recv_dma_data (Got d)" using assms(2) by (intro reads_dma_data) simp
  from aux_reads [OF this recv_data_polls s(1,2,3)] show ?thesis
    using s by (auto simp: tcp_transport_def tcp_recv_dma_data_def ready_def aux_out_def)
qed

lemma dma_cb_serves:
  assumes "card_ok op" and "bc_transport ctx = Some p"
    and "ready p (case op of Card_Write r d \<Rightarrow> dma_data_bytes \<lparr>dd_tag = r_tag r, dd_direction = DMA_DIR_WRITE,
        dd_host_addr = r_host_addr r, dd_bytes = d\<rparr> @ bs | Card_Read r \<Rightarrow> bs)"
  shows "\<exists>p'. dma_cb_via tcp_transport (q_mem_write Q) wr (q_mem_read Q) (card_req op) ctx q
      = Some (ctx\<lparr>bc_transport := Some p'\<rparr>, snd (serve Q op q))
    \<and> ready p' bs \<and> aux_out p' = aux_out p @ fst (serve Q op q)
    \<and> sk_out (tp_ctrl p') = sk_out (tp_ctrl p) @ note_message (r_tag (card_req op))"
proof (cases op)
  case (Card_Write r d)
  let ?d = "\<lparr>dd_tag = r_tag r, dd_direction = DMA_DIR_WRITE, dd_host_addr = r_host_addr r, dd_bytes = d\<rparr>"
  from recv_data_ready [of p ?d bs] assms Card_Write obtain p1
    where p1: "tr_recv_dma_data tcp_transport p = (Got ?d, p1)" "ready p1 bs" "tp_ctrl p1 = tp_ctrl p" "aux_out p1 = aux_out p" by auto
  from complete_dma_ready [of "ctx\<lparr>bc_transport := Some p1\<rparr>" p1 bs "r_tag r"] p1(2) obtain p'
    where "bridge_complete_dma tcp_transport (r_tag r) 0 (ctx\<lparr>bc_transport := Some p1\<rparr>) = (0, ctx\<lparr>bc_transport := Some p'\<rparr>)"
      "ready p' bs" "aux_out p' = aux_out p1 @ cpl_message (r_tag r)"
      "sk_out (tp_ctrl p') = sk_out (tp_ctrl p1) @ note_message (r_tag r)" by auto
  then show ?thesis
    using assms p1 Card_Write by (intro exI [of _ p']) (simp add: dma_cb_via_def via_def DMA_CB_BUF_def)
next
  case (Card_Read r)
  obtain d q1 where rd: "q_mem_read Q (r_host_addr r) (min (unat (r_len r)) 65536) q = (d, q1)" by fastforce
  from send_data_ready [of p bs "r_tag r" "r_direction r" "r_host_addr r" d] assms(3) Card_Read obtain p1
    where p1: "tr_send_dma_data tcp_transport (r_tag r) (r_direction r) (r_host_addr r) d p = (0, p1)" "ready p1 bs"
      "tp_ctrl p1 = tp_ctrl p" "aux_out p1 = aux_out p @ dma_data_bytes \<lparr>dd_tag = r_tag r, dd_direction = r_direction r,
        dd_host_addr = r_host_addr r, dd_bytes = d\<rparr>" by auto
  from complete_dma_ready [of "ctx\<lparr>bc_transport := Some p1\<rparr>" p1 bs "r_tag r"] p1(2) obtain p'
    where "bridge_complete_dma tcp_transport (r_tag r) 0 (ctx\<lparr>bc_transport := Some p1\<rparr>) = (0, ctx\<lparr>bc_transport := Some p'\<rparr>)"
      "ready p' bs" "aux_out p' = aux_out p1 @ cpl_message (r_tag r)"
      "sk_out (tp_ctrl p') = sk_out (tp_ctrl p1) @ note_message (r_tag r)" by auto
  then show ?thesis
    using assms p1 Card_Read rd
    by (intro exI [of _ p']) (simp add: dma_cb_via_def via_def DMA_CB_BUF_def bridge_complete_dma_with_data_def)
qed

subsection \<open>Serving a sequence\<close>

fun serve_all :: "('d, 'q) qemu \<Rightarrow> card_op list \<Rightarrow> 'q \<Rightarrow> bytes \<times> 'q" where
  "serve_all Q [] q = ([], q)"
| "serve_all Q (op # ops) q = (case serve Q op q of (out, q1) \<Rightarrow> (case serve_all Q ops q1 of (outs, q2) \<Rightarrow> (out @ outs, q2)))"

text \<open>The world of a function with a live bridge.\<close>

definition has_bridge :: "'d \<Rightarrow> ('p, 'd, 'q) cosim_world \<Rightarrow> bool" where
  "has_bridge d w \<longleftrightarrow> (\<exists>a ctx. pd_bridge (cw_pf w d) = Some a \<and> cw_heap w a = Some ctx)"

lemma round_serves:
  assumes "card_ok op" and "has_bridge d w" and "ready p (card_bytes op @ bs)"
  shows "\<exists>p' w'. poll_rounds tcp_transport (pf_poller tcp_transport Q d) (Suc n) b (p, Some w)
        = poll_rounds tcp_transport (pf_poller tcp_transport Q d) n True (p', Some w')
    \<and> has_bridge d w' \<and> ready p' bs \<and> cw_qemu w' = snd (serve Q op (cw_qemu w))
    \<and> aux_out p' = aux_out p @ fst (serve Q op (cw_qemu w))
    \<and> sk_out (tp_ctrl p') = sk_out (tp_ctrl p) @ note_message (r_tag (card_req op))"
proof -
  let ?rest = "case op of Card_Write r d \<Rightarrow> dma_data_bytes \<lparr>dd_tag = r_tag r, dd_direction = DMA_DIR_WRITE,
        dd_host_addr = r_host_addr r, dd_bytes = d\<rparr> @ bs | Card_Read r \<Rightarrow> bs"
  obtain a ctx where a: "pd_bridge (cw_pf w d) = Some a" "cw_heap w a = Some ctx" using assms(2) by (auto simp: has_bridge_def)
  from assms(3) obtain s where s: "tp_aux p = Some s" "quiet s" "sk_in s = msg_bytes TCP_MSG_DMA_REQ (enc_dma_req (card_req op)) @ ?rest"
    "healthy (tp_ctrl p)" by (cases op) (auto simp: ready_def)
  from aux_nb_hit [OF s(1,2,3)] obtain s1
    where s1: "tr_recv_dma_req_nb tcp_transport p = (Got (card_req op), p\<lparr>tp_aux := Some s1\<rparr>)" "sk_in s1 = ?rest"
      "sk_out s1 = sk_out s" "quiet s1" by blast
  let ?p1 = "p\<lparr>tp_aux := Some s1\<rparr>" and ?ctx1 = "ctx\<lparr>bc_transport := Some (p\<lparr>tp_aux := Some s1\<rparr>)\<rparr>"
  have "ready ?p1 ?rest" using s1 s(4) by (simp add: ready_def)
  from dma_cb_serves [OF assms(1) _ this, of ?ctx1 Q "q_mem_write Q" "cw_qemu w"] obtain p'
    where p': "dma_cb_via tcp_transport (q_mem_write Q) (q_mem_write Q) (q_mem_read Q) (card_req op) ?ctx1 (cw_qemu w)
        = Some (ctx\<lparr>bc_transport := Some p'\<rparr>, snd (serve Q op (cw_qemu w)))" "ready p' bs"
      "aux_out p' = aux_out p @ fst (serve Q op (cw_qemu w))"
      "sk_out (tp_ctrl p') = sk_out (tp_ctrl p) @ note_message (r_tag (card_req op))"
    using s(1) s1(3) by (auto simp: aux_out_def)
  let ?w' = "w\<lparr>cw_heap := (cw_heap w)(a := Some (ctx\<lparr>bc_transport := Some p'\<rparr>)), cw_qemu := snd (serve Q op (cw_qemu w))\<rparr>"
  have cb: "cosim_pf_dma_cb tcp_transport Q d (card_req op) (put_priv d ?p1 w) = Some ?w'"
    using a p'(1) by (simp add: cosim_pf_dma_cb_def put_priv_def)
  have get: "get_priv d ?p1 ?w' = p'" using a by (simp add: get_priv_def)
  have "poll_rounds tcp_transport (pf_poller tcp_transport Q d) (Suc n) b (p, Some w)
      = poll_rounds tcp_transport (pf_poller tcp_transport Q d) n True (p', Some ?w')"
    using s1(1) cb get by (simp add: call_dma_def pf_poller_def irq_poller_start_v2_def)
  moreover have "has_bridge d ?w'" using a by (simp add: has_bridge_def)
  ultimately show ?thesis using p' by (intro exI [of _ p'] exI [of _ ?w']) simp
qed

lemma round_idle:
  assumes "ready p []"
  shows "\<exists>p'. poll_rounds tcp_transport pl (Suc n) b (p, u) = (b, p', u) \<and> ready p' [] \<and> aux_out p' = aux_out p \<and> tp_ctrl p' = tp_ctrl p"
proof -
  from assms obtain s where s: "tp_aux p = Some s" "quiet s" "sk_in s = []" "healthy (tp_ctrl p)" by (auto simp: ready_def)
  then have q: "sk_polls s = []" "sk_in s = []" by (simp_all add: quiet_def)
  have p: "p\<lparr>tp_aux := Some s\<rparr> = p" using s(1) by (cases p) simp
  have "tr_recv_dma_req_nb tcp_transport p = (Nothing, p)" "tr_recv_msi_nb tcp_transport p = (Nothing, p)"
    using nb_empty [OF q, of TCP_MSG_DMA_REQ 32 dec_dma_req] nb_empty [OF q, of TCP_MSG_MSI 16 dec_msi] s(1) p
    by (simp_all add: tcp_transport_def tcp_recv_dma_req_nb_def tcp_recv_msi_nb_def on_aux_def aux_or_data_def)
  then show ?thesis using assms by simp
qed

lemma rounds_serve:
  assumes "list_all card_ok ops" and "has_bridge d w" and "ready p (concat (map card_bytes ops))"
  shows "\<exists>b' p' w'. poll_rounds tcp_transport (pf_poller tcp_transport Q d) n b (p, Some w) = (b', p', Some w')
    \<and> has_bridge d w' \<and> ready p' (concat (map card_bytes (drop n ops))) \<and> cw_qemu w' = snd (serve_all Q (take n ops) (cw_qemu w))
    \<and> aux_out p' = aux_out p @ fst (serve_all Q (take n ops) (cw_qemu w))
    \<and> sk_out (tp_ctrl p') = sk_out (tp_ctrl p) @ concat (map (note_message \<circ> r_tag \<circ> card_req) (take n ops))"
  using assms
proof (induction ops arbitrary: n b p w)
  case Nil
  then show ?case using round_idle [of p "pf_poller tcp_transport Q d" _ b "Some w"] by (cases n) fastforce+
next
  case (Cons op ops)
  show ?case
  proof (cases n)
    case 0
    then show ?thesis using Cons.prems by simp
  next
    case (Suc k)
    from round_serves [of op d w p "concat (map card_bytes ops)" Q k b] Cons.prems obtain p1 w1
      where r: "poll_rounds tcp_transport (pf_poller tcp_transport Q d) (Suc k) b (p, Some w)
          = poll_rounds tcp_transport (pf_poller tcp_transport Q d) k True (p1, Some w1)"
        "has_bridge d w1" "ready p1 (concat (map card_bytes ops))" "cw_qemu w1 = snd (serve Q op (cw_qemu w))"
        "aux_out p1 = aux_out p @ fst (serve Q op (cw_qemu w))"
        "sk_out (tp_ctrl p1) = sk_out (tp_ctrl p) @ note_message (r_tag (card_req op))" by auto
    from Cons.IH [of w1 p1 k True] r Cons.prems show ?thesis unfolding Suc by (auto simp: case_prod_beta)
  qed
qed

lemma serve_all_append:
  "serve_all Q (xs @ ys) q = (fst (serve_all Q xs q) @ fst (serve_all Q ys (snd (serve_all Q xs q))),
     snd (serve_all Q ys (snd (serve_all Q xs q))))"
  by (induction xs arbitrary: q) (simp_all add: case_prod_beta)

lemma thread_serves:
  assumes "list_all card_ok ops" and "has_bridge d w" and "ready p (concat (map card_bytes ops))"
  shows "\<exists>p' w'. poller_thread tcp_transport (pf_poller tcp_transport Q d) n (p, Some w) = (p', Some w')
    \<and> has_bridge d w' \<and> ready p' (concat (map card_bytes (drop (64 * n) ops)))
    \<and> cw_qemu w' = snd (serve_all Q (take (64 * n) ops) (cw_qemu w))
    \<and> aux_out p' = aux_out p @ fst (serve_all Q (take (64 * n) ops) (cw_qemu w))
    \<and> sk_out (tp_ctrl p') = sk_out (tp_ctrl p) @ concat (map (note_message \<circ> r_tag \<circ> card_req) (take (64 * n) ops))"
  using assms
proof (induction n arbitrary: p w ops)
  case 0
  then show ?case by simp
next
  case (Suc n)
  from rounds_serve [OF Suc.prems, of Q 64 False] obtain b1 p1 w1
    where r: "poller_pass tcp_transport (pf_poller tcp_transport Q d) (p, Some w) = (b1, p1, Some w1)"
      "has_bridge d w1" "ready p1 (concat (map card_bytes (drop 64 ops)))" "cw_qemu w1 = snd (serve_all Q (take 64 ops) (cw_qemu w))"
      "aux_out p1 = aux_out p @ fst (serve_all Q (take 64 ops) (cw_qemu w))"
      "sk_out (tp_ctrl p1) = sk_out (tp_ctrl p) @ concat (map (note_message \<circ> r_tag \<circ> card_req) (take 64 ops))"
    unfolding poller_pass_def by blast
  have ok: "list_all card_ok (drop 64 ops)" using Suc.prems(1) by (auto simp: list_all_iff dest: in_set_dropD)
  have t: "take (64 * Suc n) ops = take 64 ops @ take (64 * n) (drop 64 ops)" "drop (64 * Suc n) ops = drop (64 * n) (drop 64 ops)"
    by (simp_all add: take_add add.commute)
  from Suc.IH [OF ok r(2,3)] obtain p' w' where "poller_thread tcp_transport (pf_poller tcp_transport Q d) n (p1, Some w1) = (p', Some w')"
      "has_bridge d w'" "ready p' (concat (map card_bytes (drop (64 * n) (drop 64 ops))))"
      "cw_qemu w' = snd (serve_all Q (take (64 * n) (drop 64 ops)) (cw_qemu w1))"
      "aux_out p' = aux_out p1 @ fst (serve_all Q (take (64 * n) (drop 64 ops)) (cw_qemu w1))"
      "sk_out (tp_ctrl p') = sk_out (tp_ctrl p1) @ concat (map (note_message \<circ> r_tag \<circ> card_req) (take (64 * n) (drop 64 ops)))"
    by blast
  then show ?case
    unfolding t serve_all_append poller_thread.simps r(1)
    by (intro exI [of _ p'] exI [of _ w']) (simp only: r snd_conv fst_conv map_append concat_append append_assoc)
qed

subsection \<open>Properties\<close>

text \<open>C20: However the card mixes DMA writes and reads, the poller thread of function 0 serves all of them in the
  order of their requests, at most 64 in each pass: each write's data goes to guest memory at the
  requested address, each read is answered with the guest's bytes (at most 65536 of them), every transfer is
  completed once with its own tag on the auxiliary connection and announced on the control connection, and
  nothing undefined happens.\<close>

theorem card_dma_served:
  assumes "list_all card_ok ops" and "has_bridge d w" and "ready p (concat (map card_bytes ops))" and "length ops \<le> 64 * n"
  shows "\<exists>p' w'. poller_thread tcp_transport (pf_poller tcp_transport Q d) n (p, Some w) = (p', Some w')
    \<and> cw_qemu w' = snd (serve_all Q ops (cw_qemu w))
    \<and> aux_out p' = aux_out p @ fst (serve_all Q ops (cw_qemu w))
    \<and> sk_out (tp_ctrl p') = sk_out (tp_ctrl p) @ concat (map (note_message \<circ> r_tag \<circ> card_req) ops)"
  using thread_serves [OF assms(1-3), of Q n] assms(4) by auto

definition dma_world :: "(transport_tcp_priv, nat, plain_qemu) cosim_world" where
  "dma_world = (world_start plain_start)\<lparr>cw_heap := [0 \<mapsto> bridge_ctx_new cosim_shm_init None],
     cw_pf := (\<lambda>d. (pf_new 0)\<lparr>pd_bridge := Some 0\<rparr>)\<rparr>"

definition dma_ops :: "card_op list" where
  "dma_ops = [Card_Write (make_dma_req 6000 DMA_DIR_WRITE 0x2000 3 0) [7, 8, 9], Card_Read (make_dma_req 5000 DMA_DIR_READ 0x2001 2 0)]"

theorem card_dma_served_witness:
  "\<exists>p' w'. poller_thread tcp_transport (pf_poller tcp_transport plain 0) 1
      (priv_init True (fresh_sock []) (fresh_sock []) (Some (fresh_sock (concat (map card_bytes dma_ops)))), Some dma_world) = (p', Some w')
    \<and> aux_out p' = cpl_message 6000 @ dma_data_bytes \<lparr>dd_tag = 5000, dd_direction = DMA_DIR_READ, dd_host_addr = 0x2001,
        dd_bytes = [8, 9]\<rparr> @ cpl_message 5000"
proof -
  let ?p = "priv_init True (fresh_sock []) (fresh_sock []) (Some (fresh_sock (concat (map card_bytes dma_ops))))"
  have ok: "list_all card_ok dma_ops" by (simp add: dma_ops_def make_dma_req_def DMA_DIR_WRITE_def DMA_DIR_READ_def)
  have b: "has_bridge 0 dma_world" by (simp add: has_bridge_def dma_world_def)
  have r: "ready ?p (concat (map card_bytes dma_ops))" by (simp add: ready_def quiet_def priv_init_def) (simp add: fresh_sock_def)
  have l: "length dma_ops \<le> 64 * 1" by (simp add: dma_ops_def)
  have o: "aux_out ?p = []" by (simp add: aux_out_def priv_init_def fresh_sock_def)
  have "mem_bytes (mem_write 0x2000 [7, 8, 9] (\<lambda>_. 0)) 0x2001 2 = [8, 9]" by code_simp
  then have "fst (serve_all plain dma_ops (cw_qemu dma_world)) = cpl_message 6000 @ dma_data_bytes \<lparr>dd_tag = 5000,
      dd_direction = DMA_DIR_READ, dd_host_addr = 0x2001, dd_bytes = [8, 9]\<rparr> @ cpl_message 5000"
    by (simp add: dma_ops_def make_dma_req_def dma_world_def world_start_def plain_start_def)
  with card_dma_served [OF ok b r l, of plain] show ?thesis unfolding o by auto
qed

end
