(* ===== verification/Vcs_Dpi.thy ===== *)
theory Vcs_Dpi
  imports Vcs_Dma
begin

section \<open>The functions called from SystemVerilog: bridge\_vcs.c\<close>

text \<open>
  The scalar interface of the simulator side: a poll leaves its result in static variables of its root
  complex, which are read one word at a time, and a completion is assembled word by word.  Then the opening
  and closing of the bridge.  The static variables are a record around the global state of \<open>Vcs_Dma\<close>.
\<close>

subsection \<open>Static variables\<close>

record 'p dpi =
  dp_vcs :: "'p vcs"
  dp_poll :: "poll_out list"          \<comment> \<open>\<open>g_poll_tlp_type\<close>, \<open>g_poll_addr\<close>, \<open>g_poll_data_buf\<close>, \<open>g_poll_len\<close>, \<open>g_poll_tag\<close>\<close>
  dp_send_cpl :: "u32 list list"      \<comment> \<open>\<open>g_send_cpl_buf\<close>\<close>
  dp_bar_base :: "u64 list list"      \<comment> \<open>\<open>g_bar_base\<close>\<close>
  dp_bdf_bar_base :: "u64 list list"  \<comment> \<open>\<open>g_bdf_bar_base\<close>\<close>

definition BDF_BAR_HASH_SIZE :: int where [code_consts]: "BDF_BAR_HASH_SIZE = 512"

definition dpi_start :: "shm_side \<Rightarrow> 'p dpi" where
  "dpi_start side = \<lparr>dp_vcs = vcs_start side, dp_poll = replicate COSIM_MAX_RCS poll_out_zero,
     dp_send_cpl = replicate COSIM_MAX_RCS (replicate 16 0), dp_bar_base = replicate COSIM_MAX_RCS (replicate 6 0),
     dp_bdf_bar_base = replicate 512 (replicate 6 0)\<rparr>"

definition rc_ok :: "int \<Rightarrow> bool" where
  "rc_ok rc \<longleftrightarrow> rc \<ge> 0 \<and> rc < int COSIM_MAX_RCS"

definition rc_at :: "int \<Rightarrow> 'p dpi \<Rightarrow> 'p rc_ctx" where
  "rc_at rc d = vc_rc (dp_vcs d) ! nat rc"

definition set_rc :: "int \<Rightarrow> 'p rc_ctx \<Rightarrow> shm_side \<Rightarrow> 'p dpi \<Rightarrow> 'p dpi" where
  "set_rc rc ctx g d = d\<lparr>dp_vcs := (dp_vcs d)\<lparr>vc_rc := (vc_rc (dp_vcs d))[nat rc := ctx], vc_side := g\<rparr>\<rparr>"

subsection \<open>Polling\<close>

definition bridge_vcs_poll_tlp :: "'p transport \<Rightarrow> poll_out \<Rightarrow> 'p dpi \<Rightarrow> (rc \<times> poll_out \<times> 'p dpi) option" where
  "bridge_vcs_poll_tlp ops out d = map_option (\<lambda>(r, out1, ctx, g). (r, out1, set_rc 0 ctx g d))
     (poll_tlp_ctx ops out (rc_at 0 d) (vc_side (dp_vcs d)))"

definition bridge_vcs_poll_tlp_scalar_rc :: "'p transport \<Rightarrow> int \<Rightarrow> 'p dpi \<Rightarrow> (rc \<times> 'p dpi) option" where
  "bridge_vcs_poll_tlp_scalar_rc ops rc d =
     (if \<not> rc_ok rc then Some (-1, d)
      else map_option (\<lambda>(r, out, ctx, g). (r, (set_rc rc ctx g d)\<lparr>dp_poll := (dp_poll d)[nat rc := out]\<rparr>))
        (poll_tlp_ctx ops (dp_poll d ! nat rc) (rc_at rc d) (vc_side (dp_vcs d))))"

definition bridge_vcs_get_poll_type_rc :: "int \<Rightarrow> 'p dpi \<Rightarrow> int" where
  "bridge_vcs_get_poll_type_rc rc d = (if rc_ok rc then uint (po_type (dp_poll d ! nat rc)) else 0)"

definition bridge_vcs_get_poll_addr_rc :: "int \<Rightarrow> 'p dpi \<Rightarrow> int" where
  "bridge_vcs_get_poll_addr_rc rc d = (if rc_ok rc then sint (po_addr (dp_poll d ! nat rc)) else 0)"

definition bridge_vcs_get_poll_len_rc :: "int \<Rightarrow> 'p dpi \<Rightarrow> int" where
  "bridge_vcs_get_poll_len_rc rc d = (if rc_ok rc then po_len (dp_poll d ! nat rc) else 0)"

definition bridge_vcs_get_poll_tag_rc :: "int \<Rightarrow> 'p dpi \<Rightarrow> int" where
  "bridge_vcs_get_poll_tag_rc rc d = (if rc_ok rc then po_tag (dp_poll d ! nat rc) else 0)"

definition bridge_vcs_get_poll_data_rc :: "int \<Rightarrow> int \<Rightarrow> 'p dpi \<Rightarrow> u32" where
  "bridge_vcs_get_poll_data_rc rc index d =
     (if \<not> rc_ok rc \<or> index < 0 \<or> index \<ge> 16 then 0 else po_data (dp_poll d ! nat rc) ! nat index)"

definition bridge_vcs_get_poll_first_be_rc :: "int \<Rightarrow> 'p dpi \<Rightarrow> u8" where
  "bridge_vcs_get_poll_first_be_rc rc d = (if rc_ok rc then t_first_be (rc_last_entry (rc_at rc d)) else 0)"

definition bridge_vcs_get_poll_last_be_rc :: "int \<Rightarrow> 'p dpi \<Rightarrow> u8" where
  "bridge_vcs_get_poll_last_be_rc rc d = (if rc_ok rc then t_last_be (rc_last_entry (rc_at rc d)) else 0)"

definition bridge_vcs_get_tlp_target_bdf_rc :: "int \<Rightarrow> 'p dpi \<Rightarrow> int" where
  "bridge_vcs_get_tlp_target_bdf_rc rc d = (if rc_ok rc then bridge_vcs_get_tlp_target_bdf (rc_at rc d) else 0)"

definition bridge_vcs_get_tlp_requester_id_rc :: "int \<Rightarrow> 'p dpi \<Rightarrow> int" where
  "bridge_vcs_get_tlp_requester_id_rc rc d = (if rc_ok rc then bridge_vcs_get_tlp_requester_id (rc_at rc d) else 0)"

definition bridge_vcs_poll_vf_event_rc :: "int \<Rightarrow> 'p dpi \<Rightarrow> (int \<times> int \<times> int) option \<times> 'p dpi" where
  "bridge_vcs_poll_vf_event_rc rc d =
     (if \<not> rc_ok rc then (None, d)
      else (case bridge_vcs_poll_vf_event (rc_at rc d) of (r, ctx) \<Rightarrow> (r, set_rc rc ctx (vc_side (dp_vcs d)) d)))"

subsection \<open>Completions and BAR addresses\<close>

definition bridge_vcs_send_completion :: "'p transport \<Rightarrow> int \<Rightarrow> u32 list \<Rightarrow> int \<Rightarrow> 'p dpi \<Rightarrow> rc \<times> 'p dpi" where
  "bridge_vcs_send_completion ops tag data len d =
     (case send_completion_ctx ops tag data len (rc_at 0 d) (vc_side (dp_vcs d)) of (r, ctx, g) \<Rightarrow> (r, set_rc 0 ctx g d))"

definition bridge_vcs_set_cpl_data_rc :: "int \<Rightarrow> int \<Rightarrow> u32 \<Rightarrow> 'p dpi \<Rightarrow> 'p dpi" where
  "bridge_vcs_set_cpl_data_rc rc index v d =
     (if rc_ok rc \<and> index \<ge> 0 \<and> index < 16
      then d\<lparr>dp_send_cpl := (dp_send_cpl d)[nat rc := (dp_send_cpl d ! nat rc)[nat index := v]]\<rparr> else d)"

definition bridge_vcs_send_cpl_scalar_rc :: "'p transport \<Rightarrow> int \<Rightarrow> int \<Rightarrow> int \<Rightarrow> 'p dpi \<Rightarrow> rc \<times> 'p dpi" where
  "bridge_vcs_send_cpl_scalar_rc ops rc tag len d =
     (if \<not> rc_ok rc then (-1, d)
      else (case send_completion_ctx ops tag (dp_send_cpl d ! nat rc) len (rc_at rc d) (vc_side (dp_vcs d)) of
          (r, ctx, g) \<Rightarrow> (r, set_rc rc ctx g d)))"

definition bridge_vcs_set_bar_base_rc :: "int \<Rightarrow> int \<Rightarrow> u64 \<Rightarrow> 'p dpi \<Rightarrow> 'p dpi" where
  "bridge_vcs_set_bar_base_rc rc idx base d =
     (if rc_ok rc \<and> idx \<ge> 0 \<and> idx < 6
      then d\<lparr>dp_bar_base := (dp_bar_base d)[nat rc := (dp_bar_base d ! nat rc)[nat idx := base]]\<rparr> else d)"

definition bridge_vcs_get_bar_base_rc :: "int \<Rightarrow> int \<Rightarrow> 'p dpi \<Rightarrow> u64" where
  "bridge_vcs_get_bar_base_rc rc idx d =
     (if rc_ok rc \<and> idx \<ge> 0 \<and> idx < 6 then dp_bar_base d ! nat rc ! nat idx else 0)"

text \<open>By BDF: the table entry, which nothing reads, and for function 0 also the address of the first root complex.\<close>

definition bridge_vcs_set_bar_base_bdf :: "int \<Rightarrow> int \<Rightarrow> u64 \<Rightarrow> 'p dpi \<Rightarrow> 'p dpi" where
  "bridge_vcs_set_bar_base_bdf bdf bar_idx bar_addr d =
     (let h = nat (bdf mod BDF_BAR_HASH_SIZE)
      in if bar_idx \<ge> 0 \<and> bar_idx < 6
         then (let d1 = d\<lparr>dp_bdf_bar_base := (dp_bdf_bar_base d)[h := (dp_bdf_bar_base d ! h)[nat bar_idx := bar_addr]]\<rparr>
           in if bdf mod 8 = 0
              then d1\<lparr>dp_bar_base := (dp_bar_base d1)[0 := (dp_bar_base d1 ! 0)[nat bar_idx := bar_addr]]\<rparr> else d1)
         else d)"

text \<open>The functions without an index are those of root complex 0.\<close>

definition bridge_vcs_poll_tlp_scalar :: "'p transport \<Rightarrow> 'p dpi \<Rightarrow> (rc \<times> 'p dpi) option" where
  "bridge_vcs_poll_tlp_scalar ops d = bridge_vcs_poll_tlp_scalar_rc ops 0 d"

definition bridge_vcs_get_poll_type :: "'p dpi \<Rightarrow> int" where
  "bridge_vcs_get_poll_type d = bridge_vcs_get_poll_type_rc 0 d"

definition bridge_vcs_get_poll_addr :: "'p dpi \<Rightarrow> int" where
  "bridge_vcs_get_poll_addr d = bridge_vcs_get_poll_addr_rc 0 d"

definition bridge_vcs_get_poll_len :: "'p dpi \<Rightarrow> int" where
  "bridge_vcs_get_poll_len d = bridge_vcs_get_poll_len_rc 0 d"

definition bridge_vcs_get_poll_tag :: "'p dpi \<Rightarrow> int" where
  "bridge_vcs_get_poll_tag d = bridge_vcs_get_poll_tag_rc 0 d"

definition bridge_vcs_get_poll_data :: "int \<Rightarrow> 'p dpi \<Rightarrow> u32" where
  "bridge_vcs_get_poll_data index d = bridge_vcs_get_poll_data_rc 0 index d"

definition bridge_vcs_get_poll_first_be :: "'p dpi \<Rightarrow> u8" where
  "bridge_vcs_get_poll_first_be d = bridge_vcs_get_poll_first_be_rc 0 d"

definition bridge_vcs_get_poll_last_be :: "'p dpi \<Rightarrow> u8" where
  "bridge_vcs_get_poll_last_be d = bridge_vcs_get_poll_last_be_rc 0 d"

definition bridge_vcs_set_bar_base :: "int \<Rightarrow> u64 \<Rightarrow> 'p dpi \<Rightarrow> 'p dpi" where
  "bridge_vcs_set_bar_base idx base d = bridge_vcs_set_bar_base_rc 0 idx base d"

definition bridge_vcs_get_bar_base :: "int \<Rightarrow> 'p dpi \<Rightarrow> u64" where
  "bridge_vcs_get_bar_base idx d = bridge_vcs_get_bar_base_rc 0 idx d"

definition bridge_vcs_set_cpl_data :: "int \<Rightarrow> u32 \<Rightarrow> 'p dpi \<Rightarrow> 'p dpi" where
  "bridge_vcs_set_cpl_data index v d = bridge_vcs_set_cpl_data_rc 0 index v d"

definition bridge_vcs_send_cpl_scalar :: "'p transport \<Rightarrow> int \<Rightarrow> int \<Rightarrow> 'p dpi \<Rightarrow> rc \<times> 'p dpi" where
  "bridge_vcs_send_cpl_scalar ops tag len d = bridge_vcs_send_cpl_scalar_rc ops 0 tag len d"

text \<open>
  The scalar interface gives what the interface with arrays gives: a poll leaves in the static variables what the
  other returns, and a completion staged word by word is the completion of the array.
\<close>

lemma scalar_poll_agrees:
  assumes "bridge_vcs_poll_tlp ops (dp_poll d ! 0) d = Some (r, out, d')" and "dp_poll d \<noteq> []"
  shows "\<exists>d1. bridge_vcs_poll_tlp_scalar ops d = Some (r, d1) \<and> d1 = d'\<lparr>dp_poll := (dp_poll d)[0 := out]\<rparr>
    \<and> bridge_vcs_get_poll_type d1 = uint (po_type out) \<and> bridge_vcs_get_poll_addr d1 = sint (po_addr out)
    \<and> bridge_vcs_get_poll_len d1 = po_len out \<and> bridge_vcs_get_poll_tag d1 = po_tag out
    \<and> (\<forall>i<16. bridge_vcs_get_poll_data (int i) d1 = po_data out ! i)"
proof -
  have "rc_ok 0" by (simp add: rc_ok_def COSIM_MAX_RCS_def)
  then show ?thesis
    using assms
    by (auto simp: bridge_vcs_poll_tlp_def bridge_vcs_poll_tlp_scalar_def bridge_vcs_poll_tlp_scalar_rc_def
        bridge_vcs_get_poll_type_def bridge_vcs_get_poll_addr_def bridge_vcs_get_poll_len_def bridge_vcs_get_poll_tag_def
        bridge_vcs_get_poll_data_def bridge_vcs_get_poll_type_rc_def bridge_vcs_get_poll_addr_rc_def
        bridge_vcs_get_poll_len_rc_def bridge_vcs_get_poll_tag_rc_def bridge_vcs_get_poll_data_rc_def)
qed

lemma scalar_completion_agrees:
  assumes "length (dp_send_cpl d) = COSIM_MAX_RCS" and "dp_send_cpl d ! 0 = data"
  shows "bridge_vcs_send_cpl_scalar ops tag len d = bridge_vcs_send_completion ops tag data len d"
  using assms by (simp add: bridge_vcs_send_cpl_scalar_def bridge_vcs_send_cpl_scalar_rc_def bridge_vcs_send_completion_def rc_ok_def COSIM_MAX_RCS_def)

subsection \<open>Opening and closing\<close>

text \<open>
  \<open>obj\<close> is the shared object found under the name, \<open>sock\<close> the connection that \<open>sock_sync_connect\<close> makes, if it does.
  The state of the handle after a failure is left out: the code sets \<open>g_initialized\<close> only at the end.
\<close>

definition bridge_vcs_init :: "os_answers \<Rightarrow> cosim_shm option \<Rightarrow> sock option \<Rightarrow> 'p vcs \<Rightarrow> rc \<times> 'p vcs" where
  "bridge_vcs_init os obj sock v =
     (if vc_initialized v then (0, v)
      else (case obj of
          None \<Rightarrow> (-1, v)
        | Some shm \<Rightarrow> if fst (cosim_shm_open os obj) < 0 then (-1, v)
            else (case sock of
                None \<Rightarrow> (-1, v\<lparr>vc_side := (vc_side v)\<lparr>ss_sock := None\<rparr>\<rparr>)
              | Some s \<Rightarrow> (0, v\<lparr>vc_side := \<lparr>ss_shm = shm\<lparr>sh_ctrl := (sh_ctrl shm)\<lparr>cc_vcs_ready := 1\<rparr>\<rparr>, ss_sock = Some s\<rparr>,
                    vc_initialized := True\<rparr>))))"

text \<open>\<open>created\<close> is the result of \<open>transport_create\<close> for a kind of transport other than shared memory.\<close>

definition bridge_vcs_init_ex_rc :: "'p transport \<Rightarrow> (string \<Rightarrow> 'p option) \<Rightarrow> os_answers \<Rightarrow> cosim_shm option \<Rightarrow> sock option
    \<Rightarrow> int \<Rightarrow> string option \<Rightarrow> 'p vcs \<Rightarrow> rc \<times> 'p vcs" where
  "bridge_vcs_init_ex_rc ops created os obj sock rc transport_type v =
     (if \<not> rc_ok rc then (-1, v)
      else case transport_type of
          None \<Rightarrow> if rc \<noteq> 0 then (-1, v) else bridge_vcs_init os obj sock v
        | Some kind \<Rightarrow>
            if kind = ''shm'' then (if rc \<noteq> 0 then (-1, v) else bridge_vcs_init os obj sock v)
            else if rc_transport (vc_rc v ! nat rc) \<noteq> None then (0, v)
            else (case created kind of
                None \<Rightarrow> (-1, v)
              | Some p \<Rightarrow> (0, v\<lparr>vc_rc := (vc_rc v)[nat rc := (vc_rc v ! nat rc)\<lparr>rc_transport := Some (tr_set_ready ops p)\<rparr>],
                    vc_num_rc := (if rc + 1 > vc_num_rc v then rc + 1 else vc_num_rc v)\<rparr>)))"

definition bridge_vcs_init_ex :: "'p transport \<Rightarrow> (string \<Rightarrow> 'p option) \<Rightarrow> os_answers \<Rightarrow> cosim_shm option \<Rightarrow> sock option
    \<Rightarrow> string option \<Rightarrow> 'p vcs \<Rightarrow> rc \<times> 'p vcs" where
  "bridge_vcs_init_ex ops created os obj sock transport_type v =
     (if vc_initialized v \<or> rc_transport (rc0 v) \<noteq> None then (0, v)
      else bridge_vcs_init_ex_rc ops created os obj sock 0 transport_type v)"

definition bridge_vcs_cleanup :: "'p vcs \<Rightarrow> 'p vcs" where
  "bridge_vcs_cleanup v =
     (if vc_initialized v then v\<lparr>vc_side := (vc_side v)\<lparr>ss_sock := None\<rparr>, vc_initialized := False\<rparr> else v)"

definition bridge_vcs_cleanup_ex_rc :: "int \<Rightarrow> 'p vcs \<Rightarrow> 'p vcs" where
  "bridge_vcs_cleanup_ex_rc rc v =
     (if \<not> rc_ok rc then v
      else if rc_transport (vc_rc v ! nat rc) \<noteq> None
      then v\<lparr>vc_rc := (vc_rc v)[nat rc := (vc_rc v ! nat rc)\<lparr>rc_transport := None\<rparr>]\<rparr>
      else if rc = 0 then bridge_vcs_cleanup v else v)"

definition bridge_vcs_cleanup_ex :: "'p vcs \<Rightarrow> 'p vcs" where
  "bridge_vcs_cleanup_ex v = bridge_vcs_cleanup_ex_rc 0 v"

subsection \<open>A driver that polls\<close>

text \<open>What a driver reads with the getters after a poll: the fields of the TLP and as many words as its length asks for.\<close>

record tlp_view =
  tv_type :: int
  tv_addr :: int
  tv_len :: int
  tv_tag :: int
  tv_first_be :: u8
  tv_last_be :: u8
  tv_target :: int
  tv_requester :: int
  tv_words :: "u32 list"

definition view_words :: "int \<Rightarrow> nat" where
  "view_words len = min 16 (nat ((len + 3) div 4))"

definition read_view :: "int \<Rightarrow> 'p dpi \<Rightarrow> tlp_view" where
  "read_view rc d = \<lparr>tv_type = bridge_vcs_get_poll_type_rc rc d, tv_addr = bridge_vcs_get_poll_addr_rc rc d,
     tv_len = bridge_vcs_get_poll_len_rc rc d, tv_tag = bridge_vcs_get_poll_tag_rc rc d,
     tv_first_be = bridge_vcs_get_poll_first_be_rc rc d, tv_last_be = bridge_vcs_get_poll_last_be_rc rc d,
     tv_target = bridge_vcs_get_tlp_target_bdf_rc rc d, tv_requester = bridge_vcs_get_tlp_requester_id_rc rc d,
     tv_words = map (\<lambda>i. bridge_vcs_get_poll_data_rc rc (int i) d) [0..<view_words (bridge_vcs_get_poll_len_rc rc d)]\<rparr>"

definition view_of :: "tlp_entry \<Rightarrow> tlp_view" where
  "view_of t = \<lparr>tv_type = uint (t_type t), tv_addr = sint (t_addr t), tv_len = uint (t_len t), tv_tag = uint (t_tag t),
     tv_first_be = t_first_be t, tv_last_be = t_last_be t, tv_target = uint (t_target_bdf t), tv_requester = uint (t_requester_id t),
     tv_words = map (\<lambda>i. le_word (field (4 * i) 4 (t_data t))) [0..<view_words (uint (t_len t))]\<rparr>"

text \<open>The drivers of several root complexes poll in any order; the trace holds what each read.\<close>

fun poll_trace :: "'p transport \<Rightarrow> int list \<Rightarrow> 'p dpi \<Rightarrow> ((int \<times> tlp_view) list \<times> 'p dpi) option" where
  "poll_trace ops [] d = Some ([], d)"
| "poll_trace ops (rc # rcs) d = (case bridge_vcs_poll_tlp_scalar_rc ops rc d of
     None \<Rightarrow> None
   | Some (r, d1) \<Rightarrow> if r \<noteq> 0 then None
       else map_option (\<lambda>(vs, d2). ((rc, read_view rc d1) # vs, d2)) (poll_trace ops rcs d1))"

text \<open>The arrays have the sizes the code declares.\<close>

definition dpi_ok :: "'p dpi \<Rightarrow> bool" where
  "dpi_ok d \<longleftrightarrow> length (vc_rc (dp_vcs d)) = COSIM_MAX_RCS \<and> length (dp_poll d) = COSIM_MAX_RCS
     \<and> length (dp_send_cpl d) = COSIM_MAX_RCS \<and> list_all (\<lambda>out. length (po_data out) = 16) (dp_poll d)
     \<and> list_all (\<lambda>ws. length ws = 16) (dp_send_cpl d)"

text \<open>Every context holds the TLPs \<open>pend rc\<close>, cached or still on their way.\<close>

definition pending :: "(int \<Rightarrow> tlp_entry list) \<Rightarrow> transport_tcp_priv dpi \<Rightarrow> bool" where
  "pending pend d \<longleftrightarrow> dpi_ok d
     \<and> (\<forall>rc. rc_ok rc \<longrightarrow> length (pend rc) < TLP_CACHE_SIZE
         \<and> (\<exists>ms ts. tcp_tlps.holds_tlps (rc_at rc d) ms ts \<and> cache_items (rc_at rc d) @ ts = pend rc))"

lemma return_entry_fields:
  assumes "length (po_data out) = 16"
  shows "po_type (return_entry t out) = t_type t" "po_addr (return_entry t out) = t_addr t" "po_len (return_entry t out) = uint (t_len t)"
    "po_tag (return_entry t out) = uint (t_tag t)" "length (po_data (return_entry t out)) = 16"
    "i < view_words (uint (t_len t)) \<Longrightarrow> po_data (return_entry t out) ! i = le_word (field (4 * i) 4 (t_data t))"
proof -
  have "nat ((uint w + 3) div 4) = (unat w + 3) div 4" for w :: u16
    by (simp add: nat_div_distrib nat_add_distrib)
  then show "po_type (return_entry t out) = t_type t" "po_addr (return_entry t out) = t_addr t" "po_len (return_entry t out) = uint (t_len t)"
    "po_tag (return_entry t out) = uint (t_tag t)" "length (po_data (return_entry t out)) = 16"
    "i < view_words (uint (t_len t)) \<Longrightarrow> po_data (return_entry t out) ! i = le_word (field (4 * i) 4 (t_data t))"
    using assms by (simp_all add: return_entry_def Let_def view_words_def)
qed

lemma rc_ok_nat [simp]: "rc_ok rc \<Longrightarrow> nat rc < COSIM_MAX_RCS"
  by (auto simp: rc_ok_def)

lemma rc_at_set_rc:
  assumes "dpi_ok d" and "rc_ok rc" and "rc_ok x"
  shows "rc_at x (set_rc rc ctx g d) = (if x = rc then ctx else rc_at x d)"
proof (cases "x = rc")
  case True
  then show ?thesis using assms by (simp add: rc_at_def set_rc_def dpi_ok_def)
next
  case False
  then have "nat rc \<noteq> nat x" using assms(2,3) by (auto simp: rc_ok_def)
  then show ?thesis using False by (simp add: rc_at_def set_rc_def)
qed

lemma scalar_poll_step:
  assumes "dpi_ok d" and "rc_ok rc" and "rc_last_entry ctx' = t"
    and "poll_tlp_ctx ops (dp_poll d ! nat rc) (rc_at rc d) (vc_side (dp_vcs d))
      = Some (0, return_entry t (dp_poll d ! nat rc), ctx', vc_side (dp_vcs d))"
  shows "\<exists>d'. bridge_vcs_poll_tlp_scalar_rc ops rc d = Some (0, d') \<and> read_view rc d' = view_of t \<and> dpi_ok d'
    \<and> (\<forall>x. rc_ok x \<longrightarrow> rc_at x d' = (if x = rc then ctx' else rc_at x d)) \<and> dp_send_cpl d' = dp_send_cpl d"
proof -
  let ?out = "dp_poll d ! nat rc"
  let ?d = "(set_rc rc ctx' (vc_side (dp_vcs d)) d)\<lparr>dp_poll := (dp_poll d)[nat rc := return_entry t ?out]\<rparr>"
  have n: "nat rc < COSIM_MAX_RCS" using assms(2) by simp
  then have out: "length (po_data ?out) = 16" using assms(1) by (simp add: dpi_ok_def list_all_length)
  have at: "rc_at x ?d = (if x = rc then ctx' else rc_at x d)" if "rc_ok x" for x
    using rc_at_set_rc [OF assms(1,2) that] by (simp add: rc_at_def)
  have "dp_poll ?d ! nat rc = return_entry t ?out" using n assms(1) by (simp add: dpi_ok_def)
  then have "read_view rc ?d = view_of t"
    using return_entry_fields [OF out, where t = t] assms(2,3) at [OF assms(2)]
    by (simp add: read_view_def view_of_def bridge_vcs_get_poll_type_rc_def bridge_vcs_get_poll_addr_rc_def bridge_vcs_get_poll_len_rc_def
        bridge_vcs_get_poll_tag_rc_def bridge_vcs_get_poll_first_be_rc_def bridge_vcs_get_poll_last_be_rc_def bridge_vcs_get_tlp_target_bdf_rc_def
        bridge_vcs_get_tlp_requester_id_rc_def bridge_vcs_get_poll_data_rc_def bridge_vcs_get_tlp_target_bdf_def
        bridge_vcs_get_tlp_requester_id_def view_words_def)
  moreover have "list_all (\<lambda>out. length (po_data out) = 16) ((dp_poll d)[nat rc := return_entry t ?out])"
    using assms(1) return_entry_fields(5) [OF out] by (simp add: dpi_ok_def list_all_iff) (use set_update_subset_insert in fastforce)
  then have "dpi_ok ?d" using assms(1) by (simp add: dpi_ok_def set_rc_def)
  moreover have "dp_send_cpl ?d = dp_send_cpl d" by (simp add: set_rc_def)
  ultimately show ?thesis using assms(2,4) at by (auto simp: bridge_vcs_poll_tlp_scalar_rc_def)
qed

lemma scalar_poll_next:
  assumes "pending pend d" and "rc_ok rc" and "pend rc = t # rest"
  shows "\<exists>d'. bridge_vcs_poll_tlp_scalar_rc tcp_transport rc d = Some (0, d') \<and> read_view rc d' = view_of t
    \<and> pending (pend(rc := rest)) d'"
proof -
  have ok: "dpi_ok d" using assms(1) by (simp add: pending_def)
  obtain ms ts where h: "tcp_tlps.holds_tlps (rc_at rc d) ms ts" "cache_items (rc_at rc d) @ ts = t # rest" "length (t # rest) < TLP_CACHE_SIZE"
    using assms by (auto simp: pending_def)
  then have "length rest < TLP_CACHE_SIZE - 1" by simp
  from tcp_tlps.poll_delivers [OF h(1,2) this, of "dp_poll d ! nat rc" "vc_side (dp_vcs d)"] obtain ctx' ms' ts'
    where p: "poll_tlp_ctx tcp_transport (dp_poll d ! nat rc) (rc_at rc d) (vc_side (dp_vcs d))
        = Some (0, return_entry t (dp_poll d ! nat rc), ctx', vc_side (dp_vcs d))"
      "tcp_tlps.holds_tlps ctx' ms' ts'" "cache_items ctx' @ ts' = rest" "rc_last_entry ctx' = t" by blast
  from scalar_poll_step [OF ok assms(2) p(4,1)] obtain d'
    where d: "bridge_vcs_poll_tlp_scalar_rc tcp_transport rc d = Some (0, d')" "read_view rc d' = view_of t" "dpi_ok d'"
      "\<And>x. rc_ok x \<Longrightarrow> rc_at x d' = (if x = rc then ctx' else rc_at x d)" by blast
  have "pending (pend(rc := rest)) d'"
    unfolding pending_def
  proof (intro conjI allI impI)
    fix x assume x: "rc_ok x"
    show "length ((pend(rc := rest)) x) < TLP_CACHE_SIZE" using assms(1) h(3) x by (simp add: pending_def)
    show "\<exists>ms ts. tcp_tlps.holds_tlps (rc_at x d') ms ts \<and> cache_items (rc_at x d') @ ts = (pend(rc := rest)) x"
      using assms(1) p(2,3) x d(4) [OF x] by (auto simp: pending_def)
  qed (rule d(3))
  then show ?thesis using d(1,2) by blast
qed

lemma poll_trace_order:
  assumes "pending pend d" and "\<forall>rc\<in>set rcs. rc_ok rc \<and> count_list rcs rc \<le> length (pend rc)"
  shows "\<exists>vs d'. poll_trace tcp_transport rcs d = Some (vs, d') \<and> map fst vs = rcs
    \<and> (\<forall>rc. map snd (filter (\<lambda>v. fst v = rc) vs) = map view_of (take (count_list rcs rc) (pend rc)))"
  using assms
proof (induction rcs arbitrary: pend d)
  case (Cons rc rcs)
  from Cons.prems(2) obtain t rest where t: "rc_ok rc" "pend rc = t # rest" by (cases "pend rc") auto
  from scalar_poll_next [OF Cons.prems(1) t] obtain d1 where d1: "bridge_vcs_poll_tlp_scalar_rc tcp_transport rc d = Some (0, d1)"
    "read_view rc d1 = view_of t" "pending (pend(rc := rest)) d1" by blast
  have "rc_ok x \<and> count_list rcs x \<le> length ((pend(rc := rest)) x)" if "x \<in> set rcs" for x
    using Cons.prems(2) t that by (cases "x = rc") auto
  with Cons.IH [OF d1(3)] obtain vs d2 where v: "poll_trace tcp_transport rcs d1 = Some (vs, d2)" "map fst vs = rcs"
    "\<forall>x. map snd (filter (\<lambda>v. fst v = x) vs) = map view_of (take (count_list rcs x) ((pend(rc := rest)) x))" by blast
  then show ?case using d1(1,2) t by auto
qed simp

subsection \<open>Properties\<close>

text \<open>C22: Several root complexes, each on its own TCP transport, share one simulator: in whatever order their drivers
  poll, every driver reads through the getters exactly the TLPs its own host sent, in the order sent, with all their
  fields and data words; the polls of the others neither consume nor overwrite anything of its.\<close>

theorem rcs_polled_independently:
  assumes "pending pend d" and "\<forall>rc\<in>set rcs. rc_ok rc \<and> count_list rcs rc \<le> length (pend rc)"
  shows "\<exists>vs d'. poll_trace tcp_transport rcs d = Some (vs, d') \<and> map fst vs = rcs
    \<and> (\<forall>rc. map snd (filter (\<lambda>v. fst v = rc) vs) = map view_of (take (count_list rcs rc) (pend rc)))"
  by (rule poll_trace_order [OF assms])

definition tlp_numbered :: "nat \<Rightarrow> tlp_entry" where
  "tlp_numbered n = tlp_zero\<lparr>t_tag := of_nat n, t_len := 4\<rparr>"

definition two_hosts :: "transport_tcp_priv dpi" where
  "two_hosts = (dpi_start shm_side_example)\<lparr>dp_vcs := (vcs_start shm_side_example)\<lparr>vc_rc :=
     [vcs_example [sync_of SYNC_MSG_TLP_READY 0, sync_of SYNC_MSG_TLP_READY 0] [tlp_numbered 1, tlp_numbered 2],
      vcs_example [sync_of SYNC_MSG_TLP_READY 0] [tlp_numbered 7], vcs_example [] [], vcs_example [] []]\<rparr>\<rparr>"

lemma two_hosts_pending:
  "pending (\<lambda>rc. if rc = 0 then [tlp_numbered 1, tlp_numbered 2] else if rc = 1 then [tlp_numbered 7] else []) two_hosts"
proof -
  have wf: "wf_tlp (tlp_numbered n)" for n by (simp add: wf_tlp_def tlp_zero_def tlp_numbered_def)
  have h: "\<exists>ms' ts'. tcp_tlps.holds_tlps (vcs_example ms ts) ms' ts' \<and> cache_items (vcs_example ms ts) @ ts' = ts"
    if "list_all wf_tlp ts" "tcp_tlps.announced ms ts" for ms ts
    using vcs_example_inbox [OF that(1), of ms] that(2) by (auto simp: tcp_tlps.holds_tlps_def)
  have c: "rc_ok rc \<longleftrightarrow> rc = 0 \<or> rc = 1 \<or> rc = 2 \<or> rc = 3" for rc by (auto simp: rc_ok_def code_consts)
  have at: "rc_at 0 two_hosts = vcs_example [sync_of SYNC_MSG_TLP_READY 0, sync_of SYNC_MSG_TLP_READY 0] [tlp_numbered 1, tlp_numbered 2]"
    "rc_at 1 two_hosts = vcs_example [sync_of SYNC_MSG_TLP_READY 0] [tlp_numbered 7]"
    "rc_at 2 two_hosts = vcs_example [] []" "rc_at 3 two_hosts = vcs_example [] []"
    by (simp_all add: rc_at_def two_hosts_def)
  have "\<exists>ms ts. tcp_tlps.holds_tlps (rc_at rc two_hosts) ms ts \<and> cache_items (rc_at rc two_hosts) @ ts
      = (if rc = 0 then [tlp_numbered 1, tlp_numbered 2] else if rc = 1 then [tlp_numbered 7] else [])" if "rc_ok rc" for rc
  proof -
    from that consider "rc = 0" | "rc = 1" | "rc = 2" | "rc = 3" unfolding c by blast
    then show ?thesis
      using h [of "[tlp_numbered 1, tlp_numbered 2]" "[sync_of SYNC_MSG_TLP_READY 0, sync_of SYNC_MSG_TLP_READY 0]"]
        h [of "[tlp_numbered 7]" "[sync_of SYNC_MSG_TLP_READY 0]"] h [of "[]" "[]"] wf by cases (simp_all add: at)
  qed
  moreover have "dpi_ok two_hosts"
    by (simp add: dpi_ok_def two_hosts_def dpi_start_def COSIM_MAX_RCS_def poll_out_zero_def list_all_iff)
  ultimately show ?thesis unfolding pending_def by (simp add: TLP_CACHE_SIZE_def)
qed

theorem rcs_polled_independently_witness:
  "\<exists>vs d'. poll_trace tcp_transport [0, 1, 0] two_hosts = Some (vs, d') \<and> map fst vs = [0, 1, 0]
    \<and> map snd (filter (\<lambda>v. fst v = 0) vs) = [view_of (tlp_numbered 1), view_of (tlp_numbered 2)]"
proof -
  from rcs_polled_independently [OF two_hosts_pending, of "[0, 1, 0]"] obtain vs d' where
    v: "poll_trace tcp_transport [0, 1, 0] two_hosts = Some (vs, d')" "map fst vs = [0, 1, 0]"
    "\<forall>rc. map snd (filter (\<lambda>v. fst v = rc) vs) = map view_of (take (count_list [0, 1, 0] rc)
       (if rc = 0 then [tlp_numbered 1, tlp_numbered 2] else if rc = 1 then [tlp_numbered 7] else []))"
    by (auto simp: rc_ok_def code_consts)
  from spec [OF v(3), of 0] v(1,2) show ?thesis by simp
qed

text \<open>C40: The initialisation over TCP does not set \<open>g_initialized\<close>, which the synchronous and the byte transfers
  test first: after a successful \<open>bridge_vcs_init_ex\<close> they all return -1 and send nothing.\<close>

theorem tcp_init_refuses_dma:
  assumes "bridge_vcs_init_ex ops created os obj sock (Some kind) (vcs_start side) = (0, v)" and "kind \<noteq> ''shm''"
  shows "rc_transport (rc0 v) \<noteq> None
    \<and> bridge_dma_read_bytes ops host_addr buf n v = Some ((-1, buf), v)
    \<and> bridge_dma_write_bytes ops host_addr bs v = Some (-1, v)
    \<and> bridge_vcs_dma_read_sync ops stack host_addr data len v = Some ((-1, data), v)
    \<and> bridge_vcs_dma_write_sync ops host_addr data len v = Some (-1, v)"
proof -
  have "rc_transport (rc0 v) \<noteq> None \<and> \<not> vc_initialized v"
    using assms by (auto simp: bridge_vcs_init_ex_def bridge_vcs_init_ex_rc_def vcs_start_def rc0_def rc_ok_def code_consts rc_zero_def
        split: if_splits option.splits)
  then show ?thesis
    by (simp add: bridge_dma_read_bytes_def bridge_dma_write_bytes_def bridge_vcs_dma_read_sync_def bridge_vcs_dma_write_sync_def)
qed

theorem tcp_init_refuses_dma_witness:
  "\<exists>v. bridge_vcs_init_ex tcp_transport (\<lambda>kind. if kind = ''tcp'' then Some hs_client else None) \<lparr>os_fd = 3, os_open_fails = False, os_truncate_fails = False, os_mmap_fails = False\<rparr> None None (Some ''tcp'')
      (vcs_start shm_side_example) = (0, v)
    \<and> bridge_dma_read_bytes tcp_transport 0x1000 [0] 1 v = Some ((-1, [0]), v)"
proof -
  obtain v where v: "bridge_vcs_init_ex tcp_transport (\<lambda>kind. if kind = ''tcp'' then Some hs_client else None) \<lparr>os_fd = 3, os_open_fails = False, os_truncate_fails = False, os_mmap_fails = False\<rparr> None None (Some ''tcp'')
      (vcs_start shm_side_example) = (0, v)"
    by (simp add: bridge_vcs_init_ex_def bridge_vcs_init_ex_rc_def vcs_start_def rc0_def rc_ok_def code_consts rc_zero_def)
  then show ?thesis using tcp_init_refuses_dma [OF v] by simp
qed

end
