(* ===== verification/Dma_Link.thy ===== *)
theory Dma_Link
  imports Pcie_Dma Vcs_Dpi
begin

section \<open>From the simulator to guest memory and back\<close>

text \<open>
  The byte transfers of bridge\_vcs.c on one end of a TCP connection and the poller of the PF on the other.
  Each side is run on the messages of the other: the simulator's calls on the replies, the poller on the
  requests; the theorem says that what each sends is what the other was run on.
\<close>

subsection \<open>The simulator's side of one transfer\<close>

text \<open>The simulator's private state with replies on the way.\<close>

definition replies :: "transport_tcp_priv \<Rightarrow> sync_msg list \<Rightarrow> bytes \<Rightarrow> bool" where
  "replies p ms bs \<longleftrightarrow> (\<exists>s. tp_aux p = Some s \<and> quiet s \<and> sk_in s = bs) \<and> sync_stream.awaits ms (tp_ctrl p)"

lemma dma_wait_direct:
  assumes "rc_transport ctx = Some p" and "replies p (sync_of SYNC_MSG_DMA_CPL x # ms) bs"
  shows "\<exists>p1. dma_wait tcp_transport (Suc n) failed h ctx
      = (case h (ctx\<lparr>rc_transport := Some p1\<rparr>) of (Return r, c2) \<Rightarrow> Some (r, c2)
         | (Continue, c2) \<Rightarrow> dma_wait tcp_transport n failed h c2 | (Mem_Error, c2) \<Rightarrow> None)
    \<and> replies p1 ms bs \<and> aux_out p1 = aux_out p"
proof -
  from assms(2) have "sync_stream.awaits (sync_of SYNC_MSG_DMA_CPL x # ms) (tp_ctrl p)" by (simp add: replies_def)
  from tcp_rc_recv_sync [OF this, of ctx] obtain s
    where "rc_via (tr_recv_sync tcp_transport) p ctx = (Got (sync_of SYNC_MSG_DMA_CPL x), ctx\<lparr>rc_transport := Some (p\<lparr>tp_ctrl := s\<rparr>)\<rparr>)"
      "sync_stream.awaits ms s" by blast
  then show ?thesis
    using assms by (intro exI [of _ "p\<lparr>tp_ctrl := s\<rparr>"]) (simp add: replies_def aux_out_def)
qed

lemma rc_aux_sends:
  assumes "sends m f" and "\<And>s. sk_polls (snd (f s)) = sk_polls s" and "replies p ms bs"
  shows "\<exists>p'. on_aux f p = (0, p') \<and> replies p' ms bs \<and> aux_out p' = aux_out p @ m"
proof -
  from assms(3) obtain s where s: "tp_aux p = Some s" "quiet s" "sk_in s = bs" "sync_stream.awaits ms (tp_ctrl p)" by (auto simp: replies_def)
  from aux_sends [OF assms(1,2) s(1,2)] show ?thesis using s by (auto simp: replies_def aux_out_def)
qed

lemma rc_aux_reads:
  assumes "reads m f x" and "\<And>s. sk_polls (snd (f s)) = sk_polls s" and "replies p ms (m @ bs)"
  shows "\<exists>p'. on_aux f p = (x, p') \<and> replies p' ms bs \<and> aux_out p' = aux_out p"
proof -
  from assms(3) obtain s where s: "tp_aux p = Some s" "quiet s" "sk_in s = m @ bs" "sync_stream.awaits ms (tp_ctrl p)" by (auto simp: replies_def)
  from aux_reads [OF assms(1,2) s(1,2,3)] show ?thesis using s by (auto simp: replies_def aux_out_def)
qed

lemma recv_msg_polls: "sk_polls (snd (tcp_recv_msg ty c n dec s)) = sk_polls s"
  by (auto simp: tcp_recv_msg_def recv_hdr_body_polls split: prod.splits option.splits dest!: sock_steps(3))

lemma tcp_send_ops:
  "tr_send_dma_req tcp_transport r = on_aux (tcp_send_msg TCP_MSG_DMA_REQ (enc_dma_req r))"
  "tr_send_dma_data tcp_transport tag dir addr d = on_aux (sock_send_dma_data tag dir addr d)"
  by (simp_all add: tcp_transport_def tcp_send_dma_req_def tcp_send_dma_data_def)

lemma send_write_sends:
  assumes "replies p ms bs"
  shows "\<exists>p'. send_write tcp_transport tag addr len d p = (0, p') \<and> replies p' ms bs
    \<and> aux_out p' = aux_out p @ card_bytes (Card_Write (make_dma_req tag DMA_DIR_WRITE addr len 0) d)"
proof -
  let ?r = "make_dma_req tag DMA_DIR_WRITE addr len 0"
  from rc_aux_sends [OF sends_msg send_polls(1) assms, of TCP_MSG_DMA_REQ "enc_dma_req ?r"] obtain p1
    where p1: "tr_send_dma_req tcp_transport ?r p = (0, p1)" "replies p1 ms bs" "aux_out p1 = aux_out p @ msg_bytes TCP_MSG_DMA_REQ (enc_dma_req ?r)"
    unfolding tcp_send_ops by blast
  let ?d = "\<lparr>dd_tag = tag, dd_direction = DMA_DIR_WRITE, dd_host_addr = addr, dd_bytes = d\<rparr>"
  have "sends (dma_data_bytes ?d) (sock_send_dma_data tag DMA_DIR_WRITE addr d)" using sends_dma_data [of ?d] by simp
  from rc_aux_sends [OF this send_polls(2) p1(2)] obtain p2
    where "tr_send_dma_data tcp_transport tag DMA_DIR_WRITE addr d p1 = (0, p2)" "replies p2 ms bs"
      "aux_out p2 = aux_out p1 @ dma_data_bytes ?d" unfolding tcp_send_ops by blast
  then show ?thesis using p1 by (simp add: send_write_def make_dma_req_def)
qed

lemma write_cpl_handled:
  assumes "rc_transport ctx = Some p" and "replies p ms (cpl_message tag @ bs)"
  shows "\<exists>p'. handle_write_cpl tcp_transport tag ctx = (Return 0, ctx\<lparr>rc_transport := Some p'\<rparr>) \<and> replies p' ms bs \<and> aux_out p' = aux_out p"
  using rc_aux_reads [OF reads_dma_cpl recv_msg_polls assms(2) [unfolded cpl_message_def]] assms(1)
  by (auto simp: handle_write_cpl_def rc_via_def tcp_aux_ops)

lemma read_cpl_handled:
  assumes "rc_transport ctx = Some p"
    and "replies p ms (dma_data_bytes \<lparr>dd_tag = t, dd_direction = dir, dd_host_addr = addr, dd_bytes = d\<rparr> @ cpl_message tag @ bs)"
    and "length d = unat len" and "length d \<le> 4096" and "length buf = length d"
  shows "\<exists>p'. handle_read_bytes tcp_transport tag len buf ctx = (Return (0, d), ctx\<lparr>rc_transport := Some p'\<rparr>)
    \<and> replies p' ms bs \<and> aux_out p' = aux_out p"
proof -
  let ?d = "\<lparr>dd_tag = t, dd_direction = dir, dd_host_addr = addr, dd_bytes = d\<rparr>"
  have "reads (dma_data_bytes ?d) sock_recv_dma_data (Got ?d)" using assms(4) by (intro reads_dma_data) simp
  from rc_aux_reads [OF this recv_data_polls assms(2)] obtain p1
    where p1: "on_aux sock_recv_dma_data p = (Got ?d, p1)" "replies p1 ms (cpl_message tag @ bs)" "aux_out p1 = aux_out p" by blast
  from rc_aux_reads [OF reads_dma_cpl recv_msg_polls p1(2) [unfolded cpl_message_def]] obtain p2
    where "on_aux (tcp_recv_msg TCP_MSG_DMA_CPL False 16 dec_dma_cpl) p1 = (Got \<lparr>d_tag = tag, d_status = 0, d_timestamp = 0\<rparr>, p2)"
      "replies p2 ms bs" "aux_out p2 = aux_out p1" by blast
  then show ?thesis
    using assms p1 by (auto simp: handle_read_bytes_def rc_via_def tcp_aux_ops)
qed

lemma rc0_set [simp]: "vc_rc v \<noteq> [] \<Longrightarrow> rc0 (set_rc0 c v) = c" "vc_rc v \<noteq> [] \<Longrightarrow> vc_rc (set_rc0 c v) \<noteq> []"
  "vc_initialized (set_rc0 c v) = vc_initialized v" "vc_rd (set_rc0 c v) = vc_rd v" "vc_wr (set_rc0 c v) = vc_wr v"
  by (simp_all add: rc0_def set_rc0_def)

text \<open>
  The state of the simulator's bridge between transfers.  The byte transfers test \<open>g_initialized\<close>, which
  opening over TCP alone does not set, so this is the state of a simulator that opens the shared object
  and then a TCP connection for root complex 0.
\<close>

definition sim_ready :: "transport_tcp_priv vcs \<Rightarrow> transport_tcp_priv \<Rightarrow> bool" where
  "sim_ready v p \<longleftrightarrow> vc_initialized v \<and> vc_rc v \<noteq> [] \<and> rc_transport (rc0 v) = Some p"

lemma opened_sim_ready:
  assumes "bridge_vcs_init os obj sock (vcs_start side) = (0, v1)" and "kind \<noteq> ''shm''"
    and "bridge_vcs_init_ex_rc tcp_transport created os obj sock 0 (Some kind) v1 = (0, v2)"
  shows "\<exists>p. sim_ready v2 p"
proof -
  have v1: "vc_initialized v1" "vc_rc v1 = replicate COSIM_MAX_RCS rc_zero"
    using assms(1) by (auto simp: bridge_vcs_init_def vcs_start_def split: if_splits option.splits)
  then show ?thesis
    using assms(2,3) by (auto simp: bridge_vcs_init_ex_rc_def rc_ok_def COSIM_MAX_RCS_def rc_zero_def sim_ready_def rc0_def numeral_eq_Suc
        split: if_splits option.splits)
qed

lemma write_bytes_done:
  assumes "sim_ready v p" and "replies p (sync_of SYNC_MSG_DMA_CPL x # ms) (cpl_message (ds_tag (vc_wr v)) @ bs)"
    and "d \<noteq> []" and "length d \<le> 65536"
  shows "\<exists>v1 p1. bridge_dma_write_bytes tcp_transport addr d v = Some (0, v1) \<and> sim_ready v1 p1 \<and> replies p1 ms bs
    \<and> vc_rd v1 = vc_rd v
    \<and> aux_out p1 = aux_out p @ card_bytes (Card_Write (make_dma_req (ds_tag (vc_wr v)) DMA_DIR_WRITE addr (of_nat (length d)) 0) d)"
proof -
  let ?t = "ds_tag (vc_wr v)" and ?n = "of_nat (length d) :: u32" and ?ctx = "rc0 v"
  let ?v = "v\<lparr>vc_wr := (vc_wr v)\<lparr>ds_tag := ds_tag (vc_wr v) + 1\<rparr>\<rparr>"
  have "unat ?n = length d" using assms(4) by (intro unat_of_nat_less) simp
  then have n: "?n \<noteq> 0" using assms(3) by auto
  have v: "vc_initialized v" "vc_rc v \<noteq> []" "rc_transport ?ctx = Some p" using assms(1) by (simp_all add: sim_ready_def)
  from send_write_sends [OF assms(2), of ?t addr ?n d] obtain p1
    where p1: "send_write tcp_transport ?t addr ?n d p = (0, p1)" "replies p1 (sync_of SYNC_MSG_DMA_CPL x # ms) (cpl_message ?t @ bs)"
      "aux_out p1 = aux_out p @ card_bytes (Card_Write (make_dma_req ?t DMA_DIR_WRITE addr ?n 0) d)" by blast
  let ?ctx1 = "?ctx\<lparr>rc_transport := Some p1\<rparr>"
  have "rc_transport ?ctx1 = Some p1" by simp
  from dma_wait_direct [OF this p1(2), of 999 "-1" "handle_write_cpl tcp_transport ?t"] obtain p2
    where p2: "dma_wait tcp_transport (Suc 999) (-1) (handle_write_cpl tcp_transport ?t) ?ctx1
        = (case handle_write_cpl tcp_transport ?t (?ctx1\<lparr>rc_transport := Some p2\<rparr>) of (Return r, c2) \<Rightarrow> Some (r, c2)
           | (Continue, c2) \<Rightarrow> dma_wait tcp_transport 999 (-1) (handle_write_cpl tcp_transport ?t) c2 | (Mem_Error, c2) \<Rightarrow> None)"
      "replies p2 ms (cpl_message ?t @ bs)" "aux_out p2 = aux_out p1" by blast
  from write_cpl_handled [of "?ctx1\<lparr>rc_transport := Some p2\<rparr>" p2, OF _ p2(2)] obtain p3
    where p3: "handle_write_cpl tcp_transport ?t (?ctx1\<lparr>rc_transport := Some p2\<rparr>) = (Return 0, ?ctx1\<lparr>rc_transport := Some p3\<rparr>)"
      "replies p3 ms bs" "aux_out p3 = aux_out p2" by auto
  let ?v1 = "set_rc0 (?ctx\<lparr>rc_transport := Some p3\<rparr>) ?v"
  have "dma_wait tcp_transport 1000 (-1) (handle_write_cpl tcp_transport ?t) ?ctx1 = Some (0, ?ctx\<lparr>rc_transport := Some p3\<rparr>)"
    using p2(1) p3(1) by (simp del: dma_wait.simps)
  then have "bridge_dma_write_bytes tcp_transport addr d v = Some (0, ?v1)"
    using v n p1(1) by (simp add: bridge_dma_write_bytes_def take_tag_def rc_via_def del: dma_wait.simps)
  moreover have "sim_ready ?v1 p3" using v by (simp add: sim_ready_def)
  ultimately show ?thesis using p1(3) p2(3) p3 by (intro exI [of _ ?v1] exI [of _ p3]) simp
qed

lemma read_bytes_done:
  assumes "sim_ready v p" and "length d = unat len" and "0 < len" and "length d \<le> 4096" and "length buf = length d"
    and "replies p (sync_of SYNC_MSG_DMA_CPL x # ms) (dma_data_bytes \<lparr>dd_tag = ds_tag (vc_rd v), dd_direction = DMA_DIR_READ,
        dd_host_addr = addr, dd_bytes = d\<rparr> @ cpl_message (ds_tag (vc_rd v)) @ bs)"
  shows "\<exists>v1 p1. bridge_dma_read_bytes tcp_transport addr buf len v = Some ((0, d), v1) \<and> sim_ready v1 p1 \<and> replies p1 ms bs
    \<and> aux_out p1 = aux_out p @ card_bytes (Card_Read (make_dma_req (ds_tag (vc_rd v)) DMA_DIR_READ addr len 0))"
proof -
  let ?t = "ds_tag (vc_rd v)" and ?ctx = "rc0 v"
  let ?v = "v\<lparr>vc_rd := (vc_rd v)\<lparr>ds_tag := ds_tag (vc_rd v) + 1\<rparr>\<rparr>" and ?h = "handle_read_bytes tcp_transport (ds_tag (vc_rd v)) len buf"
  have v: "vc_initialized v" "vc_rc v \<noteq> []" "rc_transport ?ctx = Some p" using assms(1) by (simp_all add: sim_ready_def)
  from rc_aux_sends [OF sends_msg send_polls(1) assms(6), of TCP_MSG_DMA_REQ "enc_dma_req (make_dma_req ?t DMA_DIR_READ addr len 0)"]
  obtain p1 where p1: "tr_send_dma_req tcp_transport (make_dma_req ?t DMA_DIR_READ addr len 0) p = (0, p1)"
      "replies p1 (sync_of SYNC_MSG_DMA_CPL x # ms) (dma_data_bytes \<lparr>dd_tag = ?t, dd_direction = DMA_DIR_READ,
        dd_host_addr = addr, dd_bytes = d\<rparr> @ cpl_message ?t @ bs)"
      "aux_out p1 = aux_out p @ card_bytes (Card_Read (make_dma_req ?t DMA_DIR_READ addr len 0))"
    unfolding tcp_send_ops card_bytes.simps by blast
  let ?ctx1 = "?ctx\<lparr>rc_transport := Some p1\<rparr>"
  have "rc_transport ?ctx1 = Some p1" by simp
  from dma_wait_direct [OF this p1(2), of 999 "(-1, buf)" ?h] obtain p2
    where p2: "dma_wait tcp_transport (Suc 999) (-1, buf) ?h ?ctx1
        = (case ?h (?ctx1\<lparr>rc_transport := Some p2\<rparr>) of (Return r, c2) \<Rightarrow> Some (r, c2)
           | (Continue, c2) \<Rightarrow> dma_wait tcp_transport 999 (-1, buf) ?h c2 | (Mem_Error, c2) \<Rightarrow> None)"
      "replies p2 ms (dma_data_bytes \<lparr>dd_tag = ?t, dd_direction = DMA_DIR_READ, dd_host_addr = addr, dd_bytes = d\<rparr> @ cpl_message ?t @ bs)"
      "aux_out p2 = aux_out p1" by blast
  from read_cpl_handled [of "?ctx1\<lparr>rc_transport := Some p2\<rparr>" p2, OF _ p2(2) assms(2,4,5)] obtain p3
    where p3: "?h (?ctx1\<lparr>rc_transport := Some p2\<rparr>) = (Return (0, d), ?ctx1\<lparr>rc_transport := Some p3\<rparr>)"
      "replies p3 ms bs" "aux_out p3 = aux_out p2" by auto
  let ?v1 = "set_rc0 (?ctx\<lparr>rc_transport := Some p3\<rparr>) ?v"
  have "dma_wait tcp_transport 1000 (-1, buf) ?h ?ctx1 = Some ((0, d), ?ctx\<lparr>rc_transport := Some p3\<rparr>)"
    using p2(1) p3(1) by (simp del: dma_wait.simps)
  then have "bridge_dma_read_bytes tcp_transport addr buf len v = Some ((0, d), ?v1)"
    using v assms(3) p1(1) by (simp add: bridge_dma_read_bytes_def take_tag_def rc_via_def del: dma_wait.simps)
  moreover have "sim_ready ?v1 p3" using v by (simp add: sim_ready_def)
  ultimately show ?thesis using p1(3) p2(3) p3 by (intro exI [of _ ?v1] exI [of _ p3]) simp
qed

subsection \<open>Properties\<close>

definition write_and_read :: "transport_tcp_priv vcs \<Rightarrow> u64 \<Rightarrow> bytes \<Rightarrow> card_op list" where
  "write_and_read v addr bs =
     [Card_Write (make_dma_req (ds_tag (vc_wr v)) DMA_DIR_WRITE addr (of_nat (length bs)) 0) bs,
      Card_Read (make_dma_req (ds_tag (vc_rd v)) DMA_DIR_READ addr (of_nat (length bs)) 0)]"


definition link_v :: "bytes \<Rightarrow> bytes \<Rightarrow> transport_tcp_priv vcs" where
  "link_v ctrl aux = (vcs_start shm_side_example)\<lparr>vc_initialized := True,
     vc_rc := replicate COSIM_MAX_RCS (rc_zero\<lparr>rc_transport := Some (priv_init False (fresh_sock ctrl) (fresh_sock []) (Some (fresh_sock aux)))\<rparr>)\<rparr>"


end
