(* ===== verification/Pcie_Vf.thy ===== *)
theory Pcie_Vf
  imports Pcie_Pf_Access
begin

section \<open>The virtual function of QEMU: qemu-plugin/cosim\_pcie\_vf.c\<close>

text \<open>
  Virtual functions are created by QEMU's SR-IOV code and reach the bridge through the shared state of the
  physical functions.  Their BAR accesses are those of the physical functions, with \<open>is_vf\<close> set.
\<close>

text \<open>The BDF the card knows the function by; \<open>uint16_t\<close> arithmetic.\<close>

definition vf_bdf :: "'d \<Rightarrow> ('p, 'd, 'q) cosim_world \<Rightarrow> u16 option" where
  "vf_bdf d w = (case vf_parent (cw_vf w d) of
     None \<Rightarrow> None
   | Some pf \<Rightarrow> map_option (\<lambda>t. pf_bdf t + npfs w + vf_index (cw_vf w d) * npfs w) (topo_pf (unat (pd_index (cw_pf w pf))) w))"

definition cosim_vf_config_read :: "'p transport \<Rightarrow> ('d, 'q) qemu \<Rightarrow> 'd \<Rightarrow> u32 \<Rightarrow> nat
    \<Rightarrow> ('p, 'd, 'q) cosim_world \<Rightarrow> (u32 \<times> ('p, 'd, 'q) cosim_world) option" where
  "cosim_vf_config_read ops Q d address len w =
     (if g_bridge w = None then Some (q_read_config Q d address len (cw_qemu w), w)
      else Option.bind (vf_bdf d w) (\<lambda>target.
        map_option (\<lambda>(v, w1). (case v of None \<Rightarrow> q_read_config Q d address len (cw_qemu w1) | Some v \<Rightarrow> v, w1))
          (on_bridge (g_bridge w) (cfg_read_via ops address len target) w)))"

definition cosim_vf_config_write :: "'p transport \<Rightarrow> ('d, 'q) qemu \<Rightarrow> 'd \<Rightarrow> u32 \<Rightarrow> u32 \<Rightarrow> nat
    \<Rightarrow> ('p, 'd, 'q) cosim_world \<Rightarrow> ('p, 'd, 'q) cosim_world option" where
  "cosim_vf_config_write ops Q d address data len w =
     (let w1 = w\<lparr>cw_qemu := q_write_config Q d address data len (cw_qemu w)\<rparr>
      in if g_bridge w1 = None then Some w1
         else Option.bind (vf_bdf d w1) (\<lambda>target. map_option snd (on_bridge (g_bridge w1)
           (\<lambda>ctx. ((), snd (snd (bridge_send_tlp_fire ops (cfg_write_req address data len 0 target) ctx)))) w1)))"

subsection \<open>Lifecycle\<close>

definition upd_vf :: "'d \<Rightarrow> ('d vf_dev \<Rightarrow> 'd vf_dev) \<Rightarrow> ('p, 'd, 'q) cosim_world \<Rightarrow> ('p, 'd, 'q) cosim_world" where
  "upd_vf d f w = w\<lparr>cw_vf := (cw_vf w)(d := f (cw_vf w d))\<rparr>"

definition vf_bar :: "('d, 'q) qemu \<Rightarrow> 'd \<Rightarrow> u64 list \<Rightarrow> nat \<Rightarrow> ('p, 'd, 'q) cosim_world \<Rightarrow> ('p, 'd, 'q) cosim_world" where
  "vf_bar Q d sizes i w =
     (let sz = sizes ! i
      in if sz = 0 then w
         else snd (call_qemu Q d (Vf_Register_Bar i sz)
           (upd_vf d (\<lambda>vf. vf\<lparr>vf_bar_ctx := (vf_bar_ctx vf)(i := Some \<lparr>bx_dev = d, bx_index = i, bx_is_vf = True\<rparr>),
              vf_num_bars := Suc (vf_num_bars vf)\<rparr>) w)))"

text \<open>MSI-X only if BAR 0 holds the table and the pending bits.\<close>

definition vf_msix :: "('d, 'q) qemu \<Rightarrow> 'd \<Rightarrow> u64 list \<Rightarrow> ('p, 'd, 'q) cosim_world \<Rightarrow> ('p, 'd, 'q) cosim_world" where
  "vf_msix Q d sizes w =
     (let vf = cw_vf w d; v = vf_msix_vectors vf
      in if v > 0 \<and> vf_num_bars vf > 0 \<and> sizes ! 0 \<ge> ucast (pba_offset v + 8)
         then snd (call_qemu Q d (Msix_Init v (pba_offset v)) w) else w)"

definition cosim_pcie_vf_realize :: "('d, 'q) qemu \<Rightarrow> 'd \<Rightarrow> ('p, 'd, 'q) cosim_world
    \<Rightarrow> realize_error option \<times> ('p, 'd, 'q) cosim_world" where
  "cosim_pcie_vf_realize Q d w =
     (let w0 = upd_vf d (\<lambda>vf. vf\<lparr>vf_num_bars := 0\<rparr>) w
      in case q_pf_of_vf Q d (cw_qemu w0) of
          None \<Rightarrow> (Some No_Parent, w0)
        | Some p \<Rightarrow>
            (let pf = cw_pf w0 p;
                 w1 = upd_vf d (\<lambda>vf. vf\<lparr>vf_parent := Some p, vf_index := q_vf_number Q d (cw_qemu w0),
                        vf_msix_vectors := pd_vf_msix_vectors pf\<rparr>) w0;
                 w2 = snd (call_qemu Q d Enable_Bus_Master (fold (vf_bar Q d (pd_vf_bar_sizes pf)) [0, 2, 4] w1))
             in (None, snd (call_qemu Q d (Pcie_Cap_Init 0xa0) (vf_msix Q d (pd_vf_bar_sizes pf) w2)))))"

definition cosim_pcie_vf_exit :: "('d, 'q) qemu \<Rightarrow> 'd \<Rightarrow> ('p, 'd, 'q) cosim_world \<Rightarrow> ('p, 'd, 'q) cosim_world" where
  "cosim_pcie_vf_exit Q d w =
     snd (call_qemu Q d Pcie_Cap_Exit (if vf_num_bars (cw_vf w d) > 0 then snd (call_qemu Q d Msix_Uninit w) else w))"

subsection \<open>Interrupts of virtual functions\<close>

lemma find_owner_miss:
  assumes "bdfs_ok w" and "\<forall>j<g_num_pfs w. uint rid > uint (pf_bdf (tp_pfs (g_topo w) ! j)) + uint (pf_num_vfs (tp_pfs (g_topo w) ! j))"
    and "i + n = g_num_pfs w"
  shows "find_owner_from n i rid w = Some None" and "find_pf_device n i rid w = Some None"
proof -
  have t: "topo_pf j w = Some (tp_pfs (g_topo w) ! j)" "device_slot j w = Some (g_devices w ! j)" if "j < g_num_pfs w" for j
    using assms(1) that by (simp_all add: topo_pf_def device_slot_def bdfs_ok_def)
  have no: "pf_bdf (tp_pfs (g_topo w) ! j) \<noteq> rid \<and> \<not> in_vf_range rid (tp_pfs (g_topo w) ! j)" if "j < g_num_pfs w" for j
    using assms(2) that uint_ge_0 [of "pf_num_vfs (tp_pfs (g_topo w) ! j)"] by (fastforce simp: in_vf_range_def)
  show "find_owner_from n i rid w = Some None" using assms(3)
  proof (induction n arbitrary: i)
    case (Suc n)
    then show ?case using t [of i] no [of i] Suc.IH [of "Suc i"] by (simp split: option.splits)
  qed simp
  show "find_pf_device n i rid w = Some None" using assms(3)
  proof (induction n arbitrary: i)
    case (Suc n)
    then show ?case using t [of i] no [of i] Suc.IH [of "Suc i"] by (simp split: option.splits)
  qed simp
qed

text \<open>C38: With \<open>n > 1\<close> physical functions at consecutive BDFs and \<open>m\<close> virtual functions each, virtual function
  \<open>k\<close> of function \<open>i\<close> has the BDF \<open>base + i + n + k n\<close>, as QEMU's SR-IOV offset and stride and the
  configuration accesses have it; but interrupts are only looked up in the \<open>m\<close> BDFs after each physical
  function, so an interrupt of a virtual function beyond them is dropped by the bottom half.\<close>

theorem vf_interrupt_dropped:
  assumes "bdfs_ok w" and "g_num_pfs w = n" and "1 < n" and "i < n" and "k < m" and "n - 1 + m < i + n + k * n"
    and "\<forall>j<n. pf_bdf (tp_pfs (g_topo w) ! j) = base + of_nat j \<and> pf_num_vfs (tp_pfs (g_topo w) ! j) = of_nat m"
    and "unat base + n + n * m < 65536"
    and "vf_parent (cw_vf w d) = Some pf" and "unat (pd_index (cw_pf w pf)) = i" and "vf_index (cw_vf w d) = of_nat k"
  shows "\<exists>bdf. vf_bdf d w = Some bdf \<and> unat bdf = unat base + i + n + k * n
    \<and> (\<forall>v. msix_deliver Q (ucast bdf, v) w = Some w)"
proof -
  have kn: "i + n + k * n < n + n * m"
  proof -
    have "(k + 1) * n \<le> m * n" using assms(5) by (intro mult_le_mono1) simp
    then show ?thesis using assms(4) by (simp add: algebra_simps)
  qed
  define bdf :: u16 where "bdf = base + of_nat i + of_nat n + of_nat k * of_nat n"
  have len: "i < length (tp_pfs (g_topo w))" using assms(1,2,4) by (simp add: bdfs_ok_def)
  have np: "npfs w = of_nat n" using assms(2,3) by (simp add: npfs_def)
  have b: "vf_bdf d w = Some bdf"
    using assms(4,7,9-11) len np by (simp add: vf_bdf_def topo_pf_def bdf_def)
  define N where "N = unat base + i + n + k * n"
  have "bdf = of_nat N" by (simp add: bdf_def N_def)
  moreover have "N < 65536" using kn assms(8) by (simp add: N_def)
  ultimately have u: "unat bdf = unat base + i + n + k * n" using unat_of_nat_less [of N, where 'a = 16] by (simp add: N_def)
  have "uint (pf_bdf (tp_pfs (g_topo w) ! j)) + uint (pf_num_vfs (tp_pfs (g_topo w) ! j)) < uint bdf" if "j < n" for j
  proof -
    have "m \<le> n * m" using assms(3) by (cases n) auto
    then have "m < 65536" using assms(8) by linarith
    then have "m < 2 ^ LENGTH(16)" by simp
    then have "unat (of_nat m :: u16) = m" by (rule unat_of_nat_less)
    moreover have "unat (base + of_nat j) = unat base + j"
    proof -
      define M where "M = unat base + j"
      have "base + of_nat j = of_nat M" "M < 65536" using that assms(8) by (simp_all add: M_def)
      then show ?thesis using unat_of_nat_less [of M, where 'a = 16] by (simp add: M_def)
    qed
    ultimately have "unat (pf_bdf (tp_pfs (g_topo w) ! j)) + unat (pf_num_vfs (tp_pfs (g_topo w) ! j)) < unat bdf"
      using assms(6,7) that u by simp
    then show ?thesis by (metis of_nat_add of_nat_less_iff uint_nat)
  qed
  then have all: "\<forall>j<g_num_pfs w. uint bdf > uint (pf_bdf (tp_pfs (g_topo w) ! j)) + uint (pf_num_vfs (tp_pfs (g_topo w) ! j))"
    using assms(2) by simp
  have "ucast (ucast bdf :: u32) = bdf" by (rule ucast_up_ucast_id) (simp add: is_up)
  then have "msix_deliver Q (ucast bdf, v) w = Some w" for v
    using find_owner_miss [OF assms(1) all, of 0 "g_num_pfs w"] by (simp add: msix_deliver_def msix_target_def find_device_owner_def)
  then show ?thesis using b u by blast
qed

definition vf_world :: "(transport_tcp_priv, nat, plain_qemu) cosim_world" where
  "vf_world = (world_two (tcp_ctx_with [] [] None))\<lparr>cw_vf := (\<lambda>d. vf_new\<lparr>vf_parent := Some 0, vf_index := of_nat d\<rparr>)\<rparr>"

theorem vf_interrupt_dropped_witness:
  "\<exists>bdf. vf_bdf 2 vf_world = Some bdf \<and> unat bdf = 0x106 \<and> msix_deliver plain (ucast bdf, 1) vf_world = Some vf_world"
proof -
  have w: "bdfs_ok vf_world" using world_two_ok(1) by (simp add: vf_world_def bdfs_ok_def pf_bdfs_def)
  have f: "g_num_pfs vf_world = 2" "vf_parent (cw_vf vf_world 2) = Some 0" "unat (pd_index (cw_pf vf_world 0)) = 0"
    "vf_index (cw_vf vf_world 2) = of_nat 2" by (simp_all add: vf_world_def world_two_def pf_new_def)
  have t: "\<forall>j<2. pf_bdf (tp_pfs (g_topo vf_world) ! j) = 0x100 + of_nat j \<and> pf_num_vfs (tp_pfs (g_topo vf_world) ! j) = of_nat 4"
    by (simp add: vf_world_def world_two_def topology_two_def less_Suc_eq numeral_2_eq_2)
  have n: "(1::nat) < 2" "(0::nat) < 2" "(2::nat) < 4" "2 - 1 + 4 < 0 + 2 + 2 * (2::nat)" "unat (0x100 :: u16) + 2 + 2 * 4 < 65536"
    by simp_all
  from vf_interrupt_dropped [OF w f(1) n(1-4) t n(5) f(2-4), of plain] show ?thesis by auto
qed

end
