(* ===== verification/Pcie_Rc.thy ===== *)
theory Pcie_Rc
  imports Pcie_Access Msi_Queue
begin

section \<open>The root-complex device of QEMU: qemu-plugin/cosim\_pcie\_rc.c\<close>

text \<open>
  The single-function device: memory accesses as TLPs, configuration space forwarded behind a cache that
  remembers which functions exist, DMA and MSI callbacks, and the discovery of the card's BAR and MSI
  capability when the device is realized.  The context pointer is \<^theory_text>\<open>None\<close> or a live context, which no other
  device shares.  A result \<^theory_text>\<open>None\<close> is the overflow of a queue counter, an access outside a buffer, or an
  accept that never returns.  Debug output is left out.
\<close>

record bdf_entry =
  be_vendor_id :: u16
  be_probed :: bool
  be_valid :: bool

record ('p, 'q) rc_dev =
  rd_ctx :: "'p bridge_ctx option"
  rd_cache :: "nat \<times> nat \<times> nat \<Rightarrow> bdf_entry"
  rd_queue :: "u32 msi_queue"
  rd_num_bars :: nat
  rd_bh :: bool
  rd_poller :: bool
  rd_qemu :: 'q

definition bdf_empty :: bdf_entry where
  "bdf_empty = \<lparr>be_vendor_id = 0, be_probed = False, be_valid = False\<rparr>"

definition rc_start :: "'q \<Rightarrow> ('p, 'q) rc_dev" where
  "rc_start q = \<lparr>rd_ctx = None, rd_cache = (\<lambda>_. bdf_empty), rd_queue = msi_queue_new 0, rd_num_bars = 0,
     rd_bh = False, rd_poller = False, rd_qemu = q\<rparr>"

subsection \<open>Memory accesses\<close>

definition cosim_mmio_read :: "'p transport \<Rightarrow> ('d, 'q) qemu \<Rightarrow> 'd \<Rightarrow> int \<Rightarrow> u64 \<Rightarrow> nat
    \<Rightarrow> ('p, 'q) rc_dev \<Rightarrow> u64 \<times> ('p, 'q) rc_dev" where
  "cosim_mmio_read ops Q d bar addr sz s = (case rd_ctx s of
     None \<Rightarrow> (0xFFFFFFFF, s)
   | Some ctx \<Rightarrow> (case mmio_read_via ops (q_bar_addr Q d bar (rd_qemu s) + addr) sz ctx of
       (v, ctx1) \<Rightarrow> (v, s\<lparr>rd_ctx := Some ctx1\<rparr>)))"

definition cosim_mmio_write :: "'p transport \<Rightarrow> ('d, 'q) qemu \<Rightarrow> 'd \<Rightarrow> int \<Rightarrow> u64 \<Rightarrow> u64 \<Rightarrow> nat
    \<Rightarrow> ('p, 'q) rc_dev \<Rightarrow> ('p, 'q) rc_dev" where
  "cosim_mmio_write ops Q d bar addr val sz s = (case rd_ctx s of
     None \<Rightarrow> s
   | Some ctx \<Rightarrow> s\<lparr>rd_ctx := Some (mmio_write_via ops (q_bar_addr Q d bar (rd_qemu s) + addr) val sz ctx)\<rparr>)"

subsection \<open>DMA and interrupts\<close>

definition cosim_dma_cb :: "'p transport \<Rightarrow> ('d, 'q) qemu \<Rightarrow> 'd \<Rightarrow> dma_req \<Rightarrow> ('p, 'q) rc_dev \<Rightarrow> ('p, 'q) rc_dev option" where
  "cosim_dma_cb ops Q d req s = (case rd_ctx s of
     None \<Rightarrow> None
   | Some ctx \<Rightarrow> map_option (\<lambda>(ctx1, q1). s\<lparr>rd_ctx := Some ctx1, rd_qemu := q1\<rparr>)
       (dma_cb_via ops (q_dma_write Q d) (q_mem_write Q) (q_mem_read Q) req ctx (rd_qemu s)))"

definition cosim_msi_cb :: "('d, 'q) qemu \<Rightarrow> u32 \<Rightarrow> ('p, 'q) rc_dev \<Rightarrow> ('p, 'q) rc_dev option" where
  "cosim_msi_cb Q vector s = (case msi_put vector (rd_queue s) of
     None \<Rightarrow> None
   | Some (False, q) \<Rightarrow> Some s
   | Some (True, q) \<Rightarrow> Some (s\<lparr>rd_queue := q, rd_qemu := q_schedule_bh Q (rd_qemu s)\<rparr>))"

text \<open>Vector 0xFFFE lowers the interrupt pin.\<close>

definition msi_deliver :: "('d, 'q) qemu \<Rightarrow> 'd \<Rightarrow> u32 \<Rightarrow> 'q \<Rightarrow> 'q" where
  "msi_deliver Q d vector q =
     (if vector = 0xFFFE then q_set_irq Q d False q
      else if q_msi_enabled Q d q then q_msi_notify Q d vector q
      else q_set_irq Q d True q)"

definition cosim_msi_bh_cb :: "('d, 'q) qemu \<Rightarrow> 'd \<Rightarrow> ('p, 'q) rc_dev \<Rightarrow> ('p, 'q) rc_dev option" where
  "cosim_msi_bh_cb Q d s = map_option (\<lambda>(q, u). s\<lparr>rd_queue := q, rd_qemu := u\<rparr>)
     (msi_drain (\<lambda>v u. Some (msi_deliver Q d v u)) (rd_queue s) (rd_qemu s))"

subsection \<open>Configuration space\<close>

definition bdf_of :: "nat \<times> nat \<times> nat \<Rightarrow> u16" where
  "bdf_of = (\<lambda>(bus, dev, func). of_nat (push_bit 8 bus OR push_bit 3 dev OR func))"

definition in_cache :: "nat \<times> nat \<times> nat \<Rightarrow> bool" where
  "in_cache = (\<lambda>(bus, dev, func). bus < 256 \<and> dev < 32 \<and> func < 8)"

definition probe_req :: "u16 \<Rightarrow> tlp_entry" where
  "probe_req bdf = tlp_zero\<lparr>t_type := tlp_code TLP_CFGRD0, t_addr := 0, t_len := 4, t_first_be := 0xF,
     t_target_bdf := bdf, t_requester_id := bdf\<rparr>"

definition probed_entry :: "rc \<Rightarrow> cpl_entry \<Rightarrow> bdf_entry" where
  "probed_entry r cpl =
     (let vendor = (if r < 0 then 0xFFFF else ucast (c_data cpl ! 0) OR push_bit 8 (ucast (c_data cpl ! 1)))
      in \<lparr>be_vendor_id = vendor, be_probed = True, be_valid = vendor \<noteq> 0xFFFF\<rparr>)"

text \<open>A read of an existing function.\<close>

definition rc_forward_read :: "'p transport \<Rightarrow> ('d, 'q) qemu \<Rightarrow> 'd \<Rightarrow> u16 \<Rightarrow> u32 \<Rightarrow> nat \<Rightarrow> 'p bridge_ctx
    \<Rightarrow> ('p, 'q) rc_dev \<Rightarrow> u32 \<times> ('p, 'q) rc_dev" where
  "rc_forward_read ops Q d bdf address len ctx s =
     (case bridge_send_tlp_and_wait ops (cfg_read_req address bdf bdf) cpl_zero ctx of
        (r, req, cpl, ctx1) \<Rightarrow>
          (if r < 0 then q_read_config Q d address len (rd_qemu s) else cfg_value len (low2 address) (data_dword (c_data cpl)),
           s\<lparr>rd_ctx := Some ctx1\<rparr>))"

definition cosim_config_read :: "'p transport \<Rightarrow> ('d, 'q) qemu \<Rightarrow> 'd \<Rightarrow> u32 \<Rightarrow> nat
    \<Rightarrow> ('p, 'q) rc_dev \<Rightarrow> u32 \<times> ('p, 'q) rc_dev" where
  "cosim_config_read ops Q d address len s =
     (let fn = q_bdf Q d (rd_qemu s); entry = rd_cache s fn; bdf = bdf_of fn
      in case rd_ctx s of
          None \<Rightarrow> (q_read_config Q d address len (rd_qemu s), s)
        | Some ctx \<Rightarrow>
            if in_cache fn \<and> \<not> be_probed entry
            then (case bridge_send_tlp_and_wait ops (probe_req bdf) cpl_zero ctx of
                (r, req, cpl, ctx1) \<Rightarrow>
                  (let e = probed_entry r cpl; s1 = s\<lparr>rd_ctx := Some ctx1, rd_cache := (rd_cache s)(fn := e)\<rparr>
                   in if \<not> be_valid e then (0xFFFFFFFF, s1)
                      else if dword_addr address = 0
                      then (cfg_value len (low2 address) (data_dword (c_data cpl)), s1)
                      else rc_forward_read ops Q d bdf address len ctx1 s1))
            else if in_cache fn \<and> \<not> be_valid entry then (0xFFFFFFFF, s)
            else rc_forward_read ops Q d bdf address len ctx s)"

definition cosim_config_write :: "'p transport \<Rightarrow> ('d, 'q) qemu \<Rightarrow> 'd \<Rightarrow> u32 \<Rightarrow> u32 \<Rightarrow> nat
    \<Rightarrow> ('p, 'q) rc_dev \<Rightarrow> ('p, 'q) rc_dev" where
  "cosim_config_write ops Q d address data len s =
     (let s1 = s\<lparr>rd_qemu := q_write_config Q d address data len (rd_qemu s)\<rparr>;
          fn = q_bdf Q d (rd_qemu s1); entry = rd_cache s1 fn; bdf = bdf_of fn
      in case rd_ctx s1 of
          None \<Rightarrow> s1
        | Some ctx \<Rightarrow>
            if in_cache fn \<and> (\<not> be_probed entry \<or> \<not> be_valid entry) then s1
            else (case bridge_send_tlp_fire ops (cfg_write_req address data len bdf bdf) ctx of
                (r, req, ctx1) \<Rightarrow> s1\<lparr>rd_ctx := Some ctx1\<rparr>))"

subsection \<open>Discovery\<close>

definition cosim_cfgrd :: "'p transport \<Rightarrow> u32 \<Rightarrow> 'p bridge_ctx \<Rightarrow> u32 \<times> 'p bridge_ctx" where
  "cosim_cfgrd ops reg ctx =
     (case bridge_send_tlp_and_wait ops (tlp_zero\<lparr>t_type := tlp_code TLP_CFGRD0, t_addr := ucast (dword_addr reg),
          t_len := 4, t_first_be := 0xF\<rparr>) cpl_zero ctx of
        (r, req, cpl, ctx1) \<Rightarrow> (if r < 0 then 0xFFFFFFFF else data_dword (c_data cpl), ctx1))"

definition cfgwr_req :: "u32 \<Rightarrow> u32 \<Rightarrow> tlp_entry" where
  "cfgwr_req reg data = tlp_zero\<lparr>t_type := tlp_code TLP_CFGWR0, t_addr := ucast reg, t_len := 4, t_first_be := 0xF,
     t_data := blit 0 (dword_bytes 4 data) (replicate 64 0)\<rparr>"

definition cosim_cfgwr :: "'p transport \<Rightarrow> u32 \<Rightarrow> u32 \<Rightarrow> 'p bridge_ctx \<Rightarrow> 'p bridge_ctx" where
  "cosim_cfgwr ops reg data ctx = snd (snd (bridge_send_tlp_fire ops (cfgwr_req reg data) ctx))"

text \<open>The size of a BAR from the mask read back, 0 if there is none.\<close>

definition bar_size_of_mask :: "u32 \<Rightarrow> u32" where
  "bar_size_of_mask mask_read =
     (if mask_read = 0 \<or> mask_read = 0xFFFFFFFF then 0 else NOT (mask_read AND NOT 0xF) + 1)"

definition cosim_query_bar_size :: "'p transport \<Rightarrow> nat \<Rightarrow> 'p bridge_ctx \<Rightarrow> u32 \<times> 'p bridge_ctx" where
  "cosim_query_bar_size ops bar ctx =
     (let reg = 0x10 + of_nat bar * 4
      in case cosim_cfgrd ops reg ctx of
          (orig, ctx1) \<Rightarrow> (case cosim_cfgrd ops reg (cosim_cfgwr ops reg 0xFFFFFFFF ctx1) of
            (mask_read, ctx2) \<Rightarrow> (bar_size_of_mask mask_read, cosim_cfgwr ops reg orig ctx2)))"

text \<open>Walking the capability list for MSI, at most 48 entries: offset and number of vectors.\<close>

fun caps_walk :: "'p transport \<Rightarrow> nat \<Rightarrow> u8 \<Rightarrow> int \<times> int \<Rightarrow> 'p bridge_ctx \<Rightarrow> (int \<times> int) \<times> 'p bridge_ctx" where
  "caps_walk ops 0 ptr found ctx = (found, ctx)"
| "caps_walk ops (Suc safety) ptr found ctx =
     (if ptr = 0 then (found, ctx)
      else case cosim_cfgrd ops (ucast ptr) ctx of
          (dw, ctx1) \<Rightarrow> caps_walk ops safety (ucast (drop_bit 8 dw AND 0xFC))
            (if dw AND 0xFF = 0x05 then (uint ptr, 2 ^ unat (drop_bit 1 (drop_bit 16 dw AND 0xFFFF) AND 7)) else found) ctx1)"

definition cosim_discover_caps :: "'p transport \<Rightarrow> 'p bridge_ctx \<Rightarrow> (int \<times> int) \<times> 'p bridge_ctx" where
  "cosim_discover_caps ops ctx =
     (case cosim_cfgrd ops 0x04 ctx of
        (status_cmd, ctx1) \<Rightarrow>
          if drop_bit 20 status_cmd AND 1 = 0 then ((-1, 0), ctx1)
          else (case cosim_cfgrd ops 0x34 ctx1 of
              (p, ctx2) \<Rightarrow> caps_walk ops 48 (ucast (p AND 0xFC)) (-1, 0) ctx2))"

subsection \<open>Lifecycle\<close>

definition rc_call :: "('d, 'q) qemu \<Rightarrow> 'd \<Rightarrow> qemu_call \<Rightarrow> ('p, 'q) rc_dev \<Rightarrow> ('p, 'q) rc_dev" where
  "rc_call Q d c s = s\<lparr>rd_qemu := snd (q_call Q d c (rd_qemu s))\<rparr>"

text \<open>Everything after the bridge is connected: discovery, BAR 0, MSI, the bottom half and the poller.\<close>

definition rc_setup :: "'p transport \<Rightarrow> bool \<Rightarrow> ('d, 'q) qemu \<Rightarrow> 'd \<Rightarrow> 'p bridge_ctx \<Rightarrow> ('p, 'q) rc_dev
    \<Rightarrow> realize_error option \<times> ('p, 'q) rc_dev" where
  "rc_setup ops poller_ok Q d ctx s =
     (case cosim_query_bar_size ops 0 ctx of
        (sz, ctx1) \<Rightarrow> (case cosim_discover_caps ops ctx1 of
          ((off, vectors), ctx2) \<Rightarrow>
            (let bar0 = (if sz = 0 then 64 * 1024 else sz);
                 s1 = rc_call Q d Set_Interrupt_Pin (rc_call Q d Enable_Bus_Master
                   (rc_call Q d (Register_Bar 0 (ucast bar0)) s)\<lparr>rd_num_bars := 1\<rparr>);
                 s2 = (if off \<ge> 0 then rc_call Q d (Msi_Init off (max 1 vectors)) s1 else s1);
                 s3 = rc_call Q d New_Bh (s2\<lparr>rd_queue := (rd_queue s2)\<lparr>mq_head := 0, mq_tail := 0\<rparr>, rd_bh := True\<rparr>)
             in if poller_ok then (None, s3\<lparr>rd_ctx := Some ctx2, rd_poller := True\<rparr>)
                else (Some Poller_Failed, s3\<lparr>rd_ctx := None, rd_poller := False\<rparr>))))"

definition cosim_pcie_rc_realize :: "'p transport \<Rightarrow> 'p bridge_answers \<Rightarrow> dev_props \<Rightarrow> ('d, 'q) qemu \<Rightarrow> 'd
    \<Rightarrow> ('p, 'q) rc_dev \<Rightarrow> (realize_error option \<times> ('p, 'q) rc_dev) option" where
  "cosim_pcie_rc_realize ops ans props Q d s =
     (let s0 = s\<lparr>rd_num_bars := 0, rd_cache := (\<lambda>_. bdf_empty)\<rparr>
      in case open_bridge ops ans props of
          None \<Rightarrow> None
        | Some (Inl e) \<Rightarrow> Some (Some e, s0\<lparr>rd_ctx := None\<rparr>)
        | Some (Inr ctx) \<Rightarrow> Some (rc_setup ops (ba_poller_ok ans) Q d ctx s0))"

definition cosim_pcie_rc_exit :: "('d, 'q) qemu \<Rightarrow> 'd \<Rightarrow> ('p, 'q) rc_dev \<Rightarrow> ('p, 'q) rc_dev" where
  "cosim_pcie_rc_exit Q d s =
     (let s1 = s\<lparr>rd_poller := False\<rparr>;
          s2 = (if rd_bh s1 then rc_call Q d Delete_Bh (s1\<lparr>rd_bh := False\<rparr>) else s1)
      in rc_call Q d Msi_Uninit (s2\<lparr>rd_ctx := None\<rparr>))"

subsection \<open>Sizes and tags\<close>

lemma bar_size_of_mask_value:
  assumes "4 \<le> k" and "k < 32" and "flags < 0xF"
  shows "bar_size_of_mask (NOT (mask k) OR flags) = 2 ^ k"
proof -
  have f: "\<not> bit flags n" if "4 \<le> n" for n
  proof -
    have "flags < 2 ^ 4" using assms(3) by (simp add: word_less_nat_alt)
    then have "take_bit 4 flags = flags" by (simp add: less_mask_eq take_bit_eq_mask)
    then show ?thesis using that by (metis bit_take_bit_iff not_le)
  qed
  have fifteen: "(0xF :: u32) = mask 4" by (simp add: mask_eq_exp_minus_1)
  have m: "(NOT (mask k) OR flags) AND NOT 0xF = NOT (mask k)"
    unfolding fifteen by (rule bit_word_eqI) (use assms f in \<open>auto simp: bit_simps\<close>)
  have "bit (NOT (mask k) OR flags) 31" using assms by (simp add: bit_simps)
  then have "NOT (mask k) OR flags \<noteq> 0" by force
  moreover have "NOT (mask k) OR flags \<noteq> 0xFFFFFFFF"
  proof
    assume eq: "NOT (mask k) OR flags = 0xFFFFFFFF"
    have all: "(0xFFFFFFFF :: u32) = mask 32" by (simp add: mask_eq_exp_minus_1)
    have b: "bit (NOT (mask k) OR flags) n" if "n < 32" for n unfolding eq all using that by (simp add: bit_simps)
    have "bit flags n" if "n < 4" for n using b [of n] that assms by (simp add: bit_simps)
    moreover have "n < 4" if "bit flags n" for n using f that by (meson not_le)
    ultimately have "flags = 0xF" unfolding fifteen by (intro bit_word_eqI) (auto simp: bit_simps)
    then show False using assms(3) by simp
  qed
  ultimately have "bar_size_of_mask (NOT (mask k) OR flags) = mask k + 1"
    using m by (simp add: bar_size_of_mask_def)
  then show ?thesis by (simp add: mask_eq_exp_minus_1)
qed

text \<open>A request takes one tag.\<close>

lemma tags_via: "bc_next_tag (snd (via f p ctx)) = bc_next_tag ctx" "bc_tag_mask (snd (via f p ctx)) = bc_tag_mask ctx"
  by (simp_all add: via_def split: prod.splits)

lemma recv_sync_tags:
  "bc_next_tag (snd (bc_recv_sync ops ctx)) = bc_next_tag ctx" "bc_tag_mask (snd (bc_recv_sync ops ctx)) = bc_tag_mask ctx"
  by (auto simp: bc_recv_sync_def client_recv_def tags_via split: option.splits prod.splits)

lemma recv_cpl_tags:
  "bc_next_tag (snd (bc_recv_cpl ops ctx)) = bc_next_tag ctx" "bc_tag_mask (snd (bc_recv_cpl ops ctx)) = bc_tag_mask ctx"
  by (auto simp: bc_recv_cpl_def shm_dequeue_def tags_via split: option.splits prod.splits)

definition same_tags :: "'p bridge_ctx \<Rightarrow> 'p bridge_ctx \<Rightarrow> bool" where
  "same_tags c c' \<longleftrightarrow> bc_next_tag c' = bc_next_tag c \<and> bc_tag_mask c' = bc_tag_mask c"

lemma recv_completion_tags: "same_tags ctx (snd (snd (recv_completion ops cpl ctx)))"
proof -
  obtain m ctx1 where m: "bc_recv_sync ops ctx = (m, ctx1)" by fastforce
  obtain c ctx2 where c: "bc_recv_cpl ops ctx1 = (c, ctx2)" by fastforce
  have "same_tags ctx ctx1" "same_tags ctx ctx2"
    using recv_sync_tags [of ops ctx] recv_cpl_tags [of ops ctx1] m c by (simp_all add: same_tags_def)
  then show ?thesis using m c by (cases m; cases c) (simp_all add: recv_completion_def)
qed

lemma wait_tags: "same_tags ctx (snd (snd (wait_loop ops n tag cpl ctx)))"
proof (induction n arbitrary: cpl ctx)
  case (Suc n)
  obtain r c ctx1 where rc: "recv_completion ops cpl ctx = (r, c, ctx1)" using prod_cases3 by blast
  have "same_tags ctx ctx1" using recv_completion_tags [of ctx ops cpl] rc by simp
  moreover have "same_tags ctx1 (trace_if f ctx1)" for f by (simp add: same_tags_def trace_if_def)
  moreover note Suc.IH [of "trace_if (trace_log_cpl c) ctx1" c]
  ultimately show ?case using rc by (auto simp: same_tags_def Let_def)
qed (simp add: same_tags_def)

lemma send_and_wait_tags:
  assumes "bridge_send_tlp_and_wait ops req cpl ctx = (r, req1, c, ctx1)"
  shows "bc_next_tag ctx1 = (bc_next_tag ctx + 1) AND bc_tag_mask ctx \<and> bc_tag_mask ctx1 = bc_tag_mask ctx"
proof -
  obtain r0 req0 ctx0 where s: "bridge_send_tlp ops req ctx = (r0, req0, ctx0)" using prod_cases3 by blast
  then show ?thesis
    using assms send_tlp_tag [OF s] wait_tags [of ctx0 ops 256 "t_tag req0" cpl]
    by (auto simp: bridge_send_tlp_and_wait_def bridge_wait_completion_def same_tags_def split: prod.splits if_splits)
qed

text \<open>The tag of the request after \<open>n\<close> others.\<close>

definition nth_tag :: "nat \<Rightarrow> 'p bridge_ctx \<Rightarrow> u16" where
  "nth_tag n ctx = ((\<lambda>t. (t + 1) AND bc_tag_mask ctx) ^^ n) (bc_next_tag ctx) AND bc_tag_mask ctx"

lemma nth_tag_step:
  assumes "bc_next_tag ctx1 = (bc_next_tag ctx + 1) AND bc_tag_mask ctx" and "bc_tag_mask ctx1 = bc_tag_mask ctx"
  shows "nth_tag n ctx1 = nth_tag (Suc n) ctx"
proof -
  define f where "f = (\<lambda>t. (t + 1) AND bc_tag_mask ctx)"
  have "(f ^^ n) (f (bc_next_tag ctx)) = (f ^^ Suc n) (bc_next_tag ctx)" by (simp add: funpow_swap1)
  then show ?thesis using assms by (simp only: nth_tag_def flip: f_def) (simp only: f_def)
qed

lemma tcp_cfgrd:
  assumes "tcp_inbox ctx (replicate (Suc (length stale)) (sync_of SYNC_MSG_CPL_READY 0) @ ms) (stale @ c # cs)"
    and "c_tag c = nth_tag 0 ctx" and "\<forall>s\<in>set stale. c_tag s \<noteq> c_tag c" and "length stale < 256"
  shows "\<exists>ctx1. cosim_cfgrd tcp_transport reg ctx = (data_dword (c_data c), ctx1) \<and> tcp_inbox ctx1 ms cs
    \<and> (\<forall>n. nth_tag n ctx1 = nth_tag (Suc n) ctx)"
proof -
  let ?req = "tlp_zero\<lparr>t_type := tlp_code TLP_CFGRD0, t_addr := ucast (dword_addr reg), t_len := 4, t_first_be := 0xF\<rparr>"
  obtain p where p: "bc_transport ctx = Some p" using assms(1) by (auto simp: tcp_inbox_def)
  have tag: "c_tag c = bc_next_tag ctx AND bc_tag_mask ctx" using assms(2) by (simp add: nth_tag_def)
  from tcp_send_and_wait [OF assms(1) p tag assms(3,4), of ?req cpl_zero] obtain ctx1
    where r: "bridge_send_tlp_and_wait tcp_transport ?req cpl_zero ctx = (0, ?req\<lparr>t_tag := c_tag c\<rparr>, c, ctx1)" "tcp_inbox ctx1 ms cs"
    by blast
  then have "cosim_cfgrd tcp_transport reg ctx = (data_dword (c_data c), ctx1)" by (simp add: cosim_cfgrd_def)
  then show ?thesis using r(2) send_and_wait_tags [OF r(1)] nth_tag_step by blast
qed

lemma tcp_cfgwr:
  assumes "tcp_inbox ctx ms cs"
  shows "\<exists>ctx1. cosim_cfgwr tcp_transport reg data ctx = ctx1 \<and> tcp_inbox ctx1 ms cs \<and> (\<forall>n. nth_tag n ctx1 = nth_tag (Suc n) ctx)
    \<and> (\<exists>p p1. bc_transport ctx = Some p \<and> bc_transport ctx1 = Some p1 \<and> sk_out (tp_data p1) = sk_out (tp_data p)
        @ msg_bytes TCP_MSG_TLP (enc_tlp ((cfgwr_req reg data)\<lparr>t_tag := nth_tag 0 ctx\<rparr>)))"
proof -
  obtain p where p: "bc_transport ctx = Some p" using assms by (auto simp: tcp_inbox_def)
  from tcp_send_tlp_done [OF assms p, of "cfgwr_req reg data"] obtain ctx1 p1
    where s: "bridge_send_tlp tcp_transport (cfgwr_req reg data) ctx
        = (0, (cfgwr_req reg data)\<lparr>t_tag := bc_next_tag ctx AND bc_tag_mask ctx\<rparr>, ctx1)" "tcp_inbox ctx1 ms cs"
      "bc_transport ctx1 = Some p1" "sk_out (tp_data p1) = sk_out (tp_data p)
        @ msg_bytes TCP_MSG_TLP (enc_tlp ((cfgwr_req reg data)\<lparr>t_tag := bc_next_tag ctx AND bc_tag_mask ctx\<rparr>))" by blast
  have "nth_tag n ctx1 = nth_tag (Suc n) ctx" for n using send_tlp_tag(2,3) [OF s(1)] nth_tag_step by blast
  then show ?thesis using s p by (auto simp: cosim_cfgwr_def bridge_send_tlp_fire_def nth_tag_def)
qed

subsection \<open>Properties\<close>

text \<open>C19: Over TCP the discovery of a BAR returns its size: if the card answers the second read with the mask of
  a BAR of \<open>2 ^ k\<close> bytes, whatever the type bits below and however many completions of earlier posted
  requests are on the way, the result is \<open>2 ^ k\<close>, and the last TLP that leaves writes the register back to
  what the first read returned.\<close>

theorem rc_bar_size_discovered:
  assumes "tcp_inbox ctx (replicate (Suc (length st1)) (sync_of SYNC_MSG_CPL_READY 0)
        @ replicate (Suc (length st2)) (sync_of SYNC_MSG_CPL_READY 0) @ ms) (st1 @ c1 # st2 @ c2 # cs)"
    and "c_tag c1 = nth_tag 0 ctx" and "c_tag c2 = nth_tag 2 ctx"
    and "\<forall>s\<in>set st1. c_tag s \<noteq> c_tag c1" and "\<forall>s\<in>set st2. c_tag s \<noteq> c_tag c2"
    and "length st1 < 256" and "length st2 < 256"
    and "data_dword (c_data c2) = NOT (mask k) OR flags" and "4 \<le> k" and "k < 32" and "flags < 0xF"
  shows "\<exists>ctx1 p sent. cosim_query_bar_size tcp_transport bar ctx = (2 ^ k, ctx1) \<and> bc_transport ctx1 = Some p
    \<and> sk_out (tp_data p) = sent @ msg_bytes TCP_MSG_TLP (enc_tlp
        ((cfgwr_req (0x10 + of_nat bar * 4) (data_dword (c_data c1)))\<lparr>t_tag := nth_tag 3 ctx\<rparr>))"
proof -
  let ?reg = "0x10 + of_nat bar * 4 :: u32"
  from tcp_cfgrd [OF assms(1,2,4,6), of ?reg] obtain x1
    where x1: "cosim_cfgrd tcp_transport ?reg ctx = (data_dword (c_data c1), x1)"
      "tcp_inbox x1 (replicate (Suc (length st2)) (sync_of SYNC_MSG_CPL_READY 0) @ ms) (st2 @ c2 # cs)"
      "\<And>n. nth_tag n x1 = nth_tag (Suc n) ctx" by auto
  from tcp_cfgwr [OF x1(2), of ?reg "0xFFFFFFFF"] obtain x2
    where x2: "cosim_cfgwr tcp_transport ?reg 0xFFFFFFFF x1 = x2"
      "tcp_inbox x2 (replicate (Suc (length st2)) (sync_of SYNC_MSG_CPL_READY 0) @ ms) (st2 @ c2 # cs)"
      "\<And>n. nth_tag n x2 = nth_tag (Suc n) x1" by blast
  have "c_tag c2 = nth_tag 0 x2" using assms(3) x1(3) x2(3) by (simp add: numeral_2_eq_2)
  from tcp_cfgrd [OF x2(2) this assms(5,7), of ?reg] obtain x3
    where x3: "cosim_cfgrd tcp_transport ?reg x2 = (data_dword (c_data c2), x3)" "tcp_inbox x3 ms cs"
      "\<And>n. nth_tag n x3 = nth_tag (Suc n) x2" by auto
  from tcp_cfgwr [OF x3(2), of ?reg "data_dword (c_data c1)"] obtain p3 p4 :: transport_tcp_priv
    where x4: "bc_transport (cosim_cfgwr tcp_transport ?reg (data_dword (c_data c1)) x3) = Some p4"
      "sk_out (tp_data p4) = sk_out (tp_data p3) @ msg_bytes TCP_MSG_TLP (enc_tlp
        ((cfgwr_req ?reg (data_dword (c_data c1)))\<lparr>t_tag := nth_tag 0 x3\<rparr>))" by blast
  have "nth_tag 0 x3 = nth_tag 3 ctx" using x1(3) x2(3) x3(3) by (simp add: numeral_3_eq_3)
  moreover have "cosim_query_bar_size tcp_transport bar ctx = (2 ^ k, cosim_cfgwr tcp_transport ?reg (data_dword (c_data c1)) x3)"
    using x1(1) x2(1) x3(1) assms(8) bar_size_of_mask_value [OF assms(9-11)] by (simp add: cosim_query_bar_size_def)
  ultimately show ?thesis using x4 by auto
qed

definition bar_completions :: "cpl_entry list" where
  "bar_completions = [cpl_zero, cpl_zero\<lparr>c_tag := 1\<rparr>,
     cpl_zero\<lparr>c_tag := 2, c_data := dword_bytes 4 (NOT (mask 16) OR 4) @ replicate 60 0\<rparr>]"

theorem rc_bar_size_discovered_witness:
  "\<exists>ctx1. cosim_query_bar_size tcp_transport 0 (tcp_ctx_with (replicate 3 (sync_of SYNC_MSG_CPL_READY 0)) bar_completions None)
    = (0x10000, ctx1)"
proof -
  let ?ctx = "tcp_ctx_with (replicate 3 (sync_of SYNC_MSG_CPL_READY 0)) bar_completions None"
  let ?c1 = "bar_completions ! 0" and ?s = "bar_completions ! 1" and ?c2 = "bar_completions ! 2"
  have cs: "bar_completions = [] @ ?c1 # [?s] @ ?c2 # []" by (simp add: bar_completions_def)
  have ms: "replicate 3 m = replicate (Suc (length ([] :: cpl_entry list))) m @ replicate (Suc (length [?s])) m @ []" for m :: sync_msg
    by (simp add: numeral_3_eq_3)
  have wf: "list_all wf_cpl bar_completions" by (simp add: bar_completions_def wf_cpl_def cpl_zero_def)
  from tcp_ctx_with_inbox [OF wf, of "replicate 3 (sync_of SYNC_MSG_CPL_READY 0)" None]
  have i: "tcp_inbox ?ctx (replicate (Suc (length ([] :: cpl_entry list))) (sync_of SYNC_MSG_CPL_READY 0)
      @ replicate (Suc (length [?s])) (sync_of SYNC_MSG_CPL_READY 0) @ []) ([] @ ?c1 # [?s] @ ?c2 # [])"
    unfolding cs [symmetric] ms [symmetric] .
  have t: "c_tag ?c1 = nth_tag 0 ?ctx" "c_tag ?c2 = nth_tag 2 ?ctx"
    by (simp_all add: nth_tag_def bar_completions_def cpl_zero_def numeral_2_eq_2)
  have st: "\<forall>s\<in>set []. c_tag s \<noteq> c_tag ?c1" "\<forall>s\<in>set [?s]. c_tag s \<noteq> c_tag ?c2"
    "length ([] :: cpl_entry list) < 256" "length [?s] < 256" by (simp_all add: bar_completions_def cpl_zero_def)
  have d: "data_dword (c_data ?c2) = NOT (mask 16) OR 4" "(4::nat) \<le> 16" "(16::nat) < 32" "(4::u32) < 0xF"
    by (simp_all add: bar_completions_def)
  from rc_bar_size_discovered [OF i t st d, of 0] show ?thesis by auto
qed

text \<open>Configuration accesses of the guest.\<close>

datatype cfg_access = Cfg_Read u32 nat | Cfg_Write u32 u32 nat

fun cfg_run :: "'p transport \<Rightarrow> ('d, 'q) qemu \<Rightarrow> 'd \<Rightarrow> cfg_access list \<Rightarrow> ('p, 'q) rc_dev \<Rightarrow> u32 list \<times> ('p, 'q) rc_dev" where
  "cfg_run ops Q d [] s = ([], s)"
| "cfg_run ops Q d (Cfg_Read a n # xs) s = (case cosim_config_read ops Q d a n s of
     (v, s1) \<Rightarrow> (case cfg_run ops Q d xs s1 of (vs, s2) \<Rightarrow> (v # vs, s2)))"
| "cfg_run ops Q d (Cfg_Write a v n # xs) s = cfg_run ops Q d xs (cosim_config_write ops Q d a v n s)"

lemma absent_silent:
  assumes "\<And>q. q_bdf Q d q = fn" and "in_cache fn" and "rd_ctx s = Some ctx"
    and "be_probed (rd_cache s fn)" and "\<not> be_valid (rd_cache s fn)"
  shows "case cfg_run ops Q d xs s of (vs, s') \<Rightarrow> rd_ctx s' = Some ctx \<and> set vs \<subseteq> {0xFFFFFFFF}"
  using assms(3-5)
proof (induction xs arbitrary: s)
  case (Cons x xs)
  show ?case
  proof (cases x)
    case (Cfg_Read a n)
    then have "cosim_config_read ops Q d a n s = (0xFFFFFFFF, s)"
      using assms(1,2) Cons.prems by (simp add: cosim_config_read_def Let_def)
    then show ?thesis using Cons.IH [OF Cons.prems] Cfg_Read by (auto split: prod.splits)
  next
    case (Cfg_Write a v n)
    have "cosim_config_write ops Q d a v n s = s\<lparr>rd_qemu := q_write_config Q d a v n (rd_qemu s)\<rparr>"
      using assms(1,2) Cons.prems by (simp add: cosim_config_write_def Let_def)
    then show ?thesis using Cons.IH [of "s\<lparr>rd_qemu := q_write_config Q d a v n (rd_qemu s)\<rparr>"] Cons.prems Cfg_Write by simp
  qed
qed simp

text \<open>C37: The first configuration read of a function asks the card for its vendor.  If the answer is 0xFFFF, or the
  request fails for any reason, that read and every configuration read after it, until the device is
  realized again, returns all ones, and no access sends anything to the card any more: neither reads nor
  writes touch the bridge.\<close>

theorem rc_absent_function_silent:
  assumes "\<And>q. q_bdf Q d q = fn" and "in_cache fn" and "rd_ctx s = Some ctx" and "\<not> be_probed (rd_cache s fn)"
    and "bridge_send_tlp_and_wait ops (probe_req (bdf_of fn)) cpl_zero ctx = (r, req, cpl, ctx1)"
    and "r < 0 \<or> c_data cpl ! 0 = 0xFF \<and> c_data cpl ! 1 = 0xFF"
  shows "\<exists>s1. cosim_config_read ops Q d address len s = (0xFFFFFFFF, s1)
    \<and> (\<forall>xs. case cfg_run ops Q d xs s1 of (vs, s2) \<Rightarrow> rd_ctx s2 = Some ctx1 \<and> set vs \<subseteq> {0xFFFFFFFF})"
proof -
  let ?s1 = "s\<lparr>rd_ctx := Some ctx1, rd_cache := (rd_cache s)(fn := probed_entry r cpl)\<rparr>"
  have "(ucast (0xFF :: u8) :: u16) OR push_bit 8 (ucast (0xFF :: u8)) = 0xFFFF" by simp
  then have e: "be_probed (probed_entry r cpl)" "\<not> be_valid (probed_entry r cpl)"
    using assms(6) by (auto simp: probed_entry_def Let_def)
  have "cosim_config_read ops Q d address len s = (0xFFFFFFFF, ?s1)"
    using assms(1-5) e by (simp add: cosim_config_read_def Let_def)
  moreover have "case cfg_run ops Q d xs ?s1 of (vs, s2) \<Rightarrow> rd_ctx s2 = Some ctx1 \<and> set vs \<subseteq> {0xFFFFFFFF}" for xs
    by (rule absent_silent [OF assms(1,2)]) (use e in simp_all)
  ultimately show ?thesis by blast
qed

definition absent_rc :: "(transport_tcp_priv, plain_qemu) rc_dev" where
  "absent_rc = (rc_start plain_start)\<lparr>rd_ctx := Some (tcp_ctx_with [sync_of SYNC_MSG_CPL_READY 0]
     [cpl_zero\<lparr>c_data := replicate 64 0xFF\<rparr>] None)\<rparr>"

theorem rc_absent_function_silent_witness:
  "\<exists>s1. cosim_config_read tcp_transport plain 0 0 4 absent_rc = (0xFFFFFFFF, s1)
    \<and> fst (cfg_run tcp_transport plain 0 [Cfg_Write 4 7 2] s1) = []
    \<and> rd_ctx (snd (cfg_run tcp_transport plain 0 [Cfg_Write 4 7 2] s1)) = rd_ctx s1"
proof -
  let ?c = "cpl_zero\<lparr>c_data := replicate 64 0xFF\<rparr>" and ?fn = "(1, 0, 0) :: nat \<times> nat \<times> nat"
  let ?ctx = "tcp_ctx_with [sync_of SYNC_MSG_CPL_READY 0] [?c] None"
  have "list_all wf_cpl [?c]" by (simp add: wf_cpl_def)
  from tcp_ctx_with_inbox [OF this, of "[sync_of SYNC_MSG_CPL_READY 0]" None]
  have i: "tcp_inbox ?ctx (replicate (Suc (length ([] :: cpl_entry list))) (sync_of SYNC_MSG_CPL_READY 0) @ []) ([] @ ?c # [])" by simp
  obtain p where p: "bc_transport ?ctx = Some p" by (simp add: tcp_ctx_with_def bridge_ctx_new_def)
  have t: "c_tag ?c = bc_next_tag ?ctx AND bc_tag_mask ?ctx" "\<forall>s\<in>set []. c_tag s \<noteq> c_tag ?c" "length ([] :: cpl_entry list) < 256"
    by (simp_all add: cpl_zero_def)
  from tcp_send_and_wait [OF i p t, of "probe_req (bdf_of ?fn)" cpl_zero] obtain req ctx1
    where r: "bridge_send_tlp_and_wait tcp_transport (probe_req (bdf_of ?fn)) cpl_zero ?ctx = (0, req, ?c, ctx1)" by blast
  have s: "\<And>q. q_bdf plain 0 q = ?fn" "in_cache ?fn" "rd_ctx absent_rc = Some ?ctx" "\<not> be_probed (rd_cache absent_rc ?fn)"
    "(0 :: rc) < 0 \<or> c_data ?c ! 0 = 0xFF \<and> c_data ?c ! 1 = 0xFF"
    by (simp_all add: in_cache_def absent_rc_def rc_start_def bdf_empty_def)
  from rc_absent_function_silent [OF s(1-4) r s(5), of 0 4] obtain s1
    where a: "cosim_config_read tcp_transport plain 0 0 4 absent_rc = (0xFFFFFFFF, s1)"
      "\<forall>xs. case cfg_run tcp_transport plain 0 xs s1 of (vs, s2) \<Rightarrow> rd_ctx s2 = Some ctx1 \<and> set vs \<subseteq> {0xFFFFFFFF}" by blast
  from a(2) [rule_format, of "[]"] a(2) [rule_format, of "[Cfg_Write 4 7 2]"] a(1) show ?thesis by (auto split: prod.splits)
qed

end
