(* ===== verification/Pcie_Pf_Lifecycle.thy ===== *)
theory Pcie_Pf_Lifecycle
  imports Pcie_Pf_Access
begin

section \<open>The lifecycle of the physical functions\<close>

text \<open>
  Function 0 opens the bridge and creates the other functions; all of them then use one context through
  their own pointers.  The invariant says that the registered functions and the shared state agree and that
  the context is alive; guest accesses keep it and are never undefined.  Taking function 0 away frees the
  context under the others.
\<close>

definition pf_core :: "'d pf_dev \<Rightarrow> u8 \<times> nat option \<times> bool" where
  "pf_core pf = (pd_index pf, pd_bridge pf, pd_topo pf)"

definition world_ok :: "('p, 'd, 'q) cosim_world \<Rightarrow> bool" where
  "world_ok w \<longleftrightarrow> length (g_devices w) = COSIM_MAX_PF_DEVICES \<and> wf_topology (g_topo w)
     \<and> (\<exists>a. g_bridge w = Some a \<and> cw_heap w a \<noteq> None)
     \<and> (\<forall>i<COSIM_MAX_PF_DEVICES. \<forall>d. g_devices w ! i = Some d \<longrightarrow> pf_core (cw_pf w d) = (of_nat i, g_bridge w, True))"

subsection \<open>Guest accesses\<close>

datatype 'd guest_op =
    Mmio_Read 'd nat bool u64 nat              \<comment> \<open>device, BAR, is it a VF, offset, size\<close>
  | Mmio_Write 'd nat bool u64 u64 nat
  | Config_Read 'd u32 nat
  | Config_Write 'd u32 u32 nat

fun guest_step :: "'p transport \<Rightarrow> ('d, 'q) qemu \<Rightarrow> 'd guest_op \<Rightarrow> ('p, 'd, 'q) cosim_world \<Rightarrow> ('p, 'd, 'q) cosim_world option" where
  "guest_step ops Q (Mmio_Read d i vf addr sz) w =
     map_option snd (cosim_pf_mmio_read ops Q \<lparr>bx_dev = d, bx_index = i, bx_is_vf = vf\<rparr> addr sz w)"
| "guest_step ops Q (Mmio_Write d i vf addr val sz) w =
     cosim_pf_mmio_write ops Q \<lparr>bx_dev = d, bx_index = i, bx_is_vf = vf\<rparr> addr val sz w"
| "guest_step ops Q (Config_Read d a n) w = map_option snd (cosim_pf_config_read ops Q d a n w)"
| "guest_step ops Q (Config_Write d a v n) w = cosim_pf_config_write ops Q d a v n w"

primrec op_on :: "'d set \<Rightarrow> 'd guest_op \<Rightarrow> bool" where
  "op_on D (Mmio_Read d i vf addr sz) \<longleftrightarrow> vf \<or> d \<in> D"
| "op_on D (Mmio_Write d i vf addr val sz) \<longleftrightarrow> vf \<or> d \<in> D"
| "op_on D (Config_Read d a n) \<longleftrightarrow> d \<in> D"
| "op_on D (Config_Write d a v n) \<longleftrightarrow> d \<in> D"

definition registered :: "('p, 'd, 'q) cosim_world \<Rightarrow> 'd set" where
  "registered w = {d. Some d \<in> set (g_devices w)}"

text \<open>An access leaves everything as it is but QEMU's state and the contents of the contexts.\<close>

definition same_but_ctx :: "('p, 'd, 'q) cosim_world \<Rightarrow> ('p, 'd, 'q) cosim_world \<Rightarrow> bool" where
  "same_but_ctx w w' \<longleftrightarrow> (\<exists>q h. w' = w\<lparr>cw_heap := h, cw_qemu := q\<rparr> \<and> dom h = dom (cw_heap w))"

lemma same_but_ctx_ok:
  assumes "world_ok w" and "same_but_ctx w w'"
  shows "world_ok w' \<and> registered w' = registered w"
proof -
  from assms(2) obtain q h where w': "w' = w\<lparr>cw_heap := h, cw_qemu := q\<rparr>" "dom h = dom (cw_heap w)"
    unfolding same_but_ctx_def by blast
  then have "h a \<noteq> None \<longleftrightarrow> cw_heap w a \<noteq> None" for a by (metis domIff)
  then show ?thesis using assms(1) unfolding w'(1) world_ok_def registered_def by simp
qed

lemma same_but_ctx_trans:
  assumes "same_but_ctx w w1" and "same_but_ctx w1 w2"
  shows "same_but_ctx w w2"
proof -
  from assms obtain q h q' h' where "w1 = w\<lparr>cw_heap := h, cw_qemu := q\<rparr>" "dom h = dom (cw_heap w)"
    "w2 = w1\<lparr>cw_heap := h', cw_qemu := q'\<rparr>" "dom h' = dom (cw_heap w1)" unfolding same_but_ctx_def by blast
  then have "w2 = w\<lparr>cw_heap := h', cw_qemu := q'\<rparr>" "dom h' = dom (cw_heap w)" by simp_all
  then show ?thesis unfolding same_but_ctx_def by blast
qed

lemma same_but_ctx_qemu: "same_but_ctx w (w\<lparr>cw_qemu := q\<rparr>)"
  unfolding same_but_ctx_def by (intro exI [of _ q] exI [of _ "cw_heap w"]) simp

lemma same_but_ctx_refl [simp]: "same_but_ctx w w"
  using same_but_ctx_qemu [of w "cw_qemu w"] by simp

lemma same_but_ctx_upd: "cw_heap w a = Some c \<Longrightarrow> same_but_ctx w (w\<lparr>cw_heap := (cw_heap w)(a := Some c')\<rparr>)"
  unfolding same_but_ctx_def by (intro exI [of _ "cw_qemu w"] exI [of _ "(cw_heap w)(a := Some c')"]) (auto simp: dom_def)

lemma on_bridge_live:
  "cw_heap w a = Some c \<Longrightarrow> on_bridge (Some a) f w = Some (fst (f c), w\<lparr>cw_heap := (cw_heap w)(a := Some (snd (f c)))\<rparr>)"
  by (simp add: on_bridge_def case_prod_beta)

lemma world_ok_live:
  assumes "world_ok w"
  obtains a c where "g_bridge w = Some a" and "cw_heap w a = Some c"
  using assms by (auto simp: world_ok_def)

lemma registered_pf:
  assumes "world_ok w" and "d \<in> registered w"
  shows "pd_bridge (cw_pf w d) = g_bridge w" and "\<exists>t. own_bdf d w = Some t" and "pd_topo (cw_pf w d)"
proof -
  from assms obtain i where i: "i < 8" "g_devices w ! i = Some d"
    by (auto simp: registered_def world_ok_def in_set_conv_nth COSIM_MAX_PF_DEVICES_def)
  with assms(1) have c: "pf_core (cw_pf w d) = (of_nat i, g_bridge w, True)" by (auto simp: world_ok_def COSIM_MAX_PF_DEVICES_def)
  then show "pd_bridge (cw_pf w d) = g_bridge w" "pd_topo (cw_pf w d)" by (simp_all add: pf_core_def)
  have "unat (pd_index (cw_pf w d)) = i" using c i by (simp add: pf_core_def unat_of_nat)
  then show "\<exists>t. own_bdf d w = Some t"
    using c i assms(1) by (simp add: own_bdf_def topo_pf_def pf_core_def world_ok_def wf_topology_def)
qed

lemma config_read_ok:
  assumes "world_ok w" and "d \<in> registered w"
  shows "\<exists>w'. map_option snd (cosim_pf_config_read ops Q d a n w) = Some w' \<and> same_but_ctx w w'"
proof -
  obtain p c where p: "g_bridge w = Some p" "cw_heap w p = Some c" using assms(1) by (rule world_ok_live)
  obtain t where t: "own_bdf d w = Some t" using registered_pf(2) [OF assms] by blast
  have b: "pd_bridge (cw_pf w d) = Some p" using registered_pf(1) [OF assms] p(1) by simp
  show ?thesis
  proof (cases "cosim_pf_addr_is_local a n")
    case True
    then show ?thesis by (simp add: cosim_pf_config_read_def)
  next
    case False
    then have "map_option snd (cosim_pf_config_read ops Q d a n w)
        = Some (w\<lparr>cw_heap := (cw_heap w)(p := Some (snd (cfg_read_via ops a n t c)))\<rparr>)"
      by (simp add: cosim_pf_config_read_def b t on_bridge_live [OF p(2)])
    then show ?thesis using same_but_ctx_upd [OF p(2)] by blast
  qed
qed

text \<open>An action on the shared context that hands nothing back.\<close>

lemma act_ok:
  assumes "world_ok w"
  shows "\<exists>w'. map_option snd (on_bridge (g_bridge w) f w) = Some w' \<and> same_but_ctx w w'"
proof -
  obtain p c where p: "g_bridge w = Some p" "cw_heap w p = Some c" using assms by (rule world_ok_live)
  then have "map_option snd (on_bridge (g_bridge w) f w) = Some (w\<lparr>cw_heap := (cw_heap w)(p := Some (snd (f c)))\<rparr>)"
    using on_bridge_live [OF p(2), of f] by simp
  then show ?thesis using same_but_ctx_upd [OF p(2)] by blast
qed

lemma same_but_ctx_fields:
  assumes "same_but_ctx w w'"
  shows "g_bridge w' = g_bridge w" and "cw_pf w' = cw_pf w"
  using assms by (auto simp: same_but_ctx_def)

lemma config_write_ok:
  assumes "world_ok w" and "d \<in> registered w"
  shows "\<exists>w'. cosim_pf_config_write ops Q d a v n w = Some w' \<and> same_but_ctx w w'"
proof -
  define w1 where "w1 = w\<lparr>cw_qemu := q_write_config Q d a v n (cw_qemu w)\<rparr>"
  have s1: "same_but_ctx w w1" unfolding w1_def by (rule same_but_ctx_qemu)
  have ok1: "world_ok w1" using same_but_ctx_ok [OF assms(1) s1] by simp
  have b: "pd_bridge (cw_pf w1 d) = g_bridge w1" using registered_pf(1) [OF assms] by (simp add: w1_def)
  define notified where "notified = (if pd_bridge (cw_pf w1 d) \<noteq> None \<and> pd_num_vfs (cw_pf w1 d) > 0
      \<and> a = COSIM_SRIOV_CAP_OFFSET + PCI_SRIOV_CTRL \<and> n = 2
    then map_option snd (on_bridge (g_bridge w1)
        (bridge_send_vf_event ops (vf_event_for v (pd_index (cw_pf w1 d)) (q_num_vfs Q d (cw_qemu w1)))) w1) else Some w1)"
  have "\<exists>w2. notified = Some w2 \<and> same_but_ctx w1 w2"
    unfolding notified_def if_split [of "\<lambda>x. \<exists>w2. x = Some w2 \<and> same_but_ctx w1 w2"] using act_ok [OF ok1] same_but_ctx_refl by blast
  then obtain w2 where w2: "notified = Some w2" "same_but_ctx w1 w2" by blast
  have s2: "same_but_ctx w w2" using s1 w2(2) by (rule same_but_ctx_trans)
  have ok2: "world_ok w2" "d \<in> registered w2" using same_but_ctx_ok [OF assms(1) s2] assms(2) by simp_all
  obtain t where t: "own_bdf d w2 = Some t" using registered_pf(2) [OF ok2] by blast
  obtain w3 where w3: "map_option snd (on_bridge (g_bridge w2)
      (\<lambda>ctx. ((), snd (snd (bridge_send_tlp_fire ops (cfg_write_req a v n 0 t) ctx)))) w2) = Some w3" "same_but_ctx w2 w3"
    using act_ok [OF ok2(1)] by blast
  have "cosim_pf_config_write ops Q d a v n w = (if pd_bridge (cw_pf w1 d) = None \<or> cosim_pf_addr_is_local a n then notified
      else Option.bind notified (\<lambda>w2. Option.bind (own_bdf d w2) (\<lambda>target.
           map_option snd (on_bridge (g_bridge w1)
             (\<lambda>ctx. ((), snd (snd (bridge_send_tlp_fire ops (cfg_write_req a v n 0 target) ctx)))) w2))))"
    unfolding cosim_pf_config_write_def Let_def w1_def [symmetric] b notified_def by (rule refl)
  also have "\<dots> = (if g_bridge w1 = None \<or> cosim_pf_addr_is_local a n then Some w2 else Some w3)"
    using w3(1) unfolding w2(1) b same_but_ctx_fields(1) [OF w2(2)] by (simp only: t Option.bind.simps)
  finally show ?thesis using s2 same_but_ctx_trans [OF s2 w3(2)] by (simp split: if_splits)
qed

lemma guest_step_ok:
  assumes "world_ok w" and "op_on (registered w) op"
  shows "\<exists>w'. guest_step ops Q op w = Some w' \<and> same_but_ctx w w'"
proof -
  have bar: "bar_bridge \<lparr>bx_dev = d, bx_index = i, bx_is_vf = vf\<rparr> w = g_bridge w" if "vf \<or> d \<in> registered w" for d i vf
    using registered_pf(1) [OF assms(1), of d] that by (auto simp: bar_bridge_def)
  obtain p where live: "g_bridge w = Some p" using assms(1) by (rule world_ok_live)
  show ?thesis
  proof (cases op)
    case (Mmio_Read d i vf addr sz)
    then have "bar_bridge \<lparr>bx_dev = d, bx_index = i, bx_is_vf = vf\<rparr> w = g_bridge w" using bar assms(2) by simp
    then have "guest_step ops Q op w = map_option snd (on_bridge (g_bridge w)
        (mmio_read_via ops (pcie_addr Q \<lparr>bx_dev = d, bx_index = i, bx_is_vf = vf\<rparr> addr w) sz) w)"
      using live by (simp add: Mmio_Read cosim_pf_mmio_read_def)
    then show ?thesis using act_ok [OF assms(1)] by (simp only:)
  next
    case (Mmio_Write d i vf addr val sz)
    then have "bar_bridge \<lparr>bx_dev = d, bx_index = i, bx_is_vf = vf\<rparr> w = g_bridge w" using bar assms(2) by simp
    then have "guest_step ops Q op w = map_option snd (on_bridge (g_bridge w)
        (\<lambda>ctx. ((), mmio_write_via ops (pcie_addr Q \<lparr>bx_dev = d, bx_index = i, bx_is_vf = vf\<rparr> addr w) val sz ctx)) w)"
      using live by (simp add: Mmio_Write cosim_pf_mmio_write_def)
    then show ?thesis using act_ok [OF assms(1)] by (simp only:)
  next
    case (Config_Read d a n)
    then show ?thesis using config_read_ok [OF assms(1)] assms(2) by simp
  next
    case (Config_Write d a v n)
    then show ?thesis using config_write_ok [OF assms(1)] assms(2) by simp
  qed
qed

lemma guest_steps_ok:
  assumes "world_ok w" and "list_all (op_on (registered w)) acc"
  shows "\<exists>w'. fold_opt (guest_step ops Q) acc w = Some w' \<and> same_but_ctx w w'"
  using assms
proof (induction acc arbitrary: w)
  case Nil
  then show ?case using same_but_ctx_refl by simp
next
  case (Cons op acc)
  then obtain w1 where w1: "guest_step ops Q op w = Some w1" "same_but_ctx w w1" using guest_step_ok by fastforce
  have ok: "world_ok w1" "registered w1 = registered w" using same_but_ctx_ok [OF Cons.prems(1) w1(2)] by simp_all
  then obtain w' where "fold_opt (guest_step ops Q) acc w1 = Some w'" "same_but_ctx w1 w'"
    using Cons.IH [of w1] Cons.prems(2) by auto
  then show ?case using w1 same_but_ctx_trans by (auto simp del: not_None_eq)
qed

text \<open>C8: In a world where the registered functions agree with the shared state, no sequence of guest accesses
  (memory reads and writes of a function's BARs or of a VF's, configuration reads and writes), whatever their
  addresses, sizes and values, whatever the transport answers and whatever QEMU does, is undefined: each
  access uses the live context and indices inside the arrays, and the invariant and the registered functions
  are kept.\<close>

theorem pf_accesses_safe:
  assumes "world_ok w" and "list_all (op_on (registered w)) acc"
  shows "\<exists>w'. fold_opt (guest_step ops Q) acc w = Some w' \<and> world_ok w' \<and> registered w' = registered w"
  using guest_steps_ok [OF assms] same_but_ctx_ok [OF assms(1)] by blast

lemma world_two_world_ok: "world_ok (world_two ctx)" "registered (world_two ctx) = {0, 1}"
proof -
  have "(Some (0 :: nat) # Some 1 # replicate 6 None) ! i = Some d \<Longrightarrow> d = i \<and> i < 2" if "i < 8" for i d :: nat
    using that by (auto simp: nth_Cons split: nat.splits)
  then show "world_ok (world_two ctx)"
    by (auto simp: world_ok_def world_two_def world_start_def COSIM_MAX_PF_DEVICES_def pf_core_def pf_new_def topology_two_def
        wf_topology_def wf_pf_def pf_zero_def topology_zero_def)
qed (auto simp: registered_def world_two_def)

theorem pf_accesses_safe_witness:
  "\<exists>w'. fold_opt (guest_step tcp_transport plain)
      [Config_Write 1 0x108 1 2, Mmio_Write 0 0 False 8 0xFFFFFFFF 4, Config_Read 1 0 4, Mmio_Read 77 2 True 3 8]
      (world_two (tcp_ctx_with [] [] None)) = Some w'
    \<and> world_ok w' \<and> registered w' = {0, 1}"
proof -
  have "list_all (op_on (registered (world_two (tcp_ctx_with [] [] None))))
      [Config_Write 1 0x108 1 2, Mmio_Write 0 0 False 8 0xFFFFFFFF 4, Config_Read 1 0 4, Mmio_Read 77 2 True 3 8]"
    by (simp add: world_two_world_ok(2))
  from pf_accesses_safe [OF world_two_world_ok(1) this, of tcp_transport plain] show ?thesis by (simp only: world_two_world_ok(2))
qed

subsection \<open>Realize\<close>

text \<open>Setting a function up changes QEMU's state and fields of the device the invariant does not speak of.\<close>

definition keeps :: "('p, 'd, 'q) cosim_world \<Rightarrow> ('p, 'd, 'q) cosim_world \<Rightarrow> bool" where
  "keeps w w' \<longleftrightarrow> (\<exists>f q. w' = w\<lparr>cw_pf := f, cw_qemu := q\<rparr> \<and> (\<forall>d. pf_core (f d) = pf_core (cw_pf w d)))"

lemma keepsI: "w' = w\<lparr>cw_pf := f, cw_qemu := q\<rparr> \<Longrightarrow> (\<And>d. pf_core (f d) = pf_core (cw_pf w d)) \<Longrightarrow> keeps w w'"
  unfolding keeps_def by blast

lemma keeps_refl [simp]: "keeps w w"
  by (rule keepsI [where f = "cw_pf w" and q = "cw_qemu w"]) simp_all

lemma keeps_trans [trans]: "keeps w w1 \<Longrightarrow> keeps w1 w2 \<Longrightarrow> keeps w w2"
proof -
  assume "keeps w w1" "keeps w1 w2"
  then obtain f q f' q' where "w1 = w\<lparr>cw_pf := f, cw_qemu := q\<rparr>" "\<forall>d. pf_core (f d) = pf_core (cw_pf w d)"
    "w2 = w1\<lparr>cw_pf := f', cw_qemu := q'\<rparr>" "\<forall>d. pf_core (f' d) = pf_core (cw_pf w1 d)" unfolding keeps_def by blast
  then show ?thesis by (intro keepsI [where f = f' and q = q']) simp_all
qed

lemma keeps_call: "keeps w (snd (call_qemu Q d c w))"
  by (rule keepsI [where f = "cw_pf w" and q = "snd (q_call Q d c (cw_qemu w))"]) (simp_all add: call_qemu_def case_prod_beta)

lemma keeps_then_call: "keeps w w1 \<Longrightarrow> keeps w (snd (call_qemu Q d c w1))"
  by (rule keeps_trans [OF _ keeps_call])

lemma keeps_upd: "pf_core (f (cw_pf w d)) = pf_core (cw_pf w d) \<Longrightarrow> keeps w (upd_pf d f w)"
  by (rule keepsI [where f = "(cw_pf w)(d := f (cw_pf w d))" and q = "cw_qemu w"]) (simp_all add: upd_pf_def)

lemma keeps_fold: "(\<And>i w. keeps w (f i w)) \<Longrightarrow> keeps w (fold f xs w)"
proof (induction xs arbitrary: w)
  case (Cons x xs)
  have "keeps w (f x w)" by (rule Cons.prems)
  also have "keeps (f x w) (fold f xs (f x w))" by (rule Cons.IH [OF Cons.prems])
  finally show ?case by simp
qed simp

lemma keeps_fields:
  assumes "keeps w w'"
  shows "g_devices w' = g_devices w" and "g_bridge w' = g_bridge w" and "g_topo w' = g_topo w" and "cw_heap w' = cw_heap w"
    and "g_num_pfs w' = g_num_pfs w" and "pf_core (cw_pf w' d) = pf_core (cw_pf w d)"
  using assms by (auto simp: keeps_def)

lemma keeps_ok: "keeps w w' \<Longrightarrow> world_ok w \<Longrightarrow> world_ok w'"
  unfolding world_ok_def by (simp add: keeps_fields)

lemma keeps_bar: "keeps w (pf_bar Q d i w)"
  by (simp add: pf_bar_def Let_def keeps_then_call keeps_upd pf_core_def)

lemma keeps_bars: "keeps w (pf_bars Q d w)"
  by (simp only: pf_bars_def keeps_then_call keeps_fold keeps_bar)

lemma keeps_msix: "keeps w (pf_msix Q d w)"
  by (simp add: pf_msix_def Let_def keeps_call)

lemma keeps_sriov: "keeps w (pf_sriov Q d w)"
proof -
  have "keeps u (vf_bar_cap Q d i u)" for i u by (simp add: vf_bar_cap_def Let_def keeps_call)
  then have f: "keeps u (fold (vf_bar_cap Q d) is u)" for "is" u by (rule keeps_fold)
  obtain r w1 where w1: "call_qemu Q d (Pcie_Cap_Init 0x80) w = (r, w1)" by fastforce
  then have k: "keeps w w1" using keeps_call [of w Q d "Pcie_Cap_Init 0x80"] by simp
  show ?thesis
    unfolding pf_sriov_def Let_def w1 prod.case if_split [of "keeps w"] using k keeps_trans [OF keeps_then_call [OF k] f] by blast
qed

lemma setup_keeps:
  assumes "unat (pd_index (cw_pf w d)) < 8" and "wf_topology (g_topo w)"
  shows "\<exists>w1. pf_setup Q d w = Some w1 \<and> keeps (w\<lparr>g_devices := (g_devices w)[unat (pd_index (cw_pf w d)) := Some d]\<rparr>) w1"
proof -
  let ?i = "unat (pd_index (cw_pf w d))"
  let ?w0 = "w\<lparr>g_devices := (g_devices w)[?i := Some d]\<rparr>"
  obtain t where t: "topo_pf ?i ?w0 = Some t" using assms by (simp add: topo_pf_def wf_topology_def)
  define w1 where "w1 = upd_pf d (\<lambda>pf. pf\<lparr>pd_msix_vectors := pf_msix_vectors t, pd_num_vfs := pf_num_vfs t,
           pd_vf_device_id := pf_vf_device_id t, pd_vf_msix_vectors := pf_vf_msix_vectors t,
           pd_bar_sizes := pf_bar_size t, pd_vf_bar_sizes := pf_vf_bar_size t\<rparr>) ?w0"
  have r: "pf_register d w = Some w1" using assms(1) t by (simp add: pf_register_def Let_def w1_def COSIM_MAX_PF_DEVICES_def)
  have "keeps ?w0 w1" unfolding w1_def by (rule keeps_upd) (simp add: pf_core_def)
  also have "keeps w1 (pf_bars Q d w1)" by (rule keeps_bars)
  also have "keeps \<dots> (pf_msix Q d (pf_bars Q d w1))" by (rule keeps_msix)
  also have "keeps \<dots> (pf_sriov Q d (pf_msix Q d (pf_bars Q d w1)))" by (rule keeps_sriov)
  finally show ?thesis using r by (simp add: pf_setup_def)
qed

text \<open>A function other than 0 joins: it is registered and refers to what the others refer to.\<close>

definition pf_join :: "nat \<Rightarrow> 'd \<Rightarrow> ('p, 'd, 'q) cosim_world \<Rightarrow> ('p, 'd, 'q) cosim_world" where
  "pf_join i d w = upd_pf d (\<lambda>_. (pf_new (of_nat i))\<lparr>pd_bridge := g_bridge w, pd_topo := True\<rparr>)
     (w\<lparr>g_devices := (g_devices w)[i := Some d]\<rparr>)"

lemma unat_index: "i < 8 \<Longrightarrow> unat (of_nat i :: u8) = i"
  by (rule unat_of_nat_less) simp

lemma realize_shared_joins:
  assumes "wf_topology (g_topo w)" and "i < 8"
  shows "\<exists>w'. pf_realize_shared Q d (upd_pf d (\<lambda>_. pf_new (of_nat i)) w) = Some w' \<and> keeps (pf_join i d w) w'"
proof -
  define w0 where "w0 = pf_share d (upd_pf d (\<lambda>pf. pf\<lparr>pd_num_bars := 0\<rparr>) (upd_pf d (\<lambda>_. pf_new (of_nat i)) w))"
  have i: "unat (pd_index (cw_pf w0 d)) = i" and g: "g_topo w0 = g_topo w"
    using unat_index [OF assms(2)] by (simp_all add: w0_def pf_share_def upd_pf_def pf_new_def)
  from setup_keeps [of w0 d Q] i g assms obtain w1
    where w1: "pf_setup Q d w0 = Some w1" "keeps (w0\<lparr>g_devices := (g_devices w0)[i := Some d]\<rparr>) w1" by auto
  have "keeps (pf_join i d w) (w0\<lparr>g_devices := (g_devices w0)[i := Some d]\<rparr>)"
    by (rule keepsI [where f = "cw_pf w0" and q = "cw_qemu w"])
      (simp_all add: w0_def pf_join_def pf_share_def upd_pf_def pf_core_def pf_new_def)
  then have k1: "keeps (pf_join i d w) w1" using w1(2) by (rule keeps_trans)
  define w2 where "w2 = (case g_devices w1 ! 0 of
            Some d0 \<Rightarrow> upd_pf d (\<lambda>pf. pf\<lparr>pd_bh := pd_bh (cw_pf w1 d0), pd_queue := (pd_queue pf)\<lparr>mq_head := 0, mq_tail := 0\<rparr>\<rparr>) w1
          | None \<Rightarrow> w1)"
  have k2: "keeps w1 w2" unfolding w2_def by (cases "g_devices w1 ! 0") (simp_all add: keeps_upd pf_core_def)
  have k3: "keeps w2 (upd_pf d (\<lambda>pf. pf\<lparr>pd_poller := g_poller w1\<rparr>) w2)" by (rule keeps_upd) (simp add: pf_core_def)
  have "pf_realize_shared Q d (upd_pf d (\<lambda>_. pf_new (of_nat i)) w) = Some (upd_pf d (\<lambda>pf. pf\<lparr>pd_poller := g_poller w1\<rparr>) w2)"
    by (simp add: pf_realize_shared_def w0_def [symmetric] w1(1) w2_def)
  then show ?thesis using keeps_trans [OF k1 keeps_trans [OF k2 k3]] by blast
qed

text \<open>The functions created so far: those below \<open>k\<close>, each a device of its own.\<close>

definition slots :: "(nat \<Rightarrow> 'd) \<Rightarrow> nat \<Rightarrow> 'd option list" where
  "slots dev k = map (\<lambda>i. if i < k then Some (dev i) else None) [0..<8]"

lemma slots_update: "i < 8 \<Longrightarrow> (slots dev i)[i := Some (dev i)] = slots dev (Suc i)"
  by (rule nth_equalityI) (auto simp: slots_def nth_list_update)

lemma length_slots [simp]: "length (slots dev k) = 8"
  by (simp add: slots_def)

lemma nth_slots: "i < 8 \<Longrightarrow> slots dev k ! i = (if i < k then Some (dev i) else None)"
  by (simp add: slots_def)

lemma set_slots: "k \<le> 8 \<Longrightarrow> {d. Some d \<in> set (slots dev k)} = dev ` {..<k}"
  by (auto simp: slots_def)

lemma join_ok:
  assumes "world_ok w" and "g_devices w = slots dev i" and "i < 8" and "inj_on dev {..<8}"
  shows "world_ok (pf_join i (dev i) w)" and "g_devices (pf_join i (dev i) w) = slots dev (Suc i)"
proof -
  show d: "g_devices (pf_join i (dev i) w) = slots dev (Suc i)"
    using assms(2,3) slots_update [of i dev] by (simp add: pf_join_def upd_pf_def)
  have core: "pf_core (cw_pf (pf_join i (dev i) w) (dev j)) = (of_nat j, g_bridge w, True)" if "j < Suc i" for j
  proof (cases "j = i")
    case True
    then show ?thesis by (simp add: pf_join_def upd_pf_def pf_core_def pf_new_def)
  next
    case False
    then have j: "j < i" using that by simp
    then have "dev j \<noteq> dev i" using assms(3,4) by (auto simp: inj_on_def)
    moreover have "pf_core (cw_pf w (dev j)) = (of_nat j, g_bridge w, True)"
      using assms(1-3) j by (simp add: world_ok_def COSIM_MAX_PF_DEVICES_def nth_slots)
    ultimately show ?thesis by (simp add: pf_join_def upd_pf_def)
  qed
  have "g_bridge (pf_join i (dev i) w) = g_bridge w" "cw_heap (pf_join i (dev i) w) = cw_heap w" "g_topo (pf_join i (dev i) w) = g_topo w"
    by (simp_all add: pf_join_def upd_pf_def)
  then show "world_ok (pf_join i (dev i) w)"
    using assms(1) core unfolding world_ok_def d by (simp add: COSIM_MAX_PF_DEVICES_def nth_slots)
qed

lemma create_pfs_ok:
  assumes "\<And>i q. 0 < i \<Longrightarrow> i < 8 \<Longrightarrow> fst (q_new_function Q d i q) = (dev i, True)" and "inj_on dev {..<8}"
    and "world_ok w" and "g_devices w = slots dev k" and "0 < k" and "k \<le> n" and "n \<le> 8"
  shows "\<exists>w'. create_pfs Q d [k..<n] w = Some w' \<and> world_ok w' \<and> g_devices w' = slots dev n \<and> g_topo w' = g_topo w"
  using assms(3-7)
proof (induction "n - k" arbitrary: k w)
  case 0
  then show ?case by simp
next
  case (Suc m)
  then have kn: "k < n" "k < 8" and upt: "[k..<n] = k # [Suc k..<n]" by (simp_all add: upt_conv_Cons)
  obtain q where q: "q_new_function Q d k (cw_qemu w) = ((dev k, True), q)" using assms(1) [OF Suc.prems(3) kn(2)] by (metis prod.collapse)
  let ?w = "w\<lparr>cw_qemu := q\<rparr>"
  have ok: "world_ok ?w" using Suc.prems(1) by (simp add: world_ok_def)
  from realize_shared_joins [of ?w k Q "dev k"] kn ok obtain w1
    where w1: "pf_realize_shared Q (dev k) (upd_pf (dev k) (\<lambda>_. pf_new (of_nat k)) ?w) = Some w1" "keeps (pf_join k (dev k) ?w) w1"
    by (auto simp: world_ok_def)
  from join_ok [OF ok _ kn(2) assms(2)] Suc.prems(2)
  have j: "world_ok (pf_join k (dev k) ?w)" "g_devices (pf_join k (dev k) ?w) = slots dev (Suc k)" by simp_all
  have "world_ok w1" "g_devices w1 = slots dev (Suc k)" using keeps_ok [OF w1(2) j(1)] keeps_fields(1) [OF w1(2)] j(2) by simp_all
  moreover have "g_topo w1 = g_topo w" using keeps_fields(3) [OF w1(2)] by (simp add: pf_join_def upd_pf_def)
  ultimately obtain w'
    where "create_pfs Q d [Suc k..<n] w1 = Some w' \<and> world_ok w' \<and> g_devices w' = slots dev n \<and> g_topo w' = g_topo w"
    using Suc.hyps(1) [of "Suc k" w1] Suc.hyps(2) kn(1) Suc.prems(5) by fastforce
  then show ?case using q w1(1) unfolding upt by simp
qed

lemma tcp_topology_answer:
  assumes "bc_transport ctx = Some p" and "healthy (tp_ctrl p)" and "wf_topology t"
    and "sk_in (tp_ctrl p) = msg_bytes TCP_MSG_SYNC (enc_sync (sync_of SYNC_MSG_TOPOLOGY_RESP x))
      @ msg_bytes TCP_MSG_TOPOLOGY_RESP (enc_topology t) @ rest"
  shows "\<exists>ctx1. bridge_query_topology tcp_transport ctx = (Got t, ctx1)"
proof -
  from on_ctrl_sends [OF sends_msg assms(2), of TCP_MSG_SYNC "enc_sync (sync_of SYNC_MSG_QUERY_TOPOLOGY 0)"] obtain s1
    where s1: "tcp_send_sync (sync_of SYNC_MSG_QUERY_TOPOLOGY 0) p = (0, p\<lparr>tp_ctrl := s1\<rparr>)" "healthy s1" "sk_in s1 = sk_in (tp_ctrl p)"
    by (auto simp: tcp_send_sync_def)
  let ?p1 = "p\<lparr>tp_ctrl := s1\<rparr>"
  from on_ctrl_reads [OF sync_stream.recv_image, of ?p1 "sync_of SYNC_MSG_TOPOLOGY_RESP x"] s1 assms(4) obtain s2
    where s2: "tcp_recv_sync ?p1 = (Got (sync_of SYNC_MSG_TOPOLOGY_RESP x), ?p1\<lparr>tp_ctrl := s2\<rparr>)" "healthy s2"
      "sk_in s2 = msg_bytes TCP_MSG_TOPOLOGY_RESP (enc_topology t) @ rest" by (auto simp: tcp_recv_sync_def)
  let ?p2 = "?p1\<lparr>tp_ctrl := s2\<rparr>"
  from on_ctrl_reads [OF topology_stream.recv_image [OF assms(3)], of ?p2] s2 obtain s3
    where "tcp_recv_topology ?p2 = (Got t, ?p2\<lparr>tp_ctrl := s3\<rparr>)" by (auto simp: tcp_recv_topology_def)
  then show ?thesis using assms(1) s1(1) s2(1)
    by (simp add: bridge_query_topology_def bc_send_sync_def bc_recv_sync_def via_def tcp_transport_def sync_of_def)
qed

text \<open>The properties and answers with which a bridge over TCP comes up: both connections accepted, the
  handshake done, the poller running, and the topology \<open>t\<close> on the control connection.\<close>

definition tcp_comes_up :: "transport_tcp_priv bridge_answers \<Rightarrow> dev_props \<Rightarrow> topology_resp \<Rightarrow> bool" where
  "tcp_comes_up ans props t \<longleftrightarrow> dp_transport props = Some ''tcp'' \<and> ba_poller_ok ans \<and> wf_topology t
     \<and> (\<exists>p x rest. ba_created ans = Some p \<and> tp_peer_is_ready p \<and> healthy (tp_ctrl p)
         \<and> sk_in (tp_ctrl p) = msg_bytes TCP_MSG_SYNC (enc_sync (sync_of SYNC_MSG_TOPOLOGY_RESP x))
             @ msg_bytes TCP_MSG_TOPOLOGY_RESP (enc_topology t) @ rest)"

lemma tcp_open:
  assumes "tcp_comes_up ans props t"
  shows "\<exists>ctx ctx1. open_bridge tcp_transport ans props = Some (Inr ctx) \<and> bridge_query_topology tcp_transport ctx = (Got t, ctx1)"
proof -
  from assms obtain p x rest where p: "ba_created ans = Some p" "tp_peer_is_ready p" "healthy (tp_ctrl p)"
    "sk_in (tp_ctrl p) = msg_bytes TCP_MSG_SYNC (enc_sync (sync_of SYNC_MSG_TOPOLOGY_RESP x))
             @ msg_bytes TCP_MSG_TOPOLOGY_RESP (enc_topology t) @ rest" by (auto simp: tcp_comes_up_def)
  let ?ctx = "bridge_ctx_new (ba_no_shm ans) (Some (tcp_set_ready p))"
  have "open_bridge tcp_transport ans props = Some (Inr ?ctx)"
    using assms p(1,2) by (simp add: open_bridge_def tcp_comes_up_def connect_or_destroy_def bridge_init_ex_def bridge_connect_ex_def
        bridge_ctx_new_def tcp_transport_def tcp_set_ready_def tcp_peer_ready_def)
  moreover have "\<exists>ctx1. bridge_query_topology tcp_transport ?ctx = (Got t, ctx1)"
    by (rule tcp_topology_answer [of _ "tcp_set_ready p"])
      (use assms p in \<open>simp_all add: tcp_comes_up_def bridge_ctx_new_def tcp_set_ready_def\<close>)
  ultimately show ?thesis by blast
qed

lemma start_ok:
  assumes "\<And>i q. 0 < i \<Longrightarrow> i < 8 \<Longrightarrow> fst (q_new_function Q (dev 0) i q) = (dev i, True)" and "inj_on dev {..<8}"
    and "world_ok w" and "g_devices w = slots dev 1" and "ba_poller_ok ans"
  shows "\<exists>w'. pf_start ops ans Q (dev 0) w = Some (None, w') \<and> world_ok w'
    \<and> g_devices w' = slots dev (max 1 (min (g_num_pfs w) 8)) \<and> g_topo w' = g_topo w"
proof -
  define w1 where "w1 = snd (call_qemu Q (dev 0) New_Bh (upd_pf (dev 0) (\<lambda>pf. pf\<lparr>pd_bh := True,
            pd_queue := (pd_queue pf)\<lparr>mq_head := 0, mq_tail := 0\<rparr>\<rparr>) w))"
  have k1: "keeps w w1" unfolding w1_def by (rule keeps_then_call, rule keeps_upd) (simp add: pf_core_def)
  define w2 where "w2 = upd_pf (dev 0) (\<lambda>pf. pf\<lparr>pd_poller := True\<rparr>) w1\<lparr>g_poller := True, g_initialized := True\<rparr>"
  define w3 where "w3 = snd (call_qemu Q (dev 0) Set_Multifunction w2)"
  have k2: "keeps w1 (upd_pf (dev 0) (\<lambda>pf. pf\<lparr>pd_poller := True\<rparr>) w1)" by (rule keeps_upd) (simp add: pf_core_def)
  have "world_ok (upd_pf (dev 0) (\<lambda>pf. pf\<lparr>pd_poller := True\<rparr>) w1)" using keeps_ok [OF keeps_trans [OF k1 k2] assms(3)] .
  then have "world_ok w2" by (simp add: w2_def world_ok_def)
  then have ok3: "world_ok w3" unfolding w3_def by (rule keeps_ok [OF keeps_call])
  have k3: "keeps w2 w3" unfolding w3_def by (rule keeps_call)
  have f2: "g_devices w2 = g_devices w1" "g_num_pfs w2 = g_num_pfs w1" "g_topo w2 = g_topo w1" by (simp_all add: w2_def upd_pf_def)
  have f: "g_devices w3 = slots dev 1" "g_num_pfs w1 = g_num_pfs w" "g_topo w3 = g_topo w"
    using keeps_fields [OF k1] keeps_fields [OF k3] f2 assms(4) by simp_all
  let ?n = "min (g_num_pfs w) 8"
  have e: "[1..<?n] = [1..<max 1 ?n]" by (cases "?n \<le> 1") (simp_all add: max_def)
  have n: "(1 :: nat) \<le> max 1 ?n" "max 1 ?n \<le> 8" by simp_all
  obtain w' where w': "create_pfs Q (dev 0) [1..<?n] w3 = Some w'" "world_ok w'"
      "g_devices w' = slots dev (max 1 ?n)" "g_topo w' = g_topo w3"
    using create_pfs_ok [OF assms(1,2) ok3 f(1) zero_less_one n] unfolding e by auto
  have "pf_start ops ans Q (dev 0) w = map_option (Pair None) (create_pfs Q (dev 0) [1..<?n] w3)"
    using assms(5) unfolding pf_start_def w1_def [symmetric] Let_def w2_def [symmetric] w3_def [symmetric]
    by (simp add: f(2) COSIM_MAX_PF_DEVICES_def)
  then show ?thesis using w' f(3) by simp
qed

text \<open>C7: When the bridge over TCP comes up, the realize of function 0 succeeds and leaves the topology that the
  simulator sent, the invariant of the world, and one registered device for each function of the topology, at
  most 8, at the slot of its number.  Every sequence of guest accesses to these functions that follows is
  defined.  QEMU is relied on only to hand out a device of its own for each function it is asked for.\<close>

theorem pf_realize_ready:
  assumes "tcp_comes_up ans props t"
    and "pd_index (cw_pf w (dev 0)) = 0" and "\<not> g_initialized w" and "g_devices w = replicate 8 None"
    and "\<And>i q. 0 < i \<Longrightarrow> i < 8 \<Longrightarrow> fst (q_new_function Q (dev 0) i q) = (dev i, True)" and "inj_on dev {..<8}"
  shows "\<exists>w'. cosim_pcie_pf_realize tcp_transport ans props Q (dev 0) w = Some (None, w') \<and> world_ok w' \<and> g_topo w' = t
    \<and> (\<forall>i<8. g_devices w' ! i = (if i < max 1 (unat (th_num_pfs (tp_header t))) then Some (dev i) else None))
    \<and> (\<forall>acc. list_all (op_on (registered w')) acc \<longrightarrow> fold_opt (guest_step tcp_transport Q) acc w' \<noteq> None)"
proof -
  from tcp_open [OF assms(1)] obtain ctx ctx1
    where o: "open_bridge tcp_transport ans props = Some (Inr ctx)" "bridge_query_topology tcp_transport ctx = (Got t, ctx1)" by blast
  have wf: "wf_topology t" and poller: "ba_poller_ok ans" using assms(1) by (simp_all add: tcp_comes_up_def)
  let ?n = "unat (th_num_pfs (tp_header t))"
  define w0 where "w0 = upd_pf (dev 0) (\<lambda>pf. pf\<lparr>pd_num_bars := 0\<rparr>) w"
  define a where "a = cw_fresh w0"
  define w1 where "w1 = upd_pf (dev 0) (\<lambda>pf. pf\<lparr>pd_bridge := Some a, pd_topo := True,
                         pd_tag_mask := tag_width_to_mask (th_tag_width (tp_header t))\<rparr>)
                       (w0\<lparr>cw_heap := (cw_heap w0)(a := Some ctx1), cw_fresh := Suc a, g_bridge := Some a, g_topo := t, g_num_pfs := ?n\<rparr>)"
  have opened: "pf_open tcp_transport ans props (dev 0) w0 = Some (None, w1)"
    using o assms(3) by (simp add: pf_open_def w1_def w0_def upd_pf_def a_def Let_def)
  have i1: "pd_index (cw_pf w1 (dev 0)) = 0" "g_topo w1 = t" "g_devices w1 = slots dev 0"
    using assms(2,4) by (simp_all add: w1_def w0_def upd_pf_def slots_def map_replicate_const)
  from setup_keeps [of w1 "dev 0" Q] i1 wf obtain w2
    where w2: "pf_setup Q (dev 0) w1 = Some w2" "keeps (w1\<lparr>g_devices := slots dev 1\<rparr>) w2"
    using slots_update [of 0 dev] by auto
  have "world_ok (w1\<lparr>g_devices := slots dev 1\<rparr>)"
    using assms(2) wf by (simp add: world_ok_def COSIM_MAX_PF_DEVICES_def nth_slots w1_def w0_def upd_pf_def pf_core_def)
  then have ok2: "world_ok w2" by (rule keeps_ok [OF w2(2)])
  have f2: "g_devices w2 = slots dev 1" "g_num_pfs w2 = ?n" "g_topo w2 = t"
    using keeps_fields [OF w2(2)] by (simp_all add: w1_def upd_pf_def)
  from start_ok [OF assms(5,6) ok2 f2(1) poller, of tcp_transport] f2 obtain w'
    where w': "pf_start tcp_transport ans Q (dev 0) w2 = Some (None, w')" "world_ok w'" "g_devices w' = slots dev (max 1 (min ?n 8))"
      "g_topo w' = t" by auto
  have "cosim_pcie_pf_realize tcp_transport ans props Q (dev 0) w = Some (None, w')"
    using assms(2) opened w2(1) w'(1) by (simp add: cosim_pcie_pf_realize_def w0_def [symmetric])
  moreover have "\<forall>i<8. g_devices w' ! i = (if i < max 1 ?n then Some (dev i) else None)" by (auto simp: w'(3) nth_slots)
  moreover have "\<forall>acc. list_all (op_on (registered w')) acc \<longrightarrow> fold_opt (guest_step tcp_transport Q) acc w' \<noteq> None"
    using guest_steps_ok [OF w'(2)] by (metis option.distinct(1))
  ultimately show ?thesis using w'(2,4) by blast
qed

definition answers_two :: "transport_tcp_priv bridge_answers" where
  "answers_two = \<lparr>ba_os = \<lparr>os_fd = 3, os_open_fails = False, os_truncate_fails = False, os_mmap_fails = False\<rparr>, ba_listen_fd = 3, ba_created = Some ((priv_init True
       (fresh_sock (msg_bytes TCP_MSG_SYNC (enc_sync (sync_of SYNC_MSG_TOPOLOGY_RESP 0))
         @ msg_bytes TCP_MSG_TOPOLOGY_RESP (enc_topology topology_two))) (fresh_sock []) None)\<lparr>tp_peer_is_ready := True\<rparr>),
     ba_no_shm = cosim_shm_init, ba_timeout = None, ba_accept = [], ba_client = fresh_sock [], ba_poller_ok = True\<rparr>"

definition tcp_props :: dev_props where
  "tcp_props = \<lparr>dp_transport = Some ''tcp'', dp_shm_name = None, dp_sock_path = None\<rparr>"

lemma answers_two_up: "tcp_comes_up answers_two tcp_props topology_two"
  unfolding tcp_comes_up_def answers_two_def tcp_props_def
  by (simp add: priv_init_def) (auto simp: fresh_sock_def topology_two_def wf_topology_def wf_pf_def pf_zero_def topology_zero_def)

theorem pf_realize_ready_witness:
  "\<exists>w'. cosim_pcie_pf_realize tcp_transport answers_two tcp_props plain 0 (world_start plain_start) = Some (None, w')
    \<and> g_topo w' = topology_two \<and> g_devices w' ! 0 = Some 0 \<and> g_devices w' ! 1 = Some 1 \<and> g_devices w' ! 2 = None"
proof -
  have "pd_index (cw_pf (world_start plain_start) 0) = 0" "\<not> g_initialized (world_start plain_start)"
    "g_devices (world_start plain_start) = replicate 8 None"
    by (simp_all add: world_start_def pf_new_def COSIM_MAX_PF_DEVICES_def)
  from pf_realize_ready [where dev = id and Q = plain, OF answers_two_up _ this(2,3)] this(1) obtain w'
    where "cosim_pcie_pf_realize tcp_transport answers_two tcp_props plain 0 (world_start plain_start) = Some (None, w')"
      "g_topo w' = topology_two"
      "\<forall>i<8. g_devices w' ! i = (if i < max 1 (unat (th_num_pfs (tp_header topology_two))) then Some (id i) else None)" by auto
  then show ?thesis by (simp add: topology_two_def)
qed

subsection \<open>Exit\<close>

lemma release_frees:
  assumes "pd_bridge (cw_pf w d0) = Some p" and "cw_heap w p = Some c"
  shows "\<exists>w3. pf_release ops Q d0 w = Some w3 \<and> cw_heap w3 p = None \<and> g_devices w3 = g_devices w
    \<and> pd_index (cw_pf w3 d0) = pd_index (cw_pf w d0) \<and> (\<forall>d. d \<noteq> d0 \<longrightarrow> pd_bridge (cw_pf w3 d) = pd_bridge (cw_pf w d))"
proof -
  define w1 where "w1 = (if pd_poller (cw_pf w d0) then upd_pf d0 (\<lambda>pf. pf\<lparr>pd_poller := False\<rparr>) w\<lparr>g_poller := False\<rparr> else w)"
  have f1: "cw_heap w1 = cw_heap w" "g_devices w1 = g_devices w" "pf_core (cw_pf w1 d) = pf_core (cw_pf w d)" for d
    by (simp_all add: w1_def upd_pf_def pf_core_def)
  define w2 where "w2 = (if pd_bh (cw_pf w d0) then snd (call_qemu Q d0 Delete_Bh (upd_pf d0 (\<lambda>pf. pf\<lparr>pd_bh := False\<rparr>) w1)) else w1)"
  have k2: "keeps w1 w2" by (simp add: w2_def keeps_then_call keeps_upd pf_core_def)
  have h2: "cw_heap w2 p = Some c" using keeps_fields(4) [OF k2] f1(1) assms(2) by simp
  have c2: "pf_core (cw_pf w2 d) = pf_core (cw_pf w d)" for d using keeps_fields(6) [OF k2] f1(3) by simp
  define w3 where "w3 = upd_pf d0 (\<lambda>pf. pf\<lparr>pd_bridge := None\<rparr>)
    (w2\<lparr>cw_heap := (cw_heap w2)(p := None), g_bridge := None\<rparr>)\<lparr>g_initialized := False\<rparr>"
  have "pf_release ops Q d0 w = Some w3"
    unfolding pf_release_def Let_def w1_def [symmetric] w2_def [symmetric] destroy_bridge_def assms(1) option.case on_bridge_live [OF h2]
    by (simp add: w3_def)
  moreover have "g_devices w3 = g_devices w" using keeps_fields(1) [OF k2] f1(2) by (simp add: w3_def upd_pf_def)
  ultimately show ?thesis using c2 by (intro exI [of _ w3]) (simp add: w3_def upd_pf_def pf_core_def)
qed

lemma on_bridge_dead: "cw_heap w a = None \<Longrightarrow> on_bridge (Some a) f w = None"
  by (simp add: on_bridge_def)

lemma bind_none: "Option.bind x (\<lambda>_. None) = None"
  by (cases x) simp_all

text \<open>C39: Taking function 0 away frees the context, also when other functions are registered that refer to it:
  they keep their pointer, and their next memory access, or configuration access that goes to the bridge,
  uses the freed context, which is undefined.  The exit of function 0 does not take the others away.\<close>

theorem pf_exit_leaves_dangling:
  assumes "world_ok w" and "{d0, d} \<subseteq> registered w" and "pd_index (cw_pf w d0) = 0" and "d \<noteq> d0"
  shows "\<exists>w'. cosim_pcie_pf_exit ops Q d0 w = Some w' \<and> d \<in> registered w' \<and> pd_bridge (cw_pf w' d) \<noteq> None
    \<and> guest_step ops Q (Mmio_Read d i False addr sz) w' = None
    \<and> guest_step ops Q (Mmio_Write d i False addr val sz) w' = None
    \<and> (\<not> cosim_pf_addr_is_local ca n \<longrightarrow> guest_step ops Q (Config_Read d ca n) w' = None)"
proof -
  obtain p c where p: "g_bridge w = Some p" "cw_heap w p = Some c" using assms(1) by (rule world_ok_live)
  have b: "pd_bridge (cw_pf w d0) = Some p" "pd_bridge (cw_pf w d) = Some p"
    using registered_pf(1) [OF assms(1)] assms(2) p(1) by auto
  from release_frees [OF b(1) p(2), of ops Q] obtain w3 where w3: "pf_release ops Q d0 w = Some w3" "cw_heap w3 p = None"
      "pd_bridge (cw_pf w3 d) = Some p" "g_devices w3 = g_devices w" "pd_index (cw_pf w3 d0) = 0"
    using b(2) assms(3,4) by auto
  define w4 where "w4 = w3\<lparr>g_devices := (g_devices w3)[0 := None]\<rparr>"
  define w5 where "w5 = (if pd_num_vfs (cw_pf w4 d0) > 0 then snd (call_qemu Q d0 Sriov_Exit w4) else w4)"
  define w6 where "w6 = snd (call_qemu Q d0 Msix_Uninit (snd (call_qemu Q d0 Pcie_Cap_Exit w5)))"
  have exit: "cosim_pcie_pf_exit ops Q d0 w = Some w6"
    using assms(3) w3(1,5) by (simp add: cosim_pcie_pf_exit_def w6_def w5_def w4_def Let_def COSIM_MAX_PF_DEVICES_def)
  have f6: "cw_heap w6 = cw_heap w3" "cw_pf w6 = cw_pf w3" "g_devices w6 = (g_devices w)[0 := None]"
    by (simp_all add: w6_def w5_def w4_def call_qemu_def case_prod_beta w3(4))
  obtain k where k: "k < 8" "g_devices w ! k = Some d" "length (g_devices w) = 8"
    using assms(1,2) by (auto simp: registered_def world_ok_def in_set_conv_nth COSIM_MAX_PF_DEVICES_def)
  obtain k0 where k0: "k0 < 8" "g_devices w ! k0 = Some d0"
    using assms(1,2) by (auto simp: registered_def world_ok_def in_set_conv_nth COSIM_MAX_PF_DEVICES_def)
  then have "pf_core (cw_pf w d0) = (of_nat k0, g_bridge w, True)" using assms(1) by (simp add: world_ok_def COSIM_MAX_PF_DEVICES_def)
  then have "(of_nat k0 :: u8) = 0" using assms(3) by (simp add: pf_core_def)
  then have "k0 = 0" using unat_index [OF k0(1)] by (metis unat_0)
  then have "k \<noteq> 0" using k(2) k0(2) assms(4) by (cases "k = 0") simp_all
  then have "Some d \<in> set (g_devices w6)" using k by (auto simp: f6(3) in_set_conv_nth intro!: exI [of _ k])
  moreover have dead: "cw_heap w6 p = None" using w3(2) by (simp add: f6)
  moreover have "bar_bridge \<lparr>bx_dev = d, bx_index = i, bx_is_vf = False\<rparr> w6 = Some p" using w3(3) by (simp add: bar_bridge_def f6)
  ultimately show ?thesis
    using exit w3(3) by (simp add: registered_def f6 cosim_pf_mmio_read_def cosim_pf_mmio_write_def cosim_pf_config_read_def
        on_bridge_dead bind_none)
qed

theorem pf_exit_leaves_dangling_witness:
  "\<exists>w'. cosim_pcie_pf_exit tcp_transport plain 0 (world_two (tcp_ctx_with [] [] None)) = Some w' \<and> 1 \<in> registered w'
    \<and> guest_step tcp_transport plain (Mmio_Read 1 0 False 0 4) w' = None"
proof -
  have "{0, 1} \<subseteq> registered (world_two (tcp_ctx_with [] [] None))" unfolding world_two_world_ok(2) by (rule order_refl)
  moreover have "pd_index (cw_pf (world_two (tcp_ctx_with [] [] None)) 0) = 0" by (simp add: world_two_def pf_new_def)
  ultimately show ?thesis
    using pf_exit_leaves_dangling [OF world_two_world_ok(1), of 0 1 _ tcp_transport plain 0 0 4] by blast
qed

end
