(* ===== verification/Guest_Nic.thy ===== *)
theory Guest_Nic
  imports Prelude "HOL-Library.Multiset"
begin

section \<open>The guest's network driver: guest/driver/cosim\_nic.c\<close>

text \<open>
  The driver binds to the PF and VF devices of the card, holds kernel resources for each, and forwards
  frames between its network devices in software.  The kernel is a parameter: the helpers that look into a
  frame are a record, the answers of the functions that can fail are arguments, and the resources the
  driver holds are a ledger.  A result \<^theory_text>\<open>None\<close> is undefined behaviour: the use of a freed network device, or
  the release of something not held.  Log messages are left out.
\<close>

definition ENOMEM :: int where [code_consts]: "ENOMEM = 12"

subsection \<open>The kernel\<close>

record linux =
  lx_is_multicast :: "bytes \<Rightarrow> bool"                \<comment> \<open>\<open>is_multicast_ether_addr\<close>\<close>
  lx_addr_equal :: "bytes \<Rightarrow> bytes \<Rightarrow> bool"           \<comment> \<open>\<open>ether_addr_equal\<close>\<close>
  lx_type_trans :: "bytes \<Rightarrow> u16 \<times> bytes"            \<comment> \<open>\<open>eth_type_trans\<close>: protocol, and the frame that is left\<close>

text \<open>A device as its bus shows it.\<close>

record pci_info =
  pi_slot :: u8
  pi_func :: u8
  pi_is_virtfn :: bool
  pi_is_physfn :: bool

text \<open>What the kernel answers during one probe.\<close>

record probe_answers =
  pa_enable :: int
  pa_regions :: int
  pa_alloc :: bool                 \<comment> \<open>\<open>alloc_etherdev\<close> returns a device\<close>
  pa_random :: bytes               \<comment> \<open>\<open>eth_random_addr\<close>\<close>
  pa_bar_len :: u64
  pa_iomap :: bool
  pa_register :: int

datatype 'd resource = Dev_Enabled 'd | Dev_Regions 'd | Bar_Mapped 'd | Net_Allocated nat | Net_Registered nat

subsection \<open>State\<close>

record net_dev =
  nd_addr :: bytes
  nd_tx_packets :: u64
  nd_tx_bytes :: u64
  nd_rx_packets :: u64
  nd_rx_bytes :: u64
  nd_running :: bool               \<comment> \<open>\<open>netif_running\<close>, kept by the kernel\<close>
  nd_queue :: bool                 \<comment> \<open>\<open>netif_start_queue\<close>, \<open>netif_stop_queue\<close>\<close>

record 'd cosim_nic =
  cn_pdev :: 'd
  cn_netdev :: nat                 \<comment> \<open>address of the network device\<close>
  cn_bar0 :: bool
  cn_is_vf :: bool

record 'd nic_world =
  nw_ports :: "'d cosim_nic list"                      \<comment> \<open>\<open>cosim_sw_ports\<close>\<close>
  nw_drvdata :: "'d \<Rightarrow> 'd cosim_nic option"
  nw_netdevs :: "nat \<Rightarrow> net_dev option"
  nw_fresh :: nat
  nw_held :: "'d resource set"
  nw_rx :: "(nat \<times> u16 \<times> bytes) list"                   \<comment> \<open>\<open>netif_rx\<close>\<close>

definition nic_start :: "'d nic_world" where
  "nic_start = \<lparr>nw_ports = [], nw_drvdata = (\<lambda>_. None), nw_netdevs = (\<lambda>_. None), nw_fresh = 0, nw_held = {}, nw_rx = []\<rparr>"

definition hold :: "'d resource \<Rightarrow> 'd nic_world \<Rightarrow> 'd nic_world" where
  "hold r w = w\<lparr>nw_held := insert r (nw_held w)\<rparr>"

lemma hold_fields [simp]:
  "nw_ports (hold r w) = nw_ports w" "nw_drvdata (hold r w) = nw_drvdata w" "nw_netdevs (hold r w) = nw_netdevs w"
  "nw_fresh (hold r w) = nw_fresh w"
  by (simp_all add: hold_def)

definition release :: "'d resource \<Rightarrow> 'd nic_world \<Rightarrow> 'd nic_world option" where
  "release r w = (if r \<in> nw_held w then Some (w\<lparr>nw_held := nw_held w - {r}\<rparr>) else None)"

definition upd_netdev :: "nat \<Rightarrow> (net_dev \<Rightarrow> net_dev) \<Rightarrow> 'd nic_world \<Rightarrow> 'd nic_world" where
  "upd_netdev n f w = w\<lparr>nw_netdevs := (nw_netdevs w)(n := map_option f (nw_netdevs w n))\<rparr>"

subsection \<open>The software switch\<close>

text \<open>The first port other than the source whose network device passes a test.\<close>

fun find_port :: "(net_dev \<Rightarrow> bool) \<Rightarrow> nat \<Rightarrow> 'd cosim_nic list \<Rightarrow> 'd nic_world \<Rightarrow> nat option option" where
  "find_port test src [] w = Some None"
| "find_port test src (p # ps) w =
     (if cn_netdev p = src then find_port test src ps w
      else case nw_netdevs w (cn_netdev p) of
          None \<Rightarrow> None
        | Some nd \<Rightarrow> if test nd then Some (Some (cn_netdev p)) else find_port test src ps w)"

definition cosim_sw_lookup_dst :: "linux \<Rightarrow> bytes \<Rightarrow> nat \<Rightarrow> 'd nic_world \<Rightarrow> nat option option" where
  "cosim_sw_lookup_dst K dmac src w =
     (if lx_is_multicast K dmac then find_port nd_running src (nw_ports w) w
      else find_port (\<lambda>nd. lx_addr_equal K (nd_addr nd) dmac) src (nw_ports w) w)"

text \<open>A clone handed to the stack of a network device.\<close>

definition deliver :: "linux \<Rightarrow> bytes \<Rightarrow> nat \<Rightarrow> 'd nic_world \<Rightarrow> 'd nic_world" where
  "deliver K skb n w = (case lx_type_trans K skb of
     (proto, rest) \<Rightarrow> upd_netdev n (\<lambda>nd. nd\<lparr>nd_rx_packets := nd_rx_packets nd + 1,
         nd_rx_bytes := nd_rx_bytes nd + of_nat (length rest)\<rparr>) w\<lparr>nw_rx := nw_rx w @ [(n, proto, rest)]\<rparr>)"

text \<open>Flooding; \<open>clones\<close> says which calls of \<open>skb_clone\<close> succeed.\<close>

fun flood :: "linux \<Rightarrow> bytes \<Rightarrow> nat \<Rightarrow> bool list \<Rightarrow> 'd cosim_nic list \<Rightarrow> 'd nic_world \<Rightarrow> 'd nic_world option" where
  "flood K skb src clones [] w = Some w"
| "flood K skb src clones (p # ps) w =
     (if cn_netdev p = src then flood K skb src clones ps w
      else case nw_netdevs w (cn_netdev p) of
          None \<Rightarrow> None
        | Some nd \<Rightarrow>
            if \<not> nd_running nd then flood K skb src clones ps w
            else flood K skb src (tl clones) ps (if clones \<noteq> [] \<and> \<not> hd clones then w else deliver K skb (cn_netdev p) w))"

definition cosim_xmit :: "linux \<Rightarrow> bytes \<Rightarrow> bool list \<Rightarrow> nat \<Rightarrow> 'd nic_world \<Rightarrow> 'd nic_world option" where
  "cosim_xmit K skb clones ndev w =
     (let w1 = upd_netdev ndev (\<lambda>nd. nd\<lparr>nd_tx_packets := nd_tx_packets nd + 1,
            nd_tx_bytes := nd_tx_bytes nd + of_nat (length skb)\<rparr>) w
      in case cosim_sw_lookup_dst K (take 6 skb) ndev w1 of
          None \<Rightarrow> None
        | Some (Some dst) \<Rightarrow> Some (if clones \<noteq> [] \<and> \<not> hd clones then w1 else deliver K skb dst w1)
        | Some None \<Rightarrow> flood K skb ndev clones (nw_ports w1) w1)"

definition cosim_open :: "nat \<Rightarrow> 'd nic_world \<Rightarrow> 'd nic_world" where
  "cosim_open n = upd_netdev n (\<lambda>nd. nd\<lparr>nd_queue := True\<rparr>)"

definition cosim_stop :: "nat \<Rightarrow> 'd nic_world \<Rightarrow> 'd nic_world" where
  "cosim_stop n = upd_netdev n (\<lambda>nd. nd\<lparr>nd_queue := False\<rparr>)"

subsection \<open>Probe and remove\<close>

definition mac_of :: "bytes \<Rightarrow> pci_info \<Rightarrow> bytes" where
  "mac_of random dev = [(random ! 0 AND 0xfe) OR 0x02, random ! 1, random ! 2, random ! 3, pi_slot dev, pi_func dev]"

definition net_dev_new :: "bytes \<Rightarrow> net_dev" where
  "net_dev_new addr = \<lparr>nd_addr = addr, nd_tx_packets = 0, nd_tx_bytes = 0, nd_rx_packets = 0, nd_rx_bytes = 0,
     nd_running = False, nd_queue = False\<rparr>"

definition free_netdev :: "nat \<Rightarrow> 'd nic_world \<Rightarrow> 'd nic_world option" where
  "free_netdev n w = map_option (\<lambda>w1. w1\<lparr>nw_netdevs := (nw_netdevs w1)(n := None)\<rparr>) (release (Net_Allocated n) w)"

text \<open>The exits of the error path, each falling into the next.\<close>

definition err_disable :: "'d \<Rightarrow> 'd nic_world \<Rightarrow> 'd nic_world option" where
  "err_disable d = release (Dev_Enabled d)"

definition err_regions :: "'d \<Rightarrow> 'd nic_world \<Rightarrow> 'd nic_world option" where
  "err_regions d w = Option.bind (release (Dev_Regions d) w) (err_disable d)"

definition err_unmap :: "'d cosim_nic \<Rightarrow> 'd nic_world \<Rightarrow> 'd nic_world option" where
  "err_unmap priv w = Option.bind (if cn_bar0 priv then release (Bar_Mapped (cn_pdev priv)) w else Some w)
     (\<lambda>w1. Option.bind (free_netdev (cn_netdev priv) w1) (err_regions (cn_pdev priv)))"

definition probe_netdev :: "probe_answers \<Rightarrow> pci_info \<Rightarrow> 'd \<Rightarrow> 'd nic_world \<Rightarrow> (int \<times> 'd nic_world) option" where
  "probe_netdev ans dev d w =
     (let n = nw_fresh w;
          bar0 = (pa_bar_len ans > 0 \<and> pa_iomap ans);
          priv = \<lparr>cn_pdev = d, cn_netdev = n, cn_bar0 = bar0, cn_is_vf = pi_is_virtfn dev\<rparr>;
          w1 = hold (Net_Allocated n) (w\<lparr>nw_fresh := Suc n,
            nw_netdevs := (nw_netdevs w)(n := Some (net_dev_new (mac_of (pa_random ans) dev)))\<rparr>);
          w2 = (if bar0 then hold (Bar_Mapped d) w1 else w1)
      in if pa_register ans \<noteq> 0 then map_option (\<lambda>w3. (pa_register ans, w3)) (err_unmap priv w2)
         else (let w3 = hold (Net_Registered n) w2
           in Some (0, w3\<lparr>nw_drvdata := (nw_drvdata w3)(d := Some priv), nw_ports := nw_ports w3 @ [priv]\<rparr>)))"

definition cosim_probe :: "probe_answers \<Rightarrow> pci_info \<Rightarrow> 'd \<Rightarrow> 'd nic_world \<Rightarrow> (int \<times> 'd nic_world) option" where
  "cosim_probe ans dev d w =
     (if pa_enable ans \<noteq> 0 then Some (pa_enable ans, w)
      else let w1 = hold (Dev_Enabled d) w
        in if pa_regions ans \<noteq> 0 then map_option (\<lambda>w2. (pa_regions ans, w2)) (err_disable d w1)
           else let w2 = hold (Dev_Regions d) w1
             in if \<not> pa_alloc ans then map_option (\<lambda>w3. (- ENOMEM, w3)) (err_regions d w2)
                else probe_netdev ans dev d w2)"

text \<open>\<open>list_del\<close> takes the element out of the list; \<open>disable_sriov\<close> is \<open>pci_disable_sriov\<close>.\<close>

definition cosim_remove :: "('d \<Rightarrow> 'd nic_world \<Rightarrow> 'd nic_world option) \<Rightarrow> pci_info \<Rightarrow> 'd \<Rightarrow> 'd nic_world \<Rightarrow> 'd nic_world option" where
  "cosim_remove disable_sriov dev d w = (case nw_drvdata w d of
     None \<Rightarrow> Some w
   | Some priv \<Rightarrow>
       if priv \<notin> set (nw_ports w) then None
       else (let w1 = w\<lparr>nw_ports := remove1 priv (nw_ports w)\<rparr>
         in Option.bind (if \<not> cn_is_vf priv \<and> pi_is_physfn dev then disable_sriov d w1 else Some w1)
           (\<lambda>w2. Option.bind (release (Net_Registered (cn_netdev priv)) w2)
             (\<lambda>w3. Option.bind (if cn_bar0 priv then release (Bar_Mapped d) w3 else Some w3)
               (\<lambda>w4. Option.bind (free_netdev (cn_netdev priv) w4)
                 (\<lambda>w5. Option.bind (release (Dev_Regions d) w5) (release (Dev_Enabled d))))))))"

text \<open>The number of VFs as the code returns it; \<open>enabled\<close> is what \<open>pci_enable_sriov\<close> answers.\<close>

definition cosim_sriov_configure :: "int \<Rightarrow> ('d \<Rightarrow> 'd nic_world \<Rightarrow> 'd nic_world option) \<Rightarrow> 'd \<Rightarrow> int
    \<Rightarrow> 'd nic_world \<Rightarrow> (int \<times> 'd nic_world) option" where
  "cosim_sriov_configure enabled disable_sriov d num_vfs w =
     (if num_vfs > 0 then Some (if enabled \<noteq> 0 then enabled else num_vfs, w)
      else map_option (\<lambda>w1. (0, w1)) (disable_sriov d w))"

text \<open>The table of device ids, filled in before the driver is registered.\<close>

definition nic_id_table :: "u32 \<Rightarrow> u32 \<Rightarrow> u32 \<Rightarrow> (u32 \<times> u32) list" where
  "nic_id_table vid did vf_did = [(vid, did), (vid, vf_did)]"

subsection \<open>The driver core and the network stack\<close>

text \<open>
  What the kernel does with the driver.  The core probes a device without driver data, calls \<open>remove\<close> and
  clears the driver data; \<open>pci_disable_sriov\<close> unbinds the VFs of the device; the stack opens and stops
  network devices and transmits on running ones.  \<open>info\<close> describes the devices, \<open>vfs\<close> the VFs of a PF.
\<close>

definition unbind :: "('d \<Rightarrow> 'd nic_world \<Rightarrow> 'd nic_world option) \<Rightarrow> ('d \<Rightarrow> pci_info) \<Rightarrow> 'd \<Rightarrow> 'd nic_world \<Rightarrow> 'd nic_world option" where
  "unbind dis info d w = map_option (\<lambda>w1. w1\<lparr>nw_drvdata := (nw_drvdata w1)(d := None)\<rparr>) (cosim_remove dis (info d) d w)"

definition core_disable_sriov :: "('d \<Rightarrow> pci_info) \<Rightarrow> ('d \<Rightarrow> 'd list) \<Rightarrow> 'd \<Rightarrow> 'd nic_world \<Rightarrow> 'd nic_world option" where
  "core_disable_sriov info vfs d w = fold_opt (unbind (\<lambda>_. Some) info) (vfs d) w"

datatype 'd nic_event =
    Probe 'd probe_answers
  | Remove 'd
  | Open nat
  | Stop nat
  | Xmit nat bytes "bool list"
  | Sriov 'd int int                  \<comment> \<open>device, answer of \<open>pci_enable_sriov\<close>, number of VFs\<close>

fun nic_step :: "linux \<Rightarrow> ('d \<Rightarrow> pci_info) \<Rightarrow> ('d \<Rightarrow> 'd list) \<Rightarrow> 'd nic_event \<Rightarrow> 'd nic_world \<Rightarrow> 'd nic_world option" where
  "nic_step K info vfs (Probe d ans) w =
     (if nw_drvdata w d \<noteq> None then Some w else map_option snd (cosim_probe ans (info d) d w))"
| "nic_step K info vfs (Remove d) w = unbind (core_disable_sriov info vfs) info d w"
| "nic_step K info vfs (Open n) w = Some (cosim_open n (upd_netdev n (\<lambda>nd. nd\<lparr>nd_running := True\<rparr>) w))"
| "nic_step K info vfs (Stop n) w = Some (upd_netdev n (\<lambda>nd. nd\<lparr>nd_running := False\<rparr>) (cosim_stop n w))"
| "nic_step K info vfs (Xmit n skb clones) w = (case nw_netdevs w n of
     None \<Rightarrow> Some w
   | Some nd \<Rightarrow> if nd_running nd then cosim_xmit K skb clones n w else Some w)"
| "nic_step K info vfs (Sriov d enabled num) w =
     map_option snd (cosim_sriov_configure enabled (core_disable_sriov info vfs) d num w)"

subsection \<open>Resources\<close>

definition resources :: "'d cosim_nic \<Rightarrow> 'd resource set" where
  "resources p = {Dev_Enabled (cn_pdev p), Dev_Regions (cn_pdev p), Net_Allocated (cn_netdev p), Net_Registered (cn_netdev p)}
     \<union> (if cn_bar0 p then {Bar_Mapped (cn_pdev p)} else {})"

text \<open>The invariant, with the devices \<open>xs\<close> that are being removed: out of the list, but still holding.\<close>

definition nic_inv :: "'d cosim_nic list \<Rightarrow> 'd nic_world \<Rightarrow> bool" where
  "nic_inv xs w \<longleftrightarrow> (let ps = xs @ nw_ports w in
       distinct (map cn_netdev ps) \<and> distinct (map cn_pdev ps)
     \<and> (\<forall>d p. nw_drvdata w d = Some p \<longleftrightarrow> p \<in> set ps \<and> cn_pdev p = d)
     \<and> nw_held w = (\<Union>p\<in>set ps. resources p)
     \<and> (\<forall>n. nw_netdevs w n \<noteq> None \<longleftrightarrow> n \<in> cn_netdev ` set ps)
     \<and> (\<forall>p\<in>set ps. cn_netdev p < nw_fresh w))"

lemma resources_disjoint:
  assumes "cn_pdev p \<noteq> cn_pdev q" and "cn_netdev p \<noteq> cn_netdev q"
  shows "resources p \<inter> resources q = {}"
  using assms by (auto simp: resources_def)

lemma nic_inv_start: "nic_inv [] nic_start"
  by (simp add: nic_inv_def nic_start_def)

text \<open>Giving up all a device holds.\<close>

definition drop_nic :: "'d cosim_nic \<Rightarrow> 'd nic_world \<Rightarrow> 'd nic_world" where
  "drop_nic p w = w\<lparr>nw_held := nw_held w - resources p, nw_netdevs := (nw_netdevs w)(cn_netdev p := None)\<rparr>"

lemma release_chain:
  assumes "resources p \<subseteq> nw_held w"
  shows "Option.bind (release (Net_Registered (cn_netdev p)) w)
      (\<lambda>w3. Option.bind (if cn_bar0 p then release (Bar_Mapped (cn_pdev p)) w3 else Some w3)
        (\<lambda>w4. Option.bind (free_netdev (cn_netdev p) w4)
          (\<lambda>w5. Option.bind (release (Dev_Regions (cn_pdev p)) w5) (release (Dev_Enabled (cn_pdev p)))))) = Some (drop_nic p w)"
proof -
  have e: "nw_held w - {Net_Registered (cn_netdev p)} - (if cn_bar0 p then {Bar_Mapped (cn_pdev p)} else {})
      - {Net_Allocated (cn_netdev p)} - {Dev_Regions (cn_pdev p)} - {Dev_Enabled (cn_pdev p)} = nw_held w - resources p"
    by (auto simp: resources_def)
  have m: "Net_Registered (cn_netdev p) \<in> nw_held w" "cn_bar0 p \<Longrightarrow> Bar_Mapped (cn_pdev p) \<in> nw_held w"
    "Net_Allocated (cn_netdev p) \<in> nw_held w" "Dev_Regions (cn_pdev p) \<in> nw_held w" "Dev_Enabled (cn_pdev p) \<in> nw_held w"
    using assms by (auto simp: resources_def)
  show ?thesis
    unfolding drop_nic_def e [symmetric] using m by (cases "cn_bar0 p") (simp_all add: release_def free_netdev_def)
qed

lemma start_remove:
  assumes "nic_inv xs w" and "p \<in> set (nw_ports w)"
  shows "nic_inv (p # xs) (w\<lparr>nw_ports := remove1 p (nw_ports w)\<rparr>)"
proof -
  let ?ps = "xs @ nw_ports w" and ?qs = "(p # xs) @ remove1 p (nw_ports w)"
  have d: "distinct (map cn_netdev ?ps)" "distinct (map cn_pdev ?ps)" using assms(1) by (simp_all add: nic_inv_def Let_def)
  have m: "mset ?qs = mset ?ps" using insert_DiffM [of p "mset (nw_ports w)"] assms(2) by simp
  have s: "set ?qs = set ?ps" by (rule mset_eq_setD [OF m])
  have "mset (map f ?qs) = mset (map f ?ps)" for f :: "_ \<Rightarrow> 'z" using m by (simp only: mset_map)
  then have "distinct (map cn_netdev ?qs)" "distinct (map cn_pdev ?qs)" using d by (metis mset_eq_imp_distinct_iff)+
  then show ?thesis using assms(1) s unfolding nic_inv_def Let_def by simp
qed

lemma finish_remove:
  assumes "nic_inv (p # xs) w"
  shows "resources p \<subseteq> nw_held w"
    and "nic_inv xs (drop_nic p w\<lparr>nw_drvdata := (nw_drvdata w)(cn_pdev p := None)\<rparr>)"
proof -
  let ?qs = "xs @ nw_ports w"
  have d: "distinct (map cn_netdev ?qs)" "distinct (map cn_pdev ?qs)" "cn_netdev p \<notin> cn_netdev ` set ?qs" "cn_pdev p \<notin> cn_pdev ` set ?qs"
    and held: "nw_held w = resources p \<union> (\<Union>q\<in>set ?qs. resources q)"
    and drv: "\<forall>d q. nw_drvdata w d = Some q \<longleftrightarrow> (q = p \<or> q \<in> set ?qs) \<and> cn_pdev q = d"
    and live: "\<forall>n. nw_netdevs w n \<noteq> None \<longleftrightarrow> n = cn_netdev p \<or> n \<in> cn_netdev ` set ?qs"
    and fresh: "\<forall>q\<in>set ?qs. cn_netdev q < nw_fresh w"
    using assms by (auto simp: nic_inv_def Let_def)
  show "resources p \<subseteq> nw_held w" using held by blast
  have other: "cn_pdev q \<noteq> cn_pdev p" "cn_netdev q \<noteq> cn_netdev p" if "q \<in> set ?qs" for q
    using d(3,4) imageI [OF that, of cn_pdev] imageI [OF that, of cn_netdev] by metis+
  then have "resources q \<inter> resources p = {}" if "q \<in> set ?qs" for q using that by (intro resources_disjoint)
  then have "nw_held w - resources p = (\<Union>q\<in>set ?qs. resources q)" using held by blast
  moreover have "((nw_drvdata w)(cn_pdev p := None)) d = Some q \<longleftrightarrow> q \<in> set ?qs \<and> cn_pdev q = d" for d q
    using drv other(1) by (cases "d = cn_pdev p") auto
  moreover have "((nw_netdevs w)(cn_netdev p := None)) n \<noteq> None \<longleftrightarrow> n \<in> cn_netdev ` set ?qs" for n
    using live d(3) by (cases "n = cn_netdev p") simp_all
  ultimately show "nic_inv xs (drop_nic p w\<lparr>nw_drvdata := (nw_drvdata w)(cn_pdev p := None)\<rparr>)"
    using d(1,2) fresh unfolding nic_inv_def Let_def by (simp add: drop_nic_def)
qed

lemma unbind_with:
  assumes "nic_inv xs w" and "d \<notin> cn_pdev ` set xs"
    and "\<And>p. p \<in> set (nw_ports w) \<Longrightarrow> cn_pdev p = d \<Longrightarrow>
      \<exists>w2. (if \<not> cn_is_vf p \<and> pi_is_physfn (info d) then dis d (w\<lparr>nw_ports := remove1 p (nw_ports w)\<rparr>)
             else Some (w\<lparr>nw_ports := remove1 p (nw_ports w)\<rparr>)) = Some w2 \<and> nic_inv (p # xs) w2"
  shows "\<exists>w'. unbind dis info d w = Some w' \<and> nic_inv xs w' \<and> nw_drvdata w' d = None"
proof (cases "nw_drvdata w d")
  case None
  then have "(nw_drvdata w)(d := None) = nw_drvdata w" by auto
  then have "unbind dis info d w = Some w" using None by (simp add: unbind_def cosim_remove_def)
  then show ?thesis using assms(1) None by simp
next
  case (Some p)
  then have p: "p \<in> set (nw_ports w)" "cn_pdev p = d" using assms(1,2) by (auto simp: nic_inv_def Let_def)
  from assms(3) [OF p] obtain w2 where w2: "(if \<not> cn_is_vf p \<and> pi_is_physfn (info d) then dis d (w\<lparr>nw_ports := remove1 p (nw_ports w)\<rparr>)
             else Some (w\<lparr>nw_ports := remove1 p (nw_ports w)\<rparr>)) = Some w2" "nic_inv (p # xs) w2" by blast
  have "cosim_remove dis (info d) d w = Some (drop_nic p w2)"
    using Some p w2(1) release_chain [OF finish_remove(1) [OF w2(2)], unfolded p(2)] by (simp add: cosim_remove_def)
  then have "unbind dis info d w = Some (drop_nic p w2\<lparr>nw_drvdata := (nw_drvdata w2)(d := None)\<rparr>)"
    by (simp add: unbind_def drop_nic_def)
  then show ?thesis using finish_remove(2) [OF w2(2)] p(2) by simp
qed

lemma unbind_vf:
  assumes "nic_inv xs w" and "d \<notin> cn_pdev ` set xs"
  shows "\<exists>w'. unbind (\<lambda>_. Some) info d w = Some w' \<and> nic_inv xs w'"
  using unbind_with [OF assms, of info "\<lambda>_. Some"] start_remove [OF assms(1)] by auto

lemma disable_sriov_inv:
  assumes "nic_inv xs w" and "set (vfs d) \<inter> cn_pdev ` set xs = {}"
  shows "\<exists>w'. core_disable_sriov info vfs d w = Some w' \<and> nic_inv xs w'"
proof -
  have "\<exists>w'. fold_opt (unbind (\<lambda>_. Some) info) ds w = Some w' \<and> nic_inv xs w'" if "nic_inv xs w" "set ds \<inter> cn_pdev ` set xs = {}" for ds w
    using that
  proof (induction ds arbitrary: w)
    case (Cons d ds)
    from unbind_vf [OF Cons.prems(1), of d info] Cons.prems(2) obtain w1
      where "unbind (\<lambda>_. Some) info d w = Some w1" "nic_inv xs w1" by auto
    then show ?case using Cons.IH [of w1] Cons.prems(2) by auto
  qed simp
  then show ?thesis using assms by (simp add: core_disable_sriov_def)
qed

lemma unbind_pf:
  assumes "nic_inv [] w" and "d \<notin> set (vfs d)"
  shows "\<exists>w'. unbind (core_disable_sriov info vfs) info d w = Some w' \<and> nic_inv [] w' \<and> nw_drvdata w' d = None"
proof (rule unbind_with [OF assms(1)])
  fix p assume p: "p \<in> set (nw_ports w)" "cn_pdev p = d"
  let ?w = "w\<lparr>nw_ports := remove1 p (nw_ports w)\<rparr>"
  have i: "nic_inv [p] ?w" using start_remove [OF assms(1) p(1)] .
  show "\<exists>w2. (if \<not> cn_is_vf p \<and> pi_is_physfn (info d) then core_disable_sriov info vfs d ?w else Some ?w) = Some w2 \<and> nic_inv [p] w2"
    using disable_sriov_inv [OF i, of vfs d info] assms(2) p(2) i by auto
qed simp

text \<open>Probe: a failure gives back all that was acquired.\<close>

lemma probe_effect:
  assumes "nic_inv [] w" and "nw_drvdata w d = None"
  shows "\<exists>r w'. cosim_probe ans dev d w = Some (r, w') \<and> nic_inv [] w' \<and> (r \<noteq> 0 \<longrightarrow> w' = w\<lparr>nw_fresh := nw_fresh w'\<rparr>)"
proof -
  let ?n = "nw_fresh w" and ?ps = "nw_ports w"
  have held: "nw_held w = (\<Union>q\<in>set ?ps. resources q)" and drv: "\<forall>d q. nw_drvdata w d = Some q \<longleftrightarrow> q \<in> set ?ps \<and> cn_pdev q = d"
    and live: "\<forall>n. nw_netdevs w n \<noteq> None \<longleftrightarrow> n \<in> cn_netdev ` set ?ps" and fresh: "\<forall>q\<in>set ?ps. cn_netdev q < ?n"
    and dist: "distinct (map cn_netdev ?ps)" "distinct (map cn_pdev ?ps)"
    using assms(1) by (simp_all add: nic_inv_def Let_def)
  have new: "d \<notin> cn_pdev ` set ?ps" "?n \<notin> cn_netdev ` set ?ps" using drv assms(2) fresh by (auto simp: image_iff) (metis option.distinct(1))
  then have free: "Dev_Enabled d \<notin> nw_held w" "Dev_Regions d \<notin> nw_held w" "Bar_Mapped d \<notin> nw_held w"
    "Net_Allocated ?n \<notin> nw_held w" unfolding held by (auto simp: resources_def split: if_splits)
  have none: "nw_netdevs w ?n = None" using live new(2) by blast
  have early: "\<exists>r w'. cosim_probe ans dev d w = Some (r, w') \<and> w' = w" if "pa_enable ans \<noteq> 0 \<or> pa_regions ans \<noteq> 0 \<or> \<not> pa_alloc ans"
    using that free by (auto simp: cosim_probe_def Let_def hold_def err_disable_def err_regions_def release_def)
  show ?thesis
  proof (cases "pa_enable ans \<noteq> 0 \<or> pa_regions ans \<noteq> 0 \<or> \<not> pa_alloc ans")
    case True
    then show ?thesis using early assms(1) by auto
  next
    case False
    define bar0 where "bar0 = (pa_bar_len ans > 0 \<and> pa_iomap ans)"
    define p where "p = \<lparr>cn_pdev = d, cn_netdev = ?n, cn_bar0 = bar0, cn_is_vf = pi_is_virtfn dev\<rparr>"
    have pf: "cn_pdev p = d" "cn_netdev p = ?n" "cn_bar0 p = bar0" by (simp_all add: p_def)
    define nd where "nd = net_dev_new (mac_of (pa_random ans) dev)"
    define w2 where "w2 = w\<lparr>nw_fresh := Suc ?n, nw_netdevs := (nw_netdevs w)(?n := Some nd),
      nw_held := nw_held w \<union> (resources p - {Net_Registered ?n})\<rparr>"
    define w1 where "w1 = hold (Net_Allocated ?n) ((hold (Dev_Regions d) (hold (Dev_Enabled d) w))
          \<lparr>nw_fresh := Suc ?n, nw_netdevs := (nw_netdevs w)(?n := Some nd)\<rparr>)"
    have r: "resources p - {Net_Registered ?n} = {Dev_Enabled d, Dev_Regions d, Net_Allocated ?n} \<union> (if bar0 then {Bar_Mapped d} else {})"
      by (auto simp: resources_def pf)
    have w2: "(if bar0 then hold (Bar_Mapped d) w1 else w1) = w2"
      unfolding w2_def w1_def r by (cases bar0) (simp_all add: hold_def insert_commute)
    have f2: "nw_drvdata w2 = nw_drvdata w" "nw_ports w2 = ?ps" by (simp_all add: w2_def)
    have probe: "cosim_probe ans dev d w = (if pa_register ans \<noteq> 0 then map_option (\<lambda>w3. (pa_register ans, w3)) (err_unmap p w2)
        else Some (0, (hold (Net_Registered ?n) w2)\<lparr>nw_drvdata := (nw_drvdata w)(d := Some p), nw_ports := ?ps @ [p]\<rparr>))"
      using False unfolding cosim_probe_def probe_netdev_def Let_def bar0_def [symmetric] nd_def [symmetric] hold_fields p_def [symmetric]
        w1_def [symmetric] w2 by (simp add: f2)
    show ?thesis
    proof (cases "pa_register ans = 0")
      case True
      let ?w = "(hold (Net_Registered ?n) w2)\<lparr>nw_drvdata := (nw_drvdata w)(d := Some p), nw_ports := ?ps @ [p]\<rparr>"
      have "nw_held ?w = (\<Union>q\<in>set (?ps @ [p]). resources q)"
        using held by (auto simp: hold_def w2_def resources_def pf)
      moreover have "nw_drvdata ?w e = Some q \<longleftrightarrow> q \<in> set (?ps @ [p]) \<and> cn_pdev q = e" for e q
        using drv new(1) pf by (auto simp: image_iff)
      moreover have "nw_netdevs ?w n \<noteq> None \<longleftrightarrow> n \<in> cn_netdev ` set (?ps @ [p])" for n
        using live pf by (auto simp: hold_def w2_def)
      moreover have "\<forall>q\<in>set (?ps @ [p]). cn_netdev q < nw_fresh ?w" using fresh pf by (auto simp: hold_def w2_def)
      moreover have "distinct (map cn_netdev (?ps @ [p]))" "distinct (map cn_pdev (?ps @ [p]))" using dist new pf by auto
      ultimately have "nic_inv [] ?w" unfolding nic_inv_def Let_def by simp
      then show ?thesis using probe True by simp
    next
      case fail: False
      have "err_unmap p w2 = Some (w\<lparr>nw_fresh := Suc ?n\<rparr>)"
      proof -
        have "nw_held w \<union> (resources p - {Net_Registered ?n}) - (if bar0 then {Bar_Mapped d} else {}) - {Net_Allocated ?n} - {Dev_Regions d}
            - {Dev_Enabled d} = nw_held w" using free by (auto simp: resources_def pf)
        moreover have "(nw_netdevs w)(?n := None) = nw_netdevs w" using none by auto
        ultimately show ?thesis
          by (cases bar0) (simp_all add: err_unmap_def err_regions_def err_disable_def free_netdev_def release_def pf w2_def resources_def)
      qed
      moreover have "nic_inv [] (w\<lparr>nw_fresh := Suc ?n\<rparr>)"
        using assms(1) by (auto simp: nic_inv_def Let_def less_Suc_eq)
      ultimately show ?thesis using probe fail by simp
    qed
  qed
qed

subsection \<open>Frames\<close>

lemma upd_netdev_simps [simp]:
  "nw_ports (upd_netdev n f w) = nw_ports w" "nw_rx (upd_netdev n f w) = nw_rx w" "nw_drvdata (upd_netdev n f w) = nw_drvdata w"
  "nw_held (upd_netdev n f w) = nw_held w" "nw_fresh (upd_netdev n f w) = nw_fresh w"
  by (simp_all add: upd_netdev_def)

lemma upd_netdev_live: "nw_netdevs (upd_netdev n f w) k \<noteq> None \<longleftrightarrow> nw_netdevs w k \<noteq> None"
  by (cases "k = n"; cases "nw_netdevs w n") (simp_all add: upd_netdev_def)

lemma nic_inv_upd [simp]: "nic_inv xs (upd_netdev n f w) = nic_inv xs w"
  unfolding nic_inv_def Let_def upd_netdev_live upd_netdev_simps by (rule refl)

lemma nic_inv_deliver [simp]: "nic_inv xs (deliver K skb n w) = nic_inv xs w"
proof -
  have "nic_inv xs (w\<lparr>nw_rx := r\<rparr>) = nic_inv xs w" for r and w :: "'a nic_world" by (simp add: nic_inv_def)
  then show ?thesis by (simp add: deliver_def case_prod_beta)
qed

definition nd_is :: "(net_dev \<Rightarrow> bool) \<Rightarrow> 'd nic_world \<Rightarrow> 'd cosim_nic \<Rightarrow> bool" where
  "nd_is test w p \<longleftrightarrow> (case nw_netdevs w (cn_netdev p) of None \<Rightarrow> False | Some nd \<Rightarrow> test nd)"

definition ports_live :: "'d cosim_nic list \<Rightarrow> 'd nic_world \<Rightarrow> bool" where
  "ports_live ps w \<longleftrightarrow> (\<forall>p\<in>set ps. nw_netdevs w (cn_netdev p) \<noteq> None)"

lemma inv_live: "nic_inv [] w \<Longrightarrow> ports_live (nw_ports w) w"
  by (simp add: nic_inv_def Let_def ports_live_def del: not_None_eq)

lemma find_port_spec:
  "ports_live ps w \<Longrightarrow> find_port test src ps w = Some (map_option cn_netdev (find (\<lambda>p. cn_netdev p \<noteq> src \<and> nd_is test w p) ps))"
  by (induction ps) (auto simp: ports_live_def nd_is_def)

lemma ports_live_upd [simp]: "ports_live ps (upd_netdev n f w) = ports_live ps w"
  unfolding ports_live_def upd_netdev_live by (rule refl)

lemma nd_is_upd: "(\<And>nd. test (f nd) = test nd) \<Longrightarrow> nd_is test (upd_netdev n f w) p = nd_is test w p"
  by (simp add: nd_is_def upd_netdev_def split: option.splits)

lemma deliver_fields [simp]:
  "nw_ports (deliver K skb n w) = nw_ports w" "ports_live ps (deliver K skb n w) = ports_live ps w"
  "nw_rx (deliver K skb n w) = nw_rx w @ [(n, lx_type_trans K skb)]"
  "nd_is nd_running (deliver K skb n w) p = nd_is nd_running w p"
proof -
  have "ports_live ps (w\<lparr>nw_rx := r\<rparr>) = ports_live ps w" "nd_is test (w\<lparr>nw_rx := r\<rparr>) p = nd_is test w p" for r test and w :: "'a nic_world"
    by (simp_all add: ports_live_def nd_is_def)
  then show "nw_ports (deliver K skb n w) = nw_ports w" "ports_live ps (deliver K skb n w) = ports_live ps w"
    "nw_rx (deliver K skb n w) = nw_rx w @ [(n, lx_type_trans K skb)]"
    "nd_is nd_running (deliver K skb n w) p = nd_is nd_running w p"
    by (simp_all add: deliver_def case_prod_beta nd_is_upd)
qed

lemma flood_spec:
  assumes "ports_live ps w"
  shows "\<exists>w'. flood K skb src clones ps w = Some w' \<and> nic_inv xs w' = nic_inv xs w
    \<and> (clones = [] \<longrightarrow> nw_rx w' = nw_rx w
        @ map (\<lambda>p. (cn_netdev p, lx_type_trans K skb)) (filter (\<lambda>p. cn_netdev p \<noteq> src \<and> nd_is nd_running w p) ps))"
  using assms
proof (induction ps arbitrary: w clones)
  case (Cons p ps)
  obtain nd where nd: "nw_netdevs w (cn_netdev p) = Some nd" using Cons.prems by (auto simp: ports_live_def)
  have live: "ports_live ps w" using Cons.prems by (simp add: ports_live_def)
  show ?case
  proof (cases "cn_netdev p = src \<or> \<not> nd_running nd")
    case True
    then show ?thesis using Cons.IH [OF live, of clones] nd by (auto simp: nd_is_def)
  next
    case False
    let ?w = "if clones \<noteq> [] \<and> \<not> hd clones then w else deliver K skb (cn_netdev p) w"
    have "ports_live ps ?w" "nic_inv xs ?w = nic_inv xs w" using live by simp_all
    then show ?thesis using Cons.IH [of ?w "tl clones"] nd False by (auto simp: nd_is_def [of _ w p])
  qed
qed simp

lemma filter_single: "distinct xs \<Longrightarrow> x \<in> set xs \<Longrightarrow> filter (\<lambda>y. y = x) xs = [x]"
  by (induction xs) (auto simp: filter_empty_conv)

lemma find_take: "find P xs = (case filter P xs of [] \<Rightarrow> None | x # ys \<Rightarrow> Some x)"
  by (induction xs) auto

lemma xmit_inv:
  assumes "nic_inv [] w"
  shows "\<exists>w'. cosim_xmit K skb clones n w = Some w' \<and> nic_inv [] w'"
proof -
  let ?w = "upd_netdev n (\<lambda>nd. nd\<lparr>nd_tx_packets := nd_tx_packets nd + 1, nd_tx_bytes := nd_tx_bytes nd + of_nat (length skb)\<rparr>) w"
  have live: "ports_live (nw_ports ?w) ?w" and inv: "nic_inv [] ?w" using assms inv_live [OF assms] by simp_all
  obtain dst where "cosim_sw_lookup_dst K (take 6 skb) n ?w = Some dst"
    unfolding cosim_sw_lookup_dst_def find_port_spec [OF live] by (cases "lx_is_multicast K (take 6 skb)") simp_all
  then show ?thesis using inv flood_spec [OF live, of K skb n clones "[]"] by (cases dst) (auto simp: cosim_xmit_def Let_def)
qed

lemma nic_step_inv:
  assumes "nic_inv [] w" and "\<forall>d. d \<notin> set (vfs d)"
  shows "\<exists>w'. nic_step K info vfs ev w = Some w' \<and> nic_inv [] w'"
proof (cases ev)
  case (Probe d ans)
  then show ?thesis using assms(1) probe_effect [OF assms(1), of d ans "info d"] by (cases "nw_drvdata w d") auto
next
  case (Remove d)
  then show ?thesis using unbind_pf [OF assms(1), of d vfs info] assms(2) by auto
next
  case (Xmit n skb clones)
  then show ?thesis using assms(1) xmit_inv [OF assms(1), of K skb clones n] by (auto split: option.splits)
next
  case (Sriov d enabled num)
  then show ?thesis using assms disable_sriov_inv [OF assms(1), of vfs d info] by (auto simp: cosim_sriov_configure_def)
qed (use assms(1) in \<open>simp_all add: cosim_open_def cosim_stop_def\<close>)

lemma nic_steps_inv:
  assumes "nic_inv [] w" and "\<forall>d. d \<notin> set (vfs d)"
  shows "\<exists>w'. fold_opt (nic_step K info vfs) evs w = Some w' \<and> nic_inv [] w'"
  using assms(1)
proof (induction evs arbitrary: w)
  case (Cons ev evs)
  from nic_step_inv [OF Cons.prems assms(2), of K info ev] Cons.IH show ?case by fastforce
qed simp

subsection \<open>Properties\<close>

text \<open>C21: Whatever the kernel answers and in whatever order devices are probed, removed, opened, stopped, transmit
  and switch SR-IOV on and off, the driver never uses a freed network device and never releases what it does
  not hold; at any time it holds exactly the resources of the devices it is bound to (a failed probe and a
  remove give everything back), its ports are these devices, and no other network device is allocated.  The
  kernel is relied on for a device not being a VF of itself.\<close>

theorem nic_resources_balanced:
  assumes "\<forall>d. d \<notin> set (vfs d)"
  shows "\<exists>w. fold_opt (nic_step K info vfs) evs nic_start = Some w
    \<and> nw_held w = (\<Union>p\<in>set (nw_ports w). resources p)
    \<and> (\<forall>d. nw_drvdata w d \<noteq> None \<longleftrightarrow> d \<in> cn_pdev ` set (nw_ports w))
    \<and> (\<forall>n. nw_netdevs w n \<noteq> None \<longleftrightarrow> n \<in> cn_netdev ` set (nw_ports w))"
proof -
  from nic_steps_inv [OF nic_inv_start assms] obtain w where w: "fold_opt (nic_step K info vfs) evs nic_start = Some w" "nic_inv [] w"
    by blast
  have "nw_drvdata w d \<noteq> None \<longleftrightarrow> d \<in> cn_pdev ` set (nw_ports w)" for d
  proof -
    have "\<forall>p. nw_drvdata w d = Some p \<longleftrightarrow> p \<in> set (nw_ports w) \<and> cn_pdev p = d" using w(2) by (simp add: nic_inv_def Let_def)
    then show ?thesis by (metis (no_types, lifting) image_iff not_None_eq)
  qed
  then show ?thesis using w by (simp add: nic_inv_def Let_def)
qed

definition linux_example :: linux where
  "linux_example = \<lparr>lx_is_multicast = (\<lambda>a. bit (hd a) 0), lx_addr_equal = (\<lambda>a b. a = b),
     lx_type_trans = (\<lambda>skb. (ucast (skb ! 12) OR push_bit 8 (ucast (skb ! 13)), drop 14 skb))\<rparr>"

definition nic_info :: "nat \<Rightarrow> pci_info" where
  "nic_info d = \<lparr>pi_slot = 3, pi_func = of_nat d, pi_is_virtfn = d > 0, pi_is_physfn = (d = 0)\<rparr>"

definition good_probe :: probe_answers where
  "good_probe = \<lparr>pa_enable = 0, pa_regions = 0, pa_alloc = True, pa_random = [0x13, 1, 2, 3, 4, 5], pa_bar_len = 4096, pa_iomap = True,
     pa_register = 0\<rparr>"

text \<open>A PF and its VF; removing the PF removes both.\<close>

theorem nic_resources_balanced_witness:
  "\<exists>w. fold_opt (nic_step linux_example nic_info (\<lambda>d. if d = 0 then [1] else []))
      [Probe 0 good_probe, Sriov 0 0 1, Probe 1 good_probe, Probe 2 (good_probe\<lparr>pa_register := -12\<rparr>), Remove 0] nic_start = Some w
    \<and> nw_held w = (\<Union>p\<in>set (nw_ports w). resources p)"
  using nic_resources_balanced [of "\<lambda>d. if d = 0 then [1] else []" linux_example nic_info
      "[Probe 0 good_probe, Sriov 0 0 1, Probe 1 good_probe, Probe 2 (good_probe\<lparr>pa_register := -12\<rparr>), Remove 0]"] by fastforce

lemma rx_receivers: "rx = rx0 @ map (\<lambda>p. (cn_netdev p, x)) ps \<Longrightarrow> map fst rx = map fst rx0 @ map cn_netdev ps"
  by (induction ps arbitrary: rx0 rx) auto

text \<open>C26: The software switch: a frame to the address of one port goes to that port alone, a frame to an address no
  port has goes to every other running port in the order of the list, each delivered once with what
  \<open>eth_type_trans\<close> leaves of it; no frame comes back to its sender.  The kernel helpers are relied on to
  compare addresses, and every clone succeeds.\<close>

theorem nic_switch_forwards:
  assumes "nic_inv [] w" and "\<not> lx_is_multicast K (take 6 skb)" and "\<And>a b. lx_addr_equal K a b \<longleftrightarrow> a = b"
    and "\<forall>p\<in>set (nw_ports w). \<forall>q\<in>set (nw_ports w). \<forall>a. nd_is (\<lambda>nd. nd_addr nd = a) w p \<and> nd_is (\<lambda>nd. nd_addr nd = a) w q \<longrightarrow> p = q"
  shows "\<exists>w'. cosim_xmit K skb [] src w = Some w' \<and> nw_rx w' = nw_rx w @ map (\<lambda>p. (cn_netdev p, lx_type_trans K skb))
      (if \<exists>p\<in>set (nw_ports w). cn_netdev p \<noteq> src \<and> nd_is (\<lambda>nd. nd_addr nd = take 6 skb) w p
       then filter (\<lambda>p. nd_is (\<lambda>nd. nd_addr nd = take 6 skb) w p) (nw_ports w)
       else filter (\<lambda>p. cn_netdev p \<noteq> src \<and> nd_is nd_running w p) (nw_ports w))"
proof -
  let ?tx = "\<lambda>nd. nd\<lparr>nd_tx_packets := nd_tx_packets nd + 1, nd_tx_bytes := nd_tx_bytes nd + of_nat (length skb)\<rparr>"
  let ?w = "upd_netdev src ?tx w" and ?has = "\<lambda>p. nd_is (\<lambda>nd. nd_addr nd = take 6 skb) w p" and ?ps = "nw_ports w"
  have live: "ports_live (nw_ports ?w) ?w" using inv_live [OF assms(1)] by simp
  have t: "nd_is (\<lambda>nd. nd_addr nd = take 6 skb) ?w p = ?has p" "nd_is nd_running ?w p = nd_is nd_running w p" for p
    by (rule nd_is_upd, simp)+
  have l: "cosim_sw_lookup_dst K (take 6 skb) src ?w = Some (map_option cn_netdev (find (\<lambda>p. cn_netdev p \<noteq> src \<and> ?has p) ?ps))"
    using find_port_spec [OF live, of "\<lambda>nd. nd_addr nd = take 6 skb" src] assms(2,3) by (simp add: cosim_sw_lookup_dst_def t)
  show ?thesis
  proof (cases "find (\<lambda>p. cn_netdev p \<noteq> src \<and> ?has p) ?ps")
    case None
    then have no: "(\<exists>p\<in>set ?ps. cn_netdev p \<noteq> src \<and> ?has p) = False" by (auto simp: find_None_iff)
    from flood_spec [OF live, of K skb src "[]"] obtain w' where "flood K skb src [] (nw_ports ?w) ?w = Some w'"
      "nw_rx w' = nw_rx w @ map (\<lambda>p. (cn_netdev p, lx_type_trans K skb)) (filter (\<lambda>p. cn_netdev p \<noteq> src \<and> nd_is nd_running w p) ?ps)"
      by (auto simp: t)
    then show ?thesis unfolding no using l None by (simp add: cosim_xmit_def Let_def)
  next
    case (Some p)
    then have p: "p \<in> set ?ps" "cn_netdev p \<noteq> src" "?has p" by (auto simp: find_Some_iff)
    have "distinct ?ps" using assms(1) by (simp add: nic_inv_def Let_def distinct_map)
    have "filter ?has ?ps = filter (\<lambda>q. q = p) ?ps" using assms(4) p(1,3) by (intro filter_cong) blast+
    also have "\<dots> = [p]" using \<open>distinct ?ps\<close> p(1) by (rule filter_single)
    finally have f: "filter ?has ?ps = [p]" .
    have yes: "(\<exists>p\<in>set ?ps. cn_netdev p \<noteq> src \<and> ?has p) = True" using p by blast
    show ?thesis unfolding yes using l Some f by (simp add: cosim_xmit_def Let_def)
  qed
qed

text \<open>Three ports, the last one stopped.\<close>

definition example_port :: "nat \<Rightarrow> nat cosim_nic" where
  "example_port d = \<lparr>cn_pdev = d, cn_netdev = d, cn_bar0 = True, cn_is_vf = d > 0\<rparr>"

definition example_netdev :: "nat \<Rightarrow> net_dev" where
  "example_netdev n = (net_dev_new [0x12, 1, 2, 3, 3, of_nat n])\<lparr>nd_running := n < 2, nd_queue := n < 2\<rparr>"

definition switch_example :: "nat nic_world" where
  "switch_example = \<lparr>nw_ports = map example_port [0, 1, 2],
     nw_drvdata = (\<lambda>d. if d < 3 then Some (example_port d) else None),
     nw_netdevs = (\<lambda>n. if n < 3 then Some (example_netdev n) else None), nw_fresh = 3,
     nw_held = (\<Union>p\<in>set (map example_port [0, 1, 2]). resources p), nw_rx = []\<rparr>"

lemma switch_example_simps [simp]:
  "nw_ports switch_example = [example_port 0, example_port 1, example_port 2]" "nw_rx switch_example = []"
  "nw_netdevs switch_example n = (if n < 3 then Some (example_netdev n) else None)"
  "cn_netdev (example_port d) = d" "cn_pdev (example_port d) = d"
  "nd_addr (example_netdev n) = [0x12, 1, 2, 3, 3, of_nat n]" "nd_running (example_netdev n) \<longleftrightarrow> n < 2"
  by (simp_all add: switch_example_def example_port_def example_netdev_def net_dev_new_def)

lemma switch_example_inv: "nic_inv [] switch_example"
proof -
  have lt3: "d < 3 \<longleftrightarrow> d = 0 \<or> d = 1 \<or> d = 2" for d :: nat by arith
  show ?thesis
    unfolding nic_inv_def Let_def by (auto simp: switch_example_def lt3 split: if_splits)
qed

definition frame_to :: "u8 \<Rightarrow> bytes" where
  "frame_to b = [0x12, 1, 2, 3, 3, b, 0x12, 1, 2, 3, 3, 0, 8, 0, 0xAA]"

theorem nic_switch_forwards_witness:
  "\<exists>w'. cosim_xmit linux_example (frame_to 1) [] 0 switch_example = Some w'
    \<and> map fst (nw_rx w') = [1]"
proof -
  have "\<not> lx_is_multicast linux_example (take 6 (frame_to 1))" "\<And>a b. lx_addr_equal linux_example a b \<longleftrightarrow> a = b"
    by (simp_all add: linux_example_def frame_to_def)
  moreover have "\<forall>p\<in>set (nw_ports switch_example). \<forall>q\<in>set (nw_ports switch_example). \<forall>a.
      nd_is (\<lambda>nd. nd_addr nd = a) switch_example p \<and> nd_is (\<lambda>nd. nd_addr nd = a) switch_example q \<longrightarrow> p = q"
    by (simp add: nd_is_def)
  ultimately obtain w' where w': "cosim_xmit linux_example (frame_to 1) [] 0 switch_example = Some w'"
    "nw_rx w' = nw_rx switch_example @ map (\<lambda>p. (cn_netdev p, lx_type_trans linux_example (frame_to 1)))
      (if \<exists>p\<in>set (nw_ports switch_example). cn_netdev p \<noteq> 0 \<and> nd_is (\<lambda>nd. nd_addr nd = take 6 (frame_to 1)) switch_example p
       then filter (\<lambda>p. nd_is (\<lambda>nd. nd_addr nd = take 6 (frame_to 1)) switch_example p) (nw_ports switch_example)
       else filter (\<lambda>p. cn_netdev p \<noteq> 0 \<and> nd_is nd_running switch_example p) (nw_ports switch_example))"
    using nic_switch_forwards [OF switch_example_inv, of linux_example "frame_to 1" 0] by blast
  have f: "filter (\<lambda>p. nd_is (\<lambda>nd. nd_addr nd = take 6 (frame_to 1)) switch_example p) (nw_ports switch_example) = [example_port 1]"
    by (simp add: nd_is_def frame_to_def)
  have h: "\<exists>p\<in>set (nw_ports switch_example). cn_netdev p \<noteq> 0 \<and> nd_is (\<lambda>nd. nd_addr nd = take 6 (frame_to 1)) switch_example p"
    by (rule bexI [of _ "example_port 1"]) (simp_all add: nd_is_def frame_to_def)
  have "nw_rx w' = nw_rx switch_example @ map (\<lambda>p. (cn_netdev p, lx_type_trans linux_example (frame_to 1))) [example_port 1]"
    using w'(2) by (simp only: if_P [OF h] f)
  from rx_receivers [OF this] w'(1) show ?thesis by auto
qed

text \<open>A broadcast or multicast frame reaches one port only, the first running port other than the sender: the
  code takes this port as the destination and floods only when there is none, so that of several ports on the
  segment all but one never see, for example, an ARP request.\<close>

lemma nic_broadcast_one_port:
  assumes "nic_inv [] w" and "lx_is_multicast K (take 6 skb)"
  shows "\<exists>w'. cosim_xmit K skb [] src w = Some w' \<and> nw_rx w' = nw_rx w @ map (\<lambda>p. (cn_netdev p, lx_type_trans K skb))
      (take 1 (filter (\<lambda>p. cn_netdev p \<noteq> src \<and> nd_is nd_running w p) (nw_ports w)))"
proof -
  let ?w = "upd_netdev src (\<lambda>nd. nd\<lparr>nd_tx_packets := nd_tx_packets nd + 1, nd_tx_bytes := nd_tx_bytes nd + of_nat (length skb)\<rparr>) w"
  let ?others = "filter (\<lambda>p. cn_netdev p \<noteq> src \<and> nd_is nd_running w p) (nw_ports w)"
  have live: "ports_live (nw_ports ?w) ?w" using inv_live [OF assms(1)] by simp
  have t: "nd_is nd_running ?w p = nd_is nd_running w p" for p by (rule nd_is_upd) simp
  have l: "cosim_sw_lookup_dst K (take 6 skb) src ?w = Some (map_option cn_netdev (case ?others of [] \<Rightarrow> None | p # ps \<Rightarrow> Some p))"
    using find_port_spec [OF live, of nd_running src] assms(2) by (simp add: cosim_sw_lookup_dst_def t find_take)
  from flood_spec [OF live, of K skb src "[]"] obtain w' where "flood K skb src [] (nw_ports ?w) ?w = Some w'"
    "nw_rx w' = nw_rx w @ map (\<lambda>p. (cn_netdev p, lx_type_trans K skb)) ?others" by (auto simp: t)
  then show ?thesis using l by (cases ?others) (simp_all add: cosim_xmit_def Let_def)
qed

lemma nic_broadcast_one_port_witness:
  "\<exists>w'. cosim_xmit linux_example (replicate 6 0xFF @ replicate 9 0) [] 2 switch_example = Some w' \<and> map fst (nw_rx w') = [0]"
proof -
  have "lx_is_multicast linux_example (take 6 (replicate 6 0xFF @ replicate 9 0))" by (simp add: linux_example_def numeral_eq_Suc)
  from nic_broadcast_one_port [OF switch_example_inv this, of 2] obtain w'
    where w': "cosim_xmit linux_example (replicate 6 0xFF @ replicate 9 0) [] 2 switch_example = Some w'"
      "nw_rx w' = nw_rx switch_example @ map (\<lambda>p. (cn_netdev p, lx_type_trans linux_example (replicate 6 0xFF @ replicate 9 0)))
        (take 1 (filter (\<lambda>p. cn_netdev p \<noteq> 2 \<and> nd_is nd_running switch_example p) (nw_ports switch_example)))" by blast
  have f: "filter (\<lambda>p. cn_netdev p \<noteq> 2 \<and> nd_is nd_running switch_example p) (nw_ports switch_example) = [example_port 0, example_port 1]"
    by (simp add: nd_is_def)
  have "nw_rx w' = nw_rx switch_example @ map (\<lambda>p. (cn_netdev p, lx_type_trans linux_example (replicate 6 0xFF @ replicate 9 0))) [example_port 0]"
    using w'(2) by (simp only: f take_Suc_Cons take_0 One_nat_def)
  from rx_receivers [OF this] w'(1) show ?thesis by auto
qed

end
