(* ===== verification/Tcp_Lifecycle.thy ===== *)
theory Tcp_Lifecycle
  imports Tcp_Streams "HOL-Library.Monad_Syntax"
begin

section \<open>Descriptors and memory of a TCP transport: transport\_tcp.c\<close>

text \<open>
  The life of a TCP transport from its creation to \<open>tcp_close\<close>, at the level of file descriptors.  The kernel
  is a table of open descriptors and the list of the answers it will give, one per call; memory is the number
  of allocated blocks.  A result \<^theory_text>\<open>None\<close> means that the code is still waiting for an answer.  The handshake is
  that of \<open>Transport_Tcp\<close>, run on the connections behind the descriptors.  Socket options are left out.
\<close>

subsection \<open>The kernel\<close>

datatype net_file = Nf_Socket | Nf_Bound u16 | Nf_Listen u16 | Nf_Conn sock

text \<open>A call that gets an answer of another kind fails.\<close>

datatype net_answer = An_Ok | An_Fail | An_Refused | An_Timeout | An_Conn sock

record net_os =
  no_files :: "int \<Rightarrow> net_file option"
  no_next :: int                   \<comment> \<open>the next descriptor\<close>
  no_blocks :: int                 \<comment> \<open>blocks allocated\<close>
  no_answers :: "net_answer list"
  no_bad :: bool                   \<comment> \<open>a descriptor was closed that was not open\<close>

definition os_answer :: "net_os \<Rightarrow> (net_answer \<times> net_os) option" where
  "os_answer w = (case no_answers w of [] \<Rightarrow> None | a # as \<Rightarrow> Some (a, w\<lparr>no_answers := as\<rparr>))"

definition new_fd :: "net_file \<Rightarrow> net_os \<Rightarrow> int \<times> net_os" where
  "new_fd f w = (no_next w, w\<lparr>no_files := (no_files w)(no_next w \<mapsto> f), no_next := no_next w + 1\<rparr>)"

definition set_file :: "int \<Rightarrow> net_file \<Rightarrow> net_os \<Rightarrow> net_os" where
  "set_file fd f w = w\<lparr>no_files := (no_files w)(fd \<mapsto> f)\<rparr>"

definition os_calloc :: "net_os \<Rightarrow> (bool \<times> net_os) option" where
  "os_calloc w = do {
     (a, w) \<leftarrow> os_answer w;
     Some (if a = An_Ok then (True, w\<lparr>no_blocks := no_blocks w + 1\<rparr>) else (False, w)) }"

definition os_free :: "net_os \<Rightarrow> net_os" where
  "os_free w = w\<lparr>no_blocks := no_blocks w - 1\<rparr>"

definition os_socket :: "net_os \<Rightarrow> (int \<times> net_os) option" where
  "os_socket w = do {
     (a, w) \<leftarrow> os_answer w;
     Some (if a = An_Ok then new_fd Nf_Socket w else (-1, w)) }"

definition os_close :: "int \<Rightarrow> net_os \<Rightarrow> net_os" where
  "os_close fd w = (if no_files w fd = None then w\<lparr>no_bad := True\<rparr> else w\<lparr>no_files := (no_files w)(fd := None)\<rparr>)"

definition os_bind :: "int \<Rightarrow> u16 \<Rightarrow> net_os \<Rightarrow> (bool \<times> net_os) option" where
  "os_bind fd port w = do {
     (a, w) \<leftarrow> os_answer w;
     Some (if a = An_Ok then (True, set_file fd (Nf_Bound port) w) else (False, w)) }"

definition os_listen :: "int \<Rightarrow> u16 \<Rightarrow> net_os \<Rightarrow> (bool \<times> net_os) option" where
  "os_listen fd port w = do {
     (a, w) \<leftarrow> os_answer w;
     Some (if a = An_Ok then (True, set_file fd (Nf_Listen port) w) else (False, w)) }"

definition os_accept :: "net_os \<Rightarrow> (int \<times> net_os) option" where
  "os_accept w = do {
     (a, w) \<leftarrow> os_answer w;
     Some (case a of An_Conn s \<Rightarrow> new_fd (Nf_Conn s) w | _ \<Rightarrow> (-1, w)) }"

datatype connect_result = Conn_Ok | Conn_Refused | Conn_Err

definition os_connect :: "int \<Rightarrow> net_os \<Rightarrow> (connect_result \<times> net_os) option" where
  "os_connect fd w = do {
     (a, w) \<leftarrow> os_answer w;
     Some (case a of An_Conn s \<Rightarrow> (Conn_Ok, set_file fd (Nf_Conn s) w) | An_Refused \<Rightarrow> (Conn_Refused, w) | _ \<Rightarrow> (Conn_Err, w)) }"

subsection \<open>Listening, accepting, connecting\<close>

definition tcp_listen_port :: "int \<Rightarrow> net_os \<Rightarrow> (int \<times> net_os) option" where
  "tcp_listen_port port w = do {
     (fd, w) \<leftarrow> os_socket w;
     if fd < 0 then Some (-1, w) else do {
       (ok, w) \<leftarrow> os_bind fd (of_int port) w;
       if \<not> ok then Some (-1, os_close fd w) else do {
         (ok, w) \<leftarrow> os_listen fd (of_int port) w;
         if \<not> ok then Some (-1, os_close fd w) else Some (fd, w) } } }"

text \<open>The poll of the accept loop: timeouts are passed over.\<close>

fun await_poll :: "net_answer list \<Rightarrow> (bool \<times> net_answer list) option" where
  "await_poll [] = None"
| "await_poll (An_Timeout # as) = await_poll as"
| "await_poll (a # as) = Some (a = An_Ok, as)"

definition accept_poll_fd :: "net_os \<Rightarrow> (int \<times> net_os) option" where
  "accept_poll_fd w = do {
     (ready, as) \<leftarrow> await_poll (no_answers w);
     if \<not> ready then Some (-1, w\<lparr>no_answers := as\<rparr>) else os_accept (w\<lparr>no_answers := as\<rparr>) }"

text \<open>After a refusal the socket is replaced by a new one.\<close>

fun connect_loop :: "nat \<Rightarrow> int \<Rightarrow> net_os \<Rightarrow> (int \<times> net_os) option" where
  "connect_loop 0 fd w = Some (-1, os_close fd w)"
| "connect_loop (Suc n) fd w = (case os_connect fd w of
     None \<Rightarrow> None
   | Some (Conn_Ok, w) \<Rightarrow> Some (fd, w)
   | Some (Conn_Err, w) \<Rightarrow> Some (-1, os_close fd w)
   | Some (Conn_Refused, w) \<Rightarrow> (case os_socket (os_close fd w) of
       None \<Rightarrow> None
     | Some (fd, w) \<Rightarrow> if fd < 0 then Some (-1, w) else connect_loop n fd w))"

text \<open>\<open>pton\<close> tells whether \<open>inet_pton\<close> accepts an address.\<close>

definition connect_host_fd :: "(string \<Rightarrow> bool) \<Rightarrow> string \<Rightarrow> net_os \<Rightarrow> (int \<times> net_os) option" where
  "connect_host_fd pton host w = do {
     (fd, w) \<leftarrow> os_socket w;
     if fd < 0 then Some (-1, w)
     else if \<not> pton host then Some (-1, os_close fd w)
     else connect_loop 30 fd w }"

definition connect_once_fd :: "(string \<Rightarrow> bool) \<Rightarrow> string \<Rightarrow> net_os \<Rightarrow> (int \<times> net_os) option" where
  "connect_once_fd pton host w = do {
     (fd, w) \<leftarrow> os_socket w;
     if fd < 0 then Some (-1, w)
     else if \<not> pton host then Some (-1, os_close fd w)
     else do {
       (r, w) \<leftarrow> os_connect fd w;
       Some (if r = Conn_Ok then (fd, w) else (-1, os_close fd w)) } }"

subsection \<open>The transport\<close>

record transport_cfg =
  cg_transport :: "string option"
  cg_remote_host :: "string option"
  cg_listen_addr :: "string option"
  cg_port_base :: int
  cg_instance_id :: int
  cg_is_server :: bool

record tcp_fds =
  tf_ctrl :: int
  tf_data :: int
  tf_aux :: int
  tf_ctrl_listen :: int
  tf_data_listen :: int
  tf_aux_listen :: int
  tf_is_server :: bool
  tf_peer_is_ready :: bool
  tf_self_is_ready :: bool
  tf_version :: u32
  tf_ports :: "int \<times> int \<times> int"
  tf_remote_host :: string
  tf_listen_addr :: string

definition fds_init :: "transport_cfg \<Rightarrow> tcp_fds" where
  "fds_init cfg = \<lparr>tf_ctrl = -1, tf_data = -1, tf_aux = -1, tf_ctrl_listen = -1, tf_data_listen = -1, tf_aux_listen = -1,
     tf_is_server = cg_is_server cfg, tf_peer_is_ready = False, tf_self_is_ready = False, tf_version = TCP_HANDSHAKE_V1,
     tf_ports = tcp_ports (cg_port_base cfg) (cg_instance_id cfg),
     tf_remote_host = (case cg_remote_host cfg of None \<Rightarrow> [] | Some h \<Rightarrow> take 255 h),
     tf_listen_addr = (case cg_listen_addr cfg of None \<Rightarrow> [] | Some a \<Rightarrow> take 63 a)\<rparr>"

definition sock_at :: "net_os \<Rightarrow> int \<Rightarrow> sock option" where
  "sock_at w fd = (case no_files w fd of Some (Nf_Conn s) \<Rightarrow> Some s | _ \<Rightarrow> None)"

definition close_if :: "int \<Rightarrow> net_os \<Rightarrow> net_os" where
  "close_if fd w = (if fd \<ge> 0 then os_close fd w else w)"

text \<open>The handshake \<open>hs\<close> on the connections of a transport; it may close the third connection.\<close>

definition close_unused :: "transport_tcp_priv \<Rightarrow> tcp_fds \<Rightarrow> net_os \<Rightarrow> tcp_fds \<times> net_os" where
  "close_unused p t w =
     (let (t1, w1) = (if tp_aux p = None then (t\<lparr>tf_aux := -1\<rparr>, close_if (tf_aux t) w) else (t, w))
      in if tp_aux_listening p then (t1, w1) else (t1\<lparr>tf_aux_listen := -1\<rparr>, close_if (tf_aux_listen t1) w1))"

definition fds_handshake :: "(transport_tcp_priv \<Rightarrow> rc \<times> transport_tcp_priv) \<Rightarrow> tcp_fds \<Rightarrow> net_os
    \<Rightarrow> (bool \<times> tcp_fds \<times> net_os) option" where
  "fds_handshake hs t w = do {
     c \<leftarrow> sock_at w (tf_ctrl t);
     d \<leftarrow> sock_at w (tf_data t);
     (case hs (priv_init (tf_is_server t) c d (if tf_aux t \<ge> 0 then sock_at w (tf_aux t) else None)) of (r, p) \<Rightarrow>
       Some (r \<ge> 0, close_unused p (t\<lparr>tf_version := tp_negotiated_version p, tf_peer_is_ready := tp_peer_is_ready p\<rparr>)
         (set_file (tf_ctrl t) (Nf_Conn (tp_ctrl p)) w))) }"

definition server_listen :: "tcp_fds \<Rightarrow> net_os \<Rightarrow> (bool \<times> tcp_fds \<times> net_os) option" where
  "server_listen t w = (case tf_ports t of (ctrl_port, data_port, aux_port) \<Rightarrow> do {
     (fd, w) \<leftarrow> tcp_listen_port ctrl_port w;
     (let t = t\<lparr>tf_ctrl_listen := fd\<rparr> in if fd < 0 then Some (False, t, w) else do {
       (fd, w) \<leftarrow> tcp_listen_port data_port w;
       (let t = t\<lparr>tf_data_listen := fd\<rparr> in if fd < 0 then Some (False, t, w) else do {
         (fd, w) \<leftarrow> tcp_listen_port aux_port w;
         Some (fd \<ge> 0, t\<lparr>tf_aux_listen := fd\<rparr>, w) }) }) })"

definition server_accept :: "tcp_fds \<Rightarrow> net_os \<Rightarrow> (bool \<times> tcp_fds \<times> net_os) option" where
  "server_accept t w = do {
     (fd, w) \<leftarrow> accept_poll_fd w;
     (let t = t\<lparr>tf_ctrl := fd\<rparr> in if fd < 0 then Some (False, t, w) else do {
       (fd, w) \<leftarrow> accept_poll_fd w;
       (let t = t\<lparr>tf_data := fd\<rparr> in if fd < 0 then Some (False, t, w) else do {
         (a, w) \<leftarrow> os_answer w;
         (fd, w) \<leftarrow> (if a = An_Ok then os_accept w else Some (-1, w));
         fds_handshake tcp_do_handshake_server (t\<lparr>tf_aux := fd\<rparr>) w }) }) }"

definition client_connect :: "(string \<Rightarrow> bool) \<Rightarrow> tcp_fds \<Rightarrow> net_os \<Rightarrow> (bool \<times> tcp_fds \<times> net_os) option" where
  "client_connect pton t w = do {
     (fd, w) \<leftarrow> connect_host_fd pton (tf_remote_host t) w;
     (let t = t\<lparr>tf_ctrl := fd\<rparr> in if fd < 0 then Some (False, t, w) else do {
       (fd, w) \<leftarrow> connect_host_fd pton (tf_remote_host t) w;
       (let t = t\<lparr>tf_data := fd\<rparr> in if fd < 0 then Some (False, t, w) else do {
         (fd, w) \<leftarrow> connect_once_fd pton (tf_remote_host t) w;
         fds_handshake tcp_do_handshake_client (t\<lparr>tf_aux := fd\<rparr>) w }) }) }"

text \<open>What the failure exit of the creation and \<open>tcp_close\<close> both do.\<close>

definition tcp_close :: "tcp_fds \<Rightarrow> net_os \<Rightarrow> net_os" where
  "tcp_close t w = os_free (os_free (fold close_if
     [tf_ctrl t, tf_data t, tf_aux t, tf_ctrl_listen t, tf_data_listen t, tf_aux_listen t] w))"

definition tcp_setup :: "(string \<Rightarrow> bool) \<Rightarrow> tcp_fds \<Rightarrow> net_os \<Rightarrow> (bool \<times> tcp_fds \<times> net_os) option" where
  "tcp_setup pton t w =
     (if tf_is_server t
      then do {
        (ok, t, w) \<leftarrow> server_listen t w;
        if \<not> ok then Some (False, t, w) else server_accept t w }
      else client_connect pton t w)"

definition transport_tcp_create :: "(string \<Rightarrow> bool) \<Rightarrow> transport_cfg \<Rightarrow> net_os \<Rightarrow> (tcp_fds option \<times> net_os) option" where
  "transport_tcp_create pton cfg w = do {
     (ok, w) \<leftarrow> os_calloc w;
     if \<not> ok then Some (None, w) else do {
       (ok, w) \<leftarrow> os_calloc w;
       if \<not> ok then Some (None, os_free w) else do {
         (ok, t, w) \<leftarrow> tcp_setup pton (fds_init cfg) w;
         Some (if ok then (Some t, w) else (None, tcp_close t w)) } } }"

text \<open>The dispatch on the kind of transport; the other arguments are those of the creation over shared memory.\<close>

definition transport_create :: "(string \<Rightarrow> bool) \<Rightarrow> os_answers \<Rightarrow> int \<Rightarrow> cosim_shm option \<Rightarrow> sock \<Rightarrow> transport_cfg \<Rightarrow> net_os
    \<Rightarrow> ((transport_shm_priv + tcp_fds) option \<times> cosim_shm option \<times> net_os) option" where
  "transport_create pton os listen_fd obj client cfg w = (case cg_transport cfg of
     None \<Rightarrow> Some (None, obj, w)
   | Some kind \<Rightarrow>
       if kind = ''shm'' then (case transport_shm_create (cg_is_server cfg) os listen_fd obj client of
           (r, obj) \<Rightarrow> Some (map_option Inl r, obj, w))
       else if kind = ''tcp'' then do { (r, w) \<leftarrow> transport_tcp_create pton cfg w; Some (map_option Inr r, obj, w) }
       else Some (None, obj, w))"

subsection \<open>Who holds what\<close>

text \<open>Since \<open>w0\<close>, exactly the descriptors \<open>F\<close> and \<open>b\<close> blocks have been acquired and not given back.\<close>

definition owns :: "net_os \<Rightarrow> int set \<Rightarrow> int \<Rightarrow> net_os \<Rightarrow> bool" where
  "owns w0 F b w \<longleftrightarrow> \<not> no_bad w \<and> no_blocks w = no_blocks w0 + b \<and> 0 \<le> no_next w
     \<and> (\<forall>fd. fd \<notin> F \<longrightarrow> no_files w fd = no_files w0 fd)
     \<and> (\<forall>fd\<in>F. 0 \<le> fd \<and> no_files w fd \<noteq> None \<and> no_files w0 fd = None)
     \<and> (\<forall>fd\<ge>no_next w. no_files w fd = None)"

definition os_ok :: "net_os \<Rightarrow> bool" where
  "os_ok w \<longleftrightarrow> \<not> no_bad w \<and> 0 \<le> no_next w \<and> (\<forall>fd\<ge>no_next w. no_files w fd = None)"

lemma owns_start: "os_ok w \<Longrightarrow> owns w {} 0 w"
  by (simp add: owns_def os_ok_def)

lemma owns_ok: "owns w0 F b w \<Longrightarrow> os_ok w"
  by (simp add: owns_def os_ok_def)

lemma owns_files: "owns w0 {} b w \<Longrightarrow> no_files w = no_files w0"
  by (auto simp: owns_def)

definition gains :: "net_os \<Rightarrow> int set \<Rightarrow> int \<Rightarrow> int \<Rightarrow> net_os \<Rightarrow> bool" where
  "gains w0 F b fd w \<longleftrightarrow> (if fd \<ge> 0 then fd \<notin> F \<and> owns w0 (insert fd F) b w else owns w0 F b w)"

lemma owns_answers [simp]: "owns w0 F b (w\<lparr>no_answers := as\<rparr>) = owns w0 F b w"
  by (simp add: owns_def)

lemma owns_answer: "owns w0 F b w \<Longrightarrow> os_answer w = Some (a, w') \<Longrightarrow> owns w0 F b w'"
  by (auto simp: os_answer_def split: list.splits)

lemma owns_new: "owns w0 F b w \<Longrightarrow> gains w0 F b (fst (new_fd f w)) (snd (new_fd f w))"
proof -
  assume o: "owns w0 F b w"
  then have n: "no_files w (no_next w) = None" "0 \<le> no_next w" by (simp_all add: owns_def)
  then have "no_next w \<notin> F" using o by (auto simp: owns_def)
  moreover from this have "no_files w0 (no_next w) = None" using o n(1) by (simp add: owns_def)
  ultimately show ?thesis using o n(2) by (auto simp: gains_def new_fd_def owns_def)
qed

lemma owns_set: "owns w0 F b w \<Longrightarrow> fd \<in> F \<Longrightarrow> owns w0 F b (set_file fd f w)"
  by (auto simp: owns_def set_file_def)

lemma owns_close: "owns w0 (insert fd F) b w \<Longrightarrow> fd \<notin> F \<Longrightarrow> owns w0 F b (os_close fd w)"
  by (auto simp: owns_def os_close_def)

lemma owns_calloc: "owns w0 F b w \<Longrightarrow> os_calloc w = Some (ok, w') \<Longrightarrow> owns w0 F (if ok then b + 1 else b) w'"
  by (auto simp: os_calloc_def os_answer_def owns_def split: list.splits if_splits)

lemma owns_free: "owns w0 F b w \<Longrightarrow> owns w0 F (b - 1) (os_free w)"
  by (simp add: os_free_def owns_def)

lemma gains_fail [simp]: "gains w0 F b (-1) w = owns w0 F b w"
  by (simp add: gains_def)

lemma gains_neg [simp]: "fd < 0 \<Longrightarrow> gains w0 F b fd w = owns w0 F b w"
  by (simp add: gains_def)

lemma gains_file: "gains w0 F b fd w \<Longrightarrow> 0 \<le> fd \<Longrightarrow> gains w0 F b fd (set_file fd f w)"
  using owns_set [of w0 "insert fd F" b w fd f] by (simp add: gains_def)

lemma gains_close [simp]: "gains w0 F b fd w \<Longrightarrow> 0 \<le> fd \<Longrightarrow> owns w0 F b (os_close fd w)"
  using owns_close [of w0 fd F b w] by (simp add: gains_def)

lemma gains_answers [simp]: "gains w0 F b fd (w\<lparr>no_answers := as\<rparr>) = gains w0 F b fd w"
  by (simp add: gains_def)

text \<open>What holds of a result, when there is one; its rules follow the binds of a function.\<close>

definition ret :: "('a \<Rightarrow> bool) \<Rightarrow> 'a option \<Rightarrow> bool" where
  "ret P m \<longleftrightarrow> (\<forall>x. m = Some x \<longrightarrow> P x)"

lemma ret_Some [simp]: "ret P (Some x) = P x"
  by (simp add: ret_def)

lemma ret_None [simp]: "ret P None"
  by (simp add: ret_def)

lemma ret_bind: "ret Q m \<Longrightarrow> (\<And>x. Q x \<Longrightarrow> ret P (k x)) \<Longrightarrow> ret P (m \<bind> k)"
  by (cases m) (simp_all add: ret_def)

lemma ret_conj: "ret P m \<Longrightarrow> ret Q m \<Longrightarrow> ret (\<lambda>x. P x \<and> Q x) m"
  by (simp add: ret_def)

lemma ret_answer: "P (w\<lparr>no_answers := tl (no_answers w)\<rparr>) \<Longrightarrow> ret (\<lambda>(a, w'). P w') (os_answer w)"
  by (auto simp: ret_def os_answer_def split: list.splits)

lemma ret_calloc: "owns w0 F b w \<Longrightarrow> ret (\<lambda>(ok, w'). owns w0 F (if ok then b + 1 else b) w') (os_calloc w)"
  using owns_calloc by (auto simp: ret_def)

lemma ret_socket: "owns w0 F b w \<Longrightarrow> ret (\<lambda>(fd, w'). gains w0 F b fd w') (os_socket w)"
  unfolding os_socket_def
  by (rule ret_bind [OF ret_answer [of "owns w0 F b"]]) (auto simp: owns_new [of w0 F b _ Nf_Socket, unfolded case_prod_beta] case_prod_beta)

lemma ret_accept: "owns w0 F b w \<Longrightarrow> ret (\<lambda>(fd, w'). gains w0 F b fd w') (os_accept w)"
  unfolding os_accept_def
  by (rule ret_bind [OF ret_answer [of "owns w0 F b"]]) (auto simp: owns_new case_prod_beta split: net_answer.splits)

lemma ret_on_fd:
  assumes "gains w0 F b fd w" and "0 \<le> fd"
  shows "ret (\<lambda>(ok, w'). gains w0 F b fd w') (os_bind fd port w)"
    and "ret (\<lambda>(ok, w'). gains w0 F b fd w') (os_listen fd port w)"
    and "ret (\<lambda>(r, w'). gains w0 F b fd w') (os_connect fd w)"
proof -
  have a: "ret (\<lambda>(a, w'). gains w0 F b fd w') (os_answer w)" by (rule ret_answer) (simp add: assms(1))
  note gf = gains_file [OF _ assms(2)]
  show "ret (\<lambda>(ok, w'). gains w0 F b fd w') (os_bind fd port w)" unfolding os_bind_def
    by (rule ret_bind [OF a]) (auto intro: gf)
  show "ret (\<lambda>(ok, w'). gains w0 F b fd w') (os_listen fd port w)" unfolding os_listen_def
    by (rule ret_bind [OF a]) (auto intro: gf)
  show "ret (\<lambda>(r, w'). gains w0 F b fd w') (os_connect fd w)" unfolding os_connect_def
    by (rule ret_bind [OF a]) (auto intro: gf split: net_answer.splits)
qed

lemma ret_listen_port:
  assumes "owns w0 F b w"
  shows "ret (\<lambda>(fd, w'). gains w0 F b fd w') (tcp_listen_port port w)"
proof -
  have "ret (\<lambda>(fd, w'). gains w0 F b fd w') (os_listen fd p w \<bind> (\<lambda>(ok, w).
      if \<not> ok then Some (-1, os_close fd w) else Some (fd, w)))" if "gains w0 F b fd w" "0 \<le> fd" for fd p w
    using that(2) by (intro ret_bind [OF ret_on_fd(2) [OF that]]) auto
  then show ?thesis unfolding tcp_listen_port_def
    by (intro ret_bind [OF ret_socket [OF assms]]) (auto simp: not_less intro!: ret_bind [OF ret_on_fd(1)])
qed

lemma ret_accept_poll: "owns w0 F b w \<Longrightarrow> ret (\<lambda>(fd, w'). gains w0 F b fd w') (accept_poll_fd w)"
  unfolding accept_poll_fd_def
  by (rule ret_bind [of "\<lambda>_. True"]) (auto simp: ret_def [of "\<lambda>_. True"] intro!: ret_accept)

lemma ret_connect_loop: "gains w0 F b fd w \<Longrightarrow> 0 \<le> fd \<Longrightarrow> ret (\<lambda>(fd, w'). gains w0 F b fd w') (connect_loop n fd w)"
proof (induction n arbitrary: fd w)
  case (Suc n)
  show ?case
  proof (cases "os_connect fd w")
    case (Some rw)
    obtain r w1 where rw: "rw = (r, w1)" by (cases rw)
    have g: "gains w0 F b fd w1" using ret_on_fd(3) [OF Suc.prems] Some rw by (simp add: ret_def)
    have "ret (\<lambda>(fd, w'). gains w0 F b fd w') (case os_socket (os_close fd w1) of None \<Rightarrow> None
        | Some (fd, w) \<Rightarrow> if fd < 0 then Some (-1, w) else connect_loop n fd w)"
    proof (cases "os_socket (os_close fd w1)")
      case (Some fw)
      then have "gains w0 F b (fst fw) (snd fw)"
        using ret_socket [OF gains_close [OF g Suc.prems(2)]] by (simp add: ret_def case_prod_beta)
      then show ?thesis using Some Suc.IH by (cases fw) auto
    qed simp
    then show ?thesis using g Suc.prems(2) Some rw by (cases r) simp_all
  qed simp
qed simp

lemma ret_connect_host: "owns w0 F b w \<Longrightarrow> ret (\<lambda>(fd, w'). gains w0 F b fd w') (connect_host_fd pton host w)"
  unfolding connect_host_fd_def
  by (rule ret_bind [OF ret_socket], assumption) (auto simp: not_less intro: gains_close ret_connect_loop)

lemma ret_connect_once: "owns w0 F b w \<Longrightarrow> ret (\<lambda>(fd, w'). gains w0 F b fd w') (connect_once_fd pton host w)"
  unfolding connect_once_fd_def
  by (rule ret_bind [OF ret_socket], assumption) (auto simp: not_less intro!: ret_bind [OF ret_on_fd(3)] intro: gains_close)

subsection \<open>A transport and its descriptors\<close>

definition fd_list :: "tcp_fds \<Rightarrow> int list" where
  "fd_list t = [tf_ctrl t, tf_data t, tf_aux t, tf_ctrl_listen t, tf_data_listen t, tf_aux_listen t]"

definition fd_set :: "tcp_fds \<Rightarrow> int set" where
  "fd_set t = {fd \<in> set (fd_list t). 0 \<le> fd}"

text \<open>Since \<open>w0\<close> a transport has acquired its descriptors, each in one field only, and its two blocks.\<close>

definition holds :: "net_os \<Rightarrow> tcp_fds \<Rightarrow> net_os \<Rightarrow> bool" where
  "holds w0 t w \<longleftrightarrow> owns w0 (fd_set t) 2 w \<and> distinct (filter (\<lambda>fd. 0 \<le> fd) (fd_list t))"

lemma holds_gain:
  assumes "holds w0 t w" and "ret (\<lambda>(fd, w'). gains w0 (fd_set t) 2 fd w') m"
  shows "tf_ctrl t = -1 \<Longrightarrow> ret (\<lambda>(fd, w'). holds w0 (t\<lparr>tf_ctrl := fd\<rparr>) w') m"
    and "tf_data t = -1 \<Longrightarrow> ret (\<lambda>(fd, w'). holds w0 (t\<lparr>tf_data := fd\<rparr>) w') m"
    and "tf_aux t = -1 \<Longrightarrow> ret (\<lambda>(fd, w'). holds w0 (t\<lparr>tf_aux := fd\<rparr>) w') m"
    and "tf_ctrl_listen t = -1 \<Longrightarrow> ret (\<lambda>(fd, w'). holds w0 (t\<lparr>tf_ctrl_listen := fd\<rparr>) w') m"
    and "tf_data_listen t = -1 \<Longrightarrow> ret (\<lambda>(fd, w'). holds w0 (t\<lparr>tf_data_listen := fd\<rparr>) w') m"
    and "tf_aux_listen t = -1 \<Longrightarrow> ret (\<lambda>(fd, w'). holds w0 (t\<lparr>tf_aux_listen := fd\<rparr>) w') m"
proof -
  have *: "ret (\<lambda>(fd, w'). holds w0 (u fd) w') m"
    if "\<And>fd. fd_list (u fd) = (fd_list t)[i := fd]" "i < 6" "fd_list t ! i = -1" for u i
  proof -
    have l: "length (fd_list t) = 6" by (simp add: fd_list_def)
    have f: "fd_list t = take i (fd_list t) @ (-1) # drop (Suc i) (fd_list t)"
      using id_take_nth_drop [of i "fd_list t"] that(2,3) l by simp
    have g: "fd_list (u fd) = take i (fd_list t) @ fd # drop (Suc i) (fd_list t)" for fd
      using that(1,2) l by (simp add: upd_conv_take_nth_drop)
    have s: "fd_set (u fd) = (if 0 \<le> fd then insert fd (fd_set t) else fd_set t)" for fd
      unfolding fd_set_def g by (subst (3 4) f) auto
    have d: "distinct (filter (\<lambda>fd. 0 \<le> fd) (fd_list (u fd)))" if "fd < 0 \<or> fd \<notin> fd_set t" for fd
    proof -
      have "distinct (filter (\<lambda>fd. 0 \<le> fd) (take i (fd_list t) @ (-1) # drop (Suc i) (fd_list t)))"
        using assms(1) f unfolding holds_def by metis
      moreover have "fd < 0 \<or> fd \<notin> set (take i (fd_list t) @ drop (Suc i) (fd_list t))"
        using that f unfolding fd_set_def by (metis (no_types, lifting) Un_iff insert_iff list.simps(15) mem_Collect_eq not_less set_append)
      ultimately show ?thesis unfolding g by auto
    qed
    show ?thesis using assms(2) s d unfolding ret_def holds_def by (fastforce simp: gains_def split: if_splits)
  qed
  show "tf_ctrl t = -1 \<Longrightarrow> ret (\<lambda>(fd, w'). holds w0 (t\<lparr>tf_ctrl := fd\<rparr>) w') m" by (rule * [of _ 0]) (simp_all add: fd_list_def)
  show "tf_data t = -1 \<Longrightarrow> ret (\<lambda>(fd, w'). holds w0 (t\<lparr>tf_data := fd\<rparr>) w') m" by (rule * [of _ 1]) (simp_all add: fd_list_def)
  show "tf_aux t = -1 \<Longrightarrow> ret (\<lambda>(fd, w'). holds w0 (t\<lparr>tf_aux := fd\<rparr>) w') m" by (rule * [of _ 2]) (simp_all add: fd_list_def)
  show "tf_ctrl_listen t = -1 \<Longrightarrow> ret (\<lambda>(fd, w'). holds w0 (t\<lparr>tf_ctrl_listen := fd\<rparr>) w') m"
    by (rule * [of _ 3]) (simp_all add: fd_list_def)
  show "tf_data_listen t = -1 \<Longrightarrow> ret (\<lambda>(fd, w'). holds w0 (t\<lparr>tf_data_listen := fd\<rparr>) w') m"
    by (rule * [of _ 4]) (simp_all add: fd_list_def)
  show "tf_aux_listen t = -1 \<Longrightarrow> ret (\<lambda>(fd, w'). holds w0 (t\<lparr>tf_aux_listen := fd\<rparr>) w') m"
    by (rule * [of _ 5]) (simp_all add: fd_list_def)
qed

text \<open>Closing.\<close>

lemma close_all:
  "owns w0 ({fd \<in> set fds. 0 \<le> fd} \<union> F) b w \<Longrightarrow> distinct (filter (\<lambda>fd. 0 \<le> fd) fds) \<Longrightarrow> {fd \<in> set fds. 0 \<le> fd} \<inter> F = {}
     \<Longrightarrow> owns w0 F b (fold close_if fds w)"
proof (induction fds arbitrary: w)
  case (Cons fd fds)
  let ?F = "{fd \<in> set fds. 0 \<le> fd} \<union> F"
  have "owns w0 ?F b (close_if fd w)"
  proof (cases "0 \<le> fd")
    case True
    then have e: "{x \<in> set (fd # fds). 0 \<le> x} \<union> F = insert fd ?F" by auto
    have n: "fd \<notin> ?F" using True Cons.prems(2,3) by auto
    show ?thesis using owns_close [OF Cons.prems(1) [unfolded e] n] True by (simp add: close_if_def)
  next
    case False
    then have "{x \<in> set (fd # fds). 0 \<le> x} = {x \<in> set fds. 0 \<le> x}" by auto
    then show ?thesis using Cons.prems(1) False by (simp add: close_if_def)
  qed
  then show ?case using Cons.IH [of "close_if fd w"] Cons.prems(2,3) by (auto split: if_splits)
qed simp

lemma holds_close:
  assumes "holds w0 t w"
  shows "owns w0 {} 0 (tcp_close t w)"
proof -
  have "owns w0 {} 2 (fold close_if (fd_list t) w)"
    by (rule close_all) (use assms in \<open>simp_all add: holds_def fd_set_def\<close>)
  then show ?thesis unfolding tcp_close_def fd_list_def [symmetric] using owns_free [OF owns_free] by fastforce
qed

text \<open>Giving up the third connection, or its listening socket.\<close>

lemma drop_at:
  assumes "owns w0 {fd \<in> set (xs @ x # ys). 0 \<le> fd} b w" and "distinct (filter (\<lambda>fd. 0 \<le> fd) (xs @ x # ys))"
  shows "owns w0 {fd \<in> set (xs @ (-1) # ys). 0 \<le> fd} b (close_if x w) \<and> distinct (filter (\<lambda>fd. 0 \<le> fd) (xs @ (-1) # ys))"
proof -
  let ?F = "{fd \<in> set (xs @ (-1) # ys). 0 \<le> fd}"
  have e: "{fd \<in> set (xs @ x # ys). 0 \<le> fd} = (if 0 \<le> x then insert x ?F else ?F)" by auto
  have n: "0 \<le> x \<Longrightarrow> x \<notin> ?F" using assms(2) by auto
  have "owns w0 ?F b (close_if x w)"
  proof (cases "0 \<le> x")
    case True
    show ?thesis using owns_close [OF assms(1) [unfolded e if_P [OF True]] n [OF True]] True by (simp only: close_if_def if_True)
  next
    case False
    show ?thesis using assms(1) [unfolded e if_not_P [OF False]] False by (simp only: close_if_def if_False)
  qed
  then show ?thesis using assms(2) by (cases "0 \<le> x") simp_all
qed

lemma holds_drop:
  assumes "holds w0 t w"
  shows "holds w0 (t\<lparr>tf_aux := -1\<rparr>) (close_if (tf_aux t) w)"
    and "holds w0 (t\<lparr>tf_aux_listen := -1\<rparr>) (close_if (tf_aux_listen t) w)"
proof -
  have a: "fd_list t = [tf_ctrl t, tf_data t] @ tf_aux t # [tf_ctrl_listen t, tf_data_listen t, tf_aux_listen t]"
    "fd_list (t\<lparr>tf_aux := -1\<rparr>) = [tf_ctrl t, tf_data t] @ (-1) # [tf_ctrl_listen t, tf_data_listen t, tf_aux_listen t]"
    by (simp_all add: fd_list_def)
  have b: "fd_list t = [tf_ctrl t, tf_data t, tf_aux t, tf_ctrl_listen t, tf_data_listen t] @ tf_aux_listen t # []"
    "fd_list (t\<lparr>tf_aux_listen := -1\<rparr>) = [tf_ctrl t, tf_data t, tf_aux t, tf_ctrl_listen t, tf_data_listen t] @ (-1) # []"
    by (simp_all add: fd_list_def)
  show "holds w0 (t\<lparr>tf_aux := -1\<rparr>) (close_if (tf_aux t) w)"
    using assms unfolding holds_def fd_set_def a by (intro drop_at) (simp_all only:)
  show "holds w0 (t\<lparr>tf_aux_listen := -1\<rparr>) (close_if (tf_aux_listen t) w)"
    using assms unfolding holds_def fd_set_def b by (intro drop_at) (simp_all only:)
qed

lemma holds_set: "holds w0 t w \<Longrightarrow> 0 \<le> tf_ctrl t \<Longrightarrow> holds w0 t (set_file (tf_ctrl t) f w)"
  by (simp add: holds_def owns_set fd_set_def fd_list_def)

lemma holds_flags [simp]: "holds w0 (t\<lparr>tf_version := v, tf_peer_is_ready := r\<rparr>) w = holds w0 t w"
  by (simp add: holds_def fd_set_def fd_list_def)

lemma holds_close_unused:
  assumes "holds w0 t w"
  shows "holds w0 (fst (close_unused p t w)) (snd (close_unused p t w))"
proof -
  obtain t1 w1 where x: "(if tp_aux p = None then (t\<lparr>tf_aux := -1\<rparr>, close_if (tf_aux t) w) else (t, w)) = (t1, w1)" by (rule prod.exhaust)
  then have h: "holds w0 t1 w1" using holds_drop(1) [OF assms] assms by (auto split: if_splits)
  then show ?thesis using holds_drop(2) [OF h] unfolding close_unused_def x by simp
qed

lemma ret_handshake:
  assumes "holds w0 t w" and "0 \<le> tf_ctrl t"
  shows "ret (\<lambda>(ok, t', w'). holds w0 t' w') (fds_handshake hs t w)"
proof -
  have "holds w0 (fst (close_unused p (t\<lparr>tf_version := v, tf_peer_is_ready := r\<rparr>) (set_file (tf_ctrl t) f w)))
      (snd (close_unused p (t\<lparr>tf_version := v, tf_peer_is_ready := r\<rparr>) (set_file (tf_ctrl t) f w)))" for v r f p
    by (rule holds_close_unused, subst holds_flags) (rule holds_set [OF assms])
  then show ?thesis unfolding fds_handshake_def case_prod_beta by (intro ret_bind [of "\<lambda>_. True"]) (simp_all add: ret_def [of "\<lambda>_. True"])
qed

lemma holds_owns: "holds w0 t w \<Longrightarrow> owns w0 (fd_set t) 2 w"
  by (simp add: holds_def)

text \<open>A step that acquires a descriptor, after which the transport is \<open>u fd\<close>, and what follows when it succeeds.\<close>

lemma ret_gain_step:
  fixes u :: "int \<Rightarrow> tcp_fds"
  assumes "ret (\<lambda>(fd, w'). holds w0 (u fd) w') m"
    and "\<And>fd w. holds w0 (u fd) w \<Longrightarrow> fd < 0 \<Longrightarrow> P (False, u fd, w)"
    and "\<And>fd w. holds w0 (u fd) w \<Longrightarrow> 0 \<le> fd \<Longrightarrow> ret P (k (u fd) w)"
  shows "ret P (m \<bind> (\<lambda>(fd, w). let t = u fd in if fd < 0 then Some (False, t, w) else k t w))"
proof (rule ret_bind [OF assms(1)], clarify)
  fix fd w assume "holds w0 (u fd) w"
  then show "ret P (let t = u fd in if fd < 0 then Some (False, t, w) else k t w)"
    using assms(2,3) [of fd w] by (cases "fd < 0") (simp_all add: Let_def)
qed

lemma ret_server_listen:
  assumes "holds w0 t w" and "tf_ctrl_listen t = -1" and "tf_data_listen t = -1" and "tf_aux_listen t = -1"
  shows "ret (\<lambda>(ok, t', w'). holds w0 t' w' \<and> tf_ctrl t' = tf_ctrl t \<and> tf_data t' = tf_data t \<and> tf_aux t' = tf_aux t)
    (server_listen t w)"
proof -
  obtain a b c where p: "tf_ports t = (a, b, c)" by (cases "tf_ports t") auto
  note g = holds_gain [OF _ ret_listen_port [OF holds_owns]]
  show ?thesis unfolding server_listen_def p prod.case
  proof (rule ret_gain_step [OF g(4) [OF assms(1,1,2)]], goal_cases)
    case (2 fd w)
    show ?case
    proof (rule ret_gain_step [OF g(5) [OF 2(1,1)]], goal_cases)
      case (3 fd' w)
      then show ?case using assms(4) by (intro ret_bind [OF g(6) [OF 3(1,1)]]) auto
    qed (simp_all add: assms(3))
  qed simp
qed

lemma ret_server_accept:
  assumes "holds w0 t w" and "tf_ctrl t = -1" and "tf_data t = -1" and "tf_aux t = -1"
  shows "ret (\<lambda>(ok, t', w'). holds w0 t' w') (server_accept t w)"
proof -
  note g = holds_gain [OF _ ret_accept_poll [OF holds_owns]]
  have aux: "ret (\<lambda>(fd, w'). gains w0 (fd_set t) 2 fd w') (if a = An_Ok then os_accept w else Some (-1, w))"
    if "holds w0 t w" for t w and a :: net_answer
    using holds_owns [OF that] ret_accept [OF holds_owns [OF that]] by simp
  have answer: "holds w0 t w \<Longrightarrow> ret (\<lambda>(a, w'). holds w0 t w') (os_answer w)" for t w
    by (rule ret_answer) (simp add: holds_def)
  show ?thesis unfolding server_accept_def
  proof (rule ret_gain_step [OF g(1) [OF assms(1,1,2)]], goal_cases)
    case (2 fd w)
    show ?case
    proof (rule ret_gain_step [OF g(2) [OF 2(1,1)]], goal_cases)
      case (3 fd' w)
      show ?case
      proof (rule ret_bind [OF answer [OF 3(1)]], clarify)
        fix a w1 assume h: "holds w0 (t\<lparr>tf_ctrl := fd, tf_data := fd'\<rparr>) w1"
        show "ret (\<lambda>(ok, t', w'). holds w0 t' w') ((if a = An_Ok then os_accept w1 else Some (-1, w1)) \<bind>
            (\<lambda>(fd1, w). fds_handshake tcp_do_handshake_server ((t\<lparr>tf_ctrl := fd, tf_data := fd'\<rparr>)\<lparr>tf_aux := fd1\<rparr>) w))"
          by (rule ret_bind [OF holds_gain(3) [OF h aux [OF h]]]) (use assms(4) 2(2) in \<open>auto intro!: ret_handshake\<close>)
      qed
    qed (simp_all add: assms(3))
  qed simp
qed

lemma ret_client_connect:
  assumes "holds w0 t w" and "tf_ctrl t = -1" and "tf_data t = -1" and "tf_aux t = -1"
  shows "ret (\<lambda>(ok, t', w'). holds w0 t' w') (client_connect pton t w)"
proof -
  note g = holds_gain [OF _ ret_connect_host [OF holds_owns]] and g3 = holds_gain(3) [OF _ ret_connect_once [OF holds_owns]]
  show ?thesis unfolding client_connect_def
  proof (rule ret_gain_step [OF g(1) [OF assms(1,1,2)]], goal_cases)
    case (2 fd w)
    show ?case
    proof (rule ret_gain_step [OF g(2) [OF 2(1,1)]], goal_cases)
      case (3 fd' w)
      show ?case by (rule ret_bind [OF g3 [OF 3(1,1)]]) (use assms(4) 2(2) in \<open>auto intro!: ret_handshake\<close>)
    qed (simp_all add: assms(3))
  qed simp
qed

lemma holds_init: "owns w0 {} 2 w \<Longrightarrow> holds w0 (fds_init cfg) w"
proof -
  have "fd_set (fds_init cfg) = {}" by (auto simp: fds_init_def fd_set_def fd_list_def)
  then show "owns w0 {} 2 w \<Longrightarrow> holds w0 (fds_init cfg) w" by (simp add: holds_def fds_init_def fd_list_def)
qed

lemma ret_setup:
  assumes "owns w0 {} 2 w"
  shows "ret (\<lambda>(ok, t, w'). holds w0 t w') (tcp_setup pton (fds_init cfg) w)"
proof -
  have init: "tf_ctrl (fds_init cfg) = -1" "tf_data (fds_init cfg) = -1" "tf_aux (fds_init cfg) = -1" "tf_ctrl_listen (fds_init cfg) = -1"
    "tf_data_listen (fds_init cfg) = -1" "tf_aux_listen (fds_init cfg) = -1" by (simp_all add: fds_init_def)
  note h = holds_init [OF assms, of cfg]
  have "ret (\<lambda>(ok, t, w'). holds w0 t w') (server_listen (fds_init cfg) w \<bind> (\<lambda>(ok, t, w). if \<not> ok then Some (False, t, w) else server_accept t w))"
    by (rule ret_bind [OF ret_server_listen [OF h init(4,5,6)]]) (auto simp: init intro: ret_server_accept)
  then show ?thesis using ret_client_connect [OF h init(1,2,3)] by (simp add: tcp_setup_def)
qed

lemma create_effect:
  assumes "os_ok w" and "transport_tcp_create pton cfg w = Some (r, w')"
  shows "case r of None \<Rightarrow> owns w {} 0 w' | Some t \<Rightarrow> holds w t w'"
proof -
  let ?P = "\<lambda>(r, w'). case r of None \<Rightarrow> owns w {} 0 w' | Some t \<Rightarrow> holds w t w'"
  have conn: "ret ?P (tcp_setup pton (fds_init cfg) w1 \<bind> (\<lambda>(ok, t, w). Some (if ok then (Some t, w) else (None, tcp_close t w))))"
    if "owns w {} 2 w1" for w1
    by (rule ret_bind [OF ret_setup [OF that]]) (auto intro: holds_close)
  have "ret ?P (os_calloc w1 \<bind> (\<lambda>(ok, w). if \<not> ok then Some (None, os_free w)
      else tcp_setup pton (fds_init cfg) w \<bind> (\<lambda>(ok, t, w). Some (if ok then (Some t, w) else (None, tcp_close t w)))))"
    if "owns w {} 1 w1" for w1
    by (rule ret_bind [OF ret_calloc [OF that]]) (use conn owns_free [of w "{}" 1] in auto)
  then have "ret ?P (transport_tcp_create pton cfg w)"
    unfolding transport_tcp_create_def by (intro ret_bind [OF ret_calloc [OF owns_start [OF assms(1)]]]) auto
  then show ?thesis using assms(2) by (simp add: ret_def)
qed

subsection \<open>Answers needed\<close>

text \<open>The answers left, timeouts aside: an accept loop passes over any number of those.\<close>

definition left :: "net_os \<Rightarrow> nat" where
  "left w = length (filter (\<lambda>a. a \<noteq> An_Timeout) (no_answers w))"

lemma left_simps [simp]:
  "left (w\<lparr>no_files := f\<rparr>) = left w" "left (w\<lparr>no_blocks := b\<rparr>) = left w" "left (w\<lparr>no_bad := x\<rparr>) = left w"
  "left (os_close fd w) = left w" "left (os_free w) = left w" "left (set_file fd fl w) = left w" "left (snd (new_fd fl w)) = left w"
  "left (close_if fd w) = left w"
  by (simp_all add: left_def os_close_def os_free_def set_file_def new_fd_def close_if_def)

text \<open>With \<open>n\<close> answers the step ends, and it uses no more than that.\<close>

definition needs :: "('x \<Rightarrow> net_os) \<Rightarrow> nat \<Rightarrow> 'x option \<Rightarrow> net_os \<Rightarrow> bool" where
  "needs out n m w \<longleftrightarrow> (n \<le> left w \<longrightarrow> (\<exists>x. m = Some x \<and> left w \<le> left (out x) + n))"

lemma needs_Some [simp]: "left (out x) = left w \<Longrightarrow> needs out n (Some x) w"
  by (simp add: needs_def)

lemma needs_bind:
  assumes "needs out1 a m w" and "\<And>x. m = Some x \<Longrightarrow> needs out b (k x) (out1 x)" and "a + b \<le> n"
  shows "needs out n (m \<bind> k) w"
proof -
  { assume n: "n \<le> left w"
    then obtain x where x: "m = Some x" "left w \<le> left (out1 x) + a" using assms(1,3) by (auto simp: needs_def)
    then have "b \<le> left (out1 x)" using n assms(3) by linarith
    then obtain y where "k x = Some y" "left (out1 x) \<le> left (out y) + b" using assms(2) [OF x(1)] by (auto simp: needs_def)
    then have "\<exists>y. m \<bind> k = Some y \<and> left w \<le> left (out y) + n" using x assms(3) by auto }
  then show ?thesis by (simp add: needs_def)
qed

lemma needs_answer: "needs snd 1 (os_answer w) w"
  by (auto simp: needs_def os_answer_def left_def split: list.splits)

lemma needs_calls:
  "needs snd 1 (os_calloc w) w" "needs snd 1 (os_socket w) w" "needs snd 1 (os_bind fd port w) w" "needs snd 1 (os_listen fd port w) w"
  "needs snd 1 (os_accept w) w" "needs snd 1 (os_connect fd w) w"
  unfolding os_calloc_def os_socket_def os_bind_def os_listen_def os_accept_def os_connect_def
  by (rule needs_bind [OF needs_answer, where b = 0]; auto split: net_answer.splits)+

lemma needs_listen_port: "needs snd 3 (tcp_listen_port port w) w"
  unfolding tcp_listen_port_def
  by (auto intro!: needs_bind [OF needs_calls(2), where b = 2] needs_bind [OF needs_calls(3), where b = 1] needs_bind [OF needs_calls(4), where b = 0])

lemma await_poll_left:
  assumes "0 < length (filter (\<lambda>a. a \<noteq> An_Timeout) as)"
  shows "\<exists>r as'. await_poll as = Some (r, as') \<and> length (filter (\<lambda>a. a \<noteq> An_Timeout) as) = Suc (length (filter (\<lambda>a. a \<noteq> An_Timeout) as'))"
  using assms by (induction as rule: await_poll.induct) auto

lemma needs_accept_poll: "needs snd 2 (accept_poll_fd w) w"
proof -
  have a: "needs (\<lambda>(r, as). w\<lparr>no_answers := as\<rparr>) 1 (await_poll (no_answers w)) w"
  proof (cases "1 \<le> left w")
    case True
    then show ?thesis using await_poll_left [of "no_answers w"] by (auto simp: needs_def left_def simp del: length_greater_0_conv)
  qed (simp add: needs_def)
  show ?thesis unfolding accept_poll_fd_def
    by (rule needs_bind [OF a, where b = 1]) (auto intro: needs_calls(5) [simplified])
qed

lemma needs_connect_loop: "needs snd (2 * n) (connect_loop n fd w) w"
proof (induction n arbitrary: fd w)
  case (Suc n)
  have "needs snd (2 * Suc n) (os_connect fd w \<bind> (\<lambda>(r, w). case r of Conn_Ok \<Rightarrow> Some (fd, w) | Conn_Err \<Rightarrow> Some (-1, os_close fd w)
     | Conn_Refused \<Rightarrow> os_socket (os_close fd w) \<bind> (\<lambda>(fd, w). if fd < 0 then Some (-1, w) else connect_loop n fd w))) w"
  proof (rule needs_bind [OF needs_calls(6), where b = "1 + 2 * n"], clarify)
    fix r w1
    have "needs snd (1 + 2 * n) (os_socket (os_close fd w1) \<bind> (\<lambda>(fd, w). if fd < 0 then Some (-1, w) else connect_loop n fd w)) (os_close fd w1)"
      by (rule needs_bind [OF needs_calls(2), where b = "2 * n"]) (auto simp: Suc.IH)
    then show "needs snd (1 + 2 * n) (case r of Conn_Ok \<Rightarrow> Some (fd, w1) | Conn_Err \<Rightarrow> Some (-1, os_close fd w1)
     | Conn_Refused \<Rightarrow> os_socket (os_close fd w1) \<bind> (\<lambda>(fd, w). if fd < 0 then Some (-1, w) else connect_loop n fd w)) (snd (r, w1))"
      by (cases r) (simp_all add: needs_def)
  qed simp
  moreover have "connect_loop (Suc n) fd w = os_connect fd w \<bind> (\<lambda>(r, w). case r of Conn_Ok \<Rightarrow> Some (fd, w) | Conn_Err \<Rightarrow> Some (-1, os_close fd w)
     | Conn_Refused \<Rightarrow> os_socket (os_close fd w) \<bind> (\<lambda>(fd, w). if fd < 0 then Some (-1, w) else connect_loop n fd w))"
    by (auto split: option.splits connect_result.splits)
  ultimately show ?case by simp
qed simp

lemma needs_connect_host: "needs snd 61 (connect_host_fd pton host w) w"
  unfolding connect_host_fd_def using needs_connect_loop [of 30]
  by (intro needs_bind [OF needs_calls(2), where b = 60]) auto

lemma needs_connect_once: "needs snd 2 (connect_once_fd pton host w) w"
  unfolding connect_once_fd_def
  by (auto intro!: needs_bind [OF needs_calls(2), where b = 1] needs_bind [OF needs_calls(6), where b = 0])

text \<open>A descriptor with a connection behind it; it stays one while others come.\<close>

definition conn :: "int \<Rightarrow> net_os \<Rightarrow> bool" where
  "conn fd w \<longleftrightarrow> sock_at w fd \<noteq> None"

lemma gains_conn:
  assumes "gains w {} 0 fd w'" and "conn x w"
  shows "conn x w'"
proof -
  have "no_files w x \<noteq> None" using assms(2) by (cases "no_files w x") (simp_all add: conn_def sock_at_def)
  then have "no_files w' x = no_files w x" using assms(1) by (cases "x = fd") (auto simp: gains_def owns_def split: if_splits)
  then show ?thesis using assms(2) by (simp add: conn_def sock_at_def)
qed

lemma gains_ok: "gains w F b fd w' \<Longrightarrow> os_ok w'"
  by (auto simp: gains_def owns_ok split: if_splits)

lemma conn_set [simp]: "conn fd (set_file fd (Nf_Conn s) w)"
  by (simp add: conn_def sock_at_def set_file_def)

lemma conn_accept: "os_accept w = Some (fd, w') \<Longrightarrow> 0 \<le> fd \<Longrightarrow> conn fd w'"
  by (auto simp: os_accept_def os_answer_def conn_def sock_at_def new_fd_def split: list.splits net_answer.splits)

lemma conn_accept_poll: "accept_poll_fd w = Some (fd, w') \<Longrightarrow> 0 \<le> fd \<Longrightarrow> conn fd w'"
  by (auto simp: accept_poll_fd_def conn_accept split: bind_splits if_splits)

lemma conn_connect: "os_connect fd w = Some (Conn_Ok, w') \<Longrightarrow> conn fd w'"
  by (auto simp: os_connect_def os_answer_def split: list.splits net_answer.splits)

lemma conn_connect_loop: "connect_loop n fd w = Some (fd', w') \<Longrightarrow> 0 \<le> fd' \<Longrightarrow> conn fd' w'"
  by (induction n arbitrary: fd w) (auto simp: conn_connect split: option.splits connect_result.splits if_splits)

lemma conn_connect_host: "connect_host_fd pton host w = Some (fd, w') \<Longrightarrow> 0 \<le> fd \<Longrightarrow> conn fd w'"
  by (auto simp: connect_host_fd_def conn_connect_loop split: bind_splits if_splits)

text \<open>So the handshake finds its connections.\<close>

lemma needs_handshake:
  assumes "conn (tf_ctrl t) w" and "conn (tf_data t) w"
  shows "needs (\<lambda>(ok, t, w). w) 0 (fds_handshake hs t w) w"
proof -
  have l: "left (snd (close_unused p t w)) = left w" for p t w
    by (simp add: close_unused_def Let_def)
  obtain c d where "sock_at w (tf_ctrl t) = Some c" "sock_at w (tf_data t) = Some d" using assms by (auto simp: conn_def)
  then show ?thesis using l by (auto simp: fds_handshake_def needs_def case_prod_beta)
qed

lemma needs_server_listen: "needs (\<lambda>(ok, t, w). w) 9 (server_listen t w) w"
proof -
  obtain a b c where p: "tf_ports t = (a, b, c)" by (cases "tf_ports t") auto
  show ?thesis unfolding server_listen_def p prod.case
  proof (rule needs_bind [OF needs_listen_port, where b = 6], clarsimp simp: Let_def)
    fix x w
    show "needs (\<lambda>(ok, t, w). w) 6 (tcp_listen_port b w \<bind> (\<lambda>(fd, w). if fd < 0 then Some (False, t\<lparr>tf_ctrl_listen := x, tf_data_listen := fd\<rparr>, w)
      else tcp_listen_port c w \<bind> (\<lambda>(fd', w). Some (0 \<le> fd', t\<lparr>tf_ctrl_listen := x, tf_data_listen := fd, tf_aux_listen := fd'\<rparr>, w)))) w"
      by (rule needs_bind [OF needs_listen_port, where b = 3]) (auto intro!: needs_bind [OF needs_listen_port, where b = 0])
  qed simp
qed

lemma gains_some: "ret (\<lambda>(fd, w'). gains w0 F b fd w') m \<Longrightarrow> m = Some (fd, w') \<Longrightarrow> gains w0 F b fd w'"
  by (simp add: ret_def)

lemma needs_server_accept:
  assumes "os_ok w"
  shows "needs (\<lambda>(ok, t, w). w) 6 (server_accept t w) w"
  unfolding server_accept_def
proof (rule needs_bind [OF needs_accept_poll, where b = 4], clarsimp simp: Let_def)
  fix c w1 assume c: "accept_poll_fd w = Some (c, w1)" "\<not> c < 0"
  have ok1: "os_ok w1" by (rule gains_ok [OF gains_some [OF ret_accept_poll [OF owns_start [OF assms]] c(1)]])
  have c1: "conn c w1" using conn_accept_poll [OF c(1)] c(2) by simp
  show "needs (\<lambda>(ok, t, w). w) 4 (accept_poll_fd w1 \<bind> (\<lambda>(fd, w). if fd < 0 then Some (False, t\<lparr>tf_ctrl := c, tf_data := fd\<rparr>, w)
      else os_answer w \<bind> (\<lambda>(a, w). (if a = An_Ok then os_accept w else Some (-1, w)) \<bind>
        (\<lambda>(fd', y). fds_handshake tcp_do_handshake_server (t\<lparr>tf_ctrl := c, tf_data := fd, tf_aux := fd'\<rparr>) y)))) w1"
  proof (rule needs_bind [OF needs_accept_poll, where b = 2], clarsimp)
    fix d w2 assume d: "accept_poll_fd w1 = Some (d, w2)" "\<not> d < 0"
    note g = gains_some [OF ret_accept_poll [OF owns_start [OF ok1]] d(1)]
    have c2: "conn c w2" "conn d w2" using gains_conn [OF g c1] conn_accept_poll [OF d(1)] d(2) by simp_all
    show "needs (\<lambda>(ok, t, w). w) 2 (os_answer w2 \<bind> (\<lambda>(a, w). (if a = An_Ok then os_accept w else Some (-1, w)) \<bind>
        (\<lambda>(fd', y). fds_handshake tcp_do_handshake_server (t\<lparr>tf_ctrl := c, tf_data := d, tf_aux := fd'\<rparr>) y))) w2"
    proof (rule needs_bind [OF needs_answer, where b = 1], clarify)
      fix a w3 assume a: "os_answer w2 = Some (a, w3)"
      then have ok3: "os_ok w3" and c3: "conn c w3" "conn d w3"
        using gains_ok [OF g] c2 by (auto simp: os_answer_def os_ok_def conn_def sock_at_def split: list.splits)
      let ?m = "if a = An_Ok then os_accept w3 else Some (-1, w3)"
      have n: "needs snd 1 ?m w3" using needs_calls(5) [of w3] by (simp add: needs_def)
      have k: "conn c y \<and> conn d y" if "?m = Some (fd', y)" for fd' y
      proof (cases "a = An_Ok")
        case True
        then have "gains w3 {} 0 fd' y" using that gains_some [OF ret_accept [OF owns_start [OF ok3]]] by simp
        then show ?thesis using gains_conn c3 by blast
      qed (use that c3 in simp)
      show "needs (\<lambda>(ok, t, w). w) 1 (?m \<bind>
        (\<lambda>(fd', y). fds_handshake tcp_do_handshake_server (t\<lparr>tf_ctrl := c, tf_data := d, tf_aux := fd'\<rparr>) y)) (snd (a, w3))"
        unfolding snd_conv by (rule needs_bind [OF n, where b = 0]) (use k needs_handshake in auto)
    qed simp
  qed simp
qed simp

lemma needs_client_connect:
  assumes "os_ok w"
  shows "needs (\<lambda>(ok, t, w). w) 124 (client_connect pton t w) w"
  unfolding client_connect_def
proof (rule needs_bind [OF needs_connect_host, where b = 63], clarsimp simp: Let_def)
  fix c w1 assume c: "connect_host_fd pton (tf_remote_host t) w = Some (c, w1)" "\<not> c < 0"
  have ok1: "os_ok w1" by (rule gains_ok [OF gains_some [OF ret_connect_host [OF owns_start [OF assms]] c(1)]])
  have c1: "conn c w1" using conn_connect_host [OF c(1)] c(2) by simp
  show "needs (\<lambda>(ok, t, w). w) 63 (connect_host_fd pton (tf_remote_host t) w1 \<bind> (\<lambda>(fd, w). if fd < 0 then Some (False, t\<lparr>tf_ctrl := c, tf_data := fd\<rparr>, w)
      else connect_once_fd pton (tf_remote_host (t\<lparr>tf_ctrl := c, tf_data := fd\<rparr>)) w \<bind>
        (\<lambda>(fd', y). fds_handshake tcp_do_handshake_client (t\<lparr>tf_ctrl := c, tf_data := fd, tf_aux := fd'\<rparr>) y))) w1"
  proof (rule needs_bind [OF needs_connect_host, where b = 2], clarsimp)
    fix d w2 assume d: "connect_host_fd pton (tf_remote_host t) w1 = Some (d, w2)" "\<not> d < 0"
    note g = gains_some [OF ret_connect_host [OF owns_start [OF ok1]] d(1)]
    have c2: "conn c w2" "conn d w2" using gains_conn [OF g c1] conn_connect_host [OF d(1)] d(2) by simp_all
    have k: "conn c y \<and> conn d y" if "connect_once_fd pton (tf_remote_host t) w2 = Some (fd', y)" for fd' y
      using gains_conn [OF gains_some [OF ret_connect_once [OF owns_start [OF gains_ok [OF g]]] that]] c2 by blast
    show "needs (\<lambda>(ok, t, w). w) 2 (connect_once_fd pton (tf_remote_host t) w2 \<bind>
        (\<lambda>(fd', y). fds_handshake tcp_do_handshake_client (t\<lparr>tf_ctrl := c, tf_data := d, tf_aux := fd'\<rparr>) y)) w2"
      by (rule needs_bind [OF needs_connect_once, where b = 0]) (use k needs_handshake in auto)
  qed simp
qed simp

lemma ok_server_listen:
  assumes "os_ok w"
  shows "ret (\<lambda>(ok, t', w'). os_ok w') (server_listen t w)"
proof -
  obtain a b c where p: "tf_ports t = (a, b, c)" by (cases "tf_ports t") auto
  have ok: "os_ok w \<Longrightarrow> ret (\<lambda>(fd, w'). os_ok w') (tcp_listen_port port w)" for port w
    using ret_listen_port [OF owns_start [of w]] gains_ok by (fastforce simp: ret_def)
  show ?thesis unfolding server_listen_def p prod.case
    by (auto simp: Let_def intro!: ret_bind [OF ok] assms)
qed

lemma needs_setup:
  assumes "os_ok w"
  shows "needs (\<lambda>(ok, t, w). w) 124 (tcp_setup pton t w) w"
proof -
  have "needs (\<lambda>(ok, t, w). w) 124 (server_listen t w \<bind> (\<lambda>(ok, t, w). if \<not> ok then Some (False, t, w) else server_accept t w)) w"
    if "\<And>ok t' w'. server_listen t w = Some (ok, t', w') \<Longrightarrow> os_ok w'"
    by (rule needs_bind [OF needs_server_listen, where b = 6]) (use needs_server_accept that in auto)
  moreover have "os_ok w'" if "server_listen t w = Some (ok, t', w')" for ok t' w'
    using ok_server_listen [OF assms, of t] that by (simp add: ret_def)
  ultimately show ?thesis using needs_client_connect [OF assms] by (simp add: tcp_setup_def)
qed

lemma create_returns:
  assumes "os_ok w"
  shows "needs snd 126 (transport_tcp_create pton cfg w) w"
proof -
  have ok: "os_ok w' \<and> left w' = left w'" if "os_calloc w1 = Some (a, w')" "os_ok w1" for w1 a w'
    using that by (auto simp: os_calloc_def os_answer_def os_ok_def split: list.splits if_splits)
  have c: "left (tcp_close t w) = left w" for t w by (simp add: tcp_close_def)
  have s: "needs snd 124 (tcp_setup pton (fds_init cfg) w1 \<bind> (\<lambda>(ok, t, w). Some (if ok then (Some t, w) else (None, tcp_close t w)))) w1"
    if "os_ok w1" for w1 by (rule needs_bind [OF needs_setup [OF that], where b = 0]) (auto simp: c)
  have "needs snd 125 (os_calloc w1 \<bind> (\<lambda>(ok, w). if \<not> ok then Some (None, os_free w) else tcp_setup pton (fds_init cfg) w
      \<bind> (\<lambda>(ok, t, w). Some (if ok then (Some t, w) else (None, tcp_close t w))))) w1" if "os_ok w1" for w1
    by (rule needs_bind [OF needs_calls(1), where b = 124]) (use ok [OF _ that] s in auto)
  then show ?thesis unfolding transport_tcp_create_def
    by (intro needs_bind [OF needs_calls(1), where b = 125]) (use ok [OF _ assms] in auto)
qed

subsection \<open>A transport that is handed out is connected\<close>

lemma handshake_ready:
  "tcp_do_handshake_server p = (r, p') \<Longrightarrow> 0 \<le> r \<Longrightarrow> tp_peer_is_ready p'"
  "tcp_do_handshake_client p = (r, p') \<Longrightarrow> 0 \<le> r \<Longrightarrow> tp_peer_is_ready p'"
  by (auto simp: tcp_do_handshake_server_def server_accept_ack_def tcp_do_handshake_client_def client_accept_def Let_def
      split: prod.splits option.splits if_splits)

definition connected :: "tcp_fds \<Rightarrow> bool" where
  "connected t \<longleftrightarrow> tf_peer_is_ready t \<and> 0 \<le> tf_ctrl t \<and> 0 \<le> tf_data t"

lemma connected_handshake:
  assumes "\<And>p r p'. hs p = (r, p') \<Longrightarrow> 0 \<le> r \<Longrightarrow> tp_peer_is_ready p'" and "0 \<le> tf_ctrl t" and "0 \<le> tf_data t"
  shows "ret (\<lambda>(ok, t', w'). ok \<longrightarrow> connected t') (fds_handshake hs t w)"
proof -
  have c: "fst (close_unused p t w) = t\<lparr>tf_aux := tf_aux (fst (close_unused p t w)), tf_aux_listen := tf_aux_listen (fst (close_unused p t w))\<rparr>" for p t w
    by (simp add: close_unused_def Let_def)
  have "connected (fst (close_unused p t w)) = connected t" for p t w
    by (subst c) (simp add: connected_def)
  moreover have "tp_peer_is_ready (snd (hs p))" if "0 \<le> fst (hs p)" for p using assms(1) [OF prod.collapse [symmetric] that] .
  ultimately show ?thesis using assms(2,3) unfolding fds_handshake_def
    by (intro ret_bind [of "\<lambda>_. True"]) (simp_all add: ret_def [of "\<lambda>_. True"] case_prod_beta connected_def [of "_\<lparr>tf_version := _, tf_peer_is_ready := _\<rparr>"])
qed

lemma connected_setup: "ret (\<lambda>(ok, t', w'). ok \<longrightarrow> connected t') (tcp_setup pton t w)"
proof -
  have any: "ret (\<lambda>_. True) m" for m :: "'z option" by (simp add: ret_def)
  have "ret (\<lambda>(ok, t', w'). ok \<longrightarrow> connected t') (server_accept t w)" for t w
    unfolding server_accept_def
    by (auto simp: Let_def intro!: ret_bind [OF any] connected_handshake handshake_ready(1))
  moreover have "ret (\<lambda>(ok, t', w'). ok \<longrightarrow> connected t') (client_connect pton t w)"
    unfolding client_connect_def
    by (auto simp: Let_def intro!: ret_bind [OF any] connected_handshake handshake_ready(2))
  ultimately show ?thesis unfolding tcp_setup_def by (auto intro!: ret_bind [OF any])
qed

subsection \<open>Properties\<close>

text \<open>C23: A TCP transport leaks nothing: when the creation fails, at whatever call of the kernel, every descriptor it
  opened is closed and its memory freed; when it succeeds, the handshake is done and the transport's six fields
  are all that was opened, and \<open>tcp_close\<close> restores the descriptors and the memory.  No descriptor is closed twice.\<close>

theorem tcp_descriptors_balanced:
  assumes "os_ok w" and "transport_tcp_create pton cfg w = Some (r, w')"
  shows "case r of
      None \<Rightarrow> no_files w' = no_files w \<and> no_blocks w' = no_blocks w \<and> \<not> no_bad w'
    | Some t \<Rightarrow> connected t \<and> \<not> no_bad w' \<and> (\<forall>fd. fd \<notin> set (fd_list t) \<longrightarrow> no_files w' fd = no_files w fd)
        \<and> no_files (tcp_close t w') = no_files w \<and> no_blocks (tcp_close t w') = no_blocks w \<and> \<not> no_bad (tcp_close t w')"
proof (cases r)
  case None
  then have o: "owns w {} 0 w'" using create_effect [OF assms] by simp
  then have "no_blocks w' = no_blocks w \<and> \<not> no_bad w'" by (simp add: owns_def)
  then show ?thesis using None owns_files [OF o] by simp
next
  case (Some t)
  then have h: "holds w t w'" using create_effect [OF assms] by simp
  have any: "ret (\<lambda>_. True) m" for m :: "'z option" by (simp add: ret_def)
  have "ret (\<lambda>(r, w'). \<forall>t. r = Some t \<longrightarrow> connected t) (transport_tcp_create pton cfg w)"
    unfolding transport_tcp_create_def by (auto simp: case_prod_beta intro!: ret_bind [OF any] ret_bind [OF connected_setup])
  then have c: "connected t" using assms(2) Some by (simp add: ret_def)
  have o: "owns w {} 0 (tcp_close t w')" by (rule holds_close [OF h])
  have "no_files w' fd = no_files w fd" if "fd \<notin> set (fd_list t)" for fd
    using that holds_owns [OF h] by (simp add: owns_def fd_set_def)
  moreover have "no_blocks (tcp_close t w') = no_blocks w \<and> \<not> no_bad (tcp_close t w')" "\<not> no_bad w'"
    using o holds_owns [OF h] by (simp_all add: owns_def)
  ultimately show ?thesis using Some c owns_files [OF o] by simp
qed

text \<open>A client that gets its three connections, and drops the third one in the handshake.\<close>

definition os_example :: net_os where
  "os_example = \<lparr>no_files = Map.empty, no_next = 3, no_blocks = 0,
     no_answers = [An_Ok, An_Ok, An_Ok, An_Conn (tp_ctrl hs_client), An_Ok, An_Conn (tp_data hs_client), An_Ok, An_Conn (fresh_sock [])],
     no_bad = False\<rparr>"

definition cfg_example :: transport_cfg where
  "cfg_example = \<lparr>cg_transport = Some ''tcp'', cg_remote_host = Some ''10.0.0.1'', cg_listen_addr = None, cg_port_base = 0,
     cg_instance_id = 0, cg_is_server = False\<rparr>"

lemma hs_client_succeeds: "\<exists>p. tcp_do_handshake_client hs_client = (0, p) \<and> tp_aux p = None"
proof -
  obtain rs srv' where s: "tcp_do_handshake_server hs_server = (rs, srv')" by fastforce
  obtain rcl cli' where c: "tcp_do_handshake_client hs_client = (rcl, cli')" by fastforce
  have "healthy (tp_ctrl hs_server)" "healthy (tp_ctrl hs_client)" "sk_out (tp_ctrl hs_server) = []"
    "sk_out (tp_ctrl hs_client) = []" "sk_in (tp_ctrl hs_client) = hs_bytes 2" "sk_in (tp_ctrl hs_server) = hs_bytes 2"
    "tp_aux hs_server = None"
    by (simp_all add: hs_server_def hs_client_def priv_init_def fresh_sock_def healthy_def)
  then show ?thesis
    using handshake_agrees [OF _ _ _ _ s c] hs_server_out [OF s] hs_client_out [OF c] c by simp
qed

lemma tf_example: "tf_remote_host (fds_init cfg_example) = ''10.0.0.1''" "\<not> tf_is_server (fds_init cfg_example)"
  by (simp_all add: fds_init_def cfg_example_def)

lemma example_connects:
  "\<exists>t w'. transport_tcp_create (\<lambda>_. True) cfg_example os_example = Some (Some t, w') \<and> fd_list t = [3, 4, -1, -1, -1, -1]"
proof -
  obtain p where p: "tcp_do_handshake_client hs_client = (0, p)" "tp_aux p = None" using hs_client_succeeds by blast
  define w0 where "w0 = os_example\<lparr>no_answers := drop 2 (no_answers os_example), no_blocks := 2\<rparr>"
  have priv: "priv_init False (tp_ctrl hs_client) (tp_data hs_client) (Some (fresh_sock [])) = hs_client"
    by (simp add: hs_client_def priv_init_def)
  have loop: "connect_loop 30 fd w = (case os_connect fd w of
     None \<Rightarrow> None
   | Some (Conn_Ok, w) \<Rightarrow> Some (fd, w)
   | Some (Conn_Err, w) \<Rightarrow> Some (-1, os_close fd w)
   | Some (Conn_Refused, w) \<Rightarrow> (case os_socket (os_close fd w) of
       None \<Rightarrow> None
     | Some (fd, w) \<Rightarrow> if fd < 0 then Some (-1, w) else connect_loop 29 fd w))" for fd w
  proof -
    have "(30::nat) = Suc 29" by simp
    then show ?thesis by (simp only: connect_loop.simps)
  qed
  note os = os_answer_def os_socket_def os_connect_def new_fd_def set_file_def connect_host_fd_def connect_once_fd_def loop
  have c: "\<exists>t w'. client_connect (\<lambda>_. True) (fds_init cfg_example) w0 = Some (True, t, w') \<and> fd_list t = [3, 4, -1, -1, -1, -1]"
    unfolding client_connect_def tf_example w0_def os_example_def
    by (simp add: os fds_handshake_def sock_at_def priv p fds_init_def cfg_example_def close_unused_def close_if_def fd_list_def)
  have "transport_tcp_create (\<lambda>_. True) cfg_example os_example = tcp_setup (\<lambda>_. True) (fds_init cfg_example) w0
      \<bind> (\<lambda>(ok, t, w). Some (if ok then (Some t, w) else (None, tcp_close t w)))"
    by (simp add: transport_tcp_create_def os_calloc_def os_answer_def os_example_def w0_def)
  then show ?thesis using c by (auto simp: tcp_setup_def tf_example)
qed

theorem tcp_descriptors_balanced_witness:
  "\<exists>t w'. transport_tcp_create (\<lambda>_. True) cfg_example os_example = Some (Some t, w') \<and> connected t
     \<and> no_files (tcp_close t w') = no_files os_example \<and> no_blocks (tcp_close t w') = 0"
proof -
  obtain t w' where t: "transport_tcp_create (\<lambda>_. True) cfg_example os_example = Some (Some t, w')" using example_connects by blast
  have "os_ok os_example" "no_blocks os_example = 0" by (simp_all add: os_ok_def os_example_def)
  then show ?thesis using tcp_descriptors_balanced [OF _ t] t by simp
qed



end
