(* ===== verification/Mmio_Link.thy ===== *)
theory Mmio_Link
  imports Pcie_Pf_Access Vcs_Dpi
begin

section \<open>From the guest to the simulator's driver and back\<close>

text \<open>
  MMIO through both programs: the PF of cosim\_pcie\_pf.c on one end of a TCP connection and a driver that uses
  the scalar functions of bridge\_vcs.c on the other.  As in \<open>Dma_Link\<close> each side is run on the messages
  of the other, and the theorem says that what each sends is what the other was run on.
\<close>

subsection \<open>What has been sent\<close>

text \<open>The bytes sent so far on the control and the data connection; receiving leaves them alone.\<close>

definition wire :: "transport_tcp_priv \<Rightarrow> bytes \<times> bytes" where
  "wire p = (sk_out (tp_ctrl p), sk_out (tp_data p))"

lemma tcp_recv_msg_out: "sk_out (snd (tcp_recv_msg ty c n dec s)) = sk_out s"
  using tcp_recv_all_out [of 8 s] tcp_recv_all_out [of n "snd (tcp_recv_all 8 s)"]
  by (auto simp: tcp_recv_msg_def tcp_recv_hdr_def tcp_recv_body_def split: prod.splits option.splits)

lemma tcp_recv_timed_out: "sk_out (snd (tcp_recv_timed n s)) = sk_out s"
proof -
  obtain e s1 where p: "sk_poll s = (e, s1)" by fastforce
  then have "sk_out s1 = sk_out s" by (auto simp: sk_poll_def split: list.splits)
  then show ?thesis
    using p tcp_recv_all_out [of n s1] by (cases e) (auto simp: tcp_recv_timed_def split: prod.splits option.splits)
qed

lemma sync_timed_out:
  "sk_out (snd (case tcp_recv_timed 8 s of
        (Failed, s1) \<Rightarrow> (Failed, s1)
      | (Nothing, s1) \<Rightarrow> (Nothing, s1)
      | (Got hb, s1) \<Rightarrow>
          if h_msg_type (dec_hdr hb) \<noteq> msg_code TCP_MSG_SYNC \<or> h_payload_len (dec_hdr hb) \<noteq> 8
          then (Failed, s1) else tcp_recv_body 8 dec_sync s1)) = sk_out s"
  using tcp_recv_timed_out [of 8 s] tcp_recv_all_out [of 8 "snd (tcp_recv_timed 8 s)"]
  by (auto simp: tcp_recv_body_def split: prod.splits recvd.splits option.splits)

lemma wire_on: "sk_out (snd (f (tp_ctrl p))) = sk_out (tp_ctrl p) \<Longrightarrow> wire (snd (on_ctrl f p)) = wire p"
  "sk_out (snd (g (tp_data p))) = sk_out (tp_data p) \<Longrightarrow> wire (snd (on_data g p)) = wire p"
  by (simp_all add: wire_def on_ctrl_def on_data_def case_prod_beta)

lemma tcp_recv_wire:
  "tr_recv_sync tcp_transport p = (m, p1) \<Longrightarrow> wire p1 = wire p"
  "tr_recv_cpl tcp_transport p = (c, p1) \<Longrightarrow> wire p1 = wire p"
  "tr_recv_tlp tcp_transport p = (t, p1) \<Longrightarrow> wire p1 = wire p"
  "tr_recv_sync_timed tcp_transport timeout p = (m, p1) \<Longrightarrow> wire p1 = wire p"
proof -
  have w: "wire (snd (tcp_recv_sync p)) = wire p" "wire (snd (tcp_recv_cpl p)) = wire p" "wire (snd (tcp_recv_tlp p)) = wire p"
    "wire (snd (tcp_recv_sync_timed timeout p)) = wire p"
    unfolding tcp_recv_sync_def tcp_recv_cpl_def tcp_recv_tlp_def tcp_recv_sync_timed_def
    by (rule wire_on, rule tcp_recv_msg_out sync_timed_out)+
  then show "tr_recv_sync tcp_transport p = (m, p1) \<Longrightarrow> wire p1 = wire p"
    "tr_recv_cpl tcp_transport p = (c, p1) \<Longrightarrow> wire p1 = wire p"
    "tr_recv_tlp tcp_transport p = (t, p1) \<Longrightarrow> wire p1 = wire p"
    "tr_recv_sync_timed tcp_transport timeout p = (m, p1) \<Longrightarrow> wire p1 = wire p"
    by (simp_all add: tcp_transport_def)
qed

text \<open>So the sources of completions and of TLPs over TCP are sources also with what was sent kept fixed.\<close>

definition quiet_inbox :: "bytes \<times> bytes \<Rightarrow> transport_tcp_priv bridge_ctx \<Rightarrow> sync_msg list \<Rightarrow> cpl_entry list \<Rightarrow> bool" where
  "quiet_inbox sent ctx ms cs \<longleftrightarrow> tcp_inbox ctx ms cs \<and> map_option wire (bc_transport ctx) = Some sent"

interpretation quiet_source: completion_source tcp_transport "quiet_inbox sent" for sent
proof
  fix ctx :: "transport_tcp_priv bridge_ctx" and m ms c cs f
  show "\<exists>ctx'. bc_recv_sync tcp_transport ctx = (Got m, ctx') \<and> quiet_inbox sent ctx' ms cs" if i: "quiet_inbox sent ctx (m # ms) cs"
  proof -
    obtain ctx' where c: "bc_recv_sync tcp_transport ctx = (Got m, ctx')" "tcp_inbox ctx' ms cs"
      using tcp_source.next_sync i by (fastforce simp: quiet_inbox_def)
    then have "map_option wire (bc_transport ctx') = map_option wire (bc_transport ctx)"
      using i tcp_recv_wire(1) by (fastforce simp: quiet_inbox_def bc_recv_sync_def via_def split: prod.splits)
    then show ?thesis using c i by (simp add: quiet_inbox_def del: map_option_eq_Some)
  qed
  show "\<exists>ctx'. bc_recv_cpl tcp_transport ctx = (Got c, ctx') \<and> quiet_inbox sent ctx' ms cs" if i: "quiet_inbox sent ctx ms (c # cs)"
  proof -
    obtain ctx' where c: "bc_recv_cpl tcp_transport ctx = (Got c, ctx')" "tcp_inbox ctx' ms cs"
      using tcp_source.next_cpl i by (fastforce simp: quiet_inbox_def)
    then have "map_option wire (bc_transport ctx') = map_option wire (bc_transport ctx)"
      using i tcp_recv_wire(2) by (fastforce simp: quiet_inbox_def bc_recv_cpl_def via_def split: prod.splits)
    then show ?thesis using c i by (simp add: quiet_inbox_def del: map_option_eq_Some)
  qed
  show "quiet_inbox sent (trace_if f ctx) ms cs" if "quiet_inbox sent ctx ms cs"
    using that tcp_source.inbox_trace [of ctx ms cs f] by (auto simp: quiet_inbox_def trace_if_def)
qed

definition quiet_tlp_inbox :: "bytes \<times> bytes \<Rightarrow> transport_tcp_priv \<Rightarrow> sync_msg list \<Rightarrow> tlp_entry list \<Rightarrow> bool" where
  "quiet_tlp_inbox sent p ms ts \<longleftrightarrow> tcp_tlp_inbox p ms ts \<and> wire p = sent"

interpretation quiet_tlps: tlp_source tcp_transport "quiet_tlp_inbox sent" for sent
proof
  fix p :: transport_tcp_priv and m ms t ts timeout
  show "\<exists>p'. tr_recv_sync_timed tcp_transport timeout p = (Got m, p') \<and> quiet_tlp_inbox sent p' ms ts" if "quiet_tlp_inbox sent p (m # ms) ts"
    using that tcp_tlps.next_msg tcp_recv_wire(4) by (fastforce simp: quiet_tlp_inbox_def)
  show "\<exists>p'. tr_recv_sync_timed tcp_transport timeout p = (Nothing, p') \<and> quiet_tlp_inbox sent p' [] ts" if "quiet_tlp_inbox sent p [] ts"
    using that tcp_tlps.no_msg tcp_recv_wire(4) by (fastforce simp: quiet_tlp_inbox_def)
  show "\<exists>p'. tr_recv_tlp tcp_transport p = (Got t, p') \<and> quiet_tlp_inbox sent p' ms ts" if "quiet_tlp_inbox sent p ms (t # ts)"
    using that tcp_tlps.next_tlp tcp_recv_wire(3) by (fastforce simp: quiet_tlp_inbox_def)
qed

subsection \<open>The guest's side\<close>

text \<open>The two requests of a write and the read that follows, with their tags.\<close>

definition write_then_read :: "u64 \<Rightarrow> nat \<Rightarrow> u64 \<Rightarrow> 'p bridge_ctx \<Rightarrow> tlp_entry list" where
  "write_then_read a sz val ctx =
     [(mmio_write_req a sz val)\<lparr>t_tag := bc_next_tag ctx AND bc_tag_mask ctx\<rparr>,
      (mmio_read_req a sz)\<lparr>t_tag := (bc_next_tag ctx + 1) AND bc_tag_mask ctx\<rparr>]"

definition note_bytes :: "sync_msg_type \<Rightarrow> bytes" where
  "note_bytes ty = msg_bytes TCP_MSG_SYNC (enc_sync (sync_of ty 0))"

definition tlp_bytes :: "tlp_entry \<Rightarrow> bytes" where
  "tlp_bytes t = msg_bytes TCP_MSG_TLP (enc_tlp t)"

definition sends_more :: "bytes \<times> bytes \<Rightarrow> bytes \<Rightarrow> bytes \<Rightarrow> bytes \<times> bytes" where
  "sends_more sent ctrl data = (fst sent @ ctrl, snd sent @ data)"

lemma send_tlp_wire:
  assumes "tcp_inbox ctx ms cs" and "bc_transport ctx = Some p"
  shows "\<exists>ctx1 p1. bridge_send_tlp tcp_transport req ctx = (0, req\<lparr>t_tag := bc_next_tag ctx AND bc_tag_mask ctx\<rparr>, ctx1)
    \<and> tcp_inbox ctx1 ms cs \<and> bc_transport ctx1 = Some p1
    \<and> wire p1 = sends_more (wire p) (note_bytes SYNC_MSG_TLP_READY) (tlp_bytes (req\<lparr>t_tag := bc_next_tag ctx AND bc_tag_mask ctx\<rparr>))"
  using tcp_send_tlp_done [OF assms, of req]
  by (auto simp: wire_def sends_more_def note_bytes_def tlp_bytes_def)

lemma write_wire:
  assumes "tcp_inbox ctx ms cs" and "bc_transport ctx = Some p"
  shows "\<exists>ctx1 p1. mmio_write_via tcp_transport a val sz ctx = ctx1 \<and> tcp_inbox ctx1 ms cs \<and> bc_transport ctx1 = Some p1
    \<and> bc_next_tag ctx1 = (bc_next_tag ctx + 1) AND bc_tag_mask ctx \<and> bc_tag_mask ctx1 = bc_tag_mask ctx
    \<and> wire p1 = sends_more (wire p) (note_bytes SYNC_MSG_TLP_READY)
        (tlp_bytes ((mmio_write_req a sz val)\<lparr>t_tag := bc_next_tag ctx AND bc_tag_mask ctx\<rparr>))"
proof -
  from send_tlp_wire [OF assms, of "mmio_write_req a sz val"] obtain ctx1 p1
    where s: "bridge_send_tlp tcp_transport (mmio_write_req a sz val) ctx
        = (0, (mmio_write_req a sz val)\<lparr>t_tag := bc_next_tag ctx AND bc_tag_mask ctx\<rparr>, ctx1)"
      "tcp_inbox ctx1 ms cs" "bc_transport ctx1 = Some p1"
      "wire p1 = sends_more (wire p) (note_bytes SYNC_MSG_TLP_READY)
        (tlp_bytes ((mmio_write_req a sz val)\<lparr>t_tag := bc_next_tag ctx AND bc_tag_mask ctx\<rparr>))" by blast
  then show ?thesis
    using send_tlp_tag [OF s(1)] by (auto simp: mmio_write_via_def bridge_send_tlp_fire_def)
qed

lemma read_wire:
  assumes "tcp_inbox ctx [sync_of SYNC_MSG_CPL_READY 0] [c]" and "bc_transport ctx = Some p"
    and "c_tag c = bc_next_tag ctx AND bc_tag_mask ctx"
  shows "\<exists>ctx1 p1. mmio_read_via tcp_transport a sz ctx = (lane_value sz (low2 a) (data_dword (c_data c)), ctx1)
    \<and> bc_transport ctx1 = Some p1
    \<and> wire p1 = sends_more (wire p) (note_bytes SYNC_MSG_TLP_READY) (tlp_bytes ((mmio_read_req a sz)\<lparr>t_tag := c_tag c\<rparr>))"
proof -
  from send_tlp_wire [OF assms(1,2), of "mmio_read_req a sz"] obtain ctx1 p1
    where s: "bridge_send_tlp tcp_transport (mmio_read_req a sz) ctx = (0, (mmio_read_req a sz)\<lparr>t_tag := c_tag c\<rparr>, ctx1)"
      "tcp_inbox ctx1 [sync_of SYNC_MSG_CPL_READY 0] [c]" "bc_transport ctx1 = Some p1"
      "wire p1 = sends_more (wire p) (note_bytes SYNC_MSG_TLP_READY) (tlp_bytes ((mmio_read_req a sz)\<lparr>t_tag := c_tag c\<rparr>))"
    unfolding assms(3) by blast
  then have "quiet_inbox (wire p1) ctx1 ([sync_of SYNC_MSG_CPL_READY 0] @ []) ([] @ c # [])" by (simp add: quiet_inbox_def)
  from quiet_source.wait_completion_finds [OF this, of "c_tag c" cpl_zero] obtain ctx2
    where "bridge_wait_completion tcp_transport (c_tag c) cpl_zero ctx1 = (0, c, ctx2)" "quiet_inbox (wire p1) ctx2 [] []" by auto
  then show ?thesis using s by (auto simp: mmio_read_via_def bridge_send_tlp_and_wait_def quiet_inbox_def)
qed

subsection \<open>The driver's side\<close>

text \<open>A DWORD register of a card that honours the byte enables, after the write that a driver has seen.\<close>

definition card_register :: "tlp_view \<Rightarrow> u32 \<Rightarrow> u32" where
  "card_register v old = merge_lanes (tv_first_be v) (le_bytes 4 (tv_words v ! 0)) old"

lemma le_bytes_dword: "le_bytes n w = dword_bytes n w"
proof (induction n arbitrary: w)
  case (Suc n)
  have "map (\<lambda>i. ucast (drop_bit (8 * i) w AND 0xFF) :: u8) [Suc 0..<Suc n] = dword_bytes n (drop_bit 8 w)"
    by (simp add: dword_bytes_def map_Suc_upt [symmetric] comp_def add.commute del: upt_Suc)
  moreover have "ucast (w AND 0xFF) = (ucast w :: u8)" by (rule bit_word_eqI) (auto simp: bit_simps and_mask_literals)
  ultimately show ?case using Suc.IH by (simp add: dword_bytes_def upt_conv_Cons le_bytes.simps del: upt_Suc)
qed (simp add: dword_bytes_def le_bytes.simps)

lemma card_register_write:
  assumes "low2 a + sz \<le> 4"
  shows "lane_value sz (low2 a) (card_register (view_of ((mmio_write_req a sz val)\<lparr>t_tag := tag\<rparr>)) old) = take_bit (8 * sz) val"
proof -
  let ?w = "push_bit (low2 a * 8) (ucast val) :: u32"
  have d: "t_data (mmio_write_req a sz val) = dword_bytes 4 ?w @ replicate 60 0"
    by (simp add: mmio_write_req_def blit_def)
  have "tv_words (view_of ((mmio_write_req a sz val)\<lparr>t_tag := tag\<rparr>)) ! 0 = le_word (field 0 4 (t_data (mmio_write_req a sz val)))"
    by (simp add: view_of_def view_words_def mmio_write_req_def mmio_req_def)
  also have "\<dots> = ?w" unfolding d by (simp add: field_def le_bytes_dword [symmetric])
  finally have "card_register (view_of ((mmio_write_req a sz val)\<lparr>t_tag := tag\<rparr>)) old
      = merge_lanes (byte_enables sz (low2 a)) (dword_bytes 4 ?w) old"
    by (simp add: card_register_def le_bytes_dword) (simp add: view_of_def)
  then show ?thesis using write_read_lanes [OF assms] by simp
qed

lemma one_word_completion: "ws \<noteq> [] \<Longrightarrow> make_completion tag (ws[0 := w]) 4 = make_completion tag [w] 4"
  by (cases ws) (simp_all add: make_completion_def cpl_words_def COSIM_TLP_DATA_SIZE_def)

lemma make_completion_word: "data_dword (c_data (make_completion tag [w] 4)) = w" "c_tag (make_completion tag [w] 4) = of_int tag"
  by (simp_all add: make_completion_def cpl_words_def COSIM_TLP_DATA_SIZE_def le_bytes_dword)

lemma scalar_reply:
  assumes "dpi_ok d" and "rc_ok rc" and "rc_transport (rc_at rc d) = Some p" and "tcp_tlp_inbox p ms ts"
  shows "\<exists>d' p'. bridge_vcs_send_cpl_scalar_rc tcp_transport rc tag 4 (bridge_vcs_set_cpl_data_rc rc 0 w d) = (0, d')
    \<and> rc_transport (rc_at rc d') = Some p'
    \<and> wire p' = sends_more (wire p) (note_bytes SYNC_MSG_CPL_READY) (msg_bytes TCP_MSG_CPL (enc_cpl (make_completion tag [w] 4)))"
proof -
  let ?c = "make_completion tag [w] 4" and ?m = "sync_of SYNC_MSG_CPL_READY 0"
  have h: "healthy (tp_ctrl p)" "healthy (tp_data p)" using assms(4) by (simp_all add: tcp_tlp_inbox_def tlp_stream.awaits_def)
  from on_data_sends [OF sends_msg h(2), of TCP_MSG_CPL "enc_cpl ?c"] obtain s
    where s: "tr_send_cpl tcp_transport ?c p = (0, p\<lparr>tp_data := s\<rparr>)" "sk_out s = sk_out (tp_data p) @ msg_bytes TCP_MSG_CPL (enc_cpl ?c)"
    by (auto simp: tcp_transport_def tcp_send_cpl_def)
  from on_ctrl_sends [OF sends_msg, of "p\<lparr>tp_data := s\<rparr>" TCP_MSG_SYNC "enc_sync ?m"] h(1) obtain c
    where c: "tr_send_sync tcp_transport ?m (p\<lparr>tp_data := s\<rparr>) = (0, p\<lparr>tp_data := s, tp_ctrl := c\<rparr>)"
      "sk_out c = sk_out (tp_ctrl p) @ note_bytes SYNC_MSG_CPL_READY"
    by (auto simp: tcp_transport_def tcp_send_sync_def note_bytes_def)
  let ?ctx = "(rc_at rc d)\<lparr>rc_transport := Some (p\<lparr>tp_data := s, tp_ctrl := c\<rparr>)\<rparr>"
  let ?d = "bridge_vcs_set_cpl_data_rc rc 0 w d"
  have n: "nat rc < COSIM_MAX_RCS" using assms(2) by simp
  then have l: "length (dp_send_cpl d ! nat rc) = 16" using assms(1) by (simp add: dpi_ok_def list_all_length)
  have d: "dpi_ok ?d" "rc_at rc ?d = rc_at rc d" "dp_send_cpl ?d ! nat rc = (dp_send_cpl d ! nat rc)[0 := w]"
    using assms(1,2) n l
    by (auto simp: bridge_vcs_set_cpl_data_rc_def dpi_ok_def rc_at_def list_all_iff dest!: subsetD [OF set_update_subset_insert])
  have "dp_send_cpl d ! nat rc \<noteq> []" using l by auto
  then have "make_completion tag (dp_send_cpl ?d ! nat rc) 4 = ?c" unfolding d(3) by (rule one_word_completion)
  then have "bridge_vcs_send_cpl_scalar_rc tcp_transport rc tag 4 ?d = (0, set_rc rc ?ctx (vc_side (dp_vcs ?d)) ?d)"
    using assms(2,3) s(1) c(1) d(2) by (simp add: bridge_vcs_send_cpl_scalar_rc_def send_completion_ctx_def Let_def rc_via_def)
  moreover have "rc_at rc (set_rc rc ?ctx (vc_side (dp_vcs ?d)) ?d) = ?ctx" using rc_at_set_rc [OF d(1) assms(2,2)] by simp
  ultimately show ?thesis using s(2) c(2) by (auto simp: wire_def sends_more_def)
qed

text \<open>A poll and the view of it, what was sent unchanged.\<close>

lemma scalar_poll_quiet:
  assumes "dpi_ok d" and "rc_ok rc" and "quiet_tlps.holds_tlps sent (rc_at rc d) ms ts"
    and "cache_items (rc_at rc d) @ ts = t # rest" and "length rest < TLP_CACHE_SIZE - 1"
  shows "\<exists>d' ms' ts'. bridge_vcs_poll_tlp_scalar_rc tcp_transport rc d = Some (0, d') \<and> read_view rc d' = view_of t \<and> dpi_ok d'
    \<and> quiet_tlps.holds_tlps sent (rc_at rc d') ms' ts' \<and> cache_items (rc_at rc d') @ ts' = rest"
proof -
  from quiet_tlps.poll_delivers [OF assms(3-5), of "dp_poll d ! nat rc" "vc_side (dp_vcs d)"] obtain ctx' ms' ts'
    where p: "poll_tlp_ctx tcp_transport (dp_poll d ! nat rc) (rc_at rc d) (vc_side (dp_vcs d))
        = Some (0, return_entry t (dp_poll d ! nat rc), ctx', vc_side (dp_vcs d))"
      "quiet_tlps.holds_tlps sent ctx' ms' ts'" "cache_items ctx' @ ts' = rest" "rc_last_entry ctx' = t" by blast
  from scalar_poll_step [OF assms(1,2) p(4,1)] p(2,3) assms(2) show ?thesis by fastforce
qed

subsection \<open>Properties\<close>

text \<open>C3: MMIO through both programs.  The guest writes a value to a register of the card and reads it back.
  The two accesses send exactly the two TLPs that the simulator is run on; the driver's polls show it their
  fields; a driver that applies the write by the byte enables to the register and answers the read with the
  register under the tag it was shown sends exactly the completion that QEMU is run on; and the guest reads
  what it wrote.  This holds for accesses inside one DWORD, for any tag and any old value of the register.\<close>

theorem mmio_through_both_programs:
  assumes "bar_bridge bc w = Some a" and "cw_heap w a = Some ctx" and "bc_transport ctx = Some p"
    and "low2 (pcie_addr Q bc addr w) + sz \<le> 4"
    and "write_then_read (pcie_addr Q bc addr w) sz val ctx = [wr, rd]"
    and "make_completion (uint (t_tag rd)) [card_register (view_of wr) old] 4 = reply"
    and "tcp_inbox ctx [sync_of SYNC_MSG_CPL_READY 0] [reply]"
    and "dpi_ok d" and "rc_ok rc" and "cache_inv (rc_at rc d)" and "cache_items (rc_at rc d) = []"
    and "rc_transport (rc_at rc d) = Some ps"
    and "tcp_tlp_inbox ps [sync_of SYNC_MSG_TLP_READY 0, sync_of SYNC_MSG_TLP_READY 0] [wr, rd]"
  shows "\<exists>w1 w2 ctx2 p2 d1 d2 d3 ps3. cosim_pf_mmio_write tcp_transport Q bc addr val sz w = Some w1
    \<and> cosim_pf_mmio_read tcp_transport Q bc addr sz w1 = Some (take_bit (8 * sz) val, w2)
    \<and> cw_heap w2 a = Some ctx2 \<and> bc_transport ctx2 = Some p2
    \<and> wire p2 = sends_more (wire p) (note_bytes SYNC_MSG_TLP_READY @ note_bytes SYNC_MSG_TLP_READY) (tlp_bytes wr @ tlp_bytes rd)
    \<and> bridge_vcs_poll_tlp_scalar_rc tcp_transport rc d = Some (0, d1) \<and> read_view rc d1 = view_of wr
    \<and> bridge_vcs_poll_tlp_scalar_rc tcp_transport rc d1 = Some (0, d2) \<and> read_view rc d2 = view_of rd
    \<and> bridge_vcs_send_cpl_scalar_rc tcp_transport rc (bridge_vcs_get_poll_tag_rc rc d2) 4
        (bridge_vcs_set_cpl_data_rc rc 0 (card_register (read_view rc d1) old) d2) = (0, d3)
    \<and> rc_transport (rc_at rc d3) = Some ps3
    \<and> wire ps3 = sends_more (wire ps) (note_bytes SYNC_MSG_CPL_READY) (msg_bytes TCP_MSG_CPL (enc_cpl reply))"
proof -
  let ?a = "pcie_addr Q bc addr w"
  have tlps: "wr = (mmio_write_req ?a sz val)\<lparr>t_tag := bc_next_tag ctx AND bc_tag_mask ctx\<rparr>"
    "rd = (mmio_read_req ?a sz)\<lparr>t_tag := (bc_next_tag ctx + 1) AND bc_tag_mask ctx\<rparr>"
    using assms(5) by (simp_all add: write_then_read_def)
  have reply: "c_tag reply = (bc_next_tag ctx + 1) AND bc_tag_mask ctx" "data_dword (c_data reply) = card_register (view_of wr) old"
    using assms(6) make_completion_word tlps(2) by (auto simp: word_of_int_uint)
  \<comment> \<open>QEMU\<close>
  from write_wire [OF assms(7,3), of ?a val sz] obtain ctx1 p1
    where w: "mmio_write_via tcp_transport ?a val sz ctx = ctx1" "tcp_inbox ctx1 [sync_of SYNC_MSG_CPL_READY 0] [reply]"
      "bc_transport ctx1 = Some p1" "bc_next_tag ctx1 = (bc_next_tag ctx + 1) AND bc_tag_mask ctx" "bc_tag_mask ctx1 = bc_tag_mask ctx"
      "wire p1 = sends_more (wire p) (note_bytes SYNC_MSG_TLP_READY) (tlp_bytes wr)" unfolding tlps by blast
  have "c_tag reply = bc_next_tag ctx1 AND bc_tag_mask ctx1" using reply(1) w(4,5) by simp
  from read_wire [OF w(2,3) this, of ?a sz] obtain ctx2 p2
    where r: "mmio_read_via tcp_transport ?a sz ctx1 = (take_bit (8 * sz) val, ctx2)" "bc_transport ctx2 = Some p2"
      "wire p2 = sends_more (wire p1) (note_bytes SYNC_MSG_TLP_READY) (tlp_bytes rd)"
    unfolding reply tlps card_register_write [OF assms(4)] by auto
  let ?w1 = "w\<lparr>cw_heap := (cw_heap w)(a := Some ctx1)\<rparr>"
  let ?w2 = "?w1\<lparr>cw_heap := (cw_heap ?w1)(a := Some ctx2)\<rparr>"
  have qemu: "cosim_pf_mmio_write tcp_transport Q bc addr val sz w = Some ?w1"
    "cosim_pf_mmio_read tcp_transport Q bc addr sz ?w1 = Some (take_bit (8 * sz) val, ?w2)" "cw_heap ?w2 a = Some ctx2"
    using assms(1,2) w(1) r(1) by (simp_all add: cosim_pf_mmio_write_def cosim_pf_mmio_read_def on_bridge_def)
  \<comment> \<open>the simulator\<close>
  have "quiet_tlps.holds_tlps (wire ps) (rc_at rc d) [sync_of SYNC_MSG_TLP_READY 0, sync_of SYNC_MSG_TLP_READY 0] [wr, rd]"
    using assms(10,12,13) by (simp add: quiet_tlps.holds_tlps_def quiet_tlp_inbox_def)
  from scalar_poll_quiet [OF assms(8,9) this, of wr "[rd]"] assms(11) obtain d1 ms1 ts1
    where d1: "bridge_vcs_poll_tlp_scalar_rc tcp_transport rc d = Some (0, d1)" "read_view rc d1 = view_of wr" "dpi_ok d1"
      "quiet_tlps.holds_tlps (wire ps) (rc_at rc d1) ms1 ts1" "cache_items (rc_at rc d1) @ ts1 = [rd]" by (auto simp: code_consts)
  from scalar_poll_quiet [OF d1(3) assms(9) d1(4,5)] obtain d2 ms2 ts2
    where d2: "bridge_vcs_poll_tlp_scalar_rc tcp_transport rc d1 = Some (0, d2)" "read_view rc d2 = view_of rd" "dpi_ok d2"
      "quiet_tlps.holds_tlps (wire ps) (rc_at rc d2) ms2 ts2" by (auto simp: code_consts)
  then obtain p3 where p3: "rc_transport (rc_at rc d2) = Some p3" "tcp_tlp_inbox p3 ms2 ts2" "wire p3 = wire ps"
    by (auto simp: quiet_tlps.holds_tlps_def quiet_tlp_inbox_def)
  have "tv_tag (read_view rc d2) = uint (t_tag rd)" unfolding d2(2) by (simp add: view_of_def)
  then have tag: "bridge_vcs_get_poll_tag_rc rc d2 = uint (t_tag rd)" by (simp add: read_view_def)
  from scalar_reply [OF d2(3) assms(9) p3(1,2), of "uint (t_tag rd)" "card_register (view_of wr) old"]
  obtain d3 ps3 where d3: "bridge_vcs_send_cpl_scalar_rc tcp_transport rc (bridge_vcs_get_poll_tag_rc rc d2) 4
        (bridge_vcs_set_cpl_data_rc rc 0 (card_register (read_view rc d1) old) d2) = (0, d3)"
      "rc_transport (rc_at rc d3) = Some ps3"
      "wire ps3 = sends_more (wire ps) (note_bytes SYNC_MSG_CPL_READY) (msg_bytes TCP_MSG_CPL (enc_cpl reply))"
    unfolding tag d1(2) assms(6) p3(3) by blast
  have "wire p2 = sends_more (wire p) (note_bytes SYNC_MSG_TLP_READY @ note_bytes SYNC_MSG_TLP_READY) (tlp_bytes wr @ tlp_bytes rd)"
    using w(6) r(3) by (simp add: sends_more_def)
  with qemu r(2) d1(1,2) d2(1,2) d3 show ?thesis by blast
qed

text \<open>The register DWORD at 0x100000 holds 0x11223344; the guest writes 0xBEEF to its upper half.\<close>

definition link_tlps :: "tlp_entry list" where
  "link_tlps = [mmio_write_req 0x100002 2 0xBEEF, (mmio_read_req 0x100002 2)\<lparr>t_tag := 1\<rparr>]"

definition link_reply :: cpl_entry where
  "link_reply = make_completion 1 [card_register (view_of (link_tlps ! 0)) 0x11223344] 4"

definition link_world :: "(transport_tcp_priv, nat, plain_qemu) cosim_world" where
  "link_world = (world_start plain_start)\<lparr>cw_heap := [0 \<mapsto> tcp_ctx_with [sync_of SYNC_MSG_CPL_READY 0] [link_reply] None],
     cw_pf := (\<lambda>d. (pf_new 0)\<lparr>pd_bridge := Some 0\<rparr>)\<rparr>"

definition link_sim :: "transport_tcp_priv dpi" where
  "link_sim = (dpi_start shm_side_example)\<lparr>dp_vcs := (vcs_start shm_side_example)\<lparr>vc_rc :=
     replicate COSIM_MAX_RCS (vcs_example [sync_of SYNC_MSG_TLP_READY 0, sync_of SYNC_MSG_TLP_READY 0] link_tlps)\<rparr>\<rparr>"

theorem mmio_through_both_programs_witness:
  "\<exists>w1 w2 d1 d2. cosim_pf_mmio_write tcp_transport plain \<lparr>bx_dev = 0, bx_index = 0, bx_is_vf = False\<rparr> 2 0xBEEF 2 link_world = Some w1
    \<and> cosim_pf_mmio_read tcp_transport plain \<lparr>bx_dev = 0, bx_index = 0, bx_is_vf = False\<rparr> 2 2 w1 = Some (0xBEEF, w2)
    \<and> bridge_vcs_poll_tlp_scalar_rc tcp_transport 2 link_sim = Some (0, d1) \<and> read_view 2 d1 = view_of (mmio_write_req 0x100002 2 0xBEEF)
    \<and> bridge_vcs_poll_tlp_scalar_rc tcp_transport 2 d1 = Some (0, d2)"
proof -
  let ?bc = "\<lparr>bx_dev = 0, bx_index = 0, bx_is_vf = False\<rparr>"
  let ?ctx = "tcp_ctx_with [sync_of SYNC_MSG_CPL_READY 0] [link_reply] None"
  let ?wr = "mmio_write_req 0x100002 2 0xBEEF" and ?rd = "(mmio_read_req 0x100002 2)\<lparr>t_tag := 1\<rparr>"
  have a: "pcie_addr plain ?bc 2 link_world = 0x100002" by (simp add: pcie_addr_def)
  have b: "bar_bridge ?bc link_world = Some 0" "cw_heap link_world 0 = Some ?ctx"
    by (simp_all add: bar_bridge_def link_world_def)
  obtain p where p: "bc_transport ?ctx = Some p" by (simp add: tcp_ctx_with_def bridge_ctx_new_def)
  have l: "low2 (pcie_addr plain ?bc 2 link_world) + 2 \<le> 4" unfolding a by (simp add: low2_def)
  have "?wr\<lparr>t_tag := 0\<rparr> = ?wr" by (simp add: mmio_write_req_def mmio_req_def tlp_zero_def)
  then have t: "write_then_read (pcie_addr plain ?bc 2 link_world) 2 0xBEEF ?ctx = [?wr, ?rd]"
    unfolding a by (simp add: write_then_read_def)
  have r: "make_completion (uint (t_tag ?rd)) [card_register (view_of ?wr) 0x11223344] 4 = link_reply"
    by (simp add: link_reply_def link_tlps_def)
  have "list_all wf_cpl [link_reply]"
    by (simp add: link_reply_def wf_cpl_def make_completion_def cpl_words_def COSIM_TLP_DATA_SIZE_def)
  then have i: "tcp_inbox ?ctx [sync_of SYNC_MSG_CPL_READY 0] [link_reply]" by (rule tcp_ctx_with_inbox)
  have ok: "dpi_ok link_sim" "rc_ok 2"
    by (simp_all add: dpi_ok_def link_sim_def dpi_start_def COSIM_MAX_RCS_def poll_out_zero_def list_all_iff rc_ok_def)
  have at: "rc_at 2 link_sim = vcs_example [sync_of SYNC_MSG_TLP_READY 0, sync_of SYNC_MSG_TLP_READY 0] [?wr, ?rd]"
    by (simp add: rc_at_def link_sim_def link_tlps_def COSIM_MAX_RCS_def numeral_2_eq_2)
  have wf: "list_all wf_tlp [?wr, ?rd]" using mmio_req_fields(4,5) by (simp add: wf_tlp_def)
  obtain ps where s: "rc_transport (rc_at 2 link_sim) = Some ps"
      "tcp_tlp_inbox ps [sync_of SYNC_MSG_TLP_READY 0, sync_of SYNC_MSG_TLP_READY 0] [?wr, ?rd]"
    unfolding at using vcs_example_inbox(1) [OF wf] by blast
  have c: "cache_inv (rc_at 2 link_sim)" "cache_items (rc_at 2 link_sim) = []" unfolding at using vcs_example_inbox(2,3) [OF wf] by blast+
  have v: "take_bit (8 * 2) (0xBEEF :: u64) = 0xBEEF" by simp
  from mmio_through_both_programs [OF b p l t r i ok c s] show ?thesis unfolding v by blast
qed

end
