(* ===== verification/Tap_Daemon.thy ===== *)
theory Tap_Daemon
  imports Tap_Bridge
begin

section \<open>The TAP daemon from its options to its exit: tools/eth\_tap\_bridge.c\<close>

text \<open>
  The program around the forwarding loop of \<open>Tap_Bridge\<close>: options, the TAP device, the shell commands that
  configure it, the wait for the peer, the loop until a signal, and the closing.  What \<open>getopt\<close> finds, what the
  kernel answers, and what the peer does to the link between two looks of the daemon are arguments.
  Messages and statistics are left out.
\<close>

subsection \<open>Options\<close>

datatype tap_option = Opt_Shm string | Opt_Tap string | Opt_Ip string | Opt_No_Ip | Opt_Help | Opt_Unknown

record tap_config =
  tc_shm_name :: string
  tc_tap_name :: string
  tc_ip_cidr :: string
  tc_configure_ip :: bool

definition tap_defaults :: tap_config where
  "tap_defaults = \<lparr>tc_shm_name = ''/cosim_eth0'', tc_tap_name = ''cosim0'', tc_ip_cidr = ''10.0.0.1/24'', tc_configure_ip = True\<rparr>"

text \<open>\<^theory_text>\<open>Inl\<close>: the exit code of a run that ends at an option.\<close>

fun tap_options :: "tap_option list \<Rightarrow> tap_config \<Rightarrow> int + tap_config" where
  "tap_options [] c = Inr c"
| "tap_options (Opt_Shm s # os) c = tap_options os (c\<lparr>tc_shm_name := s\<rparr>)"
| "tap_options (Opt_Tap s # os) c = tap_options os (c\<lparr>tc_tap_name := s\<rparr>)"
| "tap_options (Opt_Ip s # os) c = tap_options os (c\<lparr>tc_ip_cidr := s\<rparr>)"
| "tap_options (Opt_No_Ip # os) c = tap_options os (c\<lparr>tc_configure_ip := False\<rparr>)"
| "tap_options (Opt_Help # os) c = Inl 0"
| "tap_options (Opt_Unknown # os) c = Inl 1"

subsection \<open>The device\<close>

text \<open>What the kernel answers to \<open>open\<close> and \<open>ioctl\<close>, and the name it gives the interface asked for.\<close>

record tap_os =
  to_fd :: int
  to_ioctl_ok :: bool
  to_if_name :: "string \<Rightarrow> string"

definition IFNAMSIZ :: nat where [code_consts]: "IFNAMSIZ = 16"

text \<open>The descriptors that are open and the commands given to the shell.\<close>

record tap_world =
  tw_fds :: "int set"
  tw_commands :: "string list"

definition tap_open :: "tap_os \<Rightarrow> string \<Rightarrow> tap_world \<Rightarrow> (int \<times> string) \<times> tap_world" where
  "tap_open os dev_name w =
     (if to_fd os < 0 then ((-1, []), w)
      else let w1 = w\<lparr>tw_fds := insert (to_fd os) (tw_fds w)\<rparr>
        in if \<not> to_ioctl_ok os then ((-1, []), w1\<lparr>tw_fds := tw_fds w1 - {to_fd os}\<rparr>)
           else ((to_fd os, take (IFNAMSIZ - 1) (to_if_name os (take (IFNAMSIZ - 1) dev_name))), w1))"

text \<open>The commands, cut off at the size of the buffer.\<close>

definition tap_configure :: "string \<Rightarrow> string \<Rightarrow> tap_world \<Rightarrow> tap_world" where
  "tap_configure dev_name ip_cidr w =
     (let add = take 255 (''/sbin/ip addr add '' @ ip_cidr @ '' dev '' @ dev_name @ '' 2>/dev/null || ip addr add '' @ ip_cidr
            @ '' dev '' @ dev_name @ '' 2>/dev/null'');
          up = take 255 (''/sbin/ip link set '' @ dev_name @ '' up 2>/dev/null || ip link set '' @ dev_name @ '' up'')
      in w\<lparr>tw_commands := tw_commands w @ [add, up]\<rparr>)"

subsection \<open>The run\<close>

text \<open>One look of the daemon: whether no signal has come, what the peer did since, and the answers of the round.\<close>

record tap_round =
  rd_running :: bool
  rd_peer :: "eth_link \<Rightarrow> eth_link"
  rd_writes :: "int list"
  rd_read :: "bytes option"
  rd_now :: u64

text \<open>Waiting for the peer; \<^theory_text>\<open>None\<close>: it is still waiting.  The flag says whether the peer came.\<close>

fun tap_wait :: "eth_shm \<Rightarrow> tap_round list \<Rightarrow> eth_link \<Rightarrow> (bool \<times> tap_round list \<times> eth_link) option" where
  "tap_wait shm [] l = None"
| "tap_wait shm (x # xs) l =
     (if \<not> rd_running x then Some (False, xs, rd_peer x l)
      else if eth_shm_peer_ready shm ETH_ROLE_B (rd_peer x l) then Some (True, xs, rd_peer x l)
      else tap_wait shm xs (rd_peer x l))"

text \<open>The loop; the frames it wrote to the device are collected.\<close>

fun tap_loop :: "tap_round list \<Rightarrow> tap_state \<Rightarrow> eth_link \<Rightarrow> (bytes list \<times> tap_state \<times> eth_link) option" where
  "tap_loop [] tb l = None"
| "tap_loop (x # xs) tb l =
     (if \<not> rd_running x then Some ([], tb, rd_peer x l)
      else (case tap_iteration (rd_writes x) (rd_read x) (rd_now x) tb (rd_peer x l) of
          None \<Rightarrow> None
        | Some (outs, r, tb1, l1) \<Rightarrow> map_option (\<lambda>(more, y). (outs @ more, y)) (tap_loop xs tb1 l1)))"

definition port_zero :: eth_port where
  "port_zero = \<lparr>ep_shm = eth_shm_zero, ep_role = ETH_ROLE_A,
     ep_link = \<lparr>lm_drop_rate_ppm = 0, lm_burst_drop_len = 0, lm_rate_mbps = 0, lm_latency_ns = 0, lm_fc_window = 0,
       lm_rng_state = 0, lm_burst_remaining = 0, lm_token_bucket_ns = 0, lm_outstanding = 0\<rparr>,
     ep_seq_tx = 0, ep_owned_shm = False\<rparr>"

text \<open>From the open port to the exit: what was written, and the object that is left.\<close>

definition tap_serve :: "tap_round list \<Rightarrow> eth_port \<Rightarrow> eth_link \<Rightarrow> (bytes list \<times> eth_port \<times> eth_link option) option" where
  "tap_serve rounds port l = (case tap_wait (ep_shm port) rounds l of
     None \<Rightarrow> None
   | Some (False, _, l1) \<Rightarrow> (case eth_port_close port (Some l1) of (port1, obj) \<Rightarrow> Some ([], port1, obj))
   | Some (True, rounds1, l1) \<Rightarrow>
       (case tap_loop rounds1 \<lparr>tb_port = port, tb_shm_to_tap = 0, tb_tap_to_shm = 0, tb_did_work = False\<rparr> l1 of
          None \<Rightarrow> None
        | Some (outs, tb, l2) \<Rightarrow> (case eth_port_close (tb_port tb) (Some l2) of (port1, obj) \<Rightarrow> Some (outs, port1, obj))))"

text \<open>\<open>main\<close>: the exit code, the frames written to the device, and what is left open.\<close>

record tap_exit =
  te_code :: int
  te_written :: "bytes list"
  te_mapped :: bool
  te_world :: tap_world
  te_obj :: "eth_link option"

definition tap_main :: "tap_option list \<Rightarrow> tap_os \<Rightarrow> os_answers \<Rightarrow> tap_round list \<Rightarrow> tap_world \<Rightarrow> eth_link option \<Rightarrow> tap_exit option" where
  "tap_main opts tos os rounds w obj = (case tap_options opts tap_defaults of
     Inl code \<Rightarrow> Some \<lparr>te_code = code, te_written = [], te_mapped = False, te_world = w, te_obj = obj\<rparr>
   | Inr c \<Rightarrow> (case tap_open tos (tc_tap_name c) w of
       ((fd, actual), w1) \<Rightarrow>
         if fd < 0 then Some \<lparr>te_code = 1, te_written = [], te_mapped = False, te_world = w1, te_obj = obj\<rparr>
         else let w2 = (if tc_configure_ip c then tap_configure actual (tc_ip_cidr c) w1 else w1);
                  closed = w2\<lparr>tw_fds := tw_fds w2 - {fd}\<rparr>
           in (case eth_port_open os port_zero (tc_shm_name c) ETH_ROLE_B False obj of
                (r, port, obj1) \<Rightarrow>
                  if r \<noteq> 0 then Some \<lparr>te_code = 1, te_written = [], te_mapped = es_mapped (ep_shm port), te_world = closed, te_obj = obj1\<rparr>
                  else (case obj1 of
                      None \<Rightarrow> None
                    | Some l \<Rightarrow> map_option (\<lambda>(outs, port1, obj2). \<lparr>te_code = 0, te_written = outs, te_mapped = es_mapped (ep_shm port1),
                          te_world = closed, te_obj = obj2\<rparr>) (tap_serve rounds port l)))))"

subsection \<open>What the loop does when the peer sends\<close>

definition frame_bytes :: "eth_frame \<Rightarrow> bytes" where
  "frame_bytes f = take (unat (ef_len f)) (ef_data f)"

text \<open>A round in which the peer sends \<open>fs\<close>: they fit into the ring and into the device's answers.\<close>

definition good_round :: "nat \<Rightarrow> tap_round \<Rightarrow> eth_frame list \<Rightarrow> bool" where
  "good_round cap x fs \<longleftrightarrow> rd_running x \<and> rd_peer x = peer_queues ETH_ROLE_B fs \<and> length fs \<le> cap \<and> length fs \<le> length (rd_writes x)
     \<and> (\<forall>f\<in>set fs. wf_frame f \<and> unat (ef_len f) \<le> ETH_FRAME_MAX_DATA)
     \<and> (\<forall>buf. rd_read x = Some buf \<longrightarrow> length buf \<le> ETH_FRAME_MAX_DATA)"

abbreviation "b_items l \<equiv> eth_items (eth_shm_rx_ring l ETH_ROLE_B)"
abbreviation "b_cap l \<equiv> eth_ring_cap (eth_shm_rx_ring l ETH_ROLE_B)"

lemma push_items:
  assumes "eth_ring_inv r" and "length (eth_items r) + length fs \<le> eth_ring_cap r" and "\<forall>f\<in>set fs. wf_frame f"
  shows "eth_ring_inv (foldl (\<lambda>r f. snd (eth_shm_enqueue r f)) r fs)
    \<and> eth_items (foldl (\<lambda>r f. snd (eth_shm_enqueue r f)) r fs) = eth_items r @ fs
    \<and> eth_ring_cap (foldl (\<lambda>r f. snd (eth_shm_enqueue r f)) r fs) = eth_ring_cap r"
  using assms
proof (induction fs arbitrary: r)
  case (Cons f fs)
  let ?r = "snd (eth_shm_enqueue r f)"
  have "eth_items ?r = eth_items r @ [f]" "eth_ring_cap ?r = eth_ring_cap r" "eth_ring_inv ?r"
    using eth_enqueue_room [OF Cons.prems(1), of f] eth_enqueue_inv [OF Cons.prems(1), of f] Cons.prems(2,3)
    by (simp_all add: eth_ring_cap_def)
  with Cons.IH [of ?r] Cons.prems(2,3) show ?case by simp
qed simp

lemma peer_queues_items:
  assumes "eth_link_inv l" and "length (b_items l) + length fs \<le> b_cap l" and "\<forall>f\<in>set fs. wf_frame f"
  shows "eth_link_inv (peer_queues ETH_ROLE_B fs l) \<and> b_items (peer_queues ETH_ROLE_B fs l) = b_items l @ fs
    \<and> b_cap (peer_queues ETH_ROLE_B fs l) = b_cap l"
  using push_items [of "eth_shm_rx_ring l ETH_ROLE_B" fs] assms eth_link_inv_rings [of l ETH_ROLE_B]
    eth_link_inv_rings [of "peer_queues ETH_ROLE_B fs l" ETH_ROLE_B]
  by (simp add: peer_queues_def)

text \<open>Sending from the device leaves the receive ring alone.\<close>

lemma inject_keeps:
  assumes "tap_inject got now tb l = (r, tb', l')" and "eth_link_inv l" and "ep_role (tb_port tb) = ETH_ROLE_B"
    and "\<forall>buf. got = Some buf \<longrightarrow> length buf \<le> ETH_FRAME_MAX_DATA"
  shows "eth_link_inv l' \<and> eth_shm_rx_ring l' ETH_ROLE_B = eth_shm_rx_ring l ETH_ROLE_B \<and> ep_role (tb_port tb') = ETH_ROLE_B"
proof (cases "got = None \<or> got = Some []")
  case True
  then show ?thesis using assms by (auto simp: tap_inject_def)
next
  case False
  then obtain buf where buf: "got = Some buf" "buf \<noteq> []" by auto
  let ?f = "frame_of_bytes buf (int (length buf))"
  have wf: "wf_frame ?f" using buf assms(4) by (intro wf_frame_of_bytes) auto
  obtain r1 port1 f1 l1 where s: "eth_port_send (tb_port tb) ?f now l = (r1, port1, f1, l1)" by (metis prod_cases4)
  have res: "l' = l1" "tb_port tb' = port1" using assms(1) buf s by (auto simp: tap_inject_def Let_def split: if_splits)
  show ?thesis
  proof (cases "r1 = 0")
    case True
    note ok = send_ok [OF s [unfolded True] assms(2) wf]
    show ?thesis using ok(3,6,7) assms(3) res by simp
  next
    case False
    then show ?thesis using send_fail(1,2) [OF s] assms(2,3) res by simp
  qed
qed

lemma drain_keeps:
  assumes "tap_drain ws tb l = Some (outs, tb', l')" and "ep_role (tb_port tb) = ETH_ROLE_B"
  shows "ep_role (tb_port tb') = ETH_ROLE_B \<and> b_cap l' = b_cap l"
  using assms
proof (induction ws arbitrary: tb l outs)
  case Nil
  obtain res l1 where tr: "eth_port_try_recv (tb_port tb) l = (res, l1)" by fastforce
  have "b_cap l1 = b_cap l"
    using tr Nil.prems(2) by (auto simp: eth_port_try_recv_def eth_shm_dequeue_def Let_def eth_ring_cap_def split: if_splits)
  then show ?case using Nil tr by (cases res) (simp_all add: tap_drain.simps [of "[]"])
next
  case (Cons w ws)
  obtain res l1 where tr: "eth_port_try_recv (tb_port tb) l = (res, l1)" by fastforce
  have cap: "b_cap l1 = b_cap l"
    using tr Cons.prems(2) by (auto simp: eth_port_try_recv_def eth_shm_dequeue_def Let_def eth_ring_cap_def split: if_splits)
  show ?case
  proof (cases res)
    case None
    then show ?thesis using Cons.prems tr cap by (simp add: tap_drain.simps [of "w # ws"])
  next
    case (Some f)
    let ?tb1 = "tb\<lparr>tb_port := eth_port_tx_complete (tb_port tb)\<rparr>"
    let ?tb2 = "if w > 0 then ?tb1\<lparr>tb_shm_to_tap := tb_shm_to_tap ?tb1 + 1, tb_did_work := True\<rparr> else ?tb1"
    have role: "ep_role (tb_port ?tb2) = ETH_ROLE_B" using Cons.prems(2) by (simp add: eth_port_tx_complete_def)
    obtain o2 where "tap_drain ws ?tb2 l1 = Some (o2, tb', l')"
      using Cons.prems(1) tr Some unfolding tap_drain.simps [of "w # ws"] Let_def by (auto split: if_splits)
    from Cons.IH [OF this role] cap show ?thesis by simp
  qed
qed

text \<open>A round writes what was queued, and leaves the ring empty.\<close>

lemma round_forwards:
  assumes "good_round (b_cap l) x fs" and "eth_link_inv l" and "b_items l = []" and "ep_role (tb_port tb) = ETH_ROLE_B"
  shows "\<exists>r tb' l'. tap_iteration (rd_writes x) (rd_read x) (rd_now x) tb (rd_peer x l) = Some (map frame_bytes fs, r, tb', l')
    \<and> eth_link_inv l' \<and> b_items l' = [] \<and> b_cap l' = b_cap l \<and> ep_role (tb_port tb') = ETH_ROLE_B"
proof -
  let ?l = "peer_queues ETH_ROLE_B fs l" and ?tb = "tb\<lparr>tb_did_work := False\<rparr>"
  have g: "rd_peer x = peer_queues ETH_ROLE_B fs" "length fs \<le> b_cap l" "length fs \<le> length (rd_writes x)"
    "\<forall>f\<in>set fs. wf_frame f \<and> unat (ef_len f) \<le> ETH_FRAME_MAX_DATA" "\<forall>buf. rd_read x = Some buf \<longrightarrow> length buf \<le> ETH_FRAME_MAX_DATA"
    using assms(1) by (simp_all add: good_round_def)
  have q: "eth_link_inv ?l" "b_items ?l = fs" "b_cap ?l = b_cap l" using peer_queues_items [OF assms(2), of fs] assms(3) g(2,4) by simp_all
  have role: "ep_role (tb_port ?tb) = ETH_ROLE_B" using assms(4) by simp
  from tap_drain_all [OF q(1), of ?tb "rd_writes x", unfolded role q(2)] g(3,4) obtain tb1 l1 where
    d: "tap_drain (rd_writes x) ?tb ?l = Some (map frame_bytes fs, tb1, l1)" "b_items l1 = []" "eth_link_inv l1"
    by (auto simp: frame_bytes_def)
  have k: "ep_role (tb_port tb1) = ETH_ROLE_B" "b_cap l1 = b_cap l" using drain_keeps [OF d(1) role] q(3) by simp_all
  obtain r tb2 l2 where i: "tap_inject (rd_read x) (rd_now x) tb1 l1 = (r, tb2, l2)" by (metis prod_cases3)
  show ?thesis using inject_keeps [OF i d(3) k(1) g(5)] d i g(1) k(2) by (simp add: tap_iteration_def)
qed

lemma loop_forwards:
  assumes "list_all2 (good_round (b_cap l)) xs sent" and "\<not> rd_running stop" and "eth_link_inv l" and "b_items l = []"
    and "ep_role (tb_port tb) = ETH_ROLE_B"
  shows "\<exists>tb' l'. tap_loop (xs @ [stop]) tb l = Some (map frame_bytes (concat sent), tb', rd_peer stop l')"
  using assms
proof (induction xs arbitrary: sent tb l)
  case (Cons x xs)
  then obtain fs sent' where s: "sent = fs # sent'" "good_round (b_cap l) x fs" "list_all2 (good_round (b_cap l)) xs sent'"
    by (auto simp: list_all2_Cons1)
  from round_forwards [OF s(2) Cons.prems(3,4,5)] obtain r tb1 l1 where
    i: "tap_iteration (rd_writes x) (rd_read x) (rd_now x) tb (rd_peer x l) = Some (map frame_bytes fs, r, tb1, l1)"
      "eth_link_inv l1" "b_items l1 = []" "b_cap l1 = b_cap l" "ep_role (tb_port tb1) = ETH_ROLE_B" by blast
  have "list_all2 (good_round (b_cap l1)) xs sent'" using s(3) i(4) by simp
  from Cons.IH [OF this Cons.prems(2) i(2,3,5)] obtain tb2 l2 where
    "tap_loop (xs @ [stop]) tb1 l1 = Some (map frame_bytes (concat sent'), tb2, rd_peer stop l2)" by blast
  then show ?case using i(1) s(1,2) by (auto simp: good_round_def)
qed auto

subsection \<open>Properties\<close>


text \<open>The peer is ready and sends a frame of three bytes before the first round.\<close>

definition tap_frame :: eth_frame where
  "tap_frame = frame_zero\<lparr>ef_len := 3\<rparr>"

definition tap_object :: eth_link where
  "tap_object = eth_link_init\<lparr>el_ctrl := (el_ctrl eth_link_init)\<lparr>ec_ready := (\<lambda>_. 1)\<rparr>\<rparr>"

definition tap_rounds :: "tap_round list" where
  "tap_rounds = [\<lparr>rd_running = True, rd_peer = peer_queues ETH_ROLE_B [tap_frame], rd_writes = [3], rd_read = None, rd_now = 0\<rparr>]"


end
