(* ===== verification/Spec2Isabelle.thy ===== *)
theory Spec2Isabelle
  imports
    Prelude Cosim_Types Cosim_Topology Fifo Ring_Buffer Ring_Spsc Dma_Manager Link_Model
    Eth_Shm Eth_Port Eth_Net Eth_Mac_Dpi Tap_Bridge Sockets Sock_Sync Shm_Layout Transport
    Transport_Tcp Tcp_Streams Trace_Log Bridge_Qemu Irq_Poller Vcs_Rc Vcs_Dma Guest_Memory
    Virtqueue Virtqueue_Tx Virtqueue_Rx Vm_Link Pcie_Access Msi_Queue Pcie_Pf Pcie_Pf_Access Pcie_Dma Dma_Link Pcie_Vf Pcie_Rc
    Pcie_Pf_Lifecycle Guest_Nic Tcp_Lifecycle Vcs_Dpi Mmio_Link Tap_Daemon
begin

text \<open>
  A verification library for the co-simulation platform: QEMU runs a guest, an RTL simulator (VCS) runs a
  network card, and the C code in between makes the card appear on the guest's PCIe bus.

  \<^bold>\<open>The program.\<close>  The QEMU devices of \<open>qemu-plugin/\<close> turn guest accesses to the card into
  transaction-layer packets (TLPs).  They call the QEMU side of the bridge (\<open>bridge/qemu/bridge_qemu.c\<close>), which
  sends the packets over a transport: rings in shared memory with a Unix socket for announcements
  (\<open>shm_layout.c\<close>, \<open>ring_buffer.c\<close>, \<open>sock_sync.c\<close>, \<open>transport_shm.c\<close>), or two or three TCP connections
  (\<open>transport_tcp.c\<close>).  The simulator side (\<open>bridge/vcs/bridge_vcs.c\<close>) polls for them, hands them to the
  SystemVerilog code through DPI functions, and sends completions back.  The card itself reads and writes guest
  memory and raises interrupts: the simulator side sends DMA requests and MSI events, a poller thread on the QEMU
  side (\<open>irq_poller.c\<close>) receives them and calls back into the devices, which access guest memory and queue the
  interrupts for QEMU's main loop.  A virtqueue engine in the simulator (\<open>virtqueue_dma.c\<close>) moves network packets
  between guest memory and an Ethernet link in shared memory (\<open>eth_shm.c\<close>, \<open>eth_port.c\<close>, \<open>link_model.c\<close>,
  \<open>eth_mac_dpi.c\<close>, \<open>mac_stub.c\<close>), whose other end is a second simulator or a TAP device
  (\<open>tools/eth_tap_bridge.c\<close>).  In the guest, \<open>guest/driver/cosim_nic.c\<close> drives the card.

  \<^bold>\<open>The theories\<close>, from the data up; every theory opens with what it holds.
    \<^item> \<open>Prelude\<close>: names of the C integer types, byte images of integers, the collections of facts, shared lemmas.
    \<^item> \<open>Cosim_Types\<close>, \<open>Cosim_Topology\<close>: the structs of \<open>cosim_types.h\<close>, \<open>eth_types.h\<close>, \<open>transport_tcp.h\<close>,
      \<open>cosim_topology.h\<close> as records with the fields of the C struct, \<open>enc_\<close> and \<open>dec_\<close> for their bytes.
    \<^item> \<open>Fifo\<close>: the index arithmetic of a ring with a free slot, and the interface \<open>bounded_fifo\<close>; it is
      interpreted on the shared-memory ring (\<open>Ring_Buffer\<close>), the Ethernet ring (\<open>Eth_Shm\<close>) and the TLP cache of the
      simulator side (\<open>Vcs_Rc\<close>).  \<open>Ring_Spsc\<close>: one producer and one consumer of the ring interleaved at every
      load, copy and store.  \<open>Dma_Manager\<close>: the allocator, alone and with any number of threads.
    \<^item> \<open>Link_Model\<close>, \<open>Eth_Shm\<close>, \<open>Eth_Port\<close>, \<open>Eth_Net\<close>, \<open>Eth_Mac_Dpi\<close>, \<open>Tap_Bridge\<close>, \<open>Tap_Daemon\<close>: the
      Ethernet side, from the frame rings to two nodes on a link in any interleaving and the TAP daemon from its options to
      its exit.
    \<^item> \<open>Sockets\<close>, \<open>Sock_Sync\<close>, \<open>Shm_Layout\<close>, \<open>Transport\<close>, \<open>Transport_Tcp\<close>, \<open>Tcp_Streams\<close>, \<open>Tcp_Lifecycle\<close>: sockets
      that cut messages and interrupt calls, the shared object, the operation table of \<open>struct cosim_transport\<close> as a
      record, its two providers, and the descriptors and memory of a TCP transport from creation to closing.  The interface
      \<open>ring_channel\<close> (a ring with an encoder, which is a \<open>bounded_fifo\<close> of messages) is interpreted on the five rings of the
      shared object, \<open>message_stream\<close> on the eight kinds of TCP messages.
    \<^item> \<open>Trace_Log\<close>: the text the trace writes.
    \<^item> \<open>Bridge_Qemu\<close>, \<open>Irq_Poller\<close>: the QEMU side; the interfaces \<open>completion_source\<close> and \<open>event_source\<close> say
      what a transport delivers to it, and are interpreted on the transports.
    \<^item> \<open>Vcs_Rc\<close>, \<open>Vcs_Dma\<close>, \<open>Vcs_Dpi\<close>: the simulator side: contexts, polling and completions; DMA, interrupts
      and clock; the functions called from SystemVerilog, initialisation and release.
    \<^item> \<open>Guest_Memory\<close>, \<open>Virtqueue\<close>, \<open>Virtqueue_Tx\<close>, \<open>Virtqueue_Rx\<close>, \<open>Vm_Link\<close>: the virtqueue engine
      over guest memory and the Ethernet operations, and two guests on a link.
    \<^item> \<open>Pcie_Access\<close>, \<open>Msi_Queue\<close>, \<open>Pcie_Pf\<close>, \<open>Pcie_Pf_Access\<close>, \<open>Pcie_Pf_Lifecycle\<close>, \<open>Pcie_Vf\<close>, \<open>Pcie_Rc\<close>: the
      QEMU devices.  \<open>Pcie_Dma\<close>, \<open>Dma_Link\<close>: DMA of the card from the call in the simulator to guest memory.
      \<open>Mmio_Link\<close>: an access of the guest from the device to the driver in the simulator and back.
    \<^item> \<open>Guest_Nic\<close>: the driver in the guest.

  \<^bold>\<open>Conventions.\<close>  A C function is a definition of the same name over the state it changes, which it takes
  and returns; integers have their C width, a negative return code is an \<open>int\<close>.  A result \<open>None\<close> of
  an operation is undefined behaviour of the C code (an access outside an object, a use of freed memory) or, for the loops
  that run over the answers of the outside, that the loop has not ended; never an error code.  Each theory says which.  What the
  code gets from outside (answers of the kernel, of QEMU, of the simulator, clock readings, the order in which
  bytes arrive) is an argument.  Concurrent code is an inductive step relation.

  \<^bold>\<open>What the lemmas show.\<close>
    \<^item> Data and rings: byte images are inverted by their readers; the three rings are bounded lists; the
      concurrent ring delivers what was accepted, in order, without tearing; allocated regions are disjoint.
    \<^item> Transports: what one end sends the other receives, in order, over any fragmentation of the stream; the
      shared object's operations are those of five queues; the handshake leaves both ends with the same connections; creating
      and closing a TCP transport leaks nothing, and the creation returns.
    \<^item> Bridges: a request is completed by the completion with its tag; the direct and the transport paths over
      shared memory agree; polls hand out TLPs in order whatever arrives in between, also
      to several root complexes polled in any order; DMA data arrive; the poller
      dispatches events in order, a pass ends, and where it is blocked by other messages is shown.
    \<^item> Devices: no access of the guest is undefined while function 0 lives, a write then a read gives the written
      bytes, through both programs and the connection between them, a burst of interrupts is delivered, BAR sizes are discovered, DMA of the card is served in guest memory.
    \<^item> Network: the engine forwards the packets of descriptor chains, reads no memory outside its buffers unless a
      length overflows, and packets of one guest reach the other; frames stay in order on the link; the driver
      neither leaks nor uses freed resources.
    \<^item> Errors: theorems that end in a failure state where the code does not do what it means to do.

  \<^bold>\<open>Bounds and fuel.\<close>  Loops of the code that have a bound keep it: 1000 rounds of a DMA wait, 256 messages while
  waiting for a completion, 64 rounds of a poller pass, 1023 TLPs in the cache, 16 descriptors of a chain, 48
  capabilities, 256 queued interrupts.  A loop without a bound in the code (a poll with retries, accepting a
  connection, waiting for an event) recurses over the list of what the outside answers, and ends with it or, where
  the code would go on, is stated for all its lengths.  Transfers on a socket recurse over the answers of the kernel, which the socket
  holds; a theorem that a transfer succeeds assumes a healthy socket, one that does not fail or close, not that the answers are
  whole.  Uninitialised local buffers of the code are taken as zero.

  \<^bold>\<open>Not modelled.\<close>  Debug output, log messages and usage texts; the registration of QEMU device classes and of
  the Linux module, which are tables for their frameworks; the threads' creation and locks (the poller and the main loop
  are separate definitions, run one after the other, except where a step relation interleaves them); \<open>compat_atomic.h\<close>,
  macros for compiler builtins, whose operations are single steps here; \<open>vq_eth_stub.c\<close>, empty stand-ins for
  link time; the SystemVerilog sources, the third-party verification IP, scripts and tests, which are not C code of the
  platform.
\<close>

end
